(* ===== verification/Prelude.thy ===== *)
theory Prelude
  imports Main "HOL-Library.Word" "HOL-Library.Sublist"
begin

text \<open>
  Shared vocabulary of the development: Go strings as byte strings (\<open>string\<close>, one \<open>char\<close> per
  byte) and the functions of Go's \<open>strings\<close> and \<open>strconv\<close> packages the program uses, with the
  generic lemmas about them.  Case folding and white space are modelled on the ASCII range, which
  is the range of every host name, path keyword and flag the program compares; bytes above 127
  are left alone by \<open>to_lower\<close> and \<open>trim_space\<close>.
\<close>

named_theorems gostr \<open>facts that evaluate Go string operations\<close>

section \<open>Characters\<close>

definition code :: "char \<Rightarrow> nat" where
  "code c = of_char c"

abbreviation dot :: char where "dot \<equiv> CHR ''.''"
abbreviation colon :: char where "colon \<equiv> CHR '':''"
abbreviation slash :: char where "slash \<equiv> CHR ''/''"
abbreviation star :: char where "star \<equiv> CHR ''*''"
abbreviation lf :: char where "lf \<equiv> CHR 0x0A"
abbreviation cr :: char where "cr \<equiv> CHR 0x0D"
abbreviation dquote :: char where "dquote \<equiv> CHR 0x22"
abbreviation backslash :: char where "backslash \<equiv> CHR 0x5C"

definition is_digit :: "char \<Rightarrow> bool" where
  "is_digit c \<longleftrightarrow> 48 \<le> code c \<and> code c \<le> 57"

definition digit_val :: "char \<Rightarrow> nat" where
  "digit_val c = code c - 48"

definition is_lower_alpha :: "char \<Rightarrow> bool" where
  "is_lower_alpha c \<longleftrightarrow> 97 \<le> code c \<and> code c \<le> 122"

definition is_upper_alpha :: "char \<Rightarrow> bool" where
  "is_upper_alpha c \<longleftrightarrow> 65 \<le> code c \<and> code c \<le> 90"

definition is_space :: "char \<Rightarrow> bool" where
  "is_space c \<longleftrightarrow> (9 \<le> code c \<and> code c \<le> 13) \<or> code c = 32"

definition lower_char :: "char \<Rightarrow> char" where
  "lower_char c = (if is_upper_alpha c then char_of (code c + 32) else c)"

definition to_lower :: "string \<Rightarrow> string" where
  "to_lower s = map lower_char s"

lemma code_less [simp]: "code c < 256"
  by (simp add: code_def)

lemma code_char_of [simp]: "n < 256 \<Longrightarrow> code (char_of n) = n"
  by (simp add: code_def of_char_of)

lemma code_inject: "code c = code d \<longleftrightarrow> c = d"
  by (simp add: code_def)

lemma lower_char_idem [simp]: "lower_char (lower_char c) = lower_char c"
  by (auto simp: lower_char_def is_upper_alpha_def)

lemma lower_char_not_upper: "\<not> is_upper_alpha (lower_char c)"
  by (auto simp: lower_char_def is_upper_alpha_def)

lemma lower_char_eq_iff:
  assumes "\<not> is_upper_alpha d" "\<not> is_lower_alpha d"
  shows "lower_char c = d \<longleftrightarrow> c = d"
  using assms by (auto simp: lower_char_def is_upper_alpha_def is_lower_alpha_def)

lemma lower_char_dot [simp]: "lower_char c = dot \<longleftrightarrow> c = dot"
  by (rule lower_char_eq_iff) (simp_all add: is_upper_alpha_def is_lower_alpha_def code_def)

lemma to_lower_idem [simp]: "to_lower (to_lower s) = to_lower s"
  by (simp add: to_lower_def)

lemma to_lower_append [simp]: "to_lower (s @ t) = to_lower s @ to_lower t"
  by (simp add: to_lower_def)

lemma length_to_lower [simp]: "length (to_lower s) = length s"
  by (simp add: to_lower_def)

section \<open>Prefixes, suffixes, trimming\<close>

definition has_prefix :: "string \<Rightarrow> string \<Rightarrow> bool" where
  "has_prefix s p \<longleftrightarrow> take (length p) s = p"

definition has_suffix :: "string \<Rightarrow> string \<Rightarrow> bool" where
  "has_suffix s t \<longleftrightarrow> length t \<le> length s \<and> drop (length s - length t) s = t"

lemma has_prefix_iff: "has_prefix s p \<longleftrightarrow> (\<exists>t. s = p @ t)"
  by (auto simp: has_prefix_def) (metis append_take_drop_id)

lemma has_suffix_iff: "has_suffix s t \<longleftrightarrow> (\<exists>p. s = p @ t)"
proof
  assume "has_suffix s t"
  then have "s = take (length s - length t) s @ t"
    by (metis append_take_drop_id has_suffix_def)
  then show "\<exists>p. s = p @ t" by blast
qed (auto simp: has_suffix_def)

lemma has_prefix_refl [simp]: "has_prefix s s"
  by (simp add: has_prefix_def)

lemma has_prefix_append [simp]: "has_prefix (p @ t) p"
  by (simp add: has_prefix_def)

lemma has_prefix_trans: "has_prefix a b \<Longrightarrow> has_prefix b c \<Longrightarrow> has_prefix a c"
  by (auto simp: has_prefix_iff)

lemma has_suffix_append [simp]: "has_suffix (p @ t) t"
  by (simp add: has_suffix_iff)

text \<open>\<open>strings.CutPrefix\<close>, \<open>strings.TrimPrefix\<close>, \<open>strings.TrimSuffix\<close>.\<close>

definition cut_prefix :: "string \<Rightarrow> string \<Rightarrow> string \<times> bool" where
  "cut_prefix s p = (if has_prefix s p then (drop (length p) s, True) else (s, False))"

definition trim_prefix :: "string \<Rightarrow> string \<Rightarrow> string" where
  "trim_prefix s p = (if has_prefix s p then drop (length p) s else s)"

definition trim_suffix :: "string \<Rightarrow> string \<Rightarrow> string" where
  "trim_suffix s t = (if has_suffix s t then take (length s - length t) s else s)"

definition trim_right :: "(char \<Rightarrow> bool) \<Rightarrow> string \<Rightarrow> string" where
  "trim_right P s = rev (dropWhile P (rev s))"

definition trim_space :: "string \<Rightarrow> string" where
  "trim_space s = trim_right is_space (dropWhile is_space s)"

lemma set_trim_right: "set (trim_right P s) \<subseteq> set s"
  by (auto simp: trim_right_def dest: set_dropWhileD)

lemma set_trim_space: "set (trim_space s) \<subseteq> set s"
  using set_trim_right by (fastforce simp: trim_space_def dest: set_dropWhileD)

lemma trim_right_idem [simp]: "trim_right P (trim_right P s) = trim_right P s"
  by (simp add: trim_right_def)

lemma trim_right_last: "trim_right P s \<noteq> [] \<Longrightarrow> \<not> P (last (trim_right P s))"
  by (auto simp: trim_right_def last_rev hd_dropWhile)

lemma trim_right_id: "s = [] \<or> \<not> P (last s) \<Longrightarrow> trim_right P s = s"
  by (cases s rule: rev_cases) (auto simp: trim_right_def)

lemma trim_right_map:
  assumes "\<And>c. P (f c) \<longleftrightarrow> P c"
  shows "trim_right P (map f s) = map f (trim_right P s)"
proof -
  have "P \<circ> f = P" using assms by auto
  then have "dropWhile P (map f (rev s)) = map f (dropWhile P (rev s))"
    by (simp add: dropWhile_map)
  then show ?thesis
    by (simp add: trim_right_def rev_map)
qed

text \<open>\<open>strings.Contains\<close>, \<open>strings.Split\<close> on one byte, \<open>strings.Join\<close>, \<open>strings.Index\<close> of a byte.\<close>

fun contains_str :: "string \<Rightarrow> string \<Rightarrow> bool" where
  "contains_str [] p \<longleftrightarrow> p = []"
| "contains_str (c # s) p \<longleftrightarrow> has_prefix (c # s) p \<or> contains_str s p"

fun split_on :: "char \<Rightarrow> string \<Rightarrow> string list" where
  "split_on d [] = [[]]"
| "split_on d (c # s) =
     (if c = d then [] # split_on d s
      else (case split_on d s of [] \<Rightarrow> [[c]] | w # ws \<Rightarrow> (c # w) # ws))"

fun join_with :: "string \<Rightarrow> string list \<Rightarrow> string" where
  "join_with sep [] = []"
| "join_with sep [w] = w"
| "join_with sep (w # v # ws) = w @ sep @ join_with sep (v # ws)"

fun index_of :: "char \<Rightarrow> string \<Rightarrow> nat option" where
  "index_of d [] = None"
| "index_of d (c # s) = (if c = d then Some 0 else map_option Suc (index_of d s))"

lemma split_on_ne [simp]: "split_on d s \<noteq> []"
  by (induction s) (auto split: list.splits)

lemma join_split_on: "join_with [d] (split_on d s) = s"
proof (induction s)
  case (Cons c s)
  show ?case
  proof (cases "split_on d s")
    case (Cons w ws)
    with \<open>join_with [d] (split_on d s) = s\<close> show ?thesis by (cases ws) auto
  qed simp
qed simp

lemma split_on_no_sep: "w \<in> set (split_on d s) \<Longrightarrow> d \<notin> set w"
  by (induction s arbitrary: w) (auto split: list.splits if_splits)

lemma split_on_subset: "w \<in> set (split_on d s) \<Longrightarrow> set w \<subseteq> set s"
  by (induction s arbitrary: w) (fastforce split: list.splits if_splits)+

lemma split_on_append_sep:
  "d \<notin> set w \<Longrightarrow> split_on d (w @ d # s) = w # split_on d s"
  by (induction w) auto

lemma split_on_append: "split_on d (a @ d # s) = split_on d a @ split_on d s"
proof (induction a)
  case (Cons c a)
  then show ?case by (cases "split_on d a") auto
qed simp

lemma split_on_none: "d \<notin> set w \<Longrightarrow> split_on d w = [w]"
  by (induction w) auto

lemma split_join:
  "ps \<noteq> [] \<Longrightarrow> \<forall>p \<in> set ps. d \<notin> set p \<Longrightarrow> split_on d (join_with [d] ps) = ps"
proof (induction ps rule: induct_list012)
  case (3 p q ps)
  then show ?case by (simp add: split_on_append_sep)
qed (simp_all add: split_on_none)

lemma index_of_Some: "index_of d s = Some i \<Longrightarrow> i < length s \<and> s ! i = d \<and> d \<notin> set (take i s)"
  by (induction s arbitrary: i) (auto split: if_splits)

lemma index_of_None [simp]: "index_of d s = None \<longleftrightarrow> d \<notin> set s"
  by (induction s) auto

lemma index_of_append: "d \<notin> set s \<Longrightarrow> index_of d (s @ d # t) = Some (length s)"
  by (induction s) auto

section \<open>Numbers\<close>

lemma replicate_numeral [simp]: "replicate (numeral k) x = x # replicate (pred_numeral k) x"
  by (simp add: numeral_eq_Suc)

definition digit_char :: "nat \<Rightarrow> char" where
  "digit_char n = char_of (48 + n)"

fun show_nat :: "nat \<Rightarrow> string" where
  "show_nat n = (if n < 10 then [digit_char n] else show_nat (n div 10) @ [digit_char (n mod 10)])"

declare show_nat.simps [simp del]

definition show_int :: "int \<Rightarrow> string" where
  "show_int i = (if i < 0 then CHR ''-'' # show_nat (nat (- i)) else show_nat (nat i))"

definition parse_digits :: "string \<Rightarrow> nat option" where
  "parse_digits s =
     (if s \<noteq> [] \<and> list_all is_digit s
      then Some (foldl (\<lambda>v c. v * 10 + digit_val c) 0 s) else None)"

text \<open>\<open>strconv.Atoi\<close>: an optional sign, decimal digits, the range of a 64-bit \<open>int\<close>.\<close>

definition atoi :: "string \<Rightarrow> int option" where
  "atoi s =
     (let (neg, ds) = (case s of [] \<Rightarrow> (False, [])
                       | c # r \<Rightarrow> if c = CHR ''-'' then (True, r)
                                 else if c = CHR ''+'' then (False, r) else (False, s))
      in case parse_digits ds of
           None \<Rightarrow> None
         | Some v \<Rightarrow>
             (let i = (if neg then - int v else int v)
              in if - (2 ^ 63) \<le> i \<and> i < 2 ^ 63 then Some i else None))"

lemma set_map_filter: "y \<in> set (List.map_filter f xs) \<longleftrightarrow> (\<exists>x \<in> set xs. f x = Some y)"
  by (induction xs) (auto simp: List.map_filter_simps split: option.splits)

section \<open>Quoting\<close>

text \<open>The verb \<open>%q\<close>: double quotes, with the escapes of \<open>strconv.Quote\<close> for ASCII.\<close>

definition lower_hex :: "nat \<Rightarrow> char" where
  "lower_hex n = char_of (if n < 10 then 48 + n else 87 + n)"

definition quote_char :: "char \<Rightarrow> string" where
  "quote_char c =
     (let n = code c
      in if c = dquote \<or> c = backslash then [backslash, c]
         else if n = 7 then [backslash, CHR ''a'']
         else if n = 8 then [backslash, CHR ''b'']
         else if n = 9 then [backslash, CHR ''t'']
         else if n = 10 then [backslash, CHR ''n'']
         else if n = 11 then [backslash, CHR ''v'']
         else if n = 12 then [backslash, CHR ''f'']
         else if n = 13 then [backslash, CHR ''r'']
         else if n < 32 \<or> n = 127
         then [backslash, CHR ''x'', lower_hex (n div 16), lower_hex (n mod 16)]
         else [c])"

definition go_quote :: "string \<Rightarrow> string" where
  "go_quote s = dquote # concat (map quote_char s) @ [dquote]"

lemmas prelude_eval [gostr] =
  code_def is_digit_def digit_val_def is_lower_alpha_def is_upper_alpha_def is_space_def
  lower_char_def to_lower_def has_prefix_def has_suffix_def cut_prefix_def trim_prefix_def
  trim_suffix_def trim_right_def trim_space_def parse_digits_def char_of_eq_iff

lemma is_digit_digit_char [simp]: "n < 10 \<Longrightarrow> is_digit (digit_char n)"
  by (simp add: is_digit_def digit_char_def)

lemma digit_val_digit_char [simp]: "n < 10 \<Longrightarrow> digit_val (digit_char n) = n"
  by (simp add: digit_val_def digit_char_def)

lemma digit_val_less: "is_digit c \<Longrightarrow> digit_val c < 10"
  by (auto simp: is_digit_def digit_val_def)

lemma show_nat_ne [simp]: "show_nat n \<noteq> []"
  by (subst show_nat.simps) simp

lemma show_nat_digits: "list_all is_digit (show_nat n)"
proof (induction n rule: show_nat.induct)
  case (1 n)
  then show ?case by (subst show_nat.simps) simp
qed

lemma foldl_show_nat: "foldl (\<lambda>v c. v * 10 + digit_val c) 0 (show_nat n) = n"
proof (induction n rule: show_nat.induct)
  case (1 n)
  then show ?case by (subst show_nat.simps) auto
qed

lemma parse_show_nat [simp]: "parse_digits (show_nat n) = Some n"
  by (simp add: parse_digits_def show_nat_digits foldl_show_nat)

lemma show_nat_not_mem: "\<not> is_digit c \<Longrightarrow> c \<notin> set (show_nat n)"
  using show_nat_digits by (auto simp: list_all_iff)

end
