(* ===== verification/HostRules.thy ===== *)
theory HostRules
  imports Prelude
begin

text \<open>
  Domain rules (\<open>internal/netproxy/session.go\<close>, \<open>filter.go\<close>): host normalization, the one
  matcher every rule goes through, and the profile's domain lists.
\<close>

text \<open>\<open>NormalizeHost\<close>: lower-cased, all trailing root-zone dots stripped.\<close>

definition normalize_host :: "string \<Rightarrow> string" where
  "normalize_host host = to_lower (trim_right (\<lambda>c. c = dot) host)"

text \<open>
  \<open>matchHostOrSuffix\<close>: the exact host, or under a wildcard the target and any subdomain.  The
  dot boundary is compared by index, as the source does.
\<close>

definition match_host_or_suffix :: "string \<Rightarrow> string \<Rightarrow> bool \<Rightarrow> bool" where
  "match_host_or_suffix host target wildcard =
     (if host = target then True
      else if \<not> wildcard then False
      else length host > length target + 1 \<and>
           host ! (length host - length target - 1) = dot \<and>
           drop (length host - length target) host = target)"

definition match_host_rule :: "string \<Rightarrow> string \<Rightarrow> string \<Rightarrow> bool" where
  "match_host_rule host target scope = match_host_or_suffix host target (scope = ''suffix'')"

text \<open>\<open>MatchDomainList\<close>: the loop over the entries, blank entries skipped.\<close>

fun match_domain_list :: "string \<Rightarrow> string list \<Rightarrow> bool" where
  "match_domain_list host [] = False"
| "match_domain_list host (raw # list) =
     (let entry = to_lower (trim_space raw)
      in if entry = [] then match_domain_list host list
         else let (suffix, wildcard) = cut_prefix entry ''*.''
              in if match_host_or_suffix host suffix wildcard then True
                 else match_domain_list host list)"

subsection \<open>What a domain rule covers\<close>

text \<open>The reference: \<open>host\<close> is \<open>target\<close>, or ends in a dot and \<open>target\<close> with a label before it.\<close>

definition subdomain_of :: "string \<Rightarrow> string \<Rightarrow> bool" where
  "subdomain_of host target \<longleftrightarrow> (\<exists>p. p \<noteq> [] \<and> host = p @ dot # target)"

lemma match_exact [simp]: "match_host_or_suffix h h w"
  by (simp add: match_host_or_suffix_def)

lemma suffix_index_iff:
  "(length h > length t + 1 \<and> h ! (length h - length t - 1) = dot \<and> drop (length h - length t) h = t)
    \<longleftrightarrow> subdomain_of h t"
proof
  let ?n = "length h - length t - 1"
  assume a: "length h > length t + 1 \<and> h ! ?n = dot \<and> drop (length h - length t) h = t"
  then have len: "length h > length t + 1" by blast
  then have "?n < length h" by linarith
  then have "h = take ?n h @ h ! ?n # drop (Suc ?n) h"
    by (rule id_take_nth_drop)
  moreover have "Suc ?n = length h - length t" using len by linarith
  ultimately have "h = take ?n h @ dot # t" using a by simp
  moreover have "take ?n h \<noteq> []" using a by auto
  ultimately show "subdomain_of h t" unfolding subdomain_of_def by blast
qed (auto simp: subdomain_of_def nth_append)

lemma match_wildcard_iff: "match_host_or_suffix h t True \<longleftrightarrow> h = t \<or> subdomain_of h t"
  unfolding match_host_or_suffix_def using suffix_index_iff by auto

lemma match_exact_iff [simp]: "match_host_or_suffix h t False \<longleftrightarrow> h = t"
  by (simp add: match_host_or_suffix_def)

lemma subdomain_trans: "subdomain_of a b \<Longrightarrow> subdomain_of b c \<Longrightarrow> subdomain_of a c"
  unfolding subdomain_of_def by (metis append.assoc append_Cons append_is_Nil_conv)

lemma match_wildcard_sub: "match_host_or_suffix h t w \<Longrightarrow> match_host_or_suffix h t True"
  by (cases w) (simp_all add: match_wildcard_iff)

lemma normalize_host_idem [simp]: "normalize_host (normalize_host h) = normalize_host h"
  by (simp add: normalize_host_def to_lower_def trim_right_map)

lemma normalize_host_case: "normalize_host (to_lower h) = normalize_host h"
  by (simp add: normalize_host_def to_lower_def trim_right_map)

lemma normalize_host_trailing_dot: "normalize_host (h @ [dot]) = normalize_host h"
  by (simp add: normalize_host_def trim_right_def)

lemma normalize_host_no_dot: "normalize_host h \<noteq> [] \<Longrightarrow> last (normalize_host h) \<noteq> dot"
  using trim_right_last [of "\<lambda>c. c = dot" h]
  by (auto simp: normalize_host_def to_lower_def last_map)

lemma normalize_host_id:
  assumes "to_lower h = h" "h = [] \<or> last h \<noteq> dot"
  shows "normalize_host h = h"
  using assms by (simp add: normalize_host_def trim_right_id)

text \<open>Membership in a domain list, without the loop.\<close>

definition domain_entry_covers :: "string \<Rightarrow> string \<Rightarrow> bool" where
  "domain_entry_covers raw host =
     (let entry = to_lower (trim_space raw)
      in entry \<noteq> [] \<and>
         (if has_prefix entry ''*.''
          then host = drop 2 entry \<or> subdomain_of host (drop 2 entry)
          else host = entry))"

lemma match_domain_list_iff:
  "match_domain_list host list \<longleftrightarrow> (\<exists>raw \<in> set list. domain_entry_covers raw host)"
proof (induction list)
  case (Cons raw list)
  have "match_domain_list host (raw # list) \<longleftrightarrow> domain_entry_covers raw host \<or> match_domain_list host list"
    by (simp add: domain_entry_covers_def Let_def cut_prefix_def match_wildcard_iff numeral_2_eq_2)
  with Cons.IH show ?case by simp
qed simp

end
