(* ===== verification/NetAddr.thy ===== *)
theory NetAddr
  imports Prelude
begin

unbundle bit_operations_syntax

text \<open>
  The part of Go's \<open>net/netip\<close> and \<open>net\<close> packages the proxy uses: address values, the
  textual parser and printer, the address classes, \<open>net.SplitHostPort\<close> and \<open>net.JoinHostPort\<close>.
  An address is a 32-bit or a 128-bit word; a version 6 address also carries a zone, which
  takes part in Go's equality on addresses.
\<close>

datatype addr = V4 "32 word" | V6 "128 word" string

section \<open>Parsing\<close>

definition octet :: "string \<Rightarrow> nat option" where
  "octet s = (case parse_digits s of
     None \<Rightarrow> None
   | Some v \<Rightarrow> if v \<le> 255 \<and> (length s = 1 \<or> hd s \<noteq> CHR ''0'') then Some v else None)"

definition v4_of_octets :: "nat \<Rightarrow> nat \<Rightarrow> nat \<Rightarrow> nat \<Rightarrow> 32 word" where
  "v4_of_octets a b c d = word_of_nat (((a * 256 + b) * 256 + c) * 256 + d)"

definition parse_v4_octets :: "string \<Rightarrow> (nat \<times> nat \<times> nat \<times> nat) option" where
  "parse_v4_octets s = (case map octet (split_on dot s) of
     [Some a, Some b, Some c, Some d] \<Rightarrow> Some (a, b, c, d)
   | _ \<Rightarrow> None)"

definition parse_v4 :: "string \<Rightarrow> addr option" where
  "parse_v4 s = map_option (\<lambda>(a, b, c, d). V4 (v4_of_octets a b c d)) (parse_v4_octets s)"

definition is_hex :: "char \<Rightarrow> bool" where
  "is_hex c \<longleftrightarrow> is_digit c \<or> (97 \<le> code c \<and> code c \<le> 102) \<or> (65 \<le> code c \<and> code c \<le> 70)"

definition hex_val :: "char \<Rightarrow> nat" where
  "hex_val c = (if is_digit c then code c - 48 else if 97 \<le> code c then code c - 87 else code c - 55)"

definition hex_num :: "string \<Rightarrow> nat" where
  "hex_num s = foldl (\<lambda>v c. v * 16 + hex_val c) 0 s"

text \<open>
  The loop of \<open>netip.parseIPv6\<close>: 16-bit groups read so far and the position of the ellipsis.
\<close>

function v6_groups :: "string \<Rightarrow> nat list \<Rightarrow> nat option \<Rightarrow> (nat list \<times> nat option) option" where
  "v6_groups s gs ell =
     (if 8 \<le> length gs then (if s = [] then Some (gs, ell) else None)
      else let hex = takeWhile is_hex s; rest = dropWhile is_hex s; gs' = gs @ [hex_num hex]
      in if hex = [] \<or> 4 < length hex then None
      else case rest of
        [] \<Rightarrow> Some (gs', ell)
      | c # r \<Rightarrow>
          if c = dot then
            (if (ell = None \<and> length gs \<noteq> 6) \<or> 6 < length gs then None
             else map_option (\<lambda>(p, q, u, v). (gs @ [p * 256 + q, u * 256 + v], ell)) (parse_v4_octets s))
          else if c \<noteq> colon then None
          else (case r of
              [] \<Rightarrow> None
            | d # r' \<Rightarrow>
                if d = colon then
                  (if ell \<noteq> None then None
                   else if r' = [] then Some (gs', Some (length gs'))
                   else v6_groups r' gs' (Some (length gs')))
                else v6_groups r gs' ell))"
  by pat_completeness auto
termination
proof (relation "measure (\<lambda>(s, gs, ell). length s)", goal_cases)
  case (2 s gs ell x xa xb c r d r')
  then have "length (c # r) \<le> length s" by (metis length_dropWhile_le)
  with 2 show ?case by simp
next
  case (3 s gs ell x xa xb c r d r')
  then have "length (c # r) \<le> length s" by (metis length_dropWhile_le)
  with 3 show ?case by simp
qed simp

declare v6_groups.simps [simp del]

definition expand_groups :: "nat list \<times> nat option \<Rightarrow> nat list option" where
  "expand_groups = (\<lambda>(gs, ell).
     if length gs < 8 then
       (case ell of None \<Rightarrow> None
        | Some e \<Rightarrow> Some (take e gs @ replicate (8 - length gs) 0 @ drop e gs))
     else (case ell of None \<Rightarrow> Some gs | Some _ \<Rightarrow> None))"

definition word_of_groups :: "nat list \<Rightarrow> 128 word" where
  "word_of_groups gs = word_of_nat (foldl (\<lambda>v g. v * 65536 + g) 0 gs)"

definition parse_v6 :: "string \<Rightarrow> addr option" where
  "parse_v6 s =
     (let pct = index_of (CHR ''%'') s;
          body = (case pct of None \<Rightarrow> s | Some i \<Rightarrow> take i s);
          zone = (case pct of None \<Rightarrow> [] | Some i \<Rightarrow> drop (Suc i) s)
      in if pct \<noteq> None \<and> zone = [] then None
      else if body = ''::'' then Some (V6 0 zone)
      else map_option (\<lambda>gs. V6 (word_of_groups gs) zone)
             (Option.bind
                (if has_prefix body ''::'' then v6_groups (drop 2 body) [] (Some 0)
                 else v6_groups body [] None)
                expand_groups))"

text \<open>\<open>netip.ParseAddr\<close>: the first dot, colon or percent sign picks the family.\<close>

definition parse_addr :: "string \<Rightarrow> addr option" where
  "parse_addr s = (case dropWhile (\<lambda>c. c \<noteq> dot \<and> c \<noteq> colon \<and> c \<noteq> CHR ''%'') s of
     [] \<Rightarrow> None
   | c # _ \<Rightarrow> if c = dot then parse_v4 s else if c = colon then parse_v6 s else None)"

section \<open>Printing\<close>

definition v4_octets :: "32 word \<Rightarrow> nat list" where
  "v4_octets w = [unat w div 16777216 mod 256, unat w div 65536 mod 256, unat w div 256 mod 256, unat w mod 256]"

definition v4_string :: "32 word \<Rightarrow> string" where
  "v4_string w = join_with [dot] (map show_nat (v4_octets w))"

definition v6_group_list :: "128 word \<Rightarrow> nat list" where
  "v6_group_list w = map (\<lambda>i. unat w div 65536 ^ (7 - i) mod 65536) [0..<8]"

definition hex_digit :: "nat \<Rightarrow> char" where
  "hex_digit n = (if n < 10 then char_of (48 + n) else char_of (87 + n))"

fun show_hex :: "nat \<Rightarrow> string" where
  "show_hex n = (if n < 16 then [hex_digit n] else show_hex (n div 16) @ [hex_digit (n mod 16)])"

declare show_hex.simps [simp del]

definition zero_run :: "nat list \<Rightarrow> nat \<Rightarrow> nat" where
  "zero_run gs i = length (takeWhile (\<lambda>g. g = 0) (drop i gs))"

text \<open>The first longest run of at least two zero groups, as (start, end); none is (255, 255).\<close>

definition best_run :: "nat list \<Rightarrow> nat \<times> nat" where
  "best_run gs = foldl (\<lambda>(st, en) i.
     let l = zero_run gs i in if 2 \<le> l \<and> en - st < l then (i, i + l) else (st, en))
     (255, 255) [0..<8]"

definition v6_string :: "128 word \<Rightarrow> string" where
  "v6_string w =
     (let gs = v6_group_list w; (st, en) = best_run gs
      in if st = 255 then join_with [colon] (map show_hex gs)
         else join_with [colon] (map show_hex (take st gs)) @ ''::'' @
              join_with [colon] (map show_hex (drop en gs)))"

definition is_4in6 :: "addr \<Rightarrow> bool" where
  "is_4in6 a = (case a of V4 _ \<Rightarrow> False | V6 w _ \<Rightarrow> unat w div 2 ^ 32 = 65535)"

definition unmap :: "addr \<Rightarrow> addr" where
  "unmap a = (case a of V4 w \<Rightarrow> V4 w
     | V6 w z \<Rightarrow> if is_4in6 (V6 w z) then V4 (word_of_nat (unat w mod 2 ^ 32)) else V6 w z)"

definition zone_string :: "string \<Rightarrow> string" where
  "zone_string z = (if z = [] then [] else CHR ''%'' # z)"

fun addr_string :: "addr \<Rightarrow> string" where
  "addr_string (V4 w) = v4_string w"
| "addr_string (V6 w z) =
     (if is_4in6 (V6 w z)
      then ''::ffff:'' @ v4_string (word_of_nat (unat w mod 2 ^ 32)) @ zone_string z
      else v6_string w @ zone_string z)"

section \<open>Address classes\<close>

text \<open>
  \<open>IsLoopback\<close>, \<open>IsLinkLocalUnicast\<close>, \<open>IsLinkLocalMulticast\<close> look at the (unmapped) bits only;
  \<open>IsUnspecified\<close> compares whole addresses, zone included.
\<close>

fun loopback_bits :: "addr \<Rightarrow> bool" where
  "loopback_bits (V4 w) \<longleftrightarrow> unat w div 2 ^ 24 = 127"
| "loopback_bits (V6 w z) \<longleftrightarrow> w = 1"

fun link_local_unicast_bits :: "addr \<Rightarrow> bool" where
  "link_local_unicast_bits (V4 w) \<longleftrightarrow> unat w div 2 ^ 16 = 0xA9FE"
| "link_local_unicast_bits (V6 w z) \<longleftrightarrow> unat w div 2 ^ 118 = 0x3FA"

fun link_local_multicast_bits :: "addr \<Rightarrow> bool" where
  "link_local_multicast_bits (V4 w) \<longleftrightarrow> unat w div 2 ^ 8 = 0xE00000"
| "link_local_multicast_bits (V6 w z) \<longleftrightarrow>
     unat w div 2 ^ 120 = 0xFF \<and> unat w div 2 ^ 112 mod 16 = 2"

definition ip_is_loopback :: "addr \<Rightarrow> bool" where
  "ip_is_loopback a = loopback_bits (unmap a)"

definition ip_is_unspecified :: "addr \<Rightarrow> bool" where
  "ip_is_unspecified a \<longleftrightarrow> a = V4 0 \<or> a = V6 0 []"

definition ip_is_link_local_unicast :: "addr \<Rightarrow> bool" where
  "ip_is_link_local_unicast a = link_local_unicast_bits (unmap a)"

definition ip_is_link_local_multicast :: "addr \<Rightarrow> bool" where
  "ip_is_link_local_multicast a = link_local_multicast_bits (unmap a)"

section \<open>Host and port\<close>

text \<open>\<open>net.JoinHostPort\<close>: brackets around a host with a colon.\<close>

definition join_host_port :: "string \<Rightarrow> string \<Rightarrow> string" where
  "join_host_port host port =
     (if colon \<in> set host then ''['' @ host @ '']:'' @ port else host @ '':'' @ port)"

definition last_index_of :: "char \<Rightarrow> string \<Rightarrow> nat option" where
  "last_index_of d s = map_option (\<lambda>i. length s - 1 - i) (index_of d (rev s))"

text \<open>\<open>net.SplitHostPort\<close>: every error of the function is \<open>None\<close>.\<close>

definition split_host_port :: "string \<Rightarrow> (string \<times> string) option" where
  "split_host_port hp = (case last_index_of colon hp of
     None \<Rightarrow> None
   | Some i \<Rightarrow>
       (case hp of
          [] \<Rightarrow> None
        | c # _ \<Rightarrow>
            let port = drop (Suc i) hp in
            if c = CHR ''['' then
              (case index_of (CHR '']'') hp of
                 None \<Rightarrow> None
               | Some e \<Rightarrow>
                   if e + 1 = length hp then None
                   else if e + 1 = i then
                     (let host = take (e - 1) (drop 1 hp) in
                      if CHR ''['' \<in> set (drop 1 hp) \<or> CHR '']'' \<in> set (drop (Suc e) hp)
                      then None else Some (host, port))
                   else None)
            else
              (let host = take i hp in
               if colon \<in> set host then None
               else if CHR ''['' \<in> set hp \<or> CHR '']'' \<in> set hp then None
               else Some (host, port))))"

section \<open>Facts\<close>

lemmas netaddr_eval [gostr] =
  parse_addr_def parse_v4_def parse_v4_octets_def octet_def v4_of_octets_def parse_v6_def
  v6_groups.simps is_hex_def hex_num_def hex_val_def expand_groups_def word_of_groups_def

lemma unmap_V4 [simp]: "unmap (V4 w) = V4 w"
  by (simp add: unmap_def)

lemma unmap_idem [simp]: "unmap (unmap a) = unmap a"
  by (cases a) (auto simp: unmap_def)

lemma is_4in6_V4 [simp]: "\<not> is_4in6 (V4 w)"
  by (simp add: is_4in6_def)

lemma octet_less: "octet s = Some v \<Longrightarrow> v < 256"
  by (auto simp: octet_def split: option.splits if_splits)

text \<open>The decimal printer writes no leading zero, so the parser reads every octet back.\<close>

lemma hd_show_nat: "0 < n \<Longrightarrow> hd (show_nat n) \<noteq> CHR ''0''"
proof (induction n rule: show_nat.induct)
  case (1 n)
  show ?case
  proof (cases "n < 10")
    case True
    have "code (char_of (48 + n)) \<noteq> code (CHR ''0'')"
      using True 1 by (simp add: code_def)
    then have "char_of (48 + n) \<noteq> CHR ''0''" by metis
    with True show ?thesis by (subst show_nat.simps) (simp add: digit_char_def)
  next
    case False
    with 1 have "hd (show_nat (n div 10)) \<noteq> CHR ''0''" by simp
    with False show ?thesis by (subst show_nat.simps) simp
  qed
qed

lemma octet_show_nat [simp]: "n < 256 \<Longrightarrow> octet (show_nat n) = Some n"
proof (cases "n = 0")
  case True
  have "length (show_nat 0) = 1" by (subst show_nat.simps) simp
  with True show ?thesis by (simp add: octet_def)
next
  case False
  moreover assume "n < 256"
  ultimately show ?thesis using hd_show_nat [of n] by (simp add: octet_def)
qed

lemma dot_not_digit [simp]: "\<not> is_digit dot"
  by (simp add: is_digit_def code_def)

lemma split_on_v4_string: "split_on dot (v4_string w) = map show_nat (v4_octets w)"
  by (simp add: v4_string_def v4_octets_def split_on_append_sep split_on_none show_nat_not_mem)

lemma horner_step: "(n::nat) div m * m + n mod m = n"
  by (rule div_mult_mod_eq)

lemma octets_value:
  fixes n :: nat
  assumes "n < 2 ^ 32"
  shows "((n div 16777216 mod 256 * 256 + n div 65536 mod 256) * 256 + n div 256 mod 256) * 256 + n mod 256 = n"
proof -
  have d: "n div 65536 = n div 256 div 256" "n div 16777216 = n div 256 div 256 div 256"
    by (simp_all add: div_mult2_eq [symmetric])
  have "n div 256 div 256 div 256 < 256"
    using assms by (simp add: div_mult2_eq [symmetric] less_mult_imp_div_less)
  then have m: "n div 256 div 256 div 256 mod 256 = n div 256 div 256 div 256"
    by (rule mod_less)
  show ?thesis unfolding d m horner_step ..
qed

lemma parse_v4_string: "parse_v4 (v4_string w) = Some (V4 w)"
proof -
  have "unat w < 2 ^ 32" using unsigned_less [of w] by simp
  then have "v4_of_octets (unat w div 16777216 mod 256) (unat w div 65536 mod 256)
      (unat w div 256 mod 256) (unat w mod 256) = w"
    unfolding v4_of_octets_def by (subst octets_value) simp_all
  then show ?thesis
    by (simp add: parse_v4_def parse_v4_octets_def split_on_v4_string v4_octets_def)
qed

lemma family_v4: "dropWhile (\<lambda>c. c \<noteq> dot \<and> c \<noteq> colon \<and> c \<noteq> CHR ''%'') (show_nat n @ dot # s) = dot # s"
proof -
  have "\<forall>c \<in> set (show_nat n). c \<noteq> dot \<and> c \<noteq> colon \<and> c \<noteq> CHR ''%''"
    using show_nat_digits [of n] by (auto simp: list_all_iff is_digit_def code_def)
  then show ?thesis by (simp add: dropWhile_append2)
qed

lemma parse_addr_v4_string: "parse_addr (v4_string w) = Some (V4 w)"
proof -
  obtain a r where "v4_string w = show_nat a @ dot # r"
    by (simp add: v4_string_def v4_octets_def)
  then show ?thesis
    using parse_v4_string [of w] by (simp add: parse_addr_def family_v4)
qed

end
