(* ===== verification/HardDeny.thy ===== *)
theory HardDeny
  imports HostRules NetAddr
begin

text \<open>
  The unconditional deny set of the network filter (\<open>internal/netproxy/filter.go\<close>): metadata host
  names, and the address classes that are never dialed.
\<close>

definition hard_deny_hosts :: "string list" where
  "hard_deny_hosts =
     [''169.254.169.254'', ''100.100.100.200'', ''192.0.0.192'', ''169.254.170.2'',
      ''fd00:ec2::254'', ''metadata.google.internal'', ''metadata.azure.internal'']"

definition hard_deny_host_suffixes :: "string list" where
  "hard_deny_host_suffixes = [''metadata.google.internal'', ''metadata.azure.internal'']"

definition is_link_local :: "addr \<Rightarrow> bool" where
  "is_link_local ip =
     (let ip = (if is_4in6 ip then unmap ip else ip)
      in ip_is_link_local_unicast ip \<or> ip_is_link_local_multicast ip)"

definition is_loopback :: "addr \<Rightarrow> bool" where
  "is_loopback ip = (let ip = (if is_4in6 ip then unmap ip else ip) in ip_is_loopback ip)"

definition is_host_local :: "addr \<Rightarrow> bool" where
  "is_host_local ip =
     (let u = (if is_4in6 ip then unmap ip else ip)
      in ip_is_loopback u \<or> ip_is_unspecified u)"

definition cloud_metadata_addrs :: "addr list" where
  "cloud_metadata_addrs =
     List.map_filter parse_addr
       [''100.100.100.200'', ''192.0.0.192'', ''169.254.170.2'', ''fd00:ec2::254'']"

definition is_cloud_metadata :: "addr \<Rightarrow> bool" where
  "is_cloud_metadata ip =
     (let u = (if is_4in6 ip then unmap ip else ip) in u \<in> set cloud_metadata_addrs)"

text \<open>\<open>hardDeniedAddr\<close>: the reason, if the address must never be dialed.\<close>

definition hard_denied_addr :: "addr \<Rightarrow> string option" where
  "hard_denied_addr ip =
     (if is_link_local ip then Some ''hard-deny link-local address''
      else if is_host_local ip then Some ''hard-deny loopback/unspecified address''
      else if is_cloud_metadata ip then Some ''hard-deny cloud-metadata address''
      else None)"

definition is_hard_denied_host :: "string \<Rightarrow> bool" where
  "is_hard_denied_host h =
     (if h \<in> set hard_deny_hosts then True
      else list_ex (\<lambda>suffix. match_host_or_suffix h suffix True) hard_deny_host_suffixes)"

subsection \<open>Facts\<close>

lemma parse_metadata:
  "parse_addr ''100.100.100.200'' = Some (V4 0x646464C8)"
  "parse_addr ''192.0.0.192'' = Some (V4 0xC00000C0)"
  "parse_addr ''169.254.170.2'' = Some (V4 0xA9FEAA02)"
  "parse_addr ''fd00:ec2::254'' = Some (V6 0xfd000ec2000000000000000000000254 [])"
  by (simp_all add: gostr)

lemma cloud_metadata_addrs_eval:
  "cloud_metadata_addrs =
     [V4 0x646464C8, V4 0xC00000C0, V4 0xA9FEAA02, V6 0xfd000ec2000000000000000000000254 []]"
  by (simp add: cloud_metadata_addrs_def List.map_filter_simps parse_metadata)

lemma unmap_if_4in6: "(if is_4in6 ip then unmap ip else ip) = unmap ip"
  by (cases ip) (auto simp: unmap_def)

lemma is_host_local_iff: "is_host_local ip \<longleftrightarrow> loopback_bits (unmap ip) \<or> unmap ip \<in> {V4 0, V6 0 []}"
  by (simp add: is_host_local_def unmap_if_4in6 ip_is_loopback_def ip_is_unspecified_def Let_def)

lemma is_link_local_iff:
  "is_link_local ip \<longleftrightarrow> link_local_unicast_bits (unmap ip) \<or> link_local_multicast_bits (unmap ip)"
  by (simp add: is_link_local_def unmap_if_4in6 ip_is_link_local_unicast_def
      ip_is_link_local_multicast_def Let_def)

lemma is_cloud_metadata_iff: "is_cloud_metadata ip \<longleftrightarrow> unmap ip \<in> set cloud_metadata_addrs"
  by (simp add: is_cloud_metadata_def unmap_if_4in6 Let_def)

text \<open>An IPv4 address and its IPv4-mapped IPv6 spelling are treated alike, whatever the zone.\<close>

lemma hard_denied_addr_unmap: "hard_denied_addr (unmap ip) = hard_denied_addr ip"
  by (simp add: hard_denied_addr_def is_host_local_iff is_link_local_iff is_cloud_metadata_iff)

lemma hard_denied_addr_iff:
  "hard_denied_addr ip \<noteq> None \<longleftrightarrow>
     link_local_unicast_bits (unmap ip) \<or> link_local_multicast_bits (unmap ip) \<or>
     loopback_bits (unmap ip) \<or> unmap ip \<in> {V4 0, V6 0 []} \<or> unmap ip \<in> set cloud_metadata_addrs"
  by (auto simp: hard_denied_addr_def is_host_local_iff is_link_local_iff is_cloud_metadata_iff)

lemma hard_denied_addr_prefix:
  "hard_denied_addr ip = Some r \<Longrightarrow> has_prefix r ''hard-deny ''"
  by (auto simp: hard_denied_addr_def has_prefix_def split: if_splits)

lemma hard_denied_suffix:
  assumes "t \<in> set hard_deny_host_suffixes" "match_host_or_suffix h t True"
  shows "is_hard_denied_host h"
  using assms by (auto simp: is_hard_denied_host_def list_ex_iff)

lemma div_interval: "0 < (k::nat) \<Longrightarrow> n div k = m \<longleftrightarrow> m * k \<le> n \<and> n < (m + 1) * k"
  by (metis Suc_eq_plus1 div_nat_eqI dividend_less_times_div div_times_less_eq_dividend mult.commute
      mult_Suc_right)

lemma denied_ranges:
  "hard_denied_addr a \<noteq> None \<longleftrightarrow>
     (case unmap a of
        V4 w \<Rightarrow> unat w \<in> {0x7F000000 .. 0x7FFFFFFF} \<union> {0xA9FE0000 .. 0xA9FEFFFF} \<union>
                {0xE0000000 .. 0xE00000FF} \<union> {0, 0x646464C8, 0xC00000C0}
      | V6 w z \<Rightarrow> unat w \<in> {0xFE80 * 2 ^ 112 ..< 0xFEC0 * 2 ^ 112} \<or>
                 (unat w div 2 ^ 120 = 0xFF \<and> unat w div 2 ^ 112 mod 16 = 2) \<or> w = 1 \<or>
                 (z = [] \<and> (w = 0 \<or> w = 0xfd000ec2000000000000000000000254)))"
proof (cases "unmap a")
  case (V4 w)
  have e: "w = 0 \<longleftrightarrow> unat w = 0" "w = 0x646464C8 \<longleftrightarrow> unat w = 0x646464C8"
    "w = 0xC00000C0 \<longleftrightarrow> unat w = 0xC00000C0" "w = 0xA9FEAA02 \<longleftrightarrow> unat w = 0xA9FEAA02"
    by (simp_all add: word_unat_eq_iff)
  show ?thesis
    unfolding hard_denied_addr_iff V4
    by (simp add: cloud_metadata_addrs_eval e div_interval) arith
next
  case (V6 w z)
  have "unat w div 2 ^ 118 = 0x3FA \<longleftrightarrow> unat w \<in> {0xFE80 * 2 ^ 112 ..< 0xFEC0 * 2 ^ 112}"
    by (subst div_interval) simp_all
  then show ?thesis
    unfolding hard_denied_addr_iff V6
    by (auto simp: cloud_metadata_addrs_eval)
qed

text \<open>
  The denied address ranges.  \<open>hardDeniedAddr\<close> denies, for an IPv4 address and for its
  IPv4-mapped IPv6 spelling under any zone, exactly 127.0.0.0/8, 169.254.0.0/16, 224.0.0.0/24,
  0.0.0.0 and the metadata addresses 100.100.100.200 and 192.0.0.192; for any other IPv6 address
  exactly fe80::/10, the link-local multicast group ffx2::/16 and ::1 under any zone, and :: and
  fd00:ec2::254 without a zone.
\<close>

theorem hard_denied_addr_ranges:
  "hard_denied_addr a \<noteq> None \<longleftrightarrow>
     (case unmap a of
        V4 w \<Rightarrow> unat w \<in> {0x7F000000 .. 0x7FFFFFFF} \<union> {0xA9FE0000 .. 0xA9FEFFFF} \<union>
                {0xE0000000 .. 0xE00000FF} \<union> {0, 0x646464C8, 0xC00000C0}
      | V6 w z \<Rightarrow> unat w \<in> {0xFE80 * 2 ^ 112 ..< 0xFEC0 * 2 ^ 112} \<or>
                 (unat w div 2 ^ 120 = 0xFF \<and> unat w div 2 ^ 112 mod 16 = 2) \<or> w = 1 \<or>
                 (z = [] \<and> (w = 0 \<or> w = 0xfd000ec2000000000000000000000254)))"
  by (rule denied_ranges)

end
