(* ===== verification/Stores.thy ===== *)
theory Stores
  imports HostRules
begin

text \<open>
  The two stores of prompt decisions: \<open>SessionStore\<close> (\<open>internal/netproxy/session.go\<close>, in memory)
  and \<open>LearnedPolicy\<close> (\<open>internal/netprompt/learned.go\<close>, a JSON file rewritten atomically), and
  the contract \<open>netproxy.DecisionStore\<close> both implement, as a locale with the facts the filter
  relies on.  A store operation returns the new store and the error, if any.
\<close>

section \<open>The contract of a decision store\<close>

type_synonym rule = "string \<times> string \<times> bool"

definition covering :: "rule set \<Rightarrow> string \<Rightarrow> bool \<Rightarrow> bool" where
  "covering R h a \<longleftrightarrow> (\<exists>t sc. (t, sc, a) \<in> R \<and> match_host_rule h t sc)"

text \<open>Deny wins over allow; no covering rule is no decision.  The pair is Go's \<open>(allow, found)\<close>.\<close>

definition rules_verdict :: "rule set \<Rightarrow> string \<Rightarrow> bool \<times> bool" where
  "rules_verdict R h =
     (if covering R h False then (False, True)
      else if covering R h True then (True, True) else (False, False))"

definition upsert_rule :: "string \<Rightarrow> string \<Rightarrow> bool \<Rightarrow> rule set \<Rightarrow> rule set" where
  "upsert_rule t sc a R = insert (t, sc, a) (R - {(t, sc, True), (t, sc, False)})"

lemma covering_empty [simp]: "\<not> covering {} h a"
  by (simp add: covering_def)

lemma covering_insert [simp]:
  "covering (insert (t, sc, b) R) h a \<longleftrightarrow> (b = a \<and> match_host_rule h t sc) \<or> covering R h a"
  by (auto simp: covering_def)

lemma upsert_rule_same: "upsert_rule t sc a (insert (t, sc, b) R) = upsert_rule t sc a R"
  by (cases b) (simp_all add: upsert_rule_def insert_Diff_if)

lemma upsert_rule_other:
  "(t', sc') \<noteq> (t, sc) \<Longrightarrow> upsert_rule t sc a (insert (t', sc', b) R) = insert (t', sc', b) (upsert_rule t sc a R)"
  by (auto simp: upsert_rule_def)

lemma upsert_rule_new: "(\<And>b. (t, sc, b) \<notin> R) \<Longrightarrow> upsert_rule t sc a R = insert (t, sc, a) R"
  by (auto simp: upsert_rule_def)

definition valid_scope :: "string \<Rightarrow> bool" where
  "valid_scope sc \<longleftrightarrow> sc = ''host'' \<or> sc = ''suffix''"

locale decision_store =
  fixes rules :: "'s \<Rightarrow> rule set"
    and lookup :: "'s \<Rightarrow> string \<Rightarrow> bool \<times> bool"
    and store_record :: "'s \<Rightarrow> string \<Rightarrow> string \<Rightarrow> bool \<Rightarrow> 's \<times> string option"
    and ok :: "'s \<Rightarrow> bool"
  assumes lookup_law: "lookup s h = rules_verdict (rules s) (normalize_host h)"
    and record_law: "ok s \<Longrightarrow> valid_scope sc \<Longrightarrow>
          rules (fst (store_record s h sc a)) = upsert_rule (normalize_host h) sc a (rules s)"
    and record_ok: "ok s \<Longrightarrow> ok (fst (store_record s h sc a))"
    and record_invalid: "\<not> valid_scope sc \<Longrightarrow> fst (store_record s h sc a) = s \<and> snd (store_record s h sc a) \<noteq> None"
begin

lemma found_iff: "snd (lookup s h) \<longleftrightarrow> (\<exists>a. covering (rules s) (normalize_host h) a)"
  by (simp add: lookup_law rules_verdict_def ex_bool_eq)

lemma allow_found: "fst (lookup s h) \<Longrightarrow> snd (lookup s h)"
  by (simp add: lookup_law rules_verdict_def split: if_splits)

text \<open>A recorded deny answers every host the rule covers, whatever else is stored.\<close>

lemma recorded_deny:
  assumes "ok s" "valid_scope sc" "match_host_rule (normalize_host h) (normalize_host t) sc"
  shows "lookup (fst (store_record s t sc False)) h = (False, True)"
proof -
  have "covering (rules (fst (store_record s t sc False))) (normalize_host h) False"
    using assms by (auto simp: covering_def record_law upsert_rule_def)
  then show ?thesis by (simp add: lookup_law rules_verdict_def)
qed

text \<open>A recorded allow answers a host unless another deny rule covers it.\<close>

lemma recorded_allow:
  assumes "ok s" "valid_scope sc" "match_host_rule (normalize_host h) (normalize_host t) sc"
    and "\<And>t' sc'. (t', sc', False) \<in> rules s \<Longrightarrow> match_host_rule (normalize_host h) t' sc' \<Longrightarrow>
           (t', sc') = (normalize_host t, sc)"
  shows "lookup (fst (store_record s t sc True)) h = (True, True)"
proof -
  have "covering (rules (fst (store_record s t sc True))) (normalize_host h) True"
    using assms(1-3) by (auto simp: covering_def record_law upsert_rule_def)
  moreover have "\<not> covering (rules (fst (store_record s t sc True))) (normalize_host h) False"
    using assms by (auto simp: covering_def record_law upsert_rule_def)
  ultimately show ?thesis by (simp add: lookup_law rules_verdict_def)
qed

text \<open>A decision changes nothing for the hosts its rule does not cover.\<close>

lemma record_frame:
  assumes "ok s" "\<not> match_host_rule (normalize_host h) (normalize_host t) sc"
  shows "lookup (fst (store_record s t sc a)) h = lookup s h"
proof (cases "valid_scope sc")
  case True
  have "covering (rules (fst (store_record s t sc a))) (normalize_host h) b =
      covering (rules s) (normalize_host h) b" for b
    using assms True by (auto simp: covering_def record_law upsert_rule_def)
  then show ?thesis by (simp add: lookup_law rules_verdict_def)
next
  case False
  then show ?thesis using record_invalid [of sc s t a] by simp
qed

end

section \<open>The session store\<close>

record session_entry =
  se_host :: string
  se_scope :: string
  se_allowed :: bool

type_synonym session_store = "session_entry list"

definition new_session_store :: session_store where
  "new_session_store = []"

fun session_lookup_loop :: "string \<Rightarrow> session_entry list \<Rightarrow> bool \<Rightarrow> bool \<times> bool" where
  "session_lookup_loop h [] found = (found, found)"
| "session_lookup_loop h (e # es) found =
     (if \<not> match_host_rule h (se_host e) (se_scope e) then session_lookup_loop h es found
      else if \<not> se_allowed e then (False, True)
      else session_lookup_loop h es True)"

definition session_lookup :: "session_store \<Rightarrow> string \<Rightarrow> bool \<times> bool" where
  "session_lookup s host = session_lookup_loop (normalize_host host) s False"

fun session_upsert :: "string \<Rightarrow> string \<Rightarrow> bool \<Rightarrow> session_entry list \<Rightarrow> session_entry list" where
  "session_upsert h scope allow [] = [\<lparr>se_host = h, se_scope = scope, se_allowed = allow\<rparr>]"
| "session_upsert h scope allow (e # es) =
     (if se_host e = h \<and> se_scope e = scope then e\<lparr>se_allowed := allow\<rparr> # es
      else e # session_upsert h scope allow es)"

definition session_record ::
    "session_store \<Rightarrow> string \<Rightarrow> string \<Rightarrow> bool \<Rightarrow> session_store \<times> string option" where
  "session_record s host scope allow =
     (if scope \<noteq> ''host'' \<and> scope \<noteq> ''suffix'' then (s, Some (''invalid session scope '' @ go_quote scope))
      else (session_upsert (normalize_host host) scope allow s, None))"

definition session_rules :: "session_store \<Rightarrow> rule set" where
  "session_rules s = (\<lambda>e. (se_host e, se_scope e, se_allowed e)) ` set s"

definition session_key :: "session_entry \<Rightarrow> string \<times> string" where
  "session_key e = (se_host e, se_scope e)"

text \<open>The store invariant: one entry per host and scope, hosts normalized.\<close>

definition session_ok :: "session_store \<Rightarrow> bool" where
  "session_ok s \<longleftrightarrow> distinct (map session_key s) \<and> list_all (\<lambda>e. normalize_host (se_host e) = se_host e) s"

lemma session_rules_simps [simp]:
  "session_rules [] = {}"
  "session_rules (e # s) = insert (se_host e, se_scope e, se_allowed e) (session_rules s)"
  by (simp_all add: session_rules_def)

lemma session_lookup_loop_spec:
  "session_lookup_loop h s found =
     (if covering (session_rules s) h False then (False, True)
      else if found \<or> covering (session_rules s) h True then (True, True) else (False, False))"
  by (induction s arbitrary: found) simp_all

lemma set_session_upsert_key:
  "session_key ` set (session_upsert h sc a s) = insert (h, sc) (session_key ` set s)"
  by (induction s) (auto simp: session_key_def)

lemma session_rules_key: "(h, sc) \<notin> session_key ` set s \<Longrightarrow> (h, sc, b) \<notin> session_rules s"
  by (auto simp: session_rules_def session_key_def image_iff)

lemma session_upsert_rules:
  "distinct (map session_key s) \<Longrightarrow>
     session_rules (session_upsert h sc a s) = upsert_rule h sc a (session_rules s)"
proof (induction s)
  case (Cons e s)
  show ?case
  proof (cases "session_key e = (h, sc)")
    case True
    then have "(h, sc) \<notin> session_key ` set s" using Cons.prems by simp
    then have "(h, sc, b) \<notin> session_rules s" for b by (rule session_rules_key)
    with True show ?thesis
      by (simp add: session_key_def upsert_rule_same upsert_rule_new)
  next
    case False
    with Cons show ?thesis by (auto simp: upsert_rule_other session_key_def)
  qed
qed (simp add: upsert_rule_def)

lemma session_upsert_ok:
  "session_ok s \<Longrightarrow> normalize_host h = h \<Longrightarrow> session_ok (session_upsert h sc a s)"
proof (induction s)
  case (Cons e s)
  then show ?case
    using set_session_upsert_key [of h sc a s] by (auto simp: session_ok_def session_key_def)
qed (simp add: session_ok_def)

interpretation session: decision_store session_rules session_lookup session_record session_ok
proof unfold_locales
  fix s :: session_store and h sc a
  show "session_lookup s h = rules_verdict (session_rules s) (normalize_host h)"
    by (simp add: session_lookup_def session_lookup_loop_spec rules_verdict_def)
  show "session_ok s \<Longrightarrow> valid_scope sc \<Longrightarrow>
      session_rules (fst (session_record s h sc a)) = upsert_rule (normalize_host h) sc a (session_rules s)"
    by (auto simp: session_record_def valid_scope_def session_upsert_rules session_ok_def)
  show "session_ok s \<Longrightarrow> session_ok (fst (session_record s h sc a))"
    by (simp add: session_record_def session_upsert_ok)
  show "\<not> valid_scope sc \<Longrightarrow> fst (session_record s h sc a) = s \<and> snd (session_record s h sc a) \<noteq> None"
    by (simp add: session_record_def valid_scope_def)
qed

section \<open>The learned policy file\<close>

record learned_entry =
  le_host :: string
  le_scope :: string
  le_decision :: string

record learned_file =
  lf_schema :: int
  lf_entries :: "learned_entry list"

definition learned_schema :: int where
  "learned_schema = 1"

text \<open>
  What a read of the policy path finds: no file, an I/O error, bytes that are not the JSON of a
  policy file, or a decoded file.
\<close>

datatype disk = Missing | Unreadable string | Malformed string | Stored learned_file

record learned_policy =
  lp_path :: string
  lp_entries :: "learned_entry list"
  lp_disk :: disk

text \<open>Which steps of an atomic write succeed; a failing step carries its error.\<close>

record save_io =
  io_mkdir :: "string option"
  io_marshal :: "string option"
  io_create :: "string option"
  io_write :: "string option"
  io_close :: "string option"
  io_rename :: "string option"

definition io_all_ok :: save_io where
  "io_all_ok = \<lparr>io_mkdir = None, io_marshal = None, io_create = None, io_write = None,
     io_close = None, io_rename = None\<rparr>"

definition load_learned_policy :: "string \<Rightarrow> disk \<Rightarrow> string + learned_policy" where
  "load_learned_policy path d = (case d of
     Missing \<Rightarrow> Inr \<lparr>lp_path = path, lp_entries = [], lp_disk = d\<rparr>
   | Unreadable err \<Rightarrow> Inl (''read learned policy '' @ path @ '': '' @ err)
   | Malformed err \<Rightarrow> Inl (''parse learned policy '' @ path @ '': '' @ err)
   | Stored f \<Rightarrow>
       if lf_schema f \<noteq> learned_schema
       then Inl (''learned policy '' @ path @ '': unsupported schema '' @ show_int (lf_schema f))
       else Inr \<lparr>lp_path = path,
                 lp_entries = map (\<lambda>e. e\<lparr>le_host := normalize_host (le_host e)\<rparr>) (lf_entries f),
                 lp_disk = d\<rparr>)"

fun learned_lookup_loop :: "string \<Rightarrow> learned_entry list \<Rightarrow> bool \<Rightarrow> bool \<times> bool" where
  "learned_lookup_loop h [] found = (found, found)"
| "learned_lookup_loop h (e # es) found =
     (if \<not> match_host_rule h (le_host e) (le_scope e) then learned_lookup_loop h es found
      else if le_decision e = ''deny'' then (False, True)
      else learned_lookup_loop h es True)"

definition learned_lookup :: "learned_policy \<Rightarrow> string \<Rightarrow> bool \<times> bool" where
  "learned_lookup lp host = learned_lookup_loop (normalize_host host) (lp_entries lp) False"

text \<open>\<open>saveLocked\<close>: directory, encoding, temporary file, write, close, rename; only the rename
  changes what the policy path holds.\<close>

definition save_locked :: "save_io \<Rightarrow> learned_policy \<Rightarrow> learned_policy \<times> string option" where
  "save_locked io lp =
     (if lp_path lp = [] then (lp, None)
      else case io_mkdir io of Some e \<Rightarrow> (lp, Some (''create learned policy dir: '' @ e)) | None \<Rightarrow>
      case io_marshal io of Some e \<Rightarrow> (lp, Some e) | None \<Rightarrow>
      case io_create io of Some e \<Rightarrow> (lp, Some e) | None \<Rightarrow>
      case io_write io of Some e \<Rightarrow> (lp, Some e) | None \<Rightarrow>
      case io_close io of Some e \<Rightarrow> (lp, Some e) | None \<Rightarrow>
      case io_rename io of Some e \<Rightarrow> (lp, Some e) | None \<Rightarrow>
      (lp\<lparr>lp_disk := Stored \<lparr>lf_schema = learned_schema, lf_entries = lp_entries lp\<rparr>\<rparr>, None))"

fun learned_upsert :: "string \<Rightarrow> string \<Rightarrow> string \<Rightarrow> learned_entry list \<Rightarrow> learned_entry list" where
  "learned_upsert h scope decision [] =
     [\<lparr>le_host = h, le_scope = scope, le_decision = decision\<rparr>]"
| "learned_upsert h scope decision (e # es) =
     (if le_host e = h \<and> le_scope e = scope then e\<lparr>le_decision := decision\<rparr> # es
      else e # learned_upsert h scope decision es)"

definition learned_record ::
    "save_io \<Rightarrow> learned_policy \<Rightarrow> string \<Rightarrow> string \<Rightarrow> bool \<Rightarrow> learned_policy \<times> string option" where
  "learned_record io lp host scope allow =
     (if scope \<noteq> ''host'' \<and> scope \<noteq> ''suffix'' then (lp, Some (''invalid learned scope '' @ go_quote scope))
      else let decision = (if allow then ''allow'' else ''deny'')
           in save_locked io
                (lp\<lparr>lp_entries := learned_upsert (normalize_host host) scope decision (lp_entries lp)\<rparr>))"

definition learned_rules :: "learned_entry list \<Rightarrow> rule set" where
  "learned_rules es = (\<lambda>e. (le_host e, le_scope e, le_decision e \<noteq> ''deny'')) ` set es"

definition learned_key :: "learned_entry \<Rightarrow> string \<times> string" where
  "learned_key e = (le_host e, le_scope e)"

definition learned_ok :: "learned_policy \<Rightarrow> bool" where
  "learned_ok lp \<longleftrightarrow> distinct (map learned_key (lp_entries lp)) \<and>
     list_all (\<lambda>e. normalize_host (le_host e) = le_host e) (lp_entries lp)"

lemma learned_rules_simps [simp]:
  "learned_rules [] = {}"
  "learned_rules (e # es) = insert (le_host e, le_scope e, le_decision e \<noteq> ''deny'') (learned_rules es)"
  by (simp_all add: learned_rules_def)

lemma learned_lookup_loop_spec:
  "learned_lookup_loop h es found =
     (if covering (learned_rules es) h False then (False, True)
      else if found \<or> covering (learned_rules es) h True then (True, True) else (False, False))"
  by (induction es arbitrary: found) simp_all

lemma set_learned_upsert_key:
  "learned_key ` set (learned_upsert h sc d es) = insert (h, sc) (learned_key ` set es)"
  by (induction es) (auto simp: learned_key_def)

lemma learned_rules_key: "(h, sc) \<notin> learned_key ` set es \<Longrightarrow> (h, sc, b) \<notin> learned_rules es"
  by (auto simp: learned_rules_def learned_key_def image_iff)

lemma learned_upsert_rules:
  "distinct (map learned_key es) \<Longrightarrow>
     learned_rules (learned_upsert h sc d es) = upsert_rule h sc (d \<noteq> ''deny'') (learned_rules es)"
proof (induction es)
  case (Cons e es)
  show ?case
  proof (cases "learned_key e = (h, sc)")
    case True
    then have "(h, sc) \<notin> learned_key ` set es" using Cons.prems by simp
    then have "(h, sc, b) \<notin> learned_rules es" for b by (rule learned_rules_key)
    with True show ?thesis
      by (simp add: learned_key_def upsert_rule_same upsert_rule_new)
  next
    case False
    with Cons show ?thesis by (auto simp: upsert_rule_other learned_key_def)
  qed
qed (simp add: upsert_rule_def)

lemma learned_upsert_ok:
  assumes "distinct (map learned_key es)" "list_all (\<lambda>e. normalize_host (le_host e) = le_host e) es"
    "normalize_host h = h"
  shows "distinct (map learned_key (learned_upsert h sc d es)) \<and>
    list_all (\<lambda>e. normalize_host (le_host e) = le_host e) (learned_upsert h sc d es)"
  using assms
proof (induction es)
  case (Cons e es)
  then show ?case
    using set_learned_upsert_key [of h sc d es] by (auto simp: learned_key_def)
qed simp

lemma save_locked_entries [simp]: "lp_entries (fst (save_locked io lp)) = lp_entries lp"
  by (simp add: save_locked_def split: option.split)

lemma learned_record_entries:
  "valid_scope sc \<Longrightarrow> lp_entries (fst (learned_record io lp h sc a)) =
     learned_upsert (normalize_host h) sc (if a then ''allow'' else ''deny'') (lp_entries lp)"
  by (auto simp: learned_record_def valid_scope_def Let_def)

interpretation learned: decision_store
  "\<lambda>lp. learned_rules (lp_entries lp)" learned_lookup "learned_record io" learned_ok for io
proof unfold_locales
  fix lp :: learned_policy and h sc a
  show "learned_lookup lp h = rules_verdict (learned_rules (lp_entries lp)) (normalize_host h)"
    by (simp add: learned_lookup_def learned_lookup_loop_spec rules_verdict_def)
  show "learned_ok lp \<Longrightarrow> valid_scope sc \<Longrightarrow>
      learned_rules (lp_entries (fst (learned_record io lp h sc a))) =
        upsert_rule (normalize_host h) sc a (learned_rules (lp_entries lp))"
    by (simp add: learned_record_entries learned_upsert_rules learned_ok_def)
  show "learned_ok lp \<Longrightarrow> learned_ok (fst (learned_record io lp h sc a))"
    by (auto simp: learned_record_def learned_ok_def Let_def learned_upsert_ok)
  show "\<not> valid_scope sc \<Longrightarrow>
      fst (learned_record io lp h sc a) = lp \<and> snd (learned_record io lp h sc a) \<noteq> None"
    by (simp add: learned_record_def valid_scope_def)
qed

section \<open>Durability\<close>

lemma learned_ok_disk [simp]: "learned_ok (lp\<lparr>lp_disk := d\<rparr>) = learned_ok lp"
  by (simp add: learned_ok_def)

lemma save_locked_None:
  "lp_path lp \<noteq> [] \<Longrightarrow> snd (save_locked io lp) = None \<Longrightarrow>
     fst (save_locked io lp) = lp\<lparr>lp_disk := Stored \<lparr>lf_schema = learned_schema, lf_entries = lp_entries lp\<rparr>\<rparr>"
  by (auto simp: save_locked_def split: option.splits)

lemma save_locked_Some: "snd (save_locked io lp) \<noteq> None \<Longrightarrow> fst (save_locked io lp) = lp"
  by (auto simp: save_locked_def split: option.splits)

lemma load_saved:
  assumes "learned_ok lp" "lp_disk lp = Stored \<lparr>lf_schema = learned_schema, lf_entries = lp_entries lp\<rparr>"
  shows "load_learned_policy (lp_path lp) (lp_disk lp) = Inr lp"
proof -
  have "map (\<lambda>e. e\<lparr>le_host := normalize_host (le_host e)\<rparr>) (lp_entries lp) = map id (lp_entries lp)"
    using assms(1) by (intro map_cong) (simp_all add: learned_ok_def list_all_iff)
  with assms(2) show ?thesis by (simp add: load_learned_policy_def)
qed

text \<open>
  C27: Permanent decisions survive a restart or leave the file alone.  A \<open>Record\<close> that returns no
  error has replaced the policy file by one that loads back as the very policy in memory; one
  that returns an error has not touched the file.
\<close>

theorem learned_record_durable:
  assumes "learned_ok lp" "lp_path lp \<noteq> []" "learned_record io lp host scope allow = (lp', err)"
  shows "(if err = None then load_learned_policy (lp_path lp) (lp_disk lp') = Inr lp'
          else lp_disk lp' = lp_disk lp)"
proof (cases "valid_scope scope")
  case False
  with assms(3) show ?thesis by (auto simp: learned_record_def valid_scope_def)
next
  case True
  define mem where "mem = lp\<lparr>lp_entries := learned_upsert (normalize_host host) scope
      (if allow then ''allow'' else ''deny'') (lp_entries lp)\<rparr>"
  have sv: "save_locked io mem = (lp', err)"
    using assms(3) True by (auto simp: learned_record_def valid_scope_def mem_def Let_def)
  have "learned_ok mem"
    using assms(1) by (simp add: mem_def learned_ok_def learned_upsert_ok)
  moreover have "lp_path mem = lp_path lp" "lp_disk mem = lp_disk lp" "lp_path mem \<noteq> []"
    using assms(2) by (simp_all add: mem_def)
  ultimately show ?thesis
    using sv save_locked_None [of mem io] save_locked_Some [of io mem] load_saved [of lp']
    by auto
qed

theorem learned_record_durable_witness:
  "load_learned_policy ''/p'' (lp_disk (fst (learned_record io_all_ok
     \<lparr>lp_path = ''/p'', lp_entries = [], lp_disk = Missing\<rparr> ''a.io'' ''host'' False))) =
   Inr (fst (learned_record io_all_ok \<lparr>lp_path = ''/p'', lp_entries = [], lp_disk = Missing\<rparr> ''a.io'' ''host'' False))"
proof -
  let ?lp = "\<lparr>lp_path = ''/p'', lp_entries = [], lp_disk = Missing\<rparr>"
  have "snd (learned_record io_all_ok ?lp ''a.io'' ''host'' False) = None"
    by (simp add: learned_record_def save_locked_def io_all_ok_def Let_def)
  then have "learned_record io_all_ok ?lp ''a.io'' ''host'' False =
      (fst (learned_record io_all_ok ?lp ''a.io'' ''host'' False), None)"
    by (metis prod.collapse)
  from learned_record_durable [OF _ _ this] show ?thesis by (simp add: learned_ok_def)
qed

text \<open>
  A failed save is still replayed.  When the write of the policy file fails, \<open>Record\<close>
  reports the error, for which the filter says the decision applies to this request only, but the
  entry is already in memory: a deny on a valid scope answers every covered host from then on.
\<close>

theorem learned_failed_save_replays:
  assumes "learned_ok lp" "valid_scope scope" "lp_path lp \<noteq> []" "io_rename io = Some e"
    and "match_host_rule (normalize_host h) (normalize_host host) scope"
  shows "snd (learned_record io lp host scope False) \<noteq> None \<and>
    lp_disk (fst (learned_record io lp host scope False)) = lp_disk lp \<and>
    learned_lookup (fst (learned_record io lp host scope False)) h = (False, True)"
proof -
  have err: "snd (learned_record io lp host scope False) \<noteq> None"
    using assms(2-4) by (auto simp: learned_record_def valid_scope_def Let_def save_locked_def split: option.split)
  then have "lp_disk (fst (learned_record io lp host scope False)) = lp_disk lp"
    using assms(2) by (auto simp: learned_record_def valid_scope_def Let_def save_locked_Some)
  with err show ?thesis
    using learned.recorded_deny [OF assms(1,2,5)] by simp
qed

theorem learned_failed_save_replays_witness:
  "let lp = fst (learned_record (io_all_ok\<lparr>io_rename := Some ''EXDEV''\<rparr>)
       \<lparr>lp_path = ''/p'', lp_entries = [], lp_disk = Missing\<rparr> ''a.io'' ''suffix'' False)
   in lp_disk lp = Missing \<and> learned_lookup lp ''a.io'' = (False, True)"
  using learned_failed_save_replays [of "\<lparr>lp_path = ''/p'', lp_entries = [], lp_disk = Missing\<rparr>" "''suffix''"
      "io_all_ok\<lparr>io_rename := Some ''EXDEV''\<rparr>" "''EXDEV''" "''a.io''" "''a.io''"]
  by (simp add: learned_ok_def valid_scope_def match_host_rule_def Let_def)

end
