(* ===== verification/NetFilter.thy ===== *)
theory NetFilter
  imports HardDeny Stores
begin

text \<open>
  The admission pipeline of the network guardrail (\<open>internal/netproxy/filter.go\<close>): \<open>Check\<close>,
  \<open>checkHostPinned\<close>, the rule table \<open>checkRules\<close>, the default decision with the interactive
  prompt, and the log and audit record of every decision.  The stores, the log and the audit
  trail are the state; DNS resolution and the dialog are functions of the configuration.
\<close>

section \<open>Data\<close>

datatype decision = Deny | Allow

record verdict =
  v_decision :: decision
  v_reason :: string
  v_scope :: string
  v_persisted :: bool
  v_intent_reason :: string

definition mk_verdict :: "decision \<Rightarrow> string \<Rightarrow> verdict" where
  "mk_verdict d r = \<lparr>v_decision = d, v_reason = r, v_scope = [], v_persisted = False, v_intent_reason = []\<rparr>"

record prompt_result =
  pr_allow :: bool
  pr_persist :: bool
  pr_session :: bool
  pr_scope :: string
  pr_suffix :: string
  pr_needs_intent :: bool
  pr_prior_reason :: string

text \<open>\<open>prompter\<close> is \<open>None\<close> when no dialog is available; \<open>resolve\<close> is \<open>None\<close> on a DNS error.\<close>

record filter_config =
  allow_domains :: "string list"
  deny_domains :: "string list"
  prompt_enabled :: bool
  on_unavailable_allow :: bool
  prompter :: "(string \<Rightarrow> int \<Rightarrow> prompt_result) option"
  resolve :: "string \<Rightarrow> addr list option"
  resolve_on_check_host :: bool
  allow_loopback_origin :: bool

text \<open>\<open>audit.NetDecision\<close> and the source classification of \<open>audit.Event\<close>.\<close>

record net_event =
  ne_host :: string
  ne_port :: int
  ne_allow :: bool
  ne_scope :: string
  ne_source :: string
  ne_persisted :: bool

definition net_decision :: "string \<Rightarrow> int \<Rightarrow> bool \<Rightarrow> string \<Rightarrow> string \<Rightarrow> bool \<Rightarrow> net_event" where
  "net_decision host port allow scope source persisted =
     \<lparr>ne_host = host, ne_port = port, ne_allow = allow, ne_scope = scope, ne_source = source,
      ne_persisted = persisted\<rparr>"

record filter_state =
  fs_learned :: "learned_policy option"
  fs_session :: "session_store option"
  fs_log :: "string list"
  fs_audit :: "net_event list"

section \<open>Logging\<close>

definition classify_reason :: "string \<Rightarrow> string" where
  "classify_reason reason =
     (if has_prefix reason ''hard-deny'' then ''hard-deny''
      else if has_prefix reason ''learned'' then ''learned''
      else if reason = ''deny_domain'' then ''blocklist''
      else if reason = ''allow_domain'' then ''allowlist''
      else if has_prefix reason ''prompt unavailable'' then ''unavailable''
      else if has_prefix reason ''prompt:'' then ''prompt''
      else if reason = ''not in allowlist'' then ''allowlist''
      else if has_prefix reason ''dns'' then ''dns''
      else if has_prefix reason ''session'' then ''session''
      else ''default'')"

definition log_line :: "string \<Rightarrow> int \<Rightarrow> verdict \<Rightarrow> string" where
  "log_line host port v =
     ''omac sandbox: net '' @ (if v_decision v = Allow then ''ALLOW'' else ''DENY'') @ '' '' @ host @
     '':'' @ show_int port @ '' ('' @ v_reason v @ '')''"

definition filter_log :: "string \<Rightarrow> int \<Rightarrow> verdict \<Rightarrow> filter_state \<Rightarrow> filter_state" where
  "filter_log host port v st =
     st\<lparr>fs_log := fs_log st @ [log_line host port v],
        fs_audit := fs_audit st @ [net_decision host port (v_decision v = Allow) (v_scope v)
                                    (classify_reason (v_reason v)) (v_persisted v)]\<rparr>"

section \<open>Rules\<close>

text \<open>\<open>lookupDecision\<close>: a nil store has no decision.\<close>

definition lookup_decision :: "('s \<Rightarrow> string \<Rightarrow> bool \<times> bool) \<Rightarrow> 's option \<Rightarrow> string \<Rightarrow> bool \<times> bool" where
  "lookup_decision lookup s host = (case s of None \<Rightarrow> (False, False) | Some st \<Rightarrow> lookup st host)"

definition check_rules :: "filter_config \<Rightarrow> filter_state \<Rightarrow> string \<Rightarrow> verdict option" where
  "check_rules cfg st host =
     (let (learned_allow, learned_found) = lookup_decision learned_lookup (fs_learned st) host;
          (session_allow, session_found) = lookup_decision session_lookup (fs_session st) host
      in if learned_found \<and> \<not> learned_allow
         then Some ((mk_verdict Deny ''learned permanent deny'')\<lparr>v_persisted := True\<rparr>)
         else if session_found \<and> \<not> session_allow then Some (mk_verdict Deny ''session deny'')
         else if match_domain_list host (deny_domains cfg) then Some (mk_verdict Deny ''deny_domain'')
         else if match_domain_list host (allow_domains cfg) then Some (mk_verdict Allow ''allow_domain'')
         else if session_found \<and> session_allow then Some (mk_verdict Allow ''session allow'')
         else if learned_found \<and> learned_allow
         then Some ((mk_verdict Allow ''learned permanent allow'')\<lparr>v_persisted := True\<rparr>)
         else None)"

text \<open>
  \<open>recordDecision\<close>, for either store: whether the decision will be replayed, the new store, and
  the warning logged on a failed upsert.
\<close>

definition record_target :: "string \<Rightarrow> prompt_result \<Rightarrow> string" where
  "record_target host res =
     (if pr_scope res = ''suffix'' \<and> pr_suffix res \<noteq> [] then pr_suffix res else host)"

definition record_decision ::
    "('s \<Rightarrow> string \<Rightarrow> string \<Rightarrow> bool \<Rightarrow> 's \<times> string option) \<Rightarrow> 's option \<Rightarrow> string \<Rightarrow> prompt_result \<Rightarrow>
     string \<Rightarrow> bool \<times> 's option \<times> string list" where
  "record_decision rec s host res what =
     (case s of
        None \<Rightarrow> (False, None, [])
      | Some st \<Rightarrow>
          (let (st', err) = rec st (record_target host res) (pr_scope res) (pr_allow res)
           in case err of
                None \<Rightarrow> (True, Some st', [])
              | Some e \<Rightarrow> (False, Some st', [''omac sandbox: warning: '' @ what @ '': '' @ e])))"

definition record_learned ::
    "save_io \<Rightarrow> string \<Rightarrow> prompt_result \<Rightarrow> filter_state \<Rightarrow> filter_state" where
  "record_learned io host res st =
     (let (_, l, w) = record_decision (learned_record io) (fs_learned st) host res ''persist learned decision''
      in st\<lparr>fs_learned := l, fs_log := fs_log st @ w\<rparr>)"

definition record_session :: "string \<Rightarrow> prompt_result \<Rightarrow> filter_state \<Rightarrow> bool \<times> filter_state" where
  "record_session host res st =
     (let (kept, s, w) = record_decision session_record (fs_session st) host res ''record session decision''
      in (kept, st\<lparr>fs_session := s, fs_log := fs_log st @ w\<rparr>))"

section \<open>The default decision\<close>

text \<open>
  \<open>promptCoalesced\<close> for a request that leads its prompt; the sharing of one dialog by
  concurrent requests is modelled in theory \<open>Coalesce\<close>.
\<close>

definition prompt_leading :: "filter_config \<Rightarrow> string \<Rightarrow> int \<Rightarrow> prompt_result option" where
  "prompt_leading cfg host port = map_option (\<lambda>p. p host port) (prompter cfg)"

definition prompt_verdict :: "prompt_result \<Rightarrow> bool \<Rightarrow> verdict" where
  "prompt_verdict res kept =
     (let scope = (if \<not> pr_persist res \<and> \<not> kept then ''once'' else pr_scope res)
      in if pr_needs_intent res
         then \<lparr>v_decision = Deny, v_reason = ''prompt:needs_intent'', v_scope = scope,
               v_persisted = pr_persist res, v_intent_reason = pr_prior_reason res\<rparr>
         else if pr_allow res
         then \<lparr>v_decision = Allow, v_reason = ''prompt:allow'', v_scope = scope,
               v_persisted = pr_persist res, v_intent_reason = []\<rparr>
         else \<lparr>v_decision = Deny, v_reason = ''prompt:deny'', v_scope = scope,
               v_persisted = pr_persist res, v_intent_reason = pr_prior_reason res\<rparr>)"

definition default_decision ::
    "filter_config \<Rightarrow> save_io \<Rightarrow> filter_state \<Rightarrow> string \<Rightarrow> int \<Rightarrow> (verdict \<times> bool) \<times> filter_state" where
  "default_decision cfg io st host port =
     (if prompt_enabled cfg then
        (case prompt_leading cfg host port of
           None \<Rightarrow>
             ((if on_unavailable_allow cfg
               then (mk_verdict Allow ''prompt unavailable: on_unavailable=allow'', True)
               else (mk_verdict Deny ''prompt unavailable: on_unavailable=deny'', True)), st)
         | Some res \<Rightarrow>
             (let st1 = (if pr_persist res then record_learned io host res st else st);
                  (kept, st2) = (if pr_session res then record_session host res st1 else (False, st1))
              in ((prompt_verdict res kept, True), st2)))
      else if allow_domains cfg \<noteq> [] then ((mk_verdict Deny ''not in allowlist'', True), st)
      else ((mk_verdict Allow ''default allow (blocklist mode)'', True), st))"

section \<open>The pipeline\<close>

text \<open>The loop over resolved addresses: the reason of the first denied one, or all of them.\<close>

fun screen_addrs :: "bool \<Rightarrow> addr list \<Rightarrow> string + addr list" where
  "screen_addrs skip_local [] = Inr []"
| "screen_addrs skip_local (a # as) =
     (case (if skip_local \<and> is_host_local a then None else hard_denied_addr a) of
        Some reason \<Rightarrow> Inl (''hard-deny: resolves to '' @ drop (length ''hard-deny '') reason)
      | None \<Rightarrow> (case screen_addrs skip_local as of Inl r \<Rightarrow> Inl r | Inr safe \<Rightarrow> Inr (a # safe)))"

type_synonym admission = "(verdict \<times> addr list) \<times> filter_state"

text \<open>Return a verdict with the addresses, through \<open>f.log\<close>.\<close>

definition answer :: "string \<Rightarrow> int \<Rightarrow> verdict \<Rightarrow> addr list \<Rightarrow> filter_state \<Rightarrow> admission" where
  "answer h port v addrs st = ((v, addrs), filter_log h port v st)"

definition filter_check ::
    "filter_config \<Rightarrow> save_io \<Rightarrow> filter_state \<Rightarrow> string \<Rightarrow> int \<Rightarrow> admission" where
  "filter_check cfg io st host port =
     (let h = normalize_host host in
      if is_hard_denied_host h then answer h port (mk_verdict Deny ''hard-deny metadata host'') [] st
      else case parse_addr h of
        Some ip \<Rightarrow>
          (case hard_denied_addr ip of
             Some reason \<Rightarrow> answer h port (mk_verdict Deny reason) [] st
           | None \<Rightarrow>
          (case check_rules cfg st h of
             Some v \<Rightarrow> answer h port v [ip] st
           | None \<Rightarrow>
             (let ((v, ok), st') = default_decision cfg io st h port
              in if ok then answer h port v [ip] st'
                 else answer h port (mk_verdict Deny ''default deny'') [] st')))
      | None \<Rightarrow>
          (case resolve cfg h of
             None \<Rightarrow> answer h port (mk_verdict Deny ''dns resolution failed'') [] st
           | Some addrs \<Rightarrow>
               if addrs = [] then answer h port (mk_verdict Deny ''dns resolution failed'') [] st
               else case screen_addrs (allow_loopback_origin cfg) addrs of
                 Inl reason \<Rightarrow> answer h port (mk_verdict Deny reason) [] st
               | Inr safe \<Rightarrow>
                   (case check_rules cfg st h of
                      Some v \<Rightarrow> answer h port v (if v_decision v = Deny then [] else safe) st
                    | None \<Rightarrow>
                      (let ((v, ok), st') = default_decision cfg io st h port
                       in if ok then answer h port v (if v_decision v = Deny then [] else safe) st'
                          else answer h port (mk_verdict Deny ''default deny'') [] st'))))"

text \<open>
  \<open>checkHostPinned\<close>.  First the addresses to pin, or the verdict that ends the check.
\<close>

definition pin_addrs :: "filter_config \<Rightarrow> string \<Rightarrow> verdict + addr list" where
  "pin_addrs cfg h =
     (case parse_addr h of
        Some ip \<Rightarrow>
          (case hard_denied_addr ip of Some reason \<Rightarrow> Inl (mk_verdict Deny reason) | None \<Rightarrow> Inr [ip])
      | None \<Rightarrow>
          if \<not> resolve_on_check_host cfg then Inr []
          else (case resolve cfg h of
             None \<Rightarrow> Inl (mk_verdict Deny ''dns resolution failed'')
           | Some addrs \<Rightarrow>
               if addrs = [] then Inl (mk_verdict Deny ''dns resolution failed'')
               else case screen_addrs False addrs of
                 Inl reason \<Rightarrow> Inl (mk_verdict Deny reason) | Inr pinned \<Rightarrow> Inr pinned))"

definition check_host_pinned ::
    "filter_config \<Rightarrow> save_io \<Rightarrow> filter_state \<Rightarrow> string \<Rightarrow> int \<Rightarrow> admission" where
  "check_host_pinned cfg io st host port =
     (let h = normalize_host host in
      if is_hard_denied_host h then answer h port (mk_verdict Deny ''hard-deny metadata host'') [] st
      else case pin_addrs cfg h of
        Inl v \<Rightarrow> answer h port v [] st
      | Inr pinned \<Rightarrow>
          (case check_rules cfg st h of
             Some v \<Rightarrow> answer h port v (if v_decision v = Deny then [] else pinned) st
           | None \<Rightarrow>
             (let ((v, ok), st') = default_decision cfg io st h port
              in if ok then answer h port v (if v_decision v = Deny then [] else pinned) st'
                 else answer h port (mk_verdict Deny ''default deny'') [] st')))"

definition check_host ::
    "filter_config \<Rightarrow> save_io \<Rightarrow> filter_state \<Rightarrow> string \<Rightarrow> int \<Rightarrow> verdict \<times> filter_state" where
  "check_host cfg io st host port =
     (let ((v, _), st') = check_host_pinned cfg io st host port in (v, st'))"

end
