(* ===== verification/NetFilterProps.thy ===== *)
theory NetFilterProps
  imports NetFilter
begin

text \<open>
  Facts about the admission pipeline: its two entry points in a common normal form, soundness of
  an \<open>Allow\<close>, the rank of the rules, replay of prompt decisions, and the audit trail.
\<close>

section \<open>The pipeline in normal form\<close>

text \<open>What the rules, or else the default, decide for a host whose addresses passed.\<close>

definition rule_or_default ::
    "filter_config \<Rightarrow> save_io \<Rightarrow> filter_state \<Rightarrow> string \<Rightarrow> int \<Rightarrow> verdict \<times> filter_state" where
  "rule_or_default cfg io st h port =
     (case check_rules cfg st h of
        Some v \<Rightarrow> (v, st)
      | None \<Rightarrow> (fst (fst (default_decision cfg io st h port)), snd (default_decision cfg io st h port)))"

text \<open>The addresses \<open>Check\<close> admits, or the verdict that ends it.\<close>

definition check_addrs :: "filter_config \<Rightarrow> string \<Rightarrow> verdict + addr list" where
  "check_addrs cfg h =
     (case parse_addr h of
        Some ip \<Rightarrow>
          (case hard_denied_addr ip of Some reason \<Rightarrow> Inl (mk_verdict Deny reason) | None \<Rightarrow> Inr [ip])
      | None \<Rightarrow>
          (case resolve cfg h of
             None \<Rightarrow> Inl (mk_verdict Deny ''dns resolution failed'')
           | Some addrs \<Rightarrow>
               if addrs = [] then Inl (mk_verdict Deny ''dns resolution failed'')
               else case screen_addrs (allow_loopback_origin cfg) addrs of
                 Inl reason \<Rightarrow> Inl (mk_verdict Deny reason) | Inr safe \<Rightarrow> Inr safe))"

lemma mk_verdict_simps [simp]:
  "v_decision (mk_verdict d r) = d" "v_reason (mk_verdict d r) = r" "v_scope (mk_verdict d r) = []"
  "v_persisted (mk_verdict d r) = False" "v_intent_reason (mk_verdict d r) = []"
  by (simp_all add: mk_verdict_def)

lemma default_decision_decides [simp]: "snd (fst (default_decision cfg io st h port))"
  by (simp add: default_decision_def split: option.split prod.split)

lemma default_decision_shape:
  obtains v st' where "default_decision cfg io st h port = ((v, True), st')"
  using default_decision_decides [of cfg io st h port]
  by (metis (full_types) prod.collapse)

lemma filter_check_eq:
  "filter_check cfg io st host port =
     (let h = normalize_host host in
      if is_hard_denied_host h then answer h port (mk_verdict Deny ''hard-deny metadata host'') [] st
      else case check_addrs cfg h of
        Inl v \<Rightarrow> answer h port v [] st
      | Inr safe \<Rightarrow>
          (let (v, st') = rule_or_default cfg io st h port
           in answer h port v (if v_decision v = Deny \<and> parse_addr h = None then [] else safe) st'))"
proof -
  obtain v st' where "default_decision cfg io st (normalize_host host) port = ((v, True), st')"
    by (rule default_decision_shape)
  then show ?thesis
    by (simp add: filter_check_def check_addrs_def rule_or_default_def Let_def
        split: option.split sum.split)
qed

lemma check_host_pinned_eq:
  "check_host_pinned cfg io st host port =
     (let h = normalize_host host in
      if is_hard_denied_host h then answer h port (mk_verdict Deny ''hard-deny metadata host'') [] st
      else case pin_addrs cfg h of
        Inl v \<Rightarrow> answer h port v [] st
      | Inr pinned \<Rightarrow>
          (let (v, st') = rule_or_default cfg io st h port
           in answer h port v (if v_decision v = Deny then [] else pinned) st'))"
proof -
  obtain v st' where "default_decision cfg io st (normalize_host host) port = ((v, True), st')"
    by (rule default_decision_shape)
  then show ?thesis
    by (simp add: check_host_pinned_def rule_or_default_def Let_def
        split: option.split sum.split)
qed

lemma pin_addrs_check_addrs:
  "resolve_on_check_host cfg \<Longrightarrow> \<not> allow_loopback_origin cfg \<Longrightarrow> pin_addrs cfg h = check_addrs cfg h"
  by (simp add: pin_addrs_def check_addrs_def split: option.split sum.split)

lemma screen_addrs_Inr:
  "screen_addrs skip as = Inr safe \<Longrightarrow>
     safe = as \<and> (\<forall>a \<in> set as. (skip \<and> is_host_local a) \<or> hard_denied_addr a = None)"
  by (induction as arbitrary: safe) (auto split: option.splits sum.splits if_splits)

lemma screen_addrs_strict:
  "screen_addrs False as = Inr safe \<Longrightarrow> safe = as \<and> (\<forall>a \<in> set as. hard_denied_addr a = None)"
  using screen_addrs_Inr [of False as safe] by simp

lemma check_addrs_Inl: "check_addrs cfg h = Inl v \<Longrightarrow> v_decision v = Deny"
  by (auto simp: check_addrs_def split: option.splits if_splits sum.splits)

lemma pin_addrs_Inl: "pin_addrs cfg h = Inl v \<Longrightarrow> v_decision v = Deny"
  by (auto simp: pin_addrs_def split: option.splits if_splits sum.splits)

text \<open>The addresses that came through are the resolved ones, all of them, and none is denied.\<close>

definition pinned_ok :: "filter_config \<Rightarrow> string \<Rightarrow> addr list \<Rightarrow> bool" where
  "pinned_ok cfg h addrs \<longleftrightarrow>
     addrs \<noteq> [] \<and> (\<forall>a \<in> set addrs. hard_denied_addr a = None) \<and>
     (case parse_addr h of Some ip \<Rightarrow> addrs = [ip] | None \<Rightarrow> resolve cfg h = Some addrs)"

lemma check_addrs_Inr:
  assumes "check_addrs cfg h = Inr addrs" "\<not> allow_loopback_origin cfg"
  shows "pinned_ok cfg h addrs"
  using assms
  by (auto simp: check_addrs_def pinned_ok_def dest!: screen_addrs_strict
      split: option.splits if_splits sum.splits)

section \<open>Rules\<close>

abbreviation remembered_deny :: "filter_state \<Rightarrow> string \<Rightarrow> bool" where
  "remembered_deny st h \<equiv>
     lookup_decision learned_lookup (fs_learned st) h = (False, True) \<or>
     lookup_decision session_lookup (fs_session st) h = (False, True)"

abbreviation remembered_allow :: "filter_state \<Rightarrow> string \<Rightarrow> bool" where
  "remembered_allow st h \<equiv>
     lookup_decision learned_lookup (fs_learned st) h = (True, True) \<or>
     lookup_decision session_lookup (fs_session st) h = (True, True)"

lemma learned_lookup_range: "lookup_decision learned_lookup s h \<in> {(False, False), (False, True), (True, True)}"
  using learned.allow_found by (cases s) (auto simp: lookup_decision_def prod_eq_iff)

lemma session_lookup_range: "lookup_decision session_lookup s h \<in> {(False, False), (False, True), (True, True)}"
  using session.allow_found by (cases s) (auto simp: lookup_decision_def prod_eq_iff)

lemma check_rules_cases:
  "check_rules cfg st h =
     (if lookup_decision learned_lookup (fs_learned st) h = (False, True)
      then Some ((mk_verdict Deny ''learned permanent deny'')\<lparr>v_persisted := True\<rparr>)
      else if lookup_decision session_lookup (fs_session st) h = (False, True)
      then Some (mk_verdict Deny ''session deny'')
      else if match_domain_list h (deny_domains cfg) then Some (mk_verdict Deny ''deny_domain'')
      else if match_domain_list h (allow_domains cfg) then Some (mk_verdict Allow ''allow_domain'')
      else if lookup_decision session_lookup (fs_session st) h = (True, True)
      then Some (mk_verdict Allow ''session allow'')
      else if lookup_decision learned_lookup (fs_learned st) h = (True, True)
      then Some ((mk_verdict Allow ''learned permanent allow'')\<lparr>v_persisted := True\<rparr>)
      else None)"
  using learned_lookup_range [of "fs_learned st" h] session_lookup_range [of "fs_session st" h]
  by (auto simp: check_rules_def)

lemma check_rules_prompter: "check_rules (cfg\<lparr>prompter := q\<rparr>) st h = check_rules cfg st h"
  by (simp add: check_rules_cases)

lemma check_rules_deny_iff:
  "(\<exists>v. check_rules cfg st h = Some v \<and> v_decision v = Deny) \<longleftrightarrow>
     remembered_deny st h \<or> match_domain_list h (deny_domains cfg)"
  by (auto simp: check_rules_cases)

lemma check_rules_allow_iff:
  "(\<exists>v. check_rules cfg st h = Some v \<and> v_decision v = Allow) \<longleftrightarrow>
     \<not> remembered_deny st h \<and> \<not> match_domain_list h (deny_domains cfg) \<and>
     (match_domain_list h (allow_domains cfg) \<or> remembered_allow st h)"
  by (auto simp: check_rules_cases)

lemma check_rules_None_iff:
  "check_rules cfg st h = None \<longleftrightarrow>
     \<not> remembered_deny st h \<and> \<not> remembered_allow st h \<and>
     \<not> match_domain_list h (deny_domains cfg) \<and> \<not> match_domain_list h (allow_domains cfg)"
  by (auto simp: check_rules_cases)

lemma check_rules_Some:
  assumes "check_rules cfg st h = Some v"
  shows "v_decision v = Deny \<longleftrightarrow> remembered_deny st h \<or> match_domain_list h (deny_domains cfg)"
  using assms by (cases "v_decision v") (auto simp: check_rules_cases split: if_splits)

text \<open>Why a host without a rule was allowed.\<close>

definition default_allows :: "filter_config \<Rightarrow> string \<Rightarrow> int \<Rightarrow> bool" where
  "default_allows cfg h port \<longleftrightarrow>
     (if prompt_enabled cfg
      then (case prompter cfg of
              None \<Rightarrow> on_unavailable_allow cfg
            | Some p \<Rightarrow> pr_allow (p h port) \<and> \<not> pr_needs_intent (p h port))
      else allow_domains cfg = [])"

lemma prompt_verdict_allow [simp]:
  "v_decision (prompt_verdict res kept) = Allow \<longleftrightarrow> pr_allow res \<and> \<not> pr_needs_intent res"
  by (simp add: prompt_verdict_def Let_def)

lemma default_decision_allow:
  "v_decision (fst (fst (default_decision cfg io st h port))) = Allow \<longleftrightarrow> default_allows cfg h port"
  by (simp add: default_decision_def default_allows_def prompt_leading_def Let_def
      split: option.split prod.split)

lemma rule_or_default_allow:
  assumes "rule_or_default cfg io st h port = (v, st')"
  shows "v_decision v = Allow \<longleftrightarrow>
    \<not> remembered_deny st h \<and> \<not> match_domain_list h (deny_domains cfg) \<and>
    (match_domain_list h (allow_domains cfg) \<or> remembered_allow st h \<or> default_allows cfg h port)"
proof (cases "check_rules cfg st h")
  case None
  then have "v_decision v = Allow \<longleftrightarrow> default_allows cfg h port"
    using assms by (auto simp: rule_or_default_def simp flip: default_decision_allow [of cfg io st])
  with None show ?thesis by (auto simp: check_rules_None_iff)
next
  case (Some w)
  then have vw: "v = w" using assms by (simp add: rule_or_default_def)
  have "v_decision w = Allow \<longleftrightarrow>
      \<not> remembered_deny st h \<and> \<not> match_domain_list h (deny_domains cfg) \<and>
      (match_domain_list h (allow_domains cfg) \<or> remembered_allow st h)"
    using check_rules_allow_iff [of cfg st h] unfolding Some option.inject by blast
  moreover have "v_decision w = Deny \<longleftrightarrow> remembered_deny st h \<or> match_domain_list h (deny_domains cfg)"
    by (rule check_rules_Some [OF Some])
  ultimately show ?thesis
    unfolding vw by (cases "v_decision w") blast+
qed

section \<open>Soundness of an Allow\<close>

lemma answer_eq: "answer h port v addrs st = ((v', addrs'), st') \<longleftrightarrow>
    v' = v \<and> addrs' = addrs \<and> st' = filter_log h port v st"
  by (auto simp: answer_def)

lemma filter_check_Allow:
  assumes "filter_check cfg io st host port = ((v, addrs), st')" "v_decision v = Allow"
  shows "\<not> is_hard_denied_host (normalize_host host) \<and>
    check_addrs cfg (normalize_host host) = Inr addrs \<and>
    (\<exists>st1. rule_or_default cfg io st (normalize_host host) port = (v, st1))"
  using assms
  by (auto simp: filter_check_eq Let_def answer_eq dest: check_addrs_Inl
      split: if_splits sum.splits prod.splits)

text \<open>
  C1: Soundness of admission.  Whenever \<open>Filter.Check\<close> answers Allow, the host is no metadata
  host name or subdomain of one, the addresses handed to the dialer are exactly the literal or
  exactly what this one DNS resolution returned, none of them is a hard-denied address, no
  remembered or profile deny covers the host, and somebody allowed it: the allow list, a
  remembered allow, or the default (the user at the prompt, \<open>on_unavailable=allow\<close> without a
  dialog, or a profile with neither prompt nor allow list).
\<close>

theorem check_allow_sound:
  assumes "filter_check cfg io st host port = ((v, addrs), st')" "v_decision v = Allow"
    and "\<not> allow_loopback_origin cfg"
  shows "\<not> is_hard_denied_host (normalize_host host) \<and>
    addrs \<noteq> [] \<and> (\<forall>a \<in> set addrs. hard_denied_addr a = None) \<and>
    (case parse_addr (normalize_host host) of
       Some ip \<Rightarrow> addrs = [ip] | None \<Rightarrow> resolve cfg (normalize_host host) = Some addrs) \<and>
    \<not> remembered_deny st (normalize_host host) \<and>
    \<not> match_domain_list (normalize_host host) (deny_domains cfg) \<and>
    (match_domain_list (normalize_host host) (allow_domains cfg) \<or>
     remembered_allow st (normalize_host host) \<or> default_allows cfg (normalize_host host) port)"
proof -
  let ?h = "normalize_host host"
  obtain st1 where nh: "\<not> is_hard_denied_host ?h" and ca: "check_addrs cfg ?h = Inr addrs"
    and rd: "rule_or_default cfg io st ?h port = (v, st1)"
    using filter_check_Allow [OF assms(1,2)] by blast
  show ?thesis
    using nh check_addrs_Inr [OF ca assms(3)] rule_or_default_allow [OF rd] assms(2)
    by (simp add: pinned_ok_def)
qed

definition demo_cfg :: filter_config where
  "demo_cfg = \<lparr>allow_domains = [''*.example.com''], deny_domains = [''bad.example.com''],
     prompt_enabled = False, on_unavailable_allow = False, prompter = None,
     resolve = (\<lambda>h. Some [V4 0x5DB8D822]), resolve_on_check_host = True, allow_loopback_origin = False\<rparr>"

definition demo_state :: filter_state where
  "demo_state = \<lparr>fs_learned = None, fs_session = Some [], fs_log = [], fs_audit = []\<rparr>"

lemmas filter_eval =
  filter_check_def check_host_pinned_def pin_addrs_def answer_def check_rules_cases
  lookup_decision_def session_lookup_def learned_lookup_def normalize_host_def
  is_hard_denied_host_def hard_deny_hosts_def hard_deny_host_suffixes_def match_host_or_suffix_def
  hard_denied_addr_def is_link_local_iff is_host_local_iff is_cloud_metadata_iff unmap_def is_4in6_def
  cloud_metadata_addrs_eval Let_def mk_verdict_def default_decision_def demo_cfg_def demo_state_def

lemma demo_check:
  "fst (filter_check demo_cfg io_all_ok demo_state ''API.example.com.'' 443) =
     (mk_verdict Allow ''allow_domain'', [V4 0x5DB8D822])"
  by (simp add: filter_eval gostr)

lemma demo_check_lower:
  "fst (filter_check demo_cfg io_all_ok demo_state ''api.example.com'' 443) =
     (mk_verdict Allow ''allow_domain'', [V4 0x5DB8D822])"
  by (simp add: filter_eval gostr)

theorem check_allow_sound_witness:
  "\<not> match_domain_list ''api.example.com'' (deny_domains demo_cfg) \<and>
   resolve demo_cfg ''api.example.com'' = Some [V4 0x5DB8D822] \<and> hard_denied_addr (V4 0x5DB8D822) = None"
proof -
  obtain st' where eq: "filter_check demo_cfg io_all_ok demo_state ''API.example.com.'' 443 =
      ((mk_verdict Allow ''allow_domain'', [V4 0x5DB8D822]), st')"
    using demo_check by (metis prod.collapse)
  have h: "normalize_host ''API.example.com.'' = ''api.example.com''"
    by (simp add: normalize_host_def gostr)
  have p: "parse_addr ''api.example.com'' = None"
    by (simp add: gostr)
  have "\<not> allow_loopback_origin demo_cfg" by (simp add: demo_cfg_def)
  from check_allow_sound [OF eq _ this] show ?thesis by (simp add: h p)
qed

text \<open>
  C18: The rank of the rules, order-free: a host is denied by rule exactly when a remembered deny
  or a \<open>deny_domain\<close> entry covers it, allowed by rule exactly when none does and an
  \<open>allow_domain\<close> entry or a remembered allow covers it, and left to the default otherwise.
\<close>

theorem check_rules_rank:
  fixes cfg st h
  defines "learned \<equiv> (case fs_learned st of None \<Rightarrow> {} | Some lp \<Rightarrow> learned_rules (lp_entries lp))"
    and "session \<equiv> (case fs_session st of None \<Rightarrow> {} | Some s \<Rightarrow> session_rules s)"
    and "nh \<equiv> normalize_host h"
  defines "denied \<equiv> covering (learned \<union> session) nh False \<or> (\<exists>raw \<in> set (deny_domains cfg). domain_entry_covers raw h)"
    and "allowed \<equiv> covering (learned \<union> session) nh True \<or> (\<exists>raw \<in> set (allow_domains cfg). domain_entry_covers raw h)"
  shows "((\<exists>v. check_rules cfg st h = Some v \<and> v_decision v = Deny) \<longleftrightarrow> denied) \<and>
    ((\<exists>v. check_rules cfg st h = Some v \<and> v_decision v = Allow) \<longleftrightarrow> \<not> denied \<and> allowed) \<and>
    (check_rules cfg st h = None \<longleftrightarrow> \<not> denied \<and> \<not> allowed)"
proof -
  have l: "lookup_decision learned_lookup (fs_learned st) h = rules_verdict learned nh"
    by (simp add: lookup_decision_def learned_def nh_def learned.lookup_law rules_verdict_def split: option.split)
  have s: "lookup_decision session_lookup (fs_session st) h = rules_verdict session nh"
    by (simp add: lookup_decision_def session_def nh_def session.lookup_law rules_verdict_def split: option.split)
  have c: "covering (learned \<union> session) nh b \<longleftrightarrow> covering learned nh b \<or> covering session nh b" for b
    by (auto simp: covering_def)
  have "remembered_deny st h \<longleftrightarrow> covering (learned \<union> session) nh False"
    unfolding l s c by (simp add: rules_verdict_def)
  moreover have "\<not> remembered_deny st h \<Longrightarrow> remembered_allow st h \<longleftrightarrow> covering (learned \<union> session) nh True"
    unfolding l s c by (auto simp: rules_verdict_def split: if_splits)
  ultimately show ?thesis
    unfolding denied_def allowed_def match_domain_list_iff [symmetric]
      check_rules_deny_iff check_rules_allow_iff check_rules_None_iff by blast
qed

text \<open>
  The two entry points agree.  With \<open>ResolveOnCheckHost\<close> set (and the loopback test seam
  off), \<open>checkHostPinned\<close> decides every request as \<open>Check\<close> does: the same verdict, the same
  stores, log and audit trail, on Allow the same pinned addresses, and on Deny none.
\<close>

theorem check_host_pinned_agrees:
  assumes "resolve_on_check_host cfg" "\<not> allow_loopback_origin cfg"
  shows "fst (fst (check_host_pinned cfg io st host port)) = fst (fst (filter_check cfg io st host port)) \<and>
    snd (check_host_pinned cfg io st host port) = snd (filter_check cfg io st host port) \<and>
    snd (fst (check_host_pinned cfg io st host port)) =
      (if v_decision (fst (fst (filter_check cfg io st host port))) = Allow
       then snd (fst (filter_check cfg io st host port)) else [])"
proof -
  have d: "v_decision v = Deny \<longleftrightarrow> v_decision v \<noteq> Allow" for v :: verdict
    by (cases "v_decision v") auto
  show ?thesis
    unfolding check_host_pinned_eq filter_check_eq pin_addrs_check_addrs [OF assms]
    by (auto simp: Let_def answer_def d dest: check_addrs_Inl split: sum.split prod.split)
qed

theorem check_host_pinned_agrees_witness:
  "fst (check_host_pinned demo_cfg io_all_ok demo_state ''API.example.com.'' 443) =
     (mk_verdict Allow ''allow_domain'', [V4 0x5DB8D822])"
proof -
  have "resolve_on_check_host demo_cfg" "\<not> allow_loopback_origin demo_cfg"
    by (simp_all add: demo_cfg_def)
  from check_host_pinned_agrees [OF this, of io_all_ok demo_state "''API.example.com.''" 443]
  show ?thesis by (simp add: demo_check prod_eq_iff)
qed

section \<open>The zone gap\<close>

text \<open>A profile with neither lists nor a prompt: the pure blocklist mode of \<open>defaultDecision\<close>.\<close>

definition open_cfg :: filter_config where
  "open_cfg = demo_cfg\<lparr>allow_domains := [], deny_domains := []\<rparr>"

lemma parse_zoned_metadata:
  "parse_addr ''fd00:ec2::254%eth0'' = Some (V6 0xfd000ec2000000000000000000000254 ''eth0'')"
  by (simp add: gostr)

text \<open>
  The hard deny does not see through an IPv6 zone.  The AWS metadata address
  \<open>fd00:ec2::254\<close> is refused as a literal, but the same literal with a zone is neither in the
  host list nor equal to the listed address, so without a deny rule in blocklist mode \<open>Check\<close>
  answers Allow and pins that very address for dialing.
\<close>

theorem zoned_metadata_literal_admitted:
  "fst (filter_check open_cfg io_all_ok demo_state ''fd00:ec2::254'' 80) =
     (mk_verdict Deny ''hard-deny metadata host'', []) \<and>
   fst (filter_check open_cfg io_all_ok demo_state ''fd00:ec2::254%eth0'' 80) =
     (mk_verdict Allow ''default allow (blocklist mode)'',
      [V6 0xfd000ec2000000000000000000000254 ''eth0''])"
proof
  show "fst (filter_check open_cfg io_all_ok demo_state ''fd00:ec2::254'' 80) =
     (mk_verdict Deny ''hard-deny metadata host'', [])"
    by (simp add: filter_eval gostr)
  have n: "normalize_host ''fd00:ec2::254%eth0'' = ''fd00:ec2::254%eth0''"
    by (simp add: normalize_host_def gostr)
  have nh: "\<not> is_hard_denied_host ''fd00:ec2::254%eth0''"
    by (simp add: filter_eval)
  have na: "hard_denied_addr (V6 0xfd000ec2000000000000000000000254 ''eth0'') = None"
    using denied_ranges [of "V6 0xfd000ec2000000000000000000000254 ''eth0''"]
    by (simp add: unmap_def is_4in6_def)
  have r: "check_rules open_cfg demo_state ''fd00:ec2::254%eth0'' = None"
    by (simp add: check_rules_cases open_cfg_def demo_cfg_def demo_state_def lookup_decision_def
        session_lookup_def)
  have d: "default_decision open_cfg io_all_ok demo_state ''fd00:ec2::254%eth0'' 80 =
      ((mk_verdict Allow ''default allow (blocklist mode)'', True), demo_state)"
    by (simp add: default_decision_def open_cfg_def demo_cfg_def)
  show "fst (filter_check open_cfg io_all_ok demo_state ''fd00:ec2::254%eth0'' 80) =
     (mk_verdict Allow ''default allow (blocklist mode)'',
      [V6 0xfd000ec2000000000000000000000254 ''eth0''])"
    by (simp add: filter_check_def Let_def n nh na r d parse_zoned_metadata answer_def)
qed

section \<open>Names the local resolver does not know\<close>

text \<open>
  A chained host must resolve locally.  With \<open>ResolveOnCheckHost\<close> set, a name that does not
  resolve on this machine is denied before any rule is read, so that neither \<open>allow_domain\<close> nor a
  remembered allow admits a name only the upstream proxy can resolve.
\<close>

theorem unresolved_chained_host_denied:
  assumes "resolve_on_check_host cfg" "resolve cfg (normalize_host host) = None \<or> resolve cfg (normalize_host host) = Some []"
    and "parse_addr (normalize_host host) = None"
  shows "v_decision (fst (check_host cfg io st host port)) = Deny \<and>
    snd (fst (check_host_pinned cfg io st host port)) = [] \<and>
    fs_learned (snd (check_host cfg io st host port)) = fs_learned st \<and>
    fs_session (snd (check_host cfg io st host port)) = fs_session st"
proof -
  have "pin_addrs cfg (normalize_host host) = Inl (mk_verdict Deny ''dns resolution failed'')"
    using assms by (auto simp: pin_addrs_def)
  then show ?thesis
    by (simp add: check_host_def check_host_pinned_eq Let_def answer_def filter_log_def split: prod.split)
qed

definition vpn_cfg :: filter_config where
  "vpn_cfg = demo_cfg\<lparr>allow_domains := [''corp.example''], resolve := (\<lambda>_. None)\<rparr>"

theorem unresolved_chained_host_denied_witness:
  "match_domain_list ''corp.example'' (allow_domains vpn_cfg) \<and>
   v_decision (fst (check_host vpn_cfg io_all_ok demo_state ''corp.example'' 443)) = Deny"
proof -
  have n: "normalize_host ''corp.example'' = ''corp.example''" "parse_addr ''corp.example'' = None"
    by (simp_all add: normalize_host_def gostr)
  have "match_domain_list ''corp.example'' (allow_domains vpn_cfg)"
    by (simp add: vpn_cfg_def gostr)
  with unresolved_chained_host_denied [of vpn_cfg "''corp.example''" io_all_ok demo_state 443]
  show ?thesis by (simp add: n vpn_cfg_def demo_cfg_def)
qed

section \<open>Prompt decisions are replayed\<close>

lemma filter_log_stores [simp]:
  "fs_learned (filter_log h p v st) = fs_learned st" "fs_session (filter_log h p v st) = fs_session st"
  by (simp_all add: filter_log_def)

lemma check_rules_cong:
  "fs_learned st = fs_learned st2 \<Longrightarrow> fs_session st = fs_session st2 \<Longrightarrow>
     check_rules cfg st h = check_rules cfg st2 h"
  by (simp add: check_rules_def)

lemma answer_snd [simp]: "snd (answer h p v as st) = filter_log h p v st"
  "fst (answer h p v as st) = (v, as)"
  by (simp_all add: answer_def)

text \<open>A host with a rule: the verdict is the rule's or an earlier Deny, and no store changes.\<close>

lemma filter_check_ruled:
  assumes "check_rules cfg st (normalize_host host) = Some v"
  shows "fst (fst (filter_check cfg io st host port)) \<in> {w. v_decision w = Deny} \<union> {v}"
    and "fs_learned (snd (filter_check cfg io st host port)) = fs_learned st"
    and "fs_session (snd (filter_check cfg io st host port)) = fs_session st"
    and "filter_check (cfg\<lparr>prompter := q\<rparr>) io2 st host port = filter_check cfg io st host port"
proof -
  have rd: "rule_or_default cfg io st (normalize_host host) port = (v, st)"
    using assms by (simp add: rule_or_default_def)
  have "check_rules (cfg\<lparr>prompter := q\<rparr>) st (normalize_host host) = Some v"
    using assms by (simp only: check_rules_prompter)
  then have rd2: "rule_or_default (cfg\<lparr>prompter := q\<rparr>) io2 st (normalize_host host) port = (v, st)"
    by (simp add: rule_or_default_def)
  have ca: "check_addrs (cfg\<lparr>prompter := q\<rparr>) h = check_addrs cfg h" for h
    by (simp add: check_addrs_def split: option.split sum.split)
  show "fst (fst (filter_check cfg io st host port)) \<in> {w. v_decision w = Deny} \<union> {v}"
    by (auto simp: filter_check_eq Let_def rd dest: check_addrs_Inl split: sum.split)
  show "fs_learned (snd (filter_check cfg io st host port)) = fs_learned st"
    "fs_session (snd (filter_check cfg io st host port)) = fs_session st"
    by (auto simp: filter_check_eq Let_def rd split: sum.split)
  show "filter_check (cfg\<lparr>prompter := q\<rparr>) io2 st host port = filter_check cfg io st host port"
    by (cases "check_addrs cfg (normalize_host host)") (simp_all add: filter_check_eq Let_def rd rd2 ca)
qed

text \<open>What the first request on a host does to the session store when the user scopes it.\<close>

lemma filter_check_records_session:
  assumes "check_addrs cfg (normalize_host host) = Inr addrs" "\<not> is_hard_denied_host (normalize_host host)"
    and "check_rules cfg st (normalize_host host) = None"
    and "prompt_enabled cfg" "prompter cfg = Some p" "res = p (normalize_host host) port"
    and "pr_session res" "fs_session st = Some s"
  shows "fs_session (snd (filter_check cfg io st host port)) =
    Some (fst (session_record s (record_target (normalize_host host) res) (pr_scope res) (pr_allow res)))"
proof -
  let ?h = "normalize_host host"
  have l: "fs_session (record_learned io ?h res st) = fs_session st"
    by (simp add: record_learned_def split: prod.split)
  have r: "fs_session (snd (record_session ?h res st1)) =
      Some (fst (session_record s (record_target ?h res) (pr_scope res) (pr_allow res)))"
    if "fs_session st1 = Some s" for st1
    using that by (simp add: record_session_def record_decision_def split: prod.split option.split)
  have "fs_session (snd (default_decision cfg io st ?h port)) =
      Some (fst (session_record s (record_target ?h res) (pr_scope res) (pr_allow res)))"
    using assms r l
    by (auto simp: default_decision_def prompt_leading_def Let_def split: prod.split)
       (metis snd_conv)+
  with assms show ?thesis
    by (simp add: filter_check_eq rule_or_default_def Let_def)
qed

text \<open>
  A deny given for the session sticks.  When the user answers the prompt of an undecided host
  with a session-scoped deny, every later request for a host the chosen scope covers is denied
  without a dialog (whatever the prompter), without a change to the stores, under any allow list.
\<close>

theorem session_deny_sticks:
  assumes "check_addrs cfg (normalize_host host) = Inr addrs" "\<not> is_hard_denied_host (normalize_host host)"
    and "check_rules cfg st (normalize_host host) = None"
    and "prompt_enabled cfg" "prompter cfg = Some p" "res = p (normalize_host host) port"
    and "pr_session res" "\<not> pr_allow res" "valid_scope (pr_scope res)"
    and "fs_session st = Some s" "session_ok s"
    and "st' = snd (filter_check cfg io st host port)"
    and "match_host_rule (normalize_host host2)
           (normalize_host (record_target (normalize_host host) res)) (pr_scope res)"
  shows "v_decision (fst (fst (filter_check cfg2 io2 st' host2 port2))) = Deny \<and>
    fs_session (snd (filter_check cfg2 io2 st' host2 port2)) = fs_session st' \<and>
    fs_learned (snd (filter_check cfg2 io2 st' host2 port2)) = fs_learned st' \<and>
    filter_check (cfg2\<lparr>prompter := q\<rparr>) io3 st' host2 port2 = filter_check cfg2 io2 st' host2 port2"
proof -
  let ?t = "record_target (normalize_host host) res"
  have "fs_session st' = Some (fst (session_record s ?t (pr_scope res) False))"
    using filter_check_records_session [OF assms(1-7) assms(10)] assms(8,12) by simp
  moreover have "session_lookup (fst (session_record s ?t (pr_scope res) False)) (normalize_host host2) = (False, True)"
    by (rule session.recorded_deny) (use assms in simp_all)
  ultimately have "remembered_deny st' (normalize_host host2)"
    by (simp add: lookup_decision_def)
  then obtain v where v: "check_rules cfg2 st' (normalize_host host2) = Some v" "v_decision v = Deny"
    using check_rules_deny_iff by blast
  have "v_decision (fst (fst (filter_check cfg2 io2 st' host2 port2))) = Deny"
    using filter_check_ruled(1) [OF v(1), of io2 port2] v(2) by auto
  then show ?thesis using filter_check_ruled(2-4) [OF v(1)] by blast
qed

definition ask_cfg :: "prompt_result \<Rightarrow> filter_config" where
  "ask_cfg res = demo_cfg\<lparr>prompt_enabled := True, prompter := Some (\<lambda>_ _. res)\<rparr>"

definition deny_suffix :: prompt_result where
  "deny_suffix = \<lparr>pr_allow = False, pr_persist = False, pr_session = True, pr_scope = ''suffix'',
     pr_suffix = ''tracker.net'', pr_needs_intent = False, pr_prior_reason = []\<rparr>"

lemma demo_tracker:
  "normalize_host ''tracker.net'' = ''tracker.net''"
  "normalize_host ''cdn.tracker.net'' = ''cdn.tracker.net''"
  "check_addrs (ask_cfg deny_suffix) ''tracker.net'' = Inr [V4 0x5DB8D822]"
  "\<not> is_hard_denied_host ''tracker.net''"
  "check_rules (ask_cfg deny_suffix) demo_state ''tracker.net'' = None"
  by (simp_all add: check_addrs_def ask_cfg_def filter_eval gostr)

theorem session_deny_sticks_witness:
  "v_decision (fst (fst (filter_check (demo_cfg\<lparr>allow_domains := [''*.tracker.net'']\<rparr>) io_all_ok
     (snd (filter_check (ask_cfg deny_suffix) io_all_ok demo_state ''tracker.net'' 443))
     ''cdn.tracker.net'' 443))) = Deny"
proof (rule session_deny_sticks [THEN conjunct1])
  show "check_addrs (ask_cfg deny_suffix) (normalize_host ''tracker.net'') = Inr [V4 0x5DB8D822]"
    "\<not> is_hard_denied_host (normalize_host ''tracker.net'')"
    "check_rules (ask_cfg deny_suffix) demo_state (normalize_host ''tracker.net'') = None"
    by (simp_all add: demo_tracker)
  show "prompt_enabled (ask_cfg deny_suffix)" "prompter (ask_cfg deny_suffix) = Some (\<lambda>_ _. deny_suffix)"
    by (simp_all add: ask_cfg_def)
  show "deny_suffix = (\<lambda>_ _. deny_suffix) (normalize_host ''tracker.net'') 443" by simp
  show "pr_session deny_suffix" "\<not> pr_allow deny_suffix" "valid_scope (pr_scope deny_suffix)"
    by (simp_all add: deny_suffix_def valid_scope_def)
  show "fs_session demo_state = Some []" "session_ok []"
    by (simp_all add: demo_state_def session_ok_def)
  show "match_host_rule (normalize_host ''cdn.tracker.net'')
      (normalize_host (record_target (normalize_host ''tracker.net'') deny_suffix)) (pr_scope deny_suffix)"
    by (simp add: demo_tracker deny_suffix_def record_target_def match_host_rule_def
        match_host_or_suffix_def)
qed simp

section \<open>The audit trail\<close>

lemma default_decision_audit [simp]:
  "fs_audit (snd (default_decision cfg io st h port)) = fs_audit st"
  by (simp add: default_decision_def record_learned_def record_session_def Let_def
      split: option.split prod.split)

lemma rule_or_default_audit:
  "rule_or_default cfg io st h port = (v, st') \<Longrightarrow> fs_audit st' = fs_audit st"
  by (auto simp: rule_or_default_def split: option.splits)

lemma default_allow_reasons:
  assumes "v_decision (fst (fst (default_decision cfg io st h port))) = Allow"
  shows "v_reason (fst (fst (default_decision cfg io st h port))) \<in>
    {''prompt:allow'', ''prompt unavailable: on_unavailable=allow'', ''default allow (blocklist mode)''}"
  using assms
  by (auto simp: default_decision_def prompt_verdict_def Let_def split: option.splits if_splits prod.splits)

lemma rule_allow_reasons:
  "check_rules cfg st h = Some v \<Longrightarrow> v_decision v = Allow \<Longrightarrow>
     v_reason v \<in> {''allow_domain'', ''session allow'', ''learned permanent allow''}"
  by (auto simp: check_rules_cases split: if_splits)

lemma allow_source:
  assumes "rule_or_default cfg io st h port = (v, st')" "v_decision v = Allow"
  shows "classify_reason (v_reason v) \<notin> {''hard-deny'', ''blocklist'', ''dns''}"
proof -
  have "v_reason v \<in> {''allow_domain'', ''session allow'', ''learned permanent allow'',
      ''prompt:allow'', ''prompt unavailable: on_unavailable=allow'', ''default allow (blocklist mode)''}"
    using assms default_allow_reasons [of cfg io st h port] rule_allow_reasons [of cfg st h v]
    by (cases "check_rules cfg st h") (auto simp only: rule_or_default_def option.case prod.inject fst_conv snd_conv)
  moreover have "classify_reason r \<in> {''allowlist'', ''session'', ''learned'', ''prompt'', ''unavailable'', ''default''}"
    if "r \<in> {''allow_domain'', ''session allow'', ''learned permanent allow'', ''prompt:allow'',
      ''prompt unavailable: on_unavailable=allow'', ''default allow (blocklist mode)''}" for r
    using that by (elim insertE emptyE) (simp_all add: classify_reason_def has_prefix_def)
  ultimately have "classify_reason (v_reason v) \<in>
      {''allowlist'', ''session'', ''learned'', ''prompt'', ''unavailable'', ''default''}" by blast
  then show ?thesis by auto
qed

lemma filter_check_audit:
  "fs_audit (snd (filter_check cfg io st host port)) = fs_audit st @
     [let v = fst (fst (filter_check cfg io st host port))
      in net_decision (normalize_host host) port (v_decision v = Allow) (v_scope v)
           (classify_reason (v_reason v)) (v_persisted v)]"
proof -
  let ?h = "normalize_host host"
  obtain v st' where rd: "rule_or_default cfg io st ?h port = (v, st')" by fastforce
  have a: "fs_audit st' = fs_audit st" by (rule rule_or_default_audit [OF rd])
  show ?thesis
    by (cases "is_hard_denied_host ?h"; cases "check_addrs cfg ?h")
       (simp_all add: filter_check_eq Let_def rd a filter_log_def)
qed

text \<open>
  Every decision is audited, once, and truthfully.  A check appends exactly one event, for the
  normalized host, whose \<open>allow\<close> is the decision and whose scope and persistence are the
  verdict's; an event of source \<open>hard-deny\<close>, \<open>blocklist\<close>, or \<open>dns\<close> never records an Allow.
\<close>

theorem check_audited:
  "\<exists>e. fs_audit (snd (filter_check cfg io st host port)) = fs_audit st @ [e] \<and>
     ne_host e = normalize_host host \<and> ne_port e = port \<and>
     (ne_allow e \<longleftrightarrow> v_decision (fst (fst (filter_check cfg io st host port))) = Allow) \<and>
     ne_scope e = v_scope (fst (fst (filter_check cfg io st host port))) \<and>
     ne_persisted e = v_persisted (fst (fst (filter_check cfg io st host port))) \<and>
     \<not> (ne_source e \<in> {''hard-deny'', ''blocklist'', ''dns''} \<and> ne_allow e)"
proof -
  let ?v = "fst (fst (filter_check cfg io st host port))"
  let ?e = "net_decision (normalize_host host) port (v_decision ?v = Allow) (v_scope ?v)
       (classify_reason (v_reason ?v)) (v_persisted ?v)"
  have audit: "fs_audit (snd (filter_check cfg io st host port)) = fs_audit st @ [?e]"
    using filter_check_audit [of cfg io st host port] by (simp only: Let_def)
  have src: "classify_reason (v_reason ?v) \<notin> {''hard-deny'', ''blocklist'', ''dns''}" if "v_decision ?v = Allow"
  proof -
    have "filter_check cfg io st host port = ((?v, snd (fst (filter_check cfg io st host port))),
        snd (filter_check cfg io st host port))" by simp
    from filter_check_Allow [OF this that] obtain st1
      where "rule_or_default cfg io st (normalize_host host) port = (?v, st1)" by blast
    then show ?thesis using that by (rule allow_source)
  qed
  have "ne_host ?e = normalize_host host \<and> ne_port ?e = port \<and> ne_allow ?e = (v_decision ?v = Allow) \<and>
      ne_scope ?e = v_scope ?v \<and> ne_persisted ?e = v_persisted ?v \<and>
      ne_source ?e = classify_reason (v_reason ?v)"
    by (simp add: net_decision_def)
  moreover from this src have "\<not> (ne_source ?e \<in> {''hard-deny'', ''blocklist'', ''dns''} \<and> ne_allow ?e)"
    by metis
  ultimately show ?thesis using audit by blast
qed

end
