(* ===== verification/Coalesce.thy ===== *)
theory Coalesce
  imports NetFilter
begin

text \<open>
  \<open>Filter.promptCoalesced\<close> (\<open>internal/netproxy/filter.go\<close>): concurrent requests for one host
  share one dialog.  The in-flight table, the dialogs and the parked goroutines form the state of
  a step relation whose steps are the critical sections and blocking points of the function.
\<close>

section \<open>State and steps\<close>

text \<open>
  A request is a goroutine in \<open>promptCoalesced\<close>; a \<open>promptWait\<close> is named by the request that
  created it.  \<open>Prompting\<close> is the call of the dialog, \<open>Answered\<close> the stretch between the
  dialog's return and the removal from the table, \<open>Removed\<close> the one before \<open>close(w.done)\<close>.
\<close>

type_synonym request = nat

datatype phase =
    Fresh
  | Prompting
  | Answered prompt_result
  | Removed prompt_result
  | Waiting request
  | Returned request prompt_result

record prompt_state =
  ps_phase :: "request \<Rightarrow> phase"
  ps_inflight :: "string \<rightharpoonup> request"
  ps_done :: "request \<rightharpoonup> prompt_result"
  ps_dialogs :: "(request \<times> string) list"

definition prompt_init :: prompt_state where
  "prompt_init = \<lparr>ps_phase = (\<lambda>_. Fresh), ps_inflight = Map.empty, ps_done = Map.empty, ps_dialogs = []\<rparr>"

definition set_phase :: "request \<Rightarrow> phase \<Rightarrow> prompt_state \<Rightarrow> prompt_state" where
  "set_phase r p s = s\<lparr>ps_phase := (ps_phase s)(r := p)\<rparr>"

text \<open>The critical section at the head: join the host's wait, or register one and ask.\<close>

definition enter :: "(request \<Rightarrow> string) \<Rightarrow> request \<Rightarrow> prompt_state \<Rightarrow> prompt_state" where
  "enter host r s =
     (case ps_inflight s (host r) of
        Some w \<Rightarrow> set_phase r (Waiting w) s
      | None \<Rightarrow> (set_phase r Prompting s)
                  \<lparr>ps_inflight := (ps_inflight s)(host r \<mapsto> r), ps_dialogs := ps_dialogs s @ [(r, host r)]\<rparr>)"

definition remove_inflight :: "(request \<Rightarrow> string) \<Rightarrow> request \<Rightarrow> prompt_result \<Rightarrow> prompt_state \<Rightarrow> prompt_state" where
  "remove_inflight host r res s =
     (set_phase r (Removed res) s)\<lparr>ps_inflight := (ps_inflight s)(host r := None)\<rparr>"

definition close_wait :: "request \<Rightarrow> prompt_result \<Rightarrow> prompt_state \<Rightarrow> prompt_state" where
  "close_wait r res s = (set_phase r (Returned r res) s)\<lparr>ps_done := (ps_done s)(r \<mapsto> res)\<rparr>"

text \<open>\<open>host\<close> gives the normalized host of each request; any answer of the dialog is possible.\<close>

inductive prompt_step :: "(request \<Rightarrow> string) \<Rightarrow> prompt_state \<Rightarrow> prompt_state \<Rightarrow> bool" for host where
  Enter: "ps_phase s r = Fresh \<Longrightarrow> prompt_step host s (enter host r s)"
| Dialog: "ps_phase s r = Prompting \<Longrightarrow> prompt_step host s (set_phase r (Answered res) s)"
| Remove: "ps_phase s r = Answered res \<Longrightarrow> prompt_step host s (remove_inflight host r res s)"
| Close: "ps_phase s r = Removed res \<Longrightarrow> prompt_step host s (close_wait r res s)"
| Wake: "ps_phase s r = Waiting w \<Longrightarrow> ps_done s w = Some res \<Longrightarrow>
    prompt_step host s (set_phase r (Returned w res) s)"

inductive prompt_reach :: "(request \<Rightarrow> string) \<Rightarrow> prompt_state \<Rightarrow> bool" for host where
  Init: "prompt_reach host prompt_init"
| Step: "prompt_reach host s \<Longrightarrow> prompt_step host s s' \<Longrightarrow> prompt_reach host s'"

inductive_cases prompt_stepE: "prompt_step host s s'"

lemma set_phase_simps [simp]:
  "ps_phase (set_phase r p s) = (ps_phase s)(r := p)"
  "ps_inflight (set_phase r p s) = ps_inflight s"
  "ps_done (set_phase r p s) = ps_done s"
  "ps_dialogs (set_phase r p s) = ps_dialogs s"
  by (simp_all add: set_phase_def)

section \<open>The invariant\<close>

fun leading :: "phase \<Rightarrow> bool" where
  "leading Prompting = True"
| "leading (Answered res) = True"
| "leading _ = False"

fun finished :: "phase \<Rightarrow> bool" where
  "finished (Returned w res) = True"
| "finished _ = False"

fun unpublished :: "phase \<Rightarrow> bool" where
  "unpublished (Removed res) = True"
| "unpublished p = leading p"

text \<open>
  The table holds exactly the leaders whose dialog is up or just answered; a wait someone is
  parked on belongs to the same host and has a live leader or a published result; only a leader
  that has returned has published a result.
\<close>

definition prompt_inv :: "(request \<Rightarrow> string) \<Rightarrow> prompt_state \<Rightarrow> bool" where
  "prompt_inv host s \<longleftrightarrow>
     (\<forall>h r. ps_inflight s h = Some r \<longleftrightarrow> host r = h \<and> leading (ps_phase s r)) \<and>
     (\<forall>r w. ps_phase s r = Waiting w \<longrightarrow> host w = host r \<and>
        (unpublished (ps_phase s w) \<or> ps_done s w \<noteq> None)) \<and>
     (\<forall>r w res. ps_phase s r = Returned w res \<longrightarrow> host w = host r \<and> ps_done s w = Some res) \<and>
     (\<forall>w. ps_done s w \<noteq> None \<longrightarrow> finished (ps_phase s w))"

lemma prompt_inv_init: "prompt_inv host prompt_init"
  by (simp add: prompt_inv_def prompt_init_def)

text \<open>The parts of the invariant as rules.\<close>

lemma inv_inflight: "prompt_inv host s \<Longrightarrow> ps_inflight s h = Some r \<longleftrightarrow> host r = h \<and> leading (ps_phase s r)"
  unfolding prompt_inv_def by blast

lemma inv_waiting: "prompt_inv host s \<Longrightarrow> ps_phase s r = Waiting w \<Longrightarrow>
    host w = host r \<and> (unpublished (ps_phase s w) \<or> ps_done s w \<noteq> None)"
  unfolding prompt_inv_def by blast

lemma inv_returned: "prompt_inv host s \<Longrightarrow> ps_phase s r = Returned w res \<Longrightarrow> host w = host r \<and> ps_done s w = Some res"
  unfolding prompt_inv_def by blast

lemma inv_done: "prompt_inv host s \<Longrightarrow> ps_done s w \<noteq> None \<Longrightarrow> finished (ps_phase s w)"
  unfolding prompt_inv_def by blast

lemma prompt_invI:
  assumes "\<And>h r. ps_inflight s h = Some r \<longleftrightarrow> host r = h \<and> leading (ps_phase s r)"
    and "\<And>r w. ps_phase s r = Waiting w \<Longrightarrow> host w = host r \<and> (unpublished (ps_phase s w) \<or> ps_done s w \<noteq> None)"
    and "\<And>r w res. ps_phase s r = Returned w res \<Longrightarrow> host w = host r \<and> ps_done s w = Some res"
    and "\<And>w. ps_done s w \<noteq> None \<Longrightarrow> finished (ps_phase s w)"
  shows "prompt_inv host s"
  using assms unfolding prompt_inv_def by blast

lemma unpublished_leading: "leading p \<Longrightarrow> unpublished p"
  by (cases p) simp_all

text \<open>A phase change of one request, seen by all.\<close>

lemma inv_step_rules:
  assumes "prompt_inv host s"
  shows "ps_inflight s h = Some r \<longleftrightarrow> host r = h \<and> leading (ps_phase s r)"
    and "ps_phase s r = Waiting w \<Longrightarrow> host w = host r"
    and "ps_phase s r = Waiting w \<Longrightarrow> ps_done s w = None \<Longrightarrow> unpublished (ps_phase s w)"
    and "ps_phase s r = Returned w res \<Longrightarrow> host w = host r"
    and "ps_phase s r = Returned w res \<Longrightarrow> ps_done s w = Some res"
    and "\<not> finished (ps_phase s r) \<Longrightarrow> ps_done s r = None"
  using assms inv_waiting [OF assms] inv_returned [OF assms] inv_done [OF assms] inv_inflight [OF assms]
  by blast+

lemma inv_enter:
  assumes "prompt_inv host s" "ps_phase s r = Fresh"
  shows "prompt_inv host (enter host r s)"
proof (cases "ps_inflight s (host r)")
  case None
  note i = inv_step_rules [OF assms(1)]
  have d: "ps_done s r = None" using i(6) [of r] assms(2) by simp
  have nl: "leading (ps_phase s w) \<Longrightarrow> host w \<noteq> host r" for w using i(1) [of "host r" w] None by simp
  show ?thesis
  proof (rule prompt_invI)
    fix h q show "ps_inflight (enter host r s) h = Some q \<longleftrightarrow> host q = h \<and> leading (ps_phase (enter host r s) q)"
      using i(1) [of h q] nl [of q] assms(2) None by (auto simp: enter_def)
  next
    fix q w assume "ps_phase (enter host r s) q = Waiting w"
    then have "ps_phase s q = Waiting w" using None by (auto simp: enter_def split: if_splits)
    then show "host w = host q \<and> (unpublished (ps_phase (enter host r s) w) \<or> ps_done (enter host r s) w \<noteq> None)"
      using i(2,3) [of q w] None by (auto simp: enter_def)
  next
    fix q w res assume "ps_phase (enter host r s) q = Returned w res"
    then have "ps_phase s q = Returned w res" using None by (auto simp: enter_def split: if_splits)
    then show "host w = host q \<and> ps_done (enter host r s) w = Some res"
      using i(4,5) [of q w res] None by (simp add: enter_def)
  next
    fix w assume "ps_done (enter host r s) w \<noteq> None"
    then show "finished (ps_phase (enter host r s) w)"
      using inv_done [OF assms(1), of w] d None by (auto simp: enter_def)
  qed
next
  case (Some w)
  note i = inv_step_rules [OF assms(1)]
  have d: "ps_done s r = None" using i(6) [of r] assms(2) by simp
  from i(1) Some have w: "host w = host r" "leading (ps_phase s w)" by blast+
  then have wr: "w \<noteq> r" using assms(2) by auto
  show ?thesis
  proof (rule prompt_invI)
    fix h q show "ps_inflight (enter host r s) h = Some q \<longleftrightarrow> host q = h \<and> leading (ps_phase (enter host r s) q)"
      using i(1) [of h q] assms(2) Some by (auto simp: enter_def)
  next
    fix q v assume "ps_phase (enter host r s) q = Waiting v"
    then have "ps_phase s q = Waiting v \<and> q \<noteq> r \<or> q = r \<and> v = w"
      using Some by (auto simp: enter_def split: if_splits)
    then show "host v = host q \<and> (unpublished (ps_phase (enter host r s) v) \<or> ps_done (enter host r s) v \<noteq> None)"
      using i(2,3) [of q v] d Some w wr assms(2) by (cases "v = r") (auto simp: enter_def unpublished_leading)
  next
    fix q v res assume "ps_phase (enter host r s) q = Returned v res"
    then have "ps_phase s q = Returned v res" using Some by (auto simp: enter_def split: if_splits)
    then show "host v = host q \<and> ps_done (enter host r s) v = Some res"
      using i(4,5) [of q v res] Some by (simp add: enter_def)
  next
    fix v assume "ps_done (enter host r s) v \<noteq> None"
    then show "finished (ps_phase (enter host r s) v)"
      using inv_done [OF assms(1), of v] d Some by (auto simp: enter_def)
  qed
qed

text \<open>The other steps move one request and may change one table entry.\<close>

lemma inv_move:
  assumes "prompt_inv host s" "\<not> finished (ps_phase s r)"
    and "\<And>q. ps_phase s' q = (if q = r then p else ps_phase s q)"
    and "\<And>h q. ps_inflight s' h = Some q \<longleftrightarrow> host q = h \<and> leading (ps_phase s' q)"
    and "\<And>w. w \<noteq> r \<Longrightarrow> ps_done s' w = ps_done s w"
    and "ps_done s' r \<noteq> None \<longleftrightarrow> p = Returned r (the (ps_done s' r))"
    and "unpublished p \<or> ps_done s' r \<noteq> None \<or> \<not> unpublished (ps_phase s r)"
    and "\<And>w. p \<noteq> Waiting w"
    and "\<And>w res. p = Returned w res \<Longrightarrow> host w = host r \<and> ps_done s' w = Some res"
  shows "prompt_inv host s'"
proof (rule prompt_invI)
  note i = inv_step_rules [OF assms(1)]
  have d: "ps_done s r = None" using i(6) assms(2) by blast
  show "ps_inflight s' h = Some q \<longleftrightarrow> host q = h \<and> leading (ps_phase s' q)" for h q by (rule assms(4))
  show "host w = host q \<and> (unpublished (ps_phase s' w) \<or> ps_done s' w \<noteq> None)"
    if "ps_phase s' q = Waiting w" for q w
  proof -
    have q: "ps_phase s q = Waiting w" using that assms(3,8) by (auto split: if_splits)
    then show ?thesis
      using i(2,3) [of q w] d assms(3) [of w] assms(5) [of w] assms(7) by (cases "w = r") auto
  qed
  show "host w = host q \<and> ps_done s' w = Some res" if "ps_phase s' q = Returned w res" for q w res
  proof (cases "q = r")
    case True
    then show ?thesis using that assms(3,9) by auto
  next
    case False
    then have q: "ps_phase s q = Returned w res" using that assms(3) by simp
    then have "w \<noteq> r" using i(5) [of q w res] d by auto
    then show ?thesis using i(4,5) [OF q] assms(5) by simp
  qed
  show "finished (ps_phase s' w)" if "ps_done s' w \<noteq> None" for w
  proof (cases "w = r")
    case True
    then have "p = Returned r (the (ps_done s' r))" using that assms(6) by simp
    then have "finished p" by (metis finished.simps(1))
    then show ?thesis using True assms(3) by simp
  next
    case False
    then show ?thesis using that inv_done [OF assms(1), of w] assms(3,5) by simp
  qed
qed

lemma inv_dialog:
  assumes "prompt_inv host s" "ps_phase s r = Prompting"
  shows "prompt_inv host (set_phase r (Answered res) s)"
  using assms inv_step_rules(1,6) [OF assms(1)]
  by (intro inv_move [OF assms(1), where r = r and p = "Answered res"]) auto

lemma inv_remove:
  assumes "prompt_inv host s" "ps_phase s r = Answered res"
  shows "prompt_inv host (remove_inflight host r res s)"
proof -
  have "ps_inflight s (host r) = Some r" using assms inv_inflight [OF assms(1)] by simp
  then have "leading (ps_phase s q) \<Longrightarrow> host q = host r \<Longrightarrow> q = r" for q
    using inv_step_rules(1) [OF assms(1), of "host r" q] by simp
  then show ?thesis
    using assms inv_step_rules(1,6) [OF assms(1)]
    by (intro inv_move [OF assms(1), where r = r and p = "Removed res"]) (auto simp: remove_inflight_def)
qed

lemma inv_close:
  assumes "prompt_inv host s" "ps_phase s r = Removed res"
  shows "prompt_inv host (close_wait r res s)"
  using assms inv_step_rules(1) [OF assms(1)]
  by (intro inv_move [OF assms(1), where r = r and p = "Returned r res"]) (auto simp: close_wait_def)

lemma inv_wake:
  assumes "prompt_inv host s" "ps_phase s r = Waiting w" "ps_done s w = Some res"
  shows "prompt_inv host (set_phase r (Returned w res) s)"
proof -
  have "ps_done s r = None" using inv_step_rules(6) [OF assms(1), of r] assms(2) by simp
  moreover from this assms(3) have "w \<noteq> r" by auto
  ultimately show ?thesis
    using assms inv_step_rules(1,2) [OF assms(1)]
    by (intro inv_move [OF assms(1), where r = r and p = "Returned w res"]) auto
qed

lemma prompt_inv_reach: "prompt_reach host s \<Longrightarrow> prompt_inv host s"
proof (induction rule: prompt_reach.induct)
  case (Step s s')
  from Step.hyps(2) Step.IH show ?case
    by (cases rule: prompt_step.cases)
       (simp_all add: inv_enter inv_dialog inv_remove inv_close inv_wake)
qed (rule prompt_inv_init)

section \<open>Progress\<close>

lemma waiter_leader:
  assumes "prompt_inv host s" "ps_phase s r = Waiting w" "ps_done s w = None"
  shows "ps_phase s w = Prompting \<or> (\<exists>res. ps_phase s w = Answered res \<or> ps_phase s w = Removed res)"
  using inv_step_rules(3) [OF assms(1,2)] assms(3) by (cases "ps_phase s w") auto

text \<open>
  C25: One dialog per host.  In every interleaving of concurrent requests, two leaders never
  have a dialog up, or answered but not yet retired, for the same host; a request that returns got
  the answer of a dialog asked for its own host, and all requests sharing a wait get one answer.
\<close>

theorem coalesced_one_dialog:
  assumes "prompt_reach host s"
  shows "(leading (ps_phase s r1) \<and> leading (ps_phase s r2) \<and> host r1 = host r2 \<longrightarrow> r1 = r2) \<and>
    (ps_phase s r1 = Returned w res1 \<longrightarrow> host w = host r1) \<and>
    (ps_phase s r1 = Returned w res1 \<and> ps_phase s r2 = Returned w res2 \<longrightarrow> res1 = res2)"
proof -
  have inv: "prompt_inv host s" using assms by (rule prompt_inv_reach)
  then have "ps_inflight s (host r) = Some r \<longleftrightarrow> leading (ps_phase s r)" for r
    by (simp add: inv_inflight)
  moreover have "ps_phase s r = Returned w res \<Longrightarrow> host w = host r \<and> ps_done s w = Some res" for r res
    using inv_returned [OF inv] by blast
  ultimately show ?thesis by (metis option.inject)
qed

definition demo_host :: "request \<Rightarrow> string" where
  "demo_host r = ''a.io''"

definition demo_wait :: prompt_state where
  "demo_wait = enter demo_host 1 (enter demo_host 0 prompt_init)"

lemma demo_wait_phase: "ps_phase demo_wait 0 = Prompting" "ps_phase demo_wait 1 = Waiting 0"
  by (simp_all add: demo_wait_def prompt_init_def enter_def demo_host_def)

lemma demo_wait_reach: "prompt_reach demo_host demo_wait"
proof -
  have "prompt_step demo_host prompt_init (enter demo_host 0 prompt_init)"
    by (rule prompt_step.Enter) (simp add: prompt_init_def)
  then have "prompt_reach demo_host (enter demo_host 0 prompt_init)"
    by (rule prompt_reach.Step [OF prompt_reach.Init])
  moreover have "prompt_step demo_host (enter demo_host 0 prompt_init) demo_wait"
    unfolding demo_wait_def by (rule prompt_step.Enter) (simp add: prompt_init_def enter_def)
  ultimately show ?thesis by (rule prompt_reach.Step)
qed

theorem coalesced_one_dialog_witness:
  "ps_phase demo_wait 1 = Waiting 0 \<and> (leading (ps_phase demo_wait 0) \<and> \<not> leading (ps_phase demo_wait 1))"
proof -
  note p = demo_wait_phase
  have "\<not> leading (ps_phase demo_wait 1)"
    using coalesced_one_dialog [OF demo_wait_reach, of 0 1] p by (auto simp: demo_host_def)
  with p show ?thesis by simp
qed

text \<open>
  C26: Nobody waits forever on a finished dialog.  In every reachable state a parked request's
  wait is published, so that the request can return with it, or its leader can take a step (the
  dialog answers, the table entry is removed, the wait is closed).
\<close>

theorem coalesced_no_lost_wakeup:
  assumes "prompt_reach host s" "ps_phase s r = Waiting w"
  shows "\<exists>s'. prompt_step host s s' \<and>
    ((\<exists>res. ps_phase s' r = Returned w res) \<or> (ps_phase s' r = Waiting w \<and> ps_phase s' w \<noteq> ps_phase s w))"
proof (cases "ps_done s w")
  case (Some res)
  have "prompt_step host s (set_phase r (Returned w res) s)"
    by (rule prompt_step.Wake [of _ _ w]) (simp_all add: assms Some)
  then show ?thesis by (intro exI conjI) auto
next
  case None
  from waiter_leader [OF prompt_inv_reach [OF assms(1)] assms(2) None] assms(2)
  have wr: "w \<noteq> r" by auto
  from waiter_leader [OF prompt_inv_reach [OF assms(1)] assms(2) None]
  consider "ps_phase s w = Prompting" | res where "ps_phase s w = Answered res"
    | res where "ps_phase s w = Removed res" by blast
  then show ?thesis
  proof cases
    case 1
    then have "prompt_step host s (set_phase w (Answered undefined) s)" by (rule prompt_step.Dialog)
    then show ?thesis using wr assms(2) 1 by (intro exI conjI) auto
  next
    case (2 res)
    then have "prompt_step host s (remove_inflight host w res s)" by (rule prompt_step.Remove)
    then show ?thesis using wr assms(2) 2 by (intro exI conjI) (auto simp: remove_inflight_def)
  next
    case (3 res)
    then have "prompt_step host s (close_wait w res s)" by (rule prompt_step.Close)
    then show ?thesis using wr assms(2) 3 by (intro exI conjI) (auto simp: close_wait_def)
  qed
qed

theorem coalesced_no_lost_wakeup_witness:
  "\<exists>s'. prompt_step demo_host demo_wait s' \<and>
    ((\<exists>res. ps_phase s' 1 = Returned 0 res) \<or> (ps_phase s' 1 = Waiting 0 \<and> ps_phase s' 0 \<noteq> ps_phase demo_wait 0))"
proof (rule coalesced_no_lost_wakeup)
  show "ps_phase demo_wait 1 = Waiting 0" by (rule demo_wait_phase)
qed (rule demo_wait_reach)

end
