(* ===== verification/Base64.thy ===== *)
theory Base64
  imports Prelude
begin

text \<open>
  \<open>base64.StdEncoding\<close> of Go's standard library, which carries the credentials of
  \<open>Proxy-Authorization\<close> in \<open>internal/netproxy/server.go\<close> and \<open>dialer.go\<close>, with its round trip.
\<close>

definition b64_char :: "nat \<Rightarrow> char" where
  "b64_char n =
     (if n < 26 then char_of (65 + n)
      else if n < 52 then char_of (71 + n)
      else if n < 62 then char_of (n - 4)
      else if n = 62 then CHR ''+'' else slash)"

definition b64_val :: "char \<Rightarrow> nat option" where
  "b64_val c =
     (if is_upper_alpha c then Some (code c - 65)
      else if is_lower_alpha c then Some (code c - 71)
      else if is_digit c then Some (code c + 4)
      else if c = CHR ''+'' then Some 62
      else if c = slash then Some 63 else None)"

abbreviation pad :: char where "pad \<equiv> CHR ''=''"

fun b64_encode :: "string \<Rightarrow> string" where
  "b64_encode [] = []"
| "b64_encode [a] = [b64_char (code a div 4), b64_char (code a mod 4 * 16), pad, pad]"
| "b64_encode [a, b] =
     [b64_char (code a div 4), b64_char (code a mod 4 * 16 + code b div 16), b64_char (code b mod 16 * 4), pad]"
| "b64_encode (a # b # c # s) =
     [b64_char (code a div 4), b64_char (code a mod 4 * 16 + code b div 16),
      b64_char (code b mod 16 * 4 + code c div 64), b64_char (code c mod 64)] @ b64_encode s"

definition byte1 :: "nat \<Rightarrow> nat \<Rightarrow> char" where "byte1 x y = char_of (x * 4 + y div 16)"
definition byte2 :: "nat \<Rightarrow> nat \<Rightarrow> char" where "byte2 y z = char_of (y mod 16 * 16 + z div 4)"
definition byte3 :: "nat \<Rightarrow> nat \<Rightarrow> char" where "byte3 z w = char_of (z mod 4 * 64 + w)"

text \<open>One quantum of four characters; padding is accepted in the last quantum only.\<close>

fun b64_quanta :: "string \<Rightarrow> string option" where
  "b64_quanta [] = Some []"
| "b64_quanta (a # b # c # d # s) =
     (case b64_val a of None \<Rightarrow> None | Some x \<Rightarrow>
      case b64_val b of None \<Rightarrow> None | Some y \<Rightarrow>
      if s = [] \<and> c = pad \<and> d = pad then Some [byte1 x y]
      else case b64_val c of None \<Rightarrow> None | Some z \<Rightarrow>
      if s = [] \<and> d = pad then Some [byte1 x y, byte2 y z]
      else case b64_val d of None \<Rightarrow> None | Some w \<Rightarrow>
      map_option (\<lambda>r. byte1 x y # byte2 y z # byte3 z w # r) (b64_quanta s))"
| "b64_quanta _ = None"

text \<open>\<open>DecodeString\<close> skips CR and LF.\<close>

definition b64_decode :: "string \<Rightarrow> string option" where
  "b64_decode s = b64_quanta (filter (\<lambda>c. c \<noteq> cr \<and> c \<noteq> lf) s)"

lemma b64_val_char [simp]: "n < 64 \<Longrightarrow> b64_val (b64_char n) = Some n"
  by (auto simp: b64_val_def b64_char_def is_upper_alpha_def is_lower_alpha_def is_digit_def
      code_def of_char_of)

lemma b64_val_pad [simp]: "b64_val pad = None"
  by (simp add: b64_val_def is_upper_alpha_def is_lower_alpha_def is_digit_def code_def)

lemma b64_char_not_pad [simp]: "n < 64 \<Longrightarrow> b64_char n \<noteq> pad"
  using b64_val_char b64_val_pad by (metis option.distinct(1))

lemma b64_val_newline: "b64_val cr = None" "b64_val lf = None"
  by (simp_all add: b64_val_def is_upper_alpha_def is_lower_alpha_def is_digit_def code_def)

lemma b64_char_not_newline [simp]: "n < 64 \<Longrightarrow> b64_char n \<noteq> cr" "n < 64 \<Longrightarrow> b64_char n \<noteq> lf"
  using b64_val_char b64_val_newline by (metis option.distinct(1))+

lemma code_div [simp]: "code a div 4 < 64" "code a div 16 < 16" "code a div 64 < 4"
  by (rule less_mult_imp_div_less, simp)+

lemma combine_bound: "x < 4 \<Longrightarrow> y < 16 \<Longrightarrow> x * 16 + y < (64::nat)" "x < 16 \<Longrightarrow> y < 4 \<Longrightarrow> x * 4 + y < (64::nat)"
  by simp_all

lemma b64_bounds [simp]:
  "code a mod 4 * 16 + code b div 16 < 64"
  "code b mod 16 * 4 + code c div 64 < 64" "code c mod 64 < 64" "code a mod 4 * 16 < 64" "code b mod 16 * 4 < 64"
  using combine_bound [of "code a mod 4" "code b div 16"] combine_bound [of "code a mod 4" 0]
    combine_bound [of "code b mod 16" "code c div 64"] combine_bound [of "code b mod 16" 0]
  by simp_all

lemma char_of_code [simp]: "char_of (code c) = c"
  by (simp add: code_def)

lemma b64_bytes [simp]:
  "byte1 (code a div 4) (code a mod 4 * 16 + code b div 16) = a"
  "byte1 (code a div 4) (code a mod 4 * 16) = a"
  "byte2 (code a mod 4 * 16 + code b div 16) (code b mod 16 * 4 + code c div 64) = b"
  "byte2 (code a mod 4 * 16 + code b div 16) (code b mod 16 * 4) = b"
  "byte3 (code b mod 16 * 4 + code c div 64) (code c mod 64) = c"
proof -
  have e: "(code a mod 4 * 16 + code b div 16) div 16 = code a mod 4"
    "(code a mod 4 * 16 + code b div 16) mod 16 = code b div 16"
    "(code b mod 16 * 4 + code c div 64) div 4 = code b mod 16"
    "(code b mod 16 * 4 + code c div 64) mod 4 = code c div 64"
    by simp_all
  show "byte1 (code a div 4) (code a mod 4 * 16 + code b div 16) = a"
    "byte1 (code a div 4) (code a mod 4 * 16) = a"
    "byte2 (code a mod 4 * 16 + code b div 16) (code b mod 16 * 4 + code c div 64) = b"
    "byte2 (code a mod 4 * 16 + code b div 16) (code b mod 16 * 4) = b"
    "byte3 (code b mod 16 * 4 + code c div 64) (code c mod 64) = c"
    unfolding byte1_def byte2_def byte3_def e by (simp_all add: div_mult_mod_eq)
qed

lemma b64_quanta_encode: "b64_quanta (b64_encode s) = Some s"
  by (induction s rule: b64_encode.induct) simp_all

lemma b64_encode_no_newline: "cr \<notin> set (b64_encode s) \<and> lf \<notin> set (b64_encode s)"
  by (induction s rule: b64_encode.induct) (auto dest: sym)

lemma b64_round_trip [simp]: "b64_decode (b64_encode s) = Some s"
proof -
  have "filter (\<lambda>c. c \<noteq> cr \<and> c \<noteq> lf) (b64_encode s) = b64_encode s"
    using b64_encode_no_newline [of s] by (intro filter_True) auto
  then show ?thesis by (simp only: b64_decode_def b64_quanta_encode)
qed

end
