(* ===== verification/Dialer.thy ===== *)
theory Dialer
  imports NetFilter Base64 "HOL-Library.Multiset"
begin

text \<open>
  Dialing (\<open>internal/netproxy/dialer.go\<close>, \<open>dialPinned\<close> in \<open>server.go\<close>): the direct dialer that
  races the pinned addresses, and the dialer that tunnels through an upstream proxy by CONNECT.
  The network is a parameter: what each connection attempt returns, in what order the attempts
  finish, and what the upstream proxy answers.
\<close>

section \<open>NO\_PROXY\<close>

fun no_proxy_loop :: "string \<Rightarrow> string list \<Rightarrow> bool" where
  "no_proxy_loop h [] = False"
| "no_proxy_loop h (e # es) =
     (let entry = normalize_host (trim_space e)
      in if entry = [] then no_proxy_loop h es
         else if h = entry then True
         else if has_suffix h (dot # entry) then True
         else no_proxy_loop h es)"

definition host_matches_no_proxy :: "string \<Rightarrow> string list \<Rightarrow> bool" where
  "host_matches_no_proxy host entries = no_proxy_loop (normalize_host host) entries"

lemma no_proxy_loop_iff:
  "no_proxy_loop h es \<longleftrightarrow> (\<exists>e \<in> set es. let t = normalize_host (trim_space e)
     in t \<noteq> [] \<and> (h = t \<or> has_suffix h (dot # t)))"
  by (induction es) (auto simp: Let_def)

section \<open>Racing the pinned addresses\<close>

text \<open>A connection is named by the address it goes to and the index of its attempt.\<close>

type_synonym conn = "nat \<times> addr"

datatype dial_result = Connected conn | Failed string

text \<open>The check right before the dial.\<close>

definition refused :: "bool \<Rightarrow> addr \<Rightarrow> string option" where
  "refused allow_loopback a =
     (if \<not> allow_loopback \<or> \<not> is_host_local a
      then map_option (\<lambda>reason. ''dial refused: '' @ reason) (hard_denied_addr a) else None)"

text \<open>
  \<open>net\<close> is the outcome of the \<open>i\<close>-th attempt at an address: an error (a cancelled context
  included), or \<open>None\<close> for a connection.
\<close>

type_synonym network = "nat \<Rightarrow> string \<Rightarrow> string option"

definition attempt :: "bool \<Rightarrow> network \<Rightarrow> int \<Rightarrow> nat \<Rightarrow> addr \<Rightarrow> dial_result" where
  "attempt allow_loopback net port i a =
     (case refused allow_loopback a of
        Some err \<Rightarrow> Failed err
      | None \<Rightarrow>
          (case net i (join_host_port (addr_string a) (show_int port)) of
             Some err \<Rightarrow> Failed err
           | None \<Rightarrow> Connected (i, a)))"

definition attempts :: "bool \<Rightarrow> network \<Rightarrow> addr list \<Rightarrow> int \<Rightarrow> dial_result list" where
  "attempts allow_loopback net addrs port =
     map (\<lambda>i. attempt allow_loopback net port i (addrs ! i)) [0..<length addrs]"

text \<open>The receive loop: winner, last error, connections closed for having lost.\<close>

fun collect :: "dial_result list \<Rightarrow> conn option \<Rightarrow> string option \<Rightarrow> conn list \<Rightarrow>
    conn option \<times> string option \<times> conn list" where
  "collect [] winner last_err closed = (winner, last_err, closed)"
| "collect (Failed e # rs) winner last_err closed = collect rs winner (Some e) closed"
| "collect (Connected c # rs) None last_err closed = collect rs (Some c) last_err closed"
| "collect (Connected c # rs) (Some w) last_err closed = collect rs (Some w) last_err (closed @ [c])"

text \<open>\<open>order\<close> lists the results in the order they arrive on the channel.\<close>

definition dial_pinned :: "bool \<Rightarrow> network \<Rightarrow> (dial_result list \<Rightarrow> dial_result list) \<Rightarrow> addr list \<Rightarrow> int \<Rightarrow>
    (string + conn) \<times> conn list" where
  "dial_pinned allow_loopback net order addrs port =
     (if addrs = [] then (Inl ''no addresses'', [])
      else let (winner, last_err, closed) = collect (order (attempts allow_loopback net addrs port)) None None []
           in case winner of
                Some w \<Rightarrow> (Inr w, closed)
              | None \<Rightarrow> (Inl (case last_err of Some e \<Rightarrow> e | None \<Rightarrow> ''no addresses''), closed))"

definition arrival_order :: "(dial_result list \<Rightarrow> dial_result list) \<Rightarrow> bool" where
  "arrival_order order \<longleftrightarrow> (\<forall>rs. mset (order rs) = mset rs)"

section \<open>The dialers\<close>

record upstream =
  up_scheme :: string
  up_host :: string
  up_auth :: string
  up_no_proxy :: "string list"
  up_allow_loopback :: bool

datatype dialer = Direct bool | Upstream upstream

definition new_direct_dialer :: dialer where
  "new_direct_dialer = Direct False"

text \<open>\<open>newUpstreamProxyDialerInternal\<close>; the user information of the URL, if it has one.\<close>

definition proxy_auth :: "(string \<times> string) option \<Rightarrow> string" where
  "proxy_auth user =
     (case user of None \<Rightarrow> []
      | Some (name, password) \<Rightarrow> ''Basic '' @ b64_encode (name @ [colon] @ password))"

definition new_upstream_dialer ::
    "string \<Rightarrow> string \<Rightarrow> (string \<times> string) option \<Rightarrow> string list \<Rightarrow> bool \<Rightarrow> dialer" where
  "new_upstream_dialer scheme host user no_proxy allow_loopback =
     Upstream \<lparr>up_scheme = scheme, up_host = host, up_auth = proxy_auth user, up_no_proxy = no_proxy,
       up_allow_loopback = allow_loopback\<rparr>"

text \<open>\<open>ChainsHost\<close> through the \<open>TunnelPlanner\<close> assertion, and \<open>ProxyAuthHeader\<close>.\<close>

fun chains_host :: "dialer \<Rightarrow> string \<Rightarrow> bool" where
  "chains_host (Direct _) host = False"
| "chains_host (Upstream d) host = (\<not> host_matches_no_proxy host (up_no_proxy d))"

fun proxy_auth_header :: "dialer \<Rightarrow> string option" where
  "proxy_auth_header (Direct _) = None"
| "proxy_auth_header (Upstream d) = Some (up_auth d)"

text \<open>What the upstream proxy and the way to it do.\<close>

datatype proxy_reply = BadReply string | Reply int string string

record proxy_net =
  pn_dial :: "string \<Rightarrow> string option"
  pn_tls :: "string option"
  pn_write :: "string option"
  pn_reply :: "string \<Rightarrow> proxy_reply"

text \<open>\<open>UpstreamError\<close> and its message.\<close>

record upstream_error =
  ue_proxy_host :: string
  ue_status_line :: string
  ue_err :: "string option"

definition upstream_error_string :: "upstream_error \<Rightarrow> string" where
  "upstream_error_string e =
     (case ue_err e of
        Some err \<Rightarrow> ''upstream proxy '' @ ue_proxy_host e @ '': '' @ err
      | None \<Rightarrow> ''upstream proxy '' @ ue_proxy_host e @ '' rejected tunnel: '' @ ue_status_line e)"

datatype dial_error = DialError string | UpstreamFailed upstream_error

definition dial_error_string :: "dial_error \<Rightarrow> string" where
  "dial_error_string e = (case e of DialError s \<Rightarrow> s | UpstreamFailed u \<Rightarrow> upstream_error_string u)"

text \<open>
  A tunnel: a direct connection, or one through the proxy with the bytes the response reader has
  already pulled past the head.
\<close>

datatype tunnel = DirectTunnel conn | ProxyTunnel string string

definition connect_target :: "string \<Rightarrow> int \<Rightarrow> addr list \<Rightarrow> string" where
  "connect_target host port addrs =
     join_host_port (case addrs of [] \<Rightarrow> host | a # _ \<Rightarrow> addr_string a) (show_int port)"

abbreviation crlf :: string where "crlf \<equiv> [cr, lf]"

definition connect_request :: "string \<Rightarrow> string \<Rightarrow> string" where
  "connect_request target auth =
     ''CONNECT '' @ target @ '' HTTP/1.1'' @ crlf @
     ''Host: '' @ target @ crlf @
     (if auth \<noteq> [] then ''Proxy-Authorization: '' @ auth @ crlf else []) @
     crlf"

definition upstream_fail :: "upstream \<Rightarrow> string \<Rightarrow> string option \<Rightarrow> dial_error" where
  "upstream_fail d status err =
     UpstreamFailed \<lparr>ue_proxy_host = up_host d, ue_status_line = status, ue_err = err\<rparr>"

definition dial_upstream :: "upstream \<Rightarrow> proxy_net \<Rightarrow> string \<Rightarrow> int \<Rightarrow> addr list \<Rightarrow> dial_error + tunnel" where
  "dial_upstream d pn host port addrs =
     (let target = connect_target host port addrs in
      case pn_dial pn (up_host d) of Some e \<Rightarrow> Inl (upstream_fail d [] (Some e)) | None \<Rightarrow>
      case (if up_scheme d = ''https'' then pn_tls pn else None) of
        Some e \<Rightarrow> Inl (upstream_fail d [] (Some (''TLS handshake: '' @ e))) | None \<Rightarrow>
      case pn_write pn of Some e \<Rightarrow> Inl (upstream_fail d [] (Some e)) | None \<Rightarrow>
      case pn_reply pn (connect_request target (up_auth d)) of
        BadReply e \<Rightarrow> Inl (upstream_fail d [] (Some e))
      | Reply status status_line buffered \<Rightarrow>
          if status \<noteq> 200 then Inl (upstream_fail d status_line None)
          else Inr (ProxyTunnel target buffered))"

record transport =
  tr_net :: network
  tr_order :: "dial_result list \<Rightarrow> dial_result list"
  tr_proxy :: proxy_net

definition dial_direct :: "bool \<Rightarrow> transport \<Rightarrow> addr list \<Rightarrow> int \<Rightarrow> dial_error + tunnel" where
  "dial_direct allow_loopback tr addrs port =
     (case fst (dial_pinned allow_loopback (tr_net tr) (tr_order tr) addrs port) of
        Inl e \<Rightarrow> Inl (DialError e) | Inr c \<Rightarrow> Inr (DirectTunnel c))"

fun dial_tunnel :: "dialer \<Rightarrow> transport \<Rightarrow> string \<Rightarrow> int \<Rightarrow> addr list \<Rightarrow> (dial_error + tunnel) \<times> string list" where
  "dial_tunnel (Direct allow_loopback) tr host port addrs = (dial_direct allow_loopback tr addrs port, [])"
| "dial_tunnel (Upstream d) tr host port addrs =
     (let h = normalize_host host in
      if host_matches_no_proxy h (up_no_proxy d)
      then (dial_direct (up_allow_loopback d) tr addrs port,
            [''omac netproxy: NO_PROXY match for '' @ h @ '' '' @ [CHR 0xE2, CHR 0x80, CHR 0x94] @ '' dialing direct''])
      else (dial_upstream d (tr_proxy tr) h port addrs, []))"

text \<open>
  \<open>bufferedConn.Read\<close> for \<open>n\<close> bytes when the socket delivers at most \<open>k\<close>.  The state is what the
  \<open>bufio.Reader\<close> holds (\<open>None\<close> once it was given up) and what is still to come from the socket;
  an empty reader fills itself, unless the request is at least its size of 4096 bytes.
\<close>

type_synonym buffered_conn = "string option \<times> string"

definition bufio_read :: "nat \<Rightarrow> nat \<Rightarrow> string \<Rightarrow> string \<Rightarrow> string \<times> string \<times> string" where
  "bufio_read n k buf sock =
     (if n = 0 then ([], buf, sock)
      else if buf \<noteq> [] then (take n buf, drop n buf, sock)
      else if n \<ge> 4096 then (take (min n k) sock, [], drop (min n k) sock)
      else let chunk = take (min 4096 k) sock
           in (take n chunk, drop n chunk, drop (min 4096 k) sock))"

definition buffered_read :: "nat \<Rightarrow> nat \<Rightarrow> buffered_conn \<Rightarrow> string \<times> buffered_conn" where
  "buffered_read n k c =
     (case c of
        (Some buf, sock) \<Rightarrow>
          (let (out, buf', sock') = bufio_read n k buf sock
           in if out \<noteq> [] then (out, (Some buf', sock'))
              else (take (min n k) sock', (None, drop (min n k) sock')))
      | (None, sock) \<Rightarrow> (take (min n k) sock, (None, drop (min n k) sock)))"

fun buffered_reads :: "(nat \<times> nat) list \<Rightarrow> buffered_conn \<Rightarrow> string" where
  "buffered_reads [] c = []"
| "buffered_reads ((n, k) # ns) c = (let (out, c') = buffered_read n k c in out @ buffered_reads ns c')"

text \<open>What the stream still has to deliver.\<close>

definition pending :: "buffered_conn \<Rightarrow> string" where
  "pending c = (case fst c of Some buf \<Rightarrow> buf | None \<Rightarrow> []) @ snd c"

section \<open>Facts\<close>

lemma collect_winner:
  "collect rs w e cl = (w', e', cl') \<Longrightarrow>
     (w' = None \<longrightarrow> w = None \<and> (\<forall>c. Connected c \<notin> set rs)) \<and>
     (\<forall>c. w' = Some c \<longrightarrow> w = Some c \<or> Connected c \<in> set rs)"
  by (induction rs w e cl arbitrary: w' e' cl' rule: collect.induct) auto

text \<open>Every connection of the race is the winner or closed, and only once.\<close>

lemma collect_balance:
  "collect rs w e cl = (w', e', cl') \<Longrightarrow>
     mset (case w' of None \<Rightarrow> [] | Some c \<Rightarrow> [c]) + mset cl' =
     mset (case w of None \<Rightarrow> [] | Some c \<Rightarrow> [c]) + mset cl +
     mset (List.map_filter (\<lambda>r. case r of Connected c \<Rightarrow> Some c | Failed _ \<Rightarrow> None) rs)"
  by (induction rs w e cl arbitrary: w' e' cl' rule: collect.induct)
     (auto simp: List.map_filter_simps)

lemma attempts_empty: "attempts al net [] port = []"
  by (simp add: attempts_def)

lemma attempts_Connected:
  "Connected (i, a) \<in> set (attempts al net addrs port) \<Longrightarrow>
     i < length addrs \<and> a = addrs ! i \<and> refused al a = None"
  by (auto simp: attempts_def attempt_def split: option.splits)

lemma arrival_set: "arrival_order order \<Longrightarrow> set (order rs) = set rs"
  unfolding arrival_order_def by (metis mset_eq_setD)

lemma dial_pinned_cases:
  assumes "dial_pinned al net order addrs port = (Inr (i, a), closed)" "arrival_order order"
  shows "i < length addrs \<and> a = addrs ! i \<and> refused al a = None"
proof -
  from assms(1) obtain e where c: "collect (order (attempts al net addrs port)) None None [] = (Some (i, a), e, closed)"
    by (auto simp: dial_pinned_def split: if_splits prod.splits option.splits)
  then have "Connected (i, a) \<in> set (order (attempts al net addrs port))"
    using collect_winner [OF c] by simp
  then show ?thesis
    using attempts_Connected by (simp add: arrival_set [OF assms(2)])
qed

lemma refused_strict: "refused False a = None \<longleftrightarrow> hard_denied_addr a = None"
  by (simp add: refused_def)

text \<open>
  C28: The race is safe and leaks nothing.  However the attempts end and in whatever order, a
  connection \<open>dialPinned\<close> returns goes to one of the pinned addresses, never to a hard-denied
  one; every other connection that was made is closed, each once; and it fails only when no
  attempt connected.
\<close>

theorem dial_pinned_safe:
  assumes "arrival_order order"
  shows "(\<forall>i a. fst (dial_pinned False net order addrs port) = Inr (i, a) \<longrightarrow>
      i < length addrs \<and> a = addrs ! i \<and> hard_denied_addr a = None) \<and>
    mset (case fst (dial_pinned False net order addrs port) of Inr c \<Rightarrow> [c] | Inl _ \<Rightarrow> []) +
      mset (snd (dial_pinned False net order addrs port)) =
    mset (List.map_filter (\<lambda>r. case r of Connected c \<Rightarrow> Some c | Failed _ \<Rightarrow> None)
      (attempts False net addrs port))"
proof (intro conjI allI impI)
  fix i a assume "fst (dial_pinned False net order addrs port) = Inr (i, a)"
  then have "dial_pinned False net order addrs port = (Inr (i, a), snd (dial_pinned False net order addrs port))"
    by (metis prod.collapse)
  from dial_pinned_cases [OF this assms] show "i < length addrs" "a = addrs ! i" "hard_denied_addr a = None"
    unfolding refused_strict by blast+
next
  let ?f = "\<lambda>r. case r of Connected c \<Rightarrow> Some c | Failed _ \<Rightarrow> None"
  obtain w e cl where c: "collect (order (attempts False net addrs port)) None None [] = (w, e, cl)"
    by (metis prod_cases3)
  have f: "mset (List.map_filter ?f xs) = image_mset (the \<circ> ?f) (filter_mset (\<lambda>x. ?f x \<noteq> None) (mset xs))" for xs
    by (simp add: List.map_filter_def mset_filter)
  have "mset (List.map_filter ?f (order (attempts False net addrs port))) =
      mset (List.map_filter ?f (attempts False net addrs port))"
    using assms unfolding f by (simp add: arrival_order_def)
  then show "mset (case fst (dial_pinned False net order addrs port) of Inr c \<Rightarrow> [c] | Inl _ \<Rightarrow> []) +
      mset (snd (dial_pinned False net order addrs port)) =
    mset (List.map_filter ?f (attempts False net addrs port))"
    using collect_balance [OF c] attempts_empty
    by (cases w; cases "addrs = []") (simp_all add: dial_pinned_def c List.map_filter_simps)
qed

definition demo_net :: network where
  "demo_net i addr = (if i = 0 then Some ''no route'' else None)"

theorem dial_pinned_safe_witness:
  "dial_pinned False demo_net rev [V4 0x01010101, V4 0x7F000001, V4 0x08080808] 443 = (Inr (2, V4 0x08080808), []) \<and>
   hard_denied_addr (V4 0x08080808) = None"
proof -
  have r: "refused False (V4 0x7F000001) = Some ''dial refused: hard-deny loopback/unspecified address''"
    "refused False (V4 0x01010101) = None" "refused False (V4 0x08080808) = None"
    by (simp_all add: refused_def hard_denied_addr_def is_link_local_iff is_host_local_iff is_cloud_metadata_iff
        unmap_def is_4in6_def cloud_metadata_addrs_eval)
  have d: "dial_pinned False demo_net rev [V4 0x01010101, V4 0x7F000001, V4 0x08080808] 443 = (Inr (2, V4 0x08080808), [])"
    by (simp add: dial_pinned_def attempts_def upt_rec attempt_def r demo_net_def)
  have "arrival_order rev" by (simp add: arrival_order_def)
  from dial_pinned_safe [OF this, of demo_net "[V4 0x01010101, V4 0x7F000001, V4 0x08080808]" 443] d
  show ?thesis by auto
qed

lemma dial_upstream_tunnel:
  assumes "dial_upstream d pn host port addrs = Inr t"
  shows "\<exists>buffered. t = ProxyTunnel (connect_target host port addrs) buffered"
  using assms unfolding dial_upstream_def Let_def
  by (auto split: option.split_asm proxy_reply.split_asm if_split_asm)

text \<open>
  A chained tunnel goes to the address that was checked.  When admission pinned addresses,
  the CONNECT request sent to the upstream proxy does not depend on the requested host: it names
  the first pinned address, and a tunnel that opens ends there.
\<close>

theorem connect_goes_to_pinned:
  "connect_target host port (a # addrs) = join_host_port (addr_string a) (show_int port) \<and>
   dial_upstream d pn host port (a # addrs) = dial_upstream d pn other port (a # addrs) \<and>
   (\<forall>target buffered. dial_upstream d pn host port (a # addrs) = Inr (ProxyTunnel target buffered) \<longrightarrow>
      target = join_host_port (addr_string a) (show_int port))"
proof (intro conjI allI impI)
  show "connect_target host port (a # addrs) = join_host_port (addr_string a) (show_int port)"
    by (simp add: connect_target_def)
  show "dial_upstream d pn host port (a # addrs) = dial_upstream d pn other port (a # addrs)"
    by (simp add: dial_upstream_def connect_target_def)
  fix target buffered assume "dial_upstream d pn host port (a # addrs) = Inr (ProxyTunnel target buffered)"
  from dial_upstream_tunnel [OF this] show "target = join_host_port (addr_string a) (show_int port)"
    by (auto simp: connect_target_def)
qed

definition demo_upstream :: upstream where
  "demo_upstream = \<lparr>up_scheme = ''http'', up_host = ''proxy:3128'', up_auth = [], up_no_proxy = [],
     up_allow_loopback = False\<rparr>"

definition demo_proxy :: proxy_net where
  "demo_proxy = \<lparr>pn_dial = (\<lambda>_. None), pn_tls = None, pn_write = None, pn_reply = (\<lambda>_. Reply 200 ''200 OK'' [])\<rparr>"

theorem connect_goes_to_pinned_witness:
  "dial_upstream demo_upstream demo_proxy ''a.io'' 443 [V4 0x08080808] =
     Inr (ProxyTunnel (join_host_port (addr_string (V4 0x08080808)) (show_int 443)) [])"
proof -
  have "dial_upstream demo_upstream demo_proxy ''b.io'' 443 [a] =
     Inr (ProxyTunnel (join_host_port (addr_string a) (show_int 443)) [])" for a
    by (simp add: dial_upstream_def demo_upstream_def demo_proxy_def connect_target_def)
  note this [of "V4 0x08080808"]
  with connect_goes_to_pinned [of "''a.io''" 443 "V4 0x08080808" "[]" demo_upstream demo_proxy "''b.io''"]
  show ?thesis by metis
qed

lemma bufio_read_pending:
  assumes "n > 0" "bufio_read n k buf sock = (out, buf', sock')"
  shows "buf @ sock = out @ buf' @ sock'"
proof (cases "buf \<noteq> []")
  case True
  then have "out @ buf' = buf" "sock' = sock" using assms by (auto simp: bufio_read_def)
  then show ?thesis by auto
next
  case False
  show ?thesis
  proof (cases "n \<ge> 4096")
    case True
    then show ?thesis using assms False by (auto simp: bufio_read_def)
  next
    case small: False
    define chunk where "chunk = take (min 4096 k) sock"
    have "out = take n chunk" "buf' = drop n chunk" "sock' = drop (min 4096 k) sock"
      using assms False small by (auto simp: bufio_read_def Let_def chunk_def)
    then have "out @ buf' = chunk" "chunk @ sock' = sock"
      by (simp_all only: chunk_def append_take_drop_id)
    then show ?thesis using False by (metis append.assoc append_Nil)
  qed
qed

lemma bufio_read_empty:
  "n > 0 \<Longrightarrow> bufio_read n k buf sock = ([], buf', sock') \<Longrightarrow> buf' = []"
  by (auto simp: bufio_read_def Let_def split: if_splits)

lemma buffered_read_pending:
  assumes "n > 0" "buffered_read n k c = (out, c')"
  shows "pending c = out @ pending c'"
proof (cases c)
  case (Pair b sock)
  show ?thesis
  proof (cases b)
    case None
    then show ?thesis using assms Pair by (auto simp: buffered_read_def pending_def)
  next
    case (Some buf)
    obtain o' b' s' where r: "bufio_read n k buf sock = (o', b', s')" by (metis prod_cases3)
    show ?thesis
      using assms Pair Some bufio_read_pending [OF assms(1) r] bufio_read_empty [of n k buf sock b' s'] r
      by (auto simp: buffered_read_def pending_def simp del: take_append drop_append split: if_splits)
  qed
qed

text \<open>
  No byte after the proxy's response head is lost or reordered.  Non-empty reads of any
  sizes from a \<open>bufferedConn\<close> yield, in order, a prefix of the buffered bytes followed by those
  of the socket.
\<close>

theorem buffered_reads_in_order:
  assumes "list_all (\<lambda>(n, k). n > 0) ns"
  shows "\<exists>rest. buf @ sock = buffered_reads ns (Some buf, sock) @ rest"
proof -
  have "\<exists>rest. pending c = buffered_reads ns c @ rest" for c
    using assms
  proof (induction ns arbitrary: c)
    case (Cons nk ns)
    obtain n k where nk: "nk = (n, k)" by fastforce
    obtain out c' where r: "buffered_read n k c = (out, c')" by (cases "buffered_read n k c")
    from Cons.IH [of c'] Cons.prems obtain rest where "pending c' = buffered_reads ns c' @ rest" by auto
    then show ?case
      using buffered_read_pending [OF _ r] Cons.prems by (simp add: nk r)
  qed simp
  from this [of "(Some buf, sock)"] show ?thesis by (simp add: pending_def)
qed

theorem buffered_reads_in_order_witness:
  "\<exists>rest. ''HELLOworld'' = buffered_reads [(2, 9), (9, 9), (1, 2), (4, 9)] (Some ''HELLO'', ''world'') @ rest"
  using buffered_reads_in_order [of "[(2, 9), (9, 9), (1, 2), (4, 9)]" "''HELLO''" "''world''"] by simp

text \<open>An empty read gives the reader up with what it still holds.\<close>

lemma buffered_empty_read_drops: "buffered_reads [(0, 9), (9, 9)] (Some ''HELLO'', ''world'') = ''world''"
  by (simp add: buffered_read_def bufio_read_def)

end
