(* ===== verification/Hostname.thy ===== *)
theory Hostname
  imports HardDeny
begin

text \<open>
  What the proxy accepts as a destination (\<open>internal/netproxy/server.go\<close>): the CONNECT target,
  host name validation, the \<open>inet_aton\<close> spellings of IPv4 addresses, and the loopback test.
\<close>

section \<open>Numbers as \<open>inet_aton\<close> reads them\<close>

text \<open>\<open>strconv.ParseUint(s, 0, 32)\<close>: prefixes select the base, underscores separate digits.\<close>

definition digit_in_base :: "nat \<Rightarrow> char \<Rightarrow> nat option" where
  "digit_in_base base c =
     (let l = lower_char c;
          d = (if is_digit c then Some (code c - 48)
               else if is_lower_alpha l then Some (code l - 87) else None)
      in case d of None \<Rightarrow> None | Some v \<Rightarrow> if v < base then Some v else None)"

fun digits_value :: "nat \<Rightarrow> string \<Rightarrow> nat \<Rightarrow> nat option" where
  "digits_value base [] n = Some n"
| "digits_value base (c # s) n =
     (if c = CHR ''_'' then digits_value base s n
      else case digit_in_base base c of
        None \<Rightarrow> None
      | Some d \<Rightarrow> digits_value base s (n * base + d))"

text \<open>\<open>underscoreOK\<close>; the state is what precedes: \<open>^\<close> the start, \<open>0\<close> a digit or prefix, \<open>_\<close>, \<open>!\<close>.\<close>

fun underscore_loop :: "bool \<Rightarrow> string \<Rightarrow> char \<Rightarrow> bool" where
  "underscore_loop hex [] i = (i \<noteq> CHR ''_'')"
| "underscore_loop hex (c # s) i =
     (if is_digit c \<or> (hex \<and> is_lower_alpha (lower_char c) \<and> code (lower_char c) \<le> 102)
      then underscore_loop hex s (CHR ''0'')
      else if c = CHR ''_'' then (if i \<noteq> CHR ''0'' then False else underscore_loop hex s (CHR ''_''))
      else if i = CHR ''_'' then False
      else underscore_loop hex s (CHR ''!''))"

definition base_prefix :: "string \<Rightarrow> bool" where
  "base_prefix s \<longleftrightarrow> length s \<ge> 2 \<and> s ! 0 = CHR ''0'' \<and> lower_char (s ! 1) \<in> set ''box''"

text \<open>A sign cannot occur here: \<open>ParseUint\<close> rejects it among the digits.\<close>

definition underscore_ok :: "string \<Rightarrow> bool" where
  "underscore_ok s =
     (if base_prefix s then underscore_loop (lower_char (s ! 1) = CHR ''x'') (drop 2 s) (CHR ''0'')
      else underscore_loop False s (CHR ''^''))"

definition base_and_digits :: "string \<Rightarrow> nat \<times> string" where
  "base_and_digits s =
     (if s ! 0 = CHR ''0'' then
        (if length s \<ge> 3 \<and> lower_char (s ! 1) = CHR ''b'' then (2, drop 2 s)
         else if length s \<ge> 3 \<and> lower_char (s ! 1) = CHR ''o'' then (8, drop 2 s)
         else if length s \<ge> 3 \<and> lower_char (s ! 1) = CHR ''x'' then (16, drop 2 s)
         else (8, drop 1 s))
      else (10, s))"

definition parse_uint32 :: "string \<Rightarrow> nat option" where
  "parse_uint32 s =
     (if s = [] then None
      else let (base, ds) = base_and_digits s
           in case digits_value base ds 0 of
                None \<Rightarrow> None
              | Some n \<Rightarrow>
                  if n \<ge> 2 ^ 32 then None
                  else if CHR ''_'' \<in> set ds \<and> \<not> underscore_ok s then None
                  else Some n)"

fun parse_all :: "string list \<Rightarrow> nat list option" where
  "parse_all [] = Some []"
| "parse_all (p # ps) =
     (if p = [] then None
      else case parse_uint32 p of
        None \<Rightarrow> None
      | Some v \<Rightarrow> map_option (\<lambda>vs. v # vs) (parse_all ps))"

definition inet_aton_decode :: "string \<Rightarrow> addr option" where
  "inet_aton_decode s =
     (let parts = split_on dot s in
      if parts = [] \<or> length parts > 4 then None
      else case parse_all parts of
        None \<Rightarrow> None
      | Some [a] \<Rightarrow> Some (V4 (of_nat a))
      | Some [a, b] \<Rightarrow>
          if a > 255 \<or> b > 0xffffff then None else Some (V4 (of_nat (a * 2 ^ 24 + b)))
      | Some [a, b, c] \<Rightarrow>
          if a > 255 \<or> b > 255 \<or> c > 0xffff then None
          else Some (V4 (of_nat (a * 2 ^ 24 + b * 2 ^ 16 + c)))
      | Some [a, b, c, d] \<Rightarrow>
          if a > 255 \<or> b > 255 \<or> c > 255 \<or> d > 255 then None
          else Some (V4 (of_nat (a * 2 ^ 24 + b * 2 ^ 16 + c * 2 ^ 8 + d)))
      | Some _ \<Rightarrow> None)"

section \<open>Host names\<close>

datatype host_error =
    NonCanonicalIPv4
  | HostTooLong
  | EmptyLabel
  | LabelTooLong
  | InvalidCharacter char
  | HyphenAtEdge

definition host_char :: "char \<Rightarrow> bool" where
  "host_char c \<longleftrightarrow> is_lower_alpha c \<or> is_digit c \<or> c = CHR ''-''"

definition label_error :: "string \<Rightarrow> host_error option" where
  "label_error l =
     (if l = [] then Some EmptyLabel
      else if length l > 63 then Some LabelTooLong
      else case find (\<lambda>c. \<not> host_char c) l of
        Some c \<Rightarrow> Some (InvalidCharacter c)
      | None \<Rightarrow> if hd l = CHR ''-'' \<or> last l = CHR ''-'' then Some HyphenAtEdge else None)"

fun labels_error :: "string list \<Rightarrow> host_error option" where
  "labels_error [] = None"
| "labels_error (l # ls) = (case label_error l of Some e \<Rightarrow> Some e | None \<Rightarrow> labels_error ls)"

definition validate_hostname :: "string \<Rightarrow> host_error option" where
  "validate_hostname host =
     (if parse_addr host \<noteq> None then None
      else if inet_aton_decode host \<noteq> None then Some NonCanonicalIPv4
      else if length host > 253 then Some HostTooLong
      else labels_error (split_on dot host))"

section \<open>The CONNECT target\<close>

datatype target_error = BadHostPort | InvalidPort string | BadHost host_error

definition split_connect_target :: "string \<Rightarrow> target_error + string \<times> int" where
  "split_connect_target target =
     (case split_host_port target of
        None \<Rightarrow> Inl BadHostPort
      | Some (host, port_str) \<Rightarrow>
          (case atoi port_str of
             None \<Rightarrow> Inl (InvalidPort port_str)
           | Some port \<Rightarrow>
               if port < 1 \<or> port > 65535 then Inl (InvalidPort port_str)
               else case validate_hostname (normalize_host host) of
                 Some e \<Rightarrow> Inl (BadHost e)
               | None \<Rightarrow> Inr (normalize_host host, port)))"

definition is_loopback_host :: "string \<Rightarrow> bool" where
  "is_loopback_host host =
     (let h = normalize_host host in
      if h = ''localhost'' \<or> has_suffix h ''.localhost'' then True
      else case parse_addr h of
        Some ip \<Rightarrow> is_host_local ip
      | None \<Rightarrow> (case inet_aton_decode h of Some ip \<Rightarrow> is_host_local ip | None \<Rightarrow> False))"

lemmas host_eval [gostr] =
  digit_in_base_def base_prefix_def underscore_ok_def base_and_digits_def parse_uint32_def
  inet_aton_decode_def host_char_def label_error_def validate_hostname_def normalize_host_def

section \<open>Facts\<close>

definition dns_name :: "string \<Rightarrow> bool" where
  "dns_name h \<longleftrightarrow> length h \<le> 253 \<and>
     (\<forall>l \<in> set (split_on dot h). l \<noteq> [] \<and> length l \<le> 63 \<and> (\<forall>c \<in> set l. host_char c) \<and>
        hd l \<noteq> CHR ''-'' \<and> last l \<noteq> CHR ''-'')"

lemma label_error_None:
  "label_error l = None \<longleftrightarrow>
     l \<noteq> [] \<and> length l \<le> 63 \<and> (\<forall>c \<in> set l. host_char c) \<and> hd l \<noteq> CHR ''-'' \<and> last l \<noteq> CHR ''-''"
proof (cases "find (\<lambda>c. \<not> host_char c) l")
  case None
  then have "\<forall>c \<in> set l. host_char c" by (auto simp: find_None_iff)
  with None show ?thesis by (auto simp: label_error_def)
next
  case (Some c)
  then have "c \<in> set l \<and> \<not> host_char c" by (auto simp: find_Some_iff)
  with Some show ?thesis by (auto simp: label_error_def)
qed

lemma labels_error_None: "labels_error ls = None \<longleftrightarrow> (\<forall>l \<in> set ls. label_error l = None)"
  by (induction ls) (auto split: option.split)

lemma validate_hostname_None:
  "validate_hostname h = None \<longleftrightarrow>
     parse_addr h \<noteq> None \<or> (inet_aton_decode h = None \<and> dns_name h)"
  by (auto simp: validate_hostname_def labels_error_None label_error_None dns_name_def not_less)

text \<open>A valid DNS name contains no byte that could end a header line or separate its words.\<close>

lemma dns_name_chars:
  assumes "dns_name h" "c \<in> set h"
  shows "host_char c \<or> c = dot"
proof -
  have "set (join_with [d] ws) \<subseteq> insert d (\<Union> (set ` set ws))" for d ws
    by (induction "[d]" ws rule: join_with.induct) auto
  from this [of dot "split_on dot h"] have "c \<in> insert dot (\<Union> (set ` set (split_on dot h)))"
    using assms(2) by (auto simp: join_split_on)
  then show ?thesis using assms(1) by (auto simp: dns_name_def)
qed

text \<open>
  What a CONNECT target can be.  A target the proxy accepts gives a port from 1 to 65535 and a
  normalized host that is an IP literal or a well-formed DNS name (at most 253 bytes, labels of 1
  to 63 letters, digits and inner hyphens), and never a spelling that \<open>inet_aton\<close> would read as
  an address without being a literal the filter can check.
\<close>

theorem connect_target_sound:
  assumes "split_connect_target t = Inr (h, port)"
  shows "1 \<le> port \<and> port \<le> 65535 \<and> normalize_host h = h \<and>
    (parse_addr h \<noteq> None \<or> (dns_name h \<and> inet_aton_decode h = None))"
  using assms validate_hostname_None [of h]
  by (auto simp: split_connect_target_def split: option.splits if_splits prod.splits)

lemma demo_target: "split_connect_target ''API.example.com.:443'' = Inr (''api.example.com'', 443)"
  by (simp add: split_connect_target_def split_host_port_def last_index_of_def atoi_def Let_def gostr)

theorem connect_target_sound_witness:
  "split_connect_target ''API.example.com.:443'' = Inr (''api.example.com'', 443) \<and>
   1 \<le> (443::int) \<and> normalize_host ''api.example.com'' = ''api.example.com''"
  using connect_target_sound [OF demo_target] demo_target by blast

lemma inet_aton_loopback: "inet_aton_decode h = Some (V4 w) \<Longrightarrow> parse_addr h = None \<Longrightarrow> normalize_host h = h \<Longrightarrow>
    unat w div 2 ^ 24 = 127 \<Longrightarrow> is_loopback_host h"
  by (simp add: is_loopback_host_def is_host_local_iff unmap_def is_4in6_def)

text \<open>
  The loopback test sees through spellings.  Decimal, octal, hexadecimal and shortened forms
  of 127.0.0.1, the IPv4-mapped and unspecified addresses, and \<open>localhost\<close> with dots, upper case
  or subdomains are all refused as loopback; 127.1 is read by \<open>inet_aton\<close> as 127.0.0.1 is.
\<close>

theorem loopback_spellings:
  "list_all is_loopback_host
     [''127.0.0.1'', ''2130706433'', ''0x7f.0.0.1'', ''0177.0.0.1'', ''127.1'', ''0x7F000001'',
      ''::1'', ''::ffff:127.0.0.1'', ''0.0.0.0'', ''0'', ''LocalHost.'', ''a.localhost''] \<and>
   inet_aton_decode ''127.1'' = parse_addr ''127.0.0.1'' \<and>
   \<not> is_loopback_host ''128.0.0.1'' \<and> \<not> is_loopback_host ''localhost.io''"
  by (simp add: is_loopback_host_def is_host_local_iff unmap_def is_4in6_def Let_def gostr)

end
