(* ===== verification/Paths.thy ===== *)
theory Paths
  imports Prelude
begin

text \<open>
  Go's \<open>path/filepath\<close> on Unix, as the sandbox profile, the grants and the intent registry use
  it: \<open>Clean\<close>, \<open>Join\<close>, \<open>IsAbs\<close>, \<open>Dir\<close>, \<open>Base\<close>, with containment of one path in another.
\<close>

definition is_abs :: "string \<Rightarrow> bool" where
  "is_abs p \<longleftrightarrow> has_prefix p ''/''"

text \<open>One pass over the elements; the accumulator is the cleaned path, last element first.\<close>

fun clean_loop :: "bool \<Rightarrow> string list \<Rightarrow> string list \<Rightarrow> string list" where
  "clean_loop rooted [] acc = acc"
| "clean_loop rooted (p # ps) acc =
     (if p = [] \<or> p = ''.'' then clean_loop rooted ps acc
      else if p = ''..'' then
        (case acc of
           [] \<Rightarrow> if rooted then clean_loop rooted ps [] else clean_loop rooted ps [''..'']
         | q # qs \<Rightarrow> if q = ''..'' then clean_loop rooted ps (''..'' # acc) else clean_loop rooted ps qs)
      else clean_loop rooted ps (p # acc))"

definition clean_parts :: "string \<Rightarrow> string list" where
  "clean_parts p = rev (clean_loop (is_abs p) (split_on slash p) [])"

definition path_of :: "bool \<Rightarrow> string list \<Rightarrow> string" where
  "path_of rooted parts =
     (if rooted then slash # join_with ''/'' parts
      else if parts = [] then ''.'' else join_with ''/'' parts)"

definition clean :: "string \<Rightarrow> string" where
  "clean p = (if p = [] then ''.'' else path_of (is_abs p) (clean_parts p))"

definition path_join :: "string list \<Rightarrow> string" where
  "path_join elems =
     (let es = dropWhile (\<lambda>e. e = []) elems
      in if es = [] then [] else clean (join_with ''/'' es))"

text \<open>\<open>Dir\<close> cleans what precedes the last separator; \<open>Base\<close> is the last element.\<close>

definition upto_last_slash :: "string \<Rightarrow> string" where
  "upto_last_slash p = rev (dropWhile (\<lambda>c. c \<noteq> slash) (rev p))"

definition path_dir :: "string \<Rightarrow> string" where
  "path_dir p = clean (upto_last_slash p)"

definition path_base :: "string \<Rightarrow> string" where
  "path_base p =
     (if p = [] then ''.''
      else let q = trim_right (\<lambda>c. c = slash) p
           in if q = [] then ''/'' else rev (takeWhile (\<lambda>c. c \<noteq> slash) (rev q)))"

text \<open>\<open>filepath.Abs\<close> under a working directory.\<close>

definition path_abs :: "string \<Rightarrow> string \<Rightarrow> string" where
  "path_abs cwd p = (if is_abs p then clean p else path_join [cwd, p])"

text \<open>A path lies strictly under a directory: the containment test the program writes.\<close>

definition is_under :: "string \<Rightarrow> string \<Rightarrow> bool" where
  "is_under p dir \<longleftrightarrow> has_prefix p (dir @ ''/'')"

lemmas path_eval [gostr] =
  is_abs_def clean_parts_def path_of_def clean_def path_join_def upto_last_slash_def path_dir_def
  path_base_def path_abs_def is_under_def Let_def

section \<open>Cleaning is idempotent\<close>

text \<open>Cleaned elements: no blank, \<open>.\<close> or separator; \<open>..\<close> only in front, and not when rooted.\<close>

definition plain :: "string \<Rightarrow> bool" where
  "plain p \<longleftrightarrow> p \<noteq> [] \<and> p \<noteq> ''.'' \<and> p \<noteq> ''..'' \<and> slash \<notin> set p"

fun clean_ok :: "bool \<Rightarrow> string list \<Rightarrow> bool" where
  "clean_ok rooted [] = True"
| "clean_ok rooted (p # ps) =
     (if p = ''..'' then \<not> rooted \<and> (\<forall>q \<in> set ps. q = ''..'') else plain p \<and> clean_ok rooted ps)"

lemma clean_ok_dots: "\<forall>q \<in> set ps. q = ''..'' \<Longrightarrow> \<not> rooted \<Longrightarrow> clean_ok rooted ps"
  by (induction ps) auto

lemma clean_ok_tl: "clean_ok rooted (p # ps) \<Longrightarrow> clean_ok rooted ps"
  by (auto split: if_splits intro: clean_ok_dots)

lemma clean_loop_ok:
  "\<forall>p \<in> set ps. slash \<notin> set p \<Longrightarrow> clean_ok rooted acc \<Longrightarrow> clean_ok rooted (clean_loop rooted ps acc)"
proof (induction ps arbitrary: acc)
  case (Cons p ps)
  have sl: "slash \<notin> set p" "\<forall>p \<in> set ps. slash \<notin> set p" using Cons.prems by auto
  show ?case
  proof (cases "p = ''..''")
    case False
    then show ?thesis using Cons sl by (auto simp: plain_def)
  next
    case dd: True
    show ?thesis
    proof (cases acc)
      case Nil
      then show ?thesis
        using Cons.IH [OF sl(2), of "[]"] Cons.IH [OF sl(2), of "[''..'']"] dd by (cases rooted) simp_all
    next
      case (Cons q qs)
      then show ?thesis
        using Cons.IH [OF sl(2)] clean_ok_tl [of rooted q qs] Cons.prems(2) dd
        by (auto split: if_splits)
    qed
  qed
qed simp

lemma clean_loop_plain:
  "list_all plain ps \<Longrightarrow> clean_loop rooted ps acc = rev ps @ acc"
  by (induction ps arbitrary: acc) (auto simp: plain_def)

lemma clean_loop_dots:
  "\<forall>q \<in> set ps. q = ''..'' \<Longrightarrow> \<forall>q \<in> set acc. q = ''..'' \<Longrightarrow> clean_loop False ps acc = ps @ acc"
proof (induction ps arbitrary: acc)
  case (Cons p ps)
  then have "clean_loop False (p # ps) acc = clean_loop False ps (''..'' # acc)"
    by (cases acc) auto
  also have "\<dots> = ps @ ''..'' # acc" using Cons by auto
  also have "\<dots> = (p # ps) @ acc"
    using Cons.prems(1) by (induction ps) auto
  finally show ?case .
qed simp

lemma clean_ok_split:
  "clean_ok rooted ps \<Longrightarrow> \<exists>xs ds. ps = xs @ ds \<and> list_all plain xs \<and> (\<forall>q \<in> set ds. q = ''..'') \<and> (rooted \<longrightarrow> ds = [])"
proof (induction ps)
  case (Cons p ps)
  show ?case
  proof (cases "p = ''..''")
    case True
    with Cons.prems show ?thesis by (intro exI [of _ "[]"] exI [of _ "p # ps"]) auto
  next
    case False
    with Cons obtain xs ds where "ps = xs @ ds" "list_all plain xs" "\<forall>q \<in> set ds. q = ''..''" "rooted \<longrightarrow> ds = []"
      by auto
    with False Cons.prems show ?thesis by (intro exI [of _ "p # xs"] exI [of _ ds]) auto
  qed
qed simp

lemma clean_loop_append: "clean_loop r (xs @ ys) acc = clean_loop r ys (clean_loop r xs acc)"
  by (induction xs arbitrary: acc) (auto split: list.split)

lemma rev_dots: "\<forall>q \<in> set ds. q = x \<Longrightarrow> rev ds = ds"
  by (metis replicate_length_same rev_replicate)

lemma clean_loop_fixpoint:
  assumes "clean_ok rooted ps"
  shows "clean_loop rooted (rev ps) [] = ps"
proof -
  obtain xs ds where d: "ps = xs @ ds" "list_all plain xs" "\<forall>q \<in> set ds. q = ''..''" "rooted \<longrightarrow> ds = []"
    using clean_ok_split [OF assms] by blast
  have dd: "clean_loop rooted ds [] = ds"
    using d(3,4) clean_loop_dots [of ds "[]"] by (cases rooted) auto
  show ?thesis
    using d clean_loop_plain [of "rev xs" rooted ds] by (simp add: clean_loop_append rev_dots dd)
qed

lemma clean_ok_no_slash: "clean_ok r ps \<Longrightarrow> p \<in> set ps \<Longrightarrow> slash \<notin> set p \<and> p \<noteq> []"
proof (induction ps)
  case (Cons q ps)
  show ?case
  proof (cases "q = ''..''")
    case True
    then have "p = ''..''" using Cons.prems by (metis clean_ok.simps(2) set_ConsD)
    then show ?thesis by simp
  next
    case False
    then show ?thesis using Cons by (cases "p = q") (simp_all add: plain_def)
  qed
qed simp

lemma clean_parts_ok: "clean_ok (is_abs p) (rev (clean_parts p))"
  unfolding clean_parts_def by (simp add: clean_loop_ok split_on_no_sep)

lemma is_abs_path_of:
  assumes "clean_ok r (rev parts)"
  shows "is_abs (path_of r parts) = r"
proof -
  have "\<not> has_prefix (join_with ''/'' parts) ''/''" if "parts \<noteq> []"
  proof (cases parts)
    case (Cons w ws)
    then have "w \<noteq> [] \<and> slash \<notin> set w" using assms clean_ok_no_slash [of r "rev parts" w] by simp
    then show ?thesis using Cons by (cases w; cases ws) (auto simp: has_prefix_def)
  qed (use that in simp)
  then show ?thesis by (auto simp: is_abs_def path_of_def has_prefix_def)
qed

lemma clean_parts_path_of:
  assumes "clean_ok r (rev parts)"
  shows "clean_parts (path_of r parts) = parts"
proof -
  have s: "\<forall>p \<in> set parts. slash \<notin> set p"
    using clean_ok_no_slash [OF assms] by simp
  have fp: "clean_loop r parts [] = rev parts"
    using clean_loop_fixpoint [OF assms] by simp
  show ?thesis
  proof (cases "parts = []")
    case True
    then show ?thesis by (cases r) (simp_all add: clean_parts_def path_of_def is_abs_def has_prefix_def)
  next
    case False
    have a: "is_abs (path_of r parts) = r" by (rule is_abs_path_of [OF assms])
    show ?thesis
    proof (cases r)
      case True
      then show ?thesis using a fp False split_join [OF False s] by (simp add: clean_parts_def path_of_def)
    next
      case nr: False
      then show ?thesis using a fp False split_join [OF False s] by (simp add: clean_parts_def path_of_def)
    qed
  qed
qed

lemma path_of_ne [simp]: "path_of r parts \<noteq> [] \<longleftrightarrow> r \<or> parts = [] \<or> join_with ''/'' parts \<noteq> []"
  by (auto simp: path_of_def)

lemma clean_idem [simp]: "clean (clean p) = clean p"
proof (cases "p = []")
  case True
  then show ?thesis by (simp add: clean_def is_abs_def has_prefix_def clean_parts_def path_of_def)
next
  case False
  let ?q = "path_of (is_abs p) (clean_parts p)"
  have q: "is_abs ?q = is_abs p" "clean_parts ?q = clean_parts p"
    using is_abs_path_of [OF clean_parts_ok] clean_parts_path_of [OF clean_parts_ok] by simp_all
  have "?q \<noteq> []"
  proof (cases "clean_parts p")
    case (Cons w ws)
    then have "w \<noteq> []" using clean_ok_no_slash [OF clean_parts_ok, of w p] by simp
    then show ?thesis using Cons by (cases ws) (auto simp: path_of_def)
  qed (simp add: path_of_def)
  then show ?thesis using False q by (simp add: clean_def)
qed

lemma clean_ne [simp]: "clean p \<noteq> []"
proof (cases "p = []")
  case False
  show ?thesis
  proof (cases "clean_parts p")
    case (Cons w ws)
    then have "w \<noteq> []" using clean_ok_no_slash [OF clean_parts_ok, of w p] by simp
    then show ?thesis using False Cons by (cases ws) (auto simp: clean_def path_of_def)
  qed (use False in \<open>simp add: clean_def path_of_def\<close>)
qed (simp add: clean_def)

lemma is_abs_clean [simp]: "is_abs (clean p) = is_abs p"
proof (cases "p = []")
  case True
  then show ?thesis by (simp add: clean_def is_abs_def has_prefix_def)
qed (simp add: clean_def is_abs_path_of [OF clean_parts_ok])

text \<open>A cleaned absolute path climbs nowhere.\<close>

lemma clean_abs_no_dotdot: "is_abs p \<Longrightarrow> q \<in> set (clean_parts p) \<Longrightarrow> plain q"
proof -
  have "clean_ok True ps \<Longrightarrow> q \<in> set ps \<Longrightarrow> plain q" for ps
    by (induction ps) (auto split: if_splits)
  then show "is_abs p \<Longrightarrow> q \<in> set (clean_parts p) \<Longrightarrow> plain q"
    using clean_parts_ok [of p] by simp
qed

lemma is_under_trans: "is_under a b \<Longrightarrow> is_under b c \<Longrightarrow> is_under a c"
  unfolding is_under_def has_prefix_iff by auto

lemma is_under_abs: "is_under a b \<Longrightarrow> is_abs b \<Longrightarrow> is_abs a"
  unfolding is_under_def is_abs_def has_prefix_iff by (cases b) auto

text \<open>A plain element below a directory.\<close>

lemma clean_parts_clean: "clean_parts (clean p) = clean_parts p"
proof (cases "p = []")
  case False
  then show ?thesis by (simp add: clean_def clean_parts_path_of [OF clean_parts_ok])
qed (simp add: clean_def clean_parts_def is_abs_def has_prefix_def)

lemma is_abs_append: "a \<noteq> [] \<Longrightarrow> is_abs (a @ b) = is_abs a"
  by (cases a) (auto simp: is_abs_def has_prefix_def)

lemma clean_parts_child:
  assumes "a \<noteq> []" "plain n"
  shows "clean_parts (a @ slash # n) = clean_parts a @ [n]"
  using assms clean_loop_plain [of "[n]"]
  by (simp add: clean_parts_def is_abs_append split_on_append clean_loop_append plain_def split_on_none)

lemma clean_child:
  assumes "a \<noteq> []" "plain n" "clean_parts a \<noteq> []"
  shows "clean (a @ slash # n) = clean a @ slash # n"
proof -
  have "join_with ''/'' (xs @ [n]) = join_with ''/'' xs @ slash # n" if "xs \<noteq> []" for xs
    using that by (induction xs rule: induct_list012) simp_all
  then show ?thesis using assms by (simp add: clean_def clean_parts_child is_abs_append path_of_def)
qed

section \<open>Going up shortens a path\<close>

definition weight :: "string list \<Rightarrow> nat" where
  "weight ws = (\<Sum>w \<leftarrow> ws. length w + 1)"

lemma weight_simps [simp]: "weight [] = 0" "weight (w # ws) = length w + 1 + weight ws"
  "weight (ws @ vs) = weight ws + weight vs" "weight (rev ws) = weight ws"
  by (simp_all add: weight_def rev_map [symmetric])

lemma weight_split: "weight (split_on d s) = length s + 1"
proof (induction s)
  case (Cons c s)
  then show ?case by (cases "split_on d s") auto
qed simp

lemma length_join: "ws \<noteq> [] \<Longrightarrow> length (join_with [d] ws) + 1 = weight ws"
  by (induction ws rule: induct_list012) auto

lemma weight_filter: "weight (filter P ws) \<le> weight ws"
  by (induction ws) auto

lemma clean_loop_weight: "weight (clean_loop r ps acc) \<le> weight (filter (\<lambda>w. w \<noteq> []) ps) + weight acc"
proof (induction ps arbitrary: acc)
  case (Cons p ps)
  show ?case
  proof (cases acc)
    case Nil
    then show ?thesis using Cons.IH [of "[]"] Cons.IH [of "[''..'']"] Cons.IH [of "[p]"] by auto
  next
    case (Cons q qs)
    then show ?thesis
      using Cons.IH [of qs] Cons.IH [of "''..'' # q # qs"] Cons.IH [of "p # q # qs"] Cons.IH [of "q # qs"] by auto
  qed
qed simp

lemma clean_dir_shorter:
  assumes "v \<noteq> []"
  shows "length (clean (v @ ''/'')) \<le> length v"
proof -
  let ?u = "v @ ''/''"
  have a: "is_abs ?u = is_abs v" using assms by (cases v) (simp_all add: is_abs_def has_prefix_def)
  have s: "split_on slash ?u = split_on slash v @ [[]]" using split_on_append [of slash v "[]"] by simp
  have "weight (clean_parts ?u) \<le> weight (filter (\<lambda>w. w \<noteq> []) (split_on slash v))"
    using clean_loop_weight [of "is_abs ?u" "split_on slash ?u" "[]"] by (simp add: clean_parts_def s)
  moreover have "weight (filter (\<lambda>w. w \<noteq> []) (split_on slash v)) + (if is_abs v then 1 else 0) \<le> length v + 1"
  proof (cases "is_abs v")
    case True
    then obtain r where "v = slash # r" by (auto simp: is_abs_def has_prefix_iff)
    then show ?thesis
      using weight_filter [of "\<lambda>w. w \<noteq> []" "split_on slash r"] weight_split [of slash r] by simp
  next
    case False
    then show ?thesis using weight_filter [of "\<lambda>w. w \<noteq> []" "split_on slash v"] weight_split [of slash v] by simp
  qed
  ultimately have w: "weight (clean_parts ?u) + (if is_abs v then 1 else 0) \<le> length v + 1" by simp
  show ?thesis
  proof (cases "clean_parts ?u")
    case Nil
    then show ?thesis using assms a by (cases v) (simp_all add: clean_def path_of_def)
  next
    case (Cons x xs)
    then have "length (join_with ''/'' (clean_parts ?u)) + 1 = weight (clean_parts ?u)" by (intro length_join) simp
    then show ?thesis using w a Cons by (simp add: clean_def path_of_def split: if_splits)
  qed
qed

lemma path_dir_shorter:
  assumes "dir \<noteq> ''/''" "dir \<noteq> ''.''"
  shows "path_dir dir = ''.'' \<or> length (path_dir dir) < length dir"
proof (cases "dropWhile (\<lambda>c. c \<noteq> slash) (rev dir)")
  case Nil
  then show ?thesis by (simp add: path_dir_def upto_last_slash_def clean_def)
next
  case (Cons c rest)
  have c: "c = slash" using hd_dropWhile [of "\<lambda>c. c \<noteq> slash" "rev dir"] Cons by simp
  have u: "upto_last_slash dir = rev rest @ ''/''" using Cons c by (simp add: upto_last_slash_def)
  have len: "Suc (length rest) \<le> length dir"
    using length_dropWhile_le [of "\<lambda>c. c \<noteq> slash" "rev dir"] Cons by simp
  show ?thesis
  proof (cases "rest = []")
    case True
    have "length dir \<noteq> 1"
    proof
      assume "length dir = 1"
      then obtain d where "dir = [d]" by (cases dir) auto
      then show False using Cons c assms(1) by (simp split: if_splits)
    qed
    then have "1 < length dir" using len by simp
    moreover have "length (clean ''/'') = 1"
      by (simp add: clean_def path_of_def clean_parts_def is_abs_def has_prefix_def)
    ultimately show ?thesis using True u by (simp add: path_dir_def)
  next
    case False
    then show ?thesis using clean_dir_shorter [of "rev rest"] u len by (simp add: path_dir_def)
  qed
qed

section \<open>Paths by their elements\<close>

text \<open>An absolute path of plain elements is cleaned, and joining appends.\<close>

lemma clean_parts_append:
  "a \<noteq> [] \<Longrightarrow> clean_parts (a @ slash # b) = rev (clean_loop (is_abs a) (split_on slash b) (rev (clean_parts a)))"
  by (simp add: clean_parts_def is_abs_append split_on_append clean_loop_append)

lemma split_join_plain: "list_all plain ps \<Longrightarrow> ps \<noteq> [] \<Longrightarrow> split_on slash (join_with ''/'' ps) = ps"
  by (rule split_join) (auto simp: list_all_iff plain_def)

lemma clean_parts_join:
  assumes "a \<noteq> []" "list_all plain ps" "ps \<noteq> []"
  shows "clean_parts (a @ slash # join_with ''/'' ps) = clean_parts a @ ps"
    and "clean_parts (a @ slash # slash # join_with ''/'' ps) = clean_parts a @ ps"
proof -
  have *: "clean_parts (b @ slash # join_with ''/'' ps) = clean_parts b @ ps" if "b \<noteq> []" for b
    using assms(2,3) by (simp add: clean_parts_append [OF that] split_join_plain clean_loop_plain)
  from * [OF assms(1)] show "clean_parts (a @ slash # join_with ''/'' ps) = clean_parts a @ ps" .
  have "clean_parts (a @ [slash]) = clean_parts a" using clean_parts_append [OF assms(1), of "[]"] by simp
  then show "clean_parts (a @ slash # slash # join_with ''/'' ps) = clean_parts a @ ps"
    using * [of "a @ [slash]"] by simp
qed

definition rooted :: "string list \<Rightarrow> string" where
  "rooted ps = path_of True ps"

lemma plain_clean_ok: "list_all plain ps \<Longrightarrow> clean_ok True (rev ps)"
proof -
  have "list_all plain qs \<Longrightarrow> clean_ok True qs" for qs by (induction qs) (auto simp: plain_def)
  then show "list_all plain ps \<Longrightarrow> clean_ok True (rev ps)" by simp
qed

lemma rooted_parts: "list_all plain ps \<Longrightarrow> clean_parts (rooted ps) = ps" "list_all plain ps \<Longrightarrow> is_abs (rooted ps)"
  unfolding rooted_def by (simp_all add: clean_parts_path_of is_abs_path_of plain_clean_ok)

lemma rooted_of_clean:
  assumes "clean p = p" "is_abs p"
  shows "list_all plain (clean_parts p)" "p = rooted (clean_parts p)"
  using assms clean_abs_no_dotdot [OF assms(2)] by (auto simp: list_all_iff rooted_def clean_def is_abs_def has_prefix_def split: if_splits)

lemma join_rooted:
  assumes "list_all plain ds" "list_all plain ps" "ps \<noteq> []"
  shows "path_join [rooted ds, join_with ''/'' ps] = rooted (ds @ ps)"
    and "path_join [rooted ds, slash # join_with ''/'' ps] = rooted (ds @ ps)"
proof -
  have ne: "rooted ds \<noteq> []" by (simp add: rooted_def path_of_def)
  have "path_join [rooted ds, t] = clean (rooted ds @ slash # t)" for t using ne by (simp add: path_join_def)
  moreover have "clean (rooted ds @ slash # t) = path_of True (clean_parts (rooted ds @ slash # t))" for t
    using ne rooted_parts(2) [OF assms(1)] by (simp add: clean_def is_abs_append)
  ultimately show "path_join [rooted ds, join_with ''/'' ps] = rooted (ds @ ps)"
    "path_join [rooted ds, slash # join_with ''/'' ps] = rooted (ds @ ps)"
    using clean_parts_join [OF ne assms(2,3)] rooted_parts(1) [OF assms(1)] by (simp_all add: rooted_def)
qed

lemma rooted_append:
  assumes "ds \<noteq> []" "ps \<noteq> []"
  shows "rooted (ds @ ps) = rooted ds @ slash # join_with ''/'' ps"
proof -
  have "xs \<noteq> [] \<Longrightarrow> join_with ''/'' (xs @ ps) = join_with ''/'' xs @ slash # join_with ''/'' ps" for xs
    using assms(2) by (induction xs rule: induct_list012) (cases ps; simp)+
  then show ?thesis using assms(1) by (simp add: rooted_def path_of_def)
qed

text \<open>Without its trailing slash, which only the root has, a rooted path is a prefix of the paths below it.\<close>

lemma rooted_last:
  assumes "list_all plain ds" "ds \<noteq> []"
  shows "\<not> has_suffix (rooted ds) ''/''"
proof -
  obtain es n where ds: "ds = es @ [n]" using assms(2) by (cases ds rule: rev_cases) auto
  then have n: "n \<noteq> []" "slash \<notin> set n" using assms(1) by (simp_all add: plain_def)
  have "join_with ''/'' (xs @ [n]) = (if xs = [] then n else join_with ''/'' xs @ slash # n)" for xs
    by (induction xs rule: induct_list012) simp_all
  then have "last (rooted ds) = last n" "rooted ds \<noteq> []" using n ds by (auto simp: rooted_def path_of_def)
  moreover have "last n \<noteq> slash" using n by (metis last_in_set)
  ultimately show ?thesis by (auto simp: has_suffix_iff)
qed

lemma trim_rooted:
  assumes "list_all plain ds" "ps \<noteq> []"
  shows "rooted (ds @ ps) = trim_suffix (rooted ds) ''/'' @ slash # join_with ''/'' ps"
proof (cases "ds = []")
  case True
  then show ?thesis by (simp add: rooted_def path_of_def trim_suffix_def has_suffix_def)
next
  case False
  then show ?thesis using rooted_append [OF False assms(2)] rooted_last [OF assms(1) False] by (simp add: trim_suffix_def)
qed

end
