(* ===== verification/Intent.thy ===== *)
theory Intent
  imports NetAddr Paths "HOL-Library.AList" "HOL-Library.List_Lexorder" "HOL-Library.Char_ord"
begin

text \<open>
  The registry of declared intents (\<open>internal/intent/registry.go\<close>, \<open>hints.go\<close>): what the agent
  said about a target, and whether the user asked it to explain more.  Time is an integer passed
  to each operation; the two Go maps are association lists, whose order is that of an iteration
  over the map; a nil registry is \<open>None\<close>.
\<close>

section \<open>Hints\<close>

definition hint_undeclared :: string where
  "hint_undeclared =
     ''No intent on file for this target. If a request to it was denied by the sandbox or is '' @
      ''waiting on user approval, POST $OMAC_BASE/sandbox/intent {'' @ [dquote] @ ''target'' @
      [dquote] @ '':'' @ [dquote] @ ''...'' @ [dquote] @ '','' @ [dquote] @ ''reason'' @
      [dquote] @ '':'' @ [dquote] @ ''...'' @ [dquote] @
      ''} and retry, so the user sees why you need it. If you already declared an intent '' @
      ''earlier and the request was still denied, the user reviewed it and declined - do not '' @
      ''retry.''"

definition hint_declared :: string where
  "hint_declared =
     ''An intent is on file for this target. If the request was still denied, the user '' @
      ''reviewed your reason and declined it - do not retry; choose another approach or ask the '' @
      ''user.''"

definition hint_explain_more :: string where
  "hint_explain_more =
     ''The user clicked '' @ [dquote] @ ''Explain more'' @ [dquote] @
      '' in the approval dialog: your intent (if any) was not specific enough to decide. Do not '' @
      ''retry without an intent explanation. POST a fuller, specific reason to '' @
      ''$OMAC_BASE/sandbox/intent {'' @ [dquote] @ ''target'' @ [dquote] @ '':'' @ [dquote] @
      ''...'' @ [dquote] @ '','' @ [dquote] @ ''reason'' @ [dquote] @ '':'' @ [dquote] @ ''...'' @
      [dquote] @
      ''} stating exactly why you need this host, what you will fetch, and how you will use it, '' @
      ''then retry so the user can reconsider.''"

section \<open>State\<close>

definition max_reason_len :: nat where "max_reason_len = 500"
definition max_entries :: nat where "max_entries = 512"

record intent_entry =
  ie_target :: string
  ie_reason :: string
  ie_time :: int

record registry =
  ir_entries :: "(string \<times> intent_entry) list"
  ir_explain :: "(string \<times> int) list"
  ir_ttl :: int

definition new_registry :: "int \<Rightarrow> registry" where
  "new_registry ttl = \<lparr>ir_entries = [], ir_explain = [], ir_ttl = ttl\<rparr>"

text \<open>
  What normalization reads of its surroundings: the host name \<open>url.Parse\<close> finds in a URL (\<open>None\<close>
  on a parse error), the home directory and the working directory.
\<close>

record intent_env =
  iv_url_host :: "string \<Rightarrow> string option"
  iv_home :: "string option"
  iv_cwd :: "string option"

section \<open>Normalization\<close>

definition expand_tilde :: "intent_env \<Rightarrow> string \<Rightarrow> string" where
  "expand_tilde env p =
     (if has_prefix p ''~'' then
        (case iv_home env of
           None \<Rightarrow> p
         | Some home \<Rightarrow>
             if p = ''~'' then home
             else if has_prefix p ''~/'' \<or> has_prefix p [CHR ''~'', backslash] then path_join [home, drop 2 p]
             else p)
      else p)"

text \<open>\<open>filepath.Abs\<close> of the cleaned path; it fails when there is no working directory.\<close>

definition intent_abs :: "intent_env \<Rightarrow> string \<Rightarrow> string option" where
  "intent_abs env p =
     (if is_abs p then Some (clean p) else map_option (\<lambda>cwd. path_join [cwd, p]) (iv_cwd env))"

definition host_form :: "string \<Rightarrow> string" where
  "host_form t =
     (case split_host_port t of
        Some (host, _) \<Rightarrow> if host \<noteq> [] then to_lower host else to_lower t
      | None \<Rightarrow> to_lower t)"

definition normalize_target :: "intent_env \<Rightarrow> string \<Rightarrow> string" where
  "normalize_target env raw =
     (let t = trim_space raw;
          rest = (if slash \<in> set t \<or> has_prefix t ''~'' \<or> is_abs t
                  then (case intent_abs env (clean (expand_tilde env t)) of None \<Rightarrow> [] | Some a \<Rightarrow> a)
                  else host_form t)
      in if t = [] then []
         else if contains_str t ''://'' then
           (case iv_url_host env t of
              Some h \<Rightarrow> if h \<noteq> [] then to_lower h else rest
            | None \<Rightarrow> rest)
         else rest)"

section \<open>Operations\<close>

definition expired :: "registry \<Rightarrow> int \<Rightarrow> int \<Rightarrow> bool" where
  "expired r now t \<longleftrightarrow> ir_ttl r > 0 \<and> now - t > ir_ttl r"

text \<open>The eviction loop: \<open>oldestKey\<close> starts empty, and a strictly earlier time replaces it.\<close>

fun oldest :: "('a \<Rightarrow> int) \<Rightarrow> (string \<times> 'a) list \<Rightarrow> (string \<times> 'a) option \<Rightarrow> (string \<times> 'a) option" where
  "oldest tm [] best = best"
| "oldest tm ((k, e) # es) best =
     (case best of
        None \<Rightarrow> oldest tm es (Some (k, e))
      | Some (k', e') \<Rightarrow> if tm e < tm e' then oldest tm es (Some (k, e)) else oldest tm es best)"

definition evict_oldest :: "('a \<Rightarrow> int) \<Rightarrow> (string \<times> 'a) list \<Rightarrow> (string \<times> 'a) list" where
  "evict_oldest tm es = (case oldest tm es None of None \<Rightarrow> es | Some (k, _) \<Rightarrow> AList.delete k es)"

definition bounded_update :: "('a \<Rightarrow> int) \<Rightarrow> string \<Rightarrow> 'a \<Rightarrow> (string \<times> 'a) list \<Rightarrow> (string \<times> 'a) list" where
  "bounded_update tm k v es =
     AList.update k v (if map_of es k = None \<and> length es \<ge> max_entries then evict_oldest tm es else es)"

definition record_locked :: "int \<Rightarrow> string \<Rightarrow> string \<Rightarrow> registry \<Rightarrow> registry" where
  "record_locked now target reason r =
     r\<lparr>ir_entries := bounded_update ie_time target
          \<lparr>ie_target = target, ie_reason = reason, ie_time = now\<rparr> (ir_entries r)\<rparr>"

definition cut_reason :: "string \<Rightarrow> string" where
  "cut_reason reason = take max_reason_len (trim_space reason)"

definition intent_record :: "intent_env \<Rightarrow> int \<Rightarrow> string \<Rightarrow> string \<Rightarrow> registry option \<Rightarrow> registry option" where
  "intent_record env now target reason reg =
     (case reg of None \<Rightarrow> None | Some r \<Rightarrow>
        if trim_space reason = [] then reg
        else let t = normalize_target env target
             in if t = [] then reg else Some (record_locked now t (cut_reason reason) r))"

definition record_and_clear ::
    "intent_env \<Rightarrow> int \<Rightarrow> string \<Rightarrow> string \<Rightarrow> registry option \<Rightarrow> registry option" where
  "record_and_clear env now target reason reg =
     (case reg of None \<Rightarrow> None | Some r \<Rightarrow>
        let t = normalize_target env target
        in if t = [] then reg
           else let r1 = (if cut_reason reason \<noteq> [] then record_locked now t (cut_reason reason) r else r)
                in Some (r1\<lparr>ir_explain := AList.delete t (ir_explain r1)\<rparr>))"

definition intent_lookup ::
    "intent_env \<Rightarrow> int \<Rightarrow> string \<Rightarrow> registry option \<Rightarrow> intent_entry option \<times> registry option" where
  "intent_lookup env now target reg =
     (case reg of None \<Rightarrow> (None, None) | Some r \<Rightarrow>
        let t = normalize_target env target
        in case map_of (ir_entries r) t of
             None \<Rightarrow> (None, reg)
           | Some e \<Rightarrow>
               if expired r now (ie_time e)
               then (None, Some (r\<lparr>ir_entries := AList.delete t (ir_entries r)\<rparr>))
               else (Some e, reg))"

definition lookup_host ::
    "intent_env \<Rightarrow> int \<Rightarrow> string \<Rightarrow> registry option \<Rightarrow> intent_entry option \<times> registry option" where
  "lookup_host env now host reg = intent_lookup env now (to_lower host) reg"

definition mark_explain_more :: "intent_env \<Rightarrow> int \<Rightarrow> string \<Rightarrow> registry option \<Rightarrow> registry option" where
  "mark_explain_more env now target reg =
     (case reg of None \<Rightarrow> None | Some r \<Rightarrow>
        let t = normalize_target env target
        in if t = [] then reg
           else Some (r\<lparr>ir_explain := bounded_update id t now (ir_explain r)\<rparr>))"

definition consume_explain_more ::
    "intent_env \<Rightarrow> int \<Rightarrow> string \<Rightarrow> registry option \<Rightarrow> bool \<times> registry option" where
  "consume_explain_more env now target reg =
     (case reg of None \<Rightarrow> (False, None) | Some r \<Rightarrow>
        let t = normalize_target env target
        in case map_of (ir_explain r) t of
             None \<Rightarrow> (False, reg)
           | Some tm \<Rightarrow> (\<not> expired r now tm, Some (r\<lparr>ir_explain := AList.delete t (ir_explain r)\<rparr>)))"

definition clear_explain_more :: "intent_env \<Rightarrow> string \<Rightarrow> registry option \<Rightarrow> registry option" where
  "clear_explain_more env target reg =
     (case reg of None \<Rightarrow> None | Some r \<Rightarrow>
        let t = normalize_target env target
        in if t = [] then reg else Some (r\<lparr>ir_explain := AList.delete t (ir_explain r)\<rparr>))"

definition path_related :: "string \<Rightarrow> string \<Rightarrow> bool" where
  "path_related a b \<longleftrightarrow> a = b \<or> is_under a b \<or> is_under b a"

definition live_entries :: "registry \<Rightarrow> int \<Rightarrow> (string \<times> intent_entry) list" where
  "live_entries r now = filter (\<lambda>(k, e). \<not> expired r now (ie_time e)) (ir_entries r)"

definition lookup_subtree ::
    "intent_env \<Rightarrow> int \<Rightarrow> string \<Rightarrow> registry option \<Rightarrow> intent_entry list \<times> registry option" where
  "lookup_subtree env now dir reg =
     (case reg of None \<Rightarrow> ([], None) | Some r \<Rightarrow>
        let d = normalize_target env dir
        in if \<not> is_abs d then ([], reg)
           else (sort_key ie_target
                   (filter (\<lambda>e. is_abs (ie_target e) \<and> path_related d (ie_target e))
                     (map snd (live_entries r now))),
                 Some (r\<lparr>ir_entries := live_entries r now\<rparr>)))"

definition evict_expired :: "int \<Rightarrow> registry \<Rightarrow> registry" where
  "evict_expired now r =
     r\<lparr>ir_entries := live_entries r now,
       ir_explain := filter (\<lambda>(k, t). \<not> expired r now t) (ir_explain r)\<rparr>"

section \<open>The invariant\<close>

definition intent_ok :: "registry \<Rightarrow> bool" where
  "intent_ok r \<longleftrightarrow>
     distinct (map fst (ir_entries r)) \<and> distinct (map fst (ir_explain r)) \<and>
     length (ir_entries r) \<le> max_entries \<and> length (ir_explain r) \<le> max_entries \<and>
     (\<forall>(k, e) \<in> set (ir_entries r). ie_target e = k \<and> ie_reason e \<noteq> [] \<and> length (ie_reason e) \<le> max_reason_len)"

lemma oldest_mem: "oldest tm es best = Some x \<Longrightarrow> best = Some x \<or> x \<in> set es"
  by (induction tm es best rule: oldest.induct) (auto split: option.splits if_splits)

lemma oldest_None: "oldest tm es best = None \<longleftrightarrow> es = [] \<and> best = None"
  by (induction tm es best rule: oldest.induct) (auto split: option.splits)

lemma oldest_least:
  "oldest tm es best = Some (k, e) \<Longrightarrow>
     (\<forall>(k', e') \<in> set es. tm e \<le> tm e') \<and> (\<forall>k' e'. best = Some (k', e') \<longrightarrow> tm e \<le> tm e')"
  by (induction tm es best rule: oldest.induct) (fastforce split: option.splits if_splits)+

lemma length_delete_less: "k \<in> fst ` set es \<Longrightarrow> length (AList.delete k es) < length es"
  by (auto simp: AList.delete_eq intro!: length_filter_less)

lemma set_delete_sub: "set (AList.delete k es) \<subseteq> set es"
  by (auto simp: AList.delete_eq)

lemma length_delete_le: "length (AList.delete k es) \<le> length es"
  by (simp add: AList.delete_eq)

lemma length_update_new: "k \<notin> fst ` set es \<Longrightarrow> length (AList.update k v es) = Suc (length es)"
  by (induction es) auto

lemma length_update_old: "k \<in> fst ` set es \<Longrightarrow> length (AList.update k v es) = length es"
  by (induction es) auto

lemma evict_shorter: "es \<noteq> [] \<Longrightarrow> length (evict_oldest tm es) < length es"
proof -
  assume ne: "es \<noteq> []"
  then obtain k e where o: "oldest tm es None = Some (k, e)"
    using oldest_None [of tm es None] by (cases "oldest tm es None") auto
  then have "k \<in> fst ` set es" using oldest_mem [OF o] by force
  then show ?thesis using o by (simp add: evict_oldest_def length_delete_less)
qed

lemma evict_oldest_sub: "set (evict_oldest tm es) \<subseteq> set es"
  by (auto simp: evict_oldest_def AList.delete_eq split: option.splits)

lemma evict_oldest_distinct: "distinct (map fst es) \<Longrightarrow> distinct (map fst (evict_oldest tm es))"
  by (auto simp: evict_oldest_def distinct_delete split: option.split)

lemma bounded_update_length:
  assumes "length es \<le> max_entries"
  shows "length (bounded_update tm k v es) \<le> max_entries"
proof (cases "k \<in> fst ` set es")
  case True
  then show ?thesis using assms by (simp add: bounded_update_def length_update_old map_of_eq_None_iff)
next
  case False
  have "fst ` set (evict_oldest tm es) \<subseteq> fst ` set es" using evict_oldest_sub by (rule image_mono)
  with False have n: "k \<notin> fst ` set (evict_oldest tm es)" by blast
  show ?thesis
  proof (cases "length es \<ge> max_entries")
    case True
    then have "length (evict_oldest tm es) < length es" by (intro evict_shorter) (auto simp: max_entries_def)
    then show ?thesis using assms False True n
      by (simp add: bounded_update_def length_update_new map_of_eq_None_iff)
  next
    case lt: False
    then show ?thesis using False by (simp add: bounded_update_def length_update_new map_of_eq_None_iff)
  qed
qed

lemma bounded_update_distinct: "distinct (map fst es) \<Longrightarrow> distinct (map fst (bounded_update tm k v es))"
  by (simp add: bounded_update_def distinct_update evict_oldest_distinct)

lemma set_update_sub: "set (AList.update k v es) \<subseteq> insert (k, v) (set es)"
  by (induction es) (auto split: if_splits)

lemma bounded_update_set: "set (bounded_update tm k v es) \<subseteq> insert (k, v) (set es)"
  by (auto simp: bounded_update_def dest!: subsetD [OF set_update_sub] subsetD [OF evict_oldest_sub])

lemma bounded_update_lookup [simp]: "map_of (bounded_update tm k v es) k = Some v"
  by (simp add: bounded_update_def update_conv')

lemma cut_reason_ok: "trim_space reason \<noteq> [] \<Longrightarrow> cut_reason reason \<noteq> [] \<and> length (cut_reason reason) \<le> max_reason_len"
  by (simp add: cut_reason_def max_reason_len_def)

lemma record_locked_ok:
  assumes "intent_ok r" "reason \<noteq> []" "length reason \<le> max_reason_len"
  shows "intent_ok (record_locked now t reason r)"
  using assms bounded_update_set [of ie_time t "\<lparr>ie_target = t, ie_reason = reason, ie_time = now\<rparr>" "ir_entries r"]
  by (fastforce simp: intent_ok_def record_locked_def bounded_update_distinct bounded_update_length)

lemma intent_ok_delete_explain: "intent_ok r \<Longrightarrow> intent_ok (r\<lparr>ir_explain := AList.delete t (ir_explain r)\<rparr>)"
  using length_delete_le [of t "ir_explain r"] by (auto simp: intent_ok_def distinct_delete)

lemma intent_ok_delete_entry: "intent_ok r \<Longrightarrow> intent_ok (r\<lparr>ir_entries := AList.delete t (ir_entries r)\<rparr>)"
  using le_trans [OF length_delete_le] set_delete_sub [of t "ir_entries r"]
  by (auto simp: intent_ok_def distinct_delete)

lemma intent_ok_live: "intent_ok r \<Longrightarrow> intent_ok (r\<lparr>ir_entries := live_entries r now\<rparr>)"
  using le_trans [OF length_filter_le] by (auto simp: intent_ok_def live_entries_def distinct_map_filter)

lemma intent_ok_explain:
  "intent_ok r \<Longrightarrow> intent_ok (r\<lparr>ir_explain := bounded_update id t now (ir_explain r)\<rparr>)"
  by (auto simp: intent_ok_def bounded_update_distinct bounded_update_length)

abbreviation intent_ok' :: "registry option \<Rightarrow> bool" where
  "intent_ok' reg \<equiv> (case reg of None \<Rightarrow> True | Some r \<Rightarrow> intent_ok r)"

lemma intent_record_ok: "intent_ok' reg \<Longrightarrow> intent_ok' (intent_record env now t s reg)"
  by (auto simp: intent_record_def Let_def record_locked_ok cut_reason_ok split: option.split)

lemma record_and_clear_ok: "intent_ok' reg \<Longrightarrow> intent_ok' (record_and_clear env now t s reg)"
proof (cases reg)
  case (Some r)
  assume "intent_ok' reg"
  moreover have "length (cut_reason s) \<le> max_reason_len" by (simp add: cut_reason_def)
  ultimately show ?thesis using Some
    by (auto simp: record_and_clear_def Let_def intent_ok_delete_explain record_locked_ok)
qed (simp add: record_and_clear_def)

lemma intent_lookup_ok: "intent_ok' reg \<Longrightarrow> intent_ok' (snd (intent_lookup env now t reg))"
  by (auto simp: intent_lookup_def Let_def intent_ok_delete_entry split: option.split)

lemma consume_ok: "intent_ok' reg \<Longrightarrow> intent_ok' (snd (consume_explain_more env now t reg))"
  by (auto simp: consume_explain_more_def Let_def intent_ok_delete_explain split: option.split)

lemma mark_ok: "intent_ok' reg \<Longrightarrow> intent_ok' (mark_explain_more env now t reg)"
  by (auto simp: mark_explain_more_def Let_def intent_ok_explain split: option.split)

lemma lookup_subtree_ok: "intent_ok' reg \<Longrightarrow> intent_ok' (snd (lookup_subtree env now d reg))"
  by (auto simp: lookup_subtree_def Let_def intent_ok_live split: option.split)

section \<open>Operations as steps\<close>

datatype intent_op =
    OpRecord string string
  | OpRecordClear string string
  | OpLookup string
  | OpMark string
  | OpConsume string
  | OpClear string
  | OpSubtree string

fun intent_exec :: "intent_env \<Rightarrow> int \<Rightarrow> intent_op \<Rightarrow> registry option \<Rightarrow> registry option" where
  "intent_exec env now (OpRecord t s) reg = intent_record env now t s reg"
| "intent_exec env now (OpRecordClear t s) reg = record_and_clear env now t s reg"
| "intent_exec env now (OpLookup t) reg = snd (intent_lookup env now t reg)"
| "intent_exec env now (OpMark t) reg = mark_explain_more env now t reg"
| "intent_exec env now (OpConsume t) reg = snd (consume_explain_more env now t reg)"
| "intent_exec env now (OpClear t) reg = clear_explain_more env t reg"
| "intent_exec env now (OpSubtree d) reg = snd (lookup_subtree env now d reg)"

fun intent_run :: "intent_env \<Rightarrow> (int \<times> intent_op) list \<Rightarrow> registry option \<Rightarrow> registry option" where
  "intent_run env [] reg = reg"
| "intent_run env ((now, op) # ops) reg = intent_run env ops (intent_exec env now op reg)"

lemma clear_ok: "intent_ok' reg \<Longrightarrow> intent_ok' (clear_explain_more env t reg)"
  by (auto simp: clear_explain_more_def Let_def intent_ok_delete_explain split: option.split)

lemma intent_exec_ok: "intent_ok' reg \<Longrightarrow> intent_ok' (intent_exec env now op reg)"
  by (cases op) (simp_all only: intent_exec.simps intent_record_ok record_and_clear_ok intent_lookup_ok
      mark_ok consume_ok clear_ok lookup_subtree_ok)

text \<open>
  C38: The registry stays bounded.  Whatever a client posts, from a new registry every sequence of
  operations keeps at most 512 intents and 512 explain-more flags, one per target, each intent
  stored under its own target with a reason of 1 to 500 bytes.
\<close>

theorem intent_bounded:
  "intent_ok' (intent_run env ops (Some (new_registry ttl)))"
proof -
  have "intent_ok' reg \<Longrightarrow> intent_ok' (intent_run env ops reg)" for reg
  proof (induction ops arbitrary: reg)
    case (Cons a ops)
    obtain now op where "a = (now, op)" by fastforce
    then show ?case using Cons.IH [OF intent_exec_ok [OF Cons.prems]] by simp
  qed simp
  then show ?thesis by (simp add: new_registry_def intent_ok_def max_entries_def)
qed

text \<open>
  A declared intent is found under every spelling.  After \<open>Record\<close> with a non-blank reason,
  a lookup within the TTL by any target with the same normal form returns the trimmed reason, cut
  to 500 bytes; recording and clearing moreover retires the explain-more flag of that target.
\<close>

theorem intent_record_lookup:
  assumes "trim_space reason \<noteq> []" "normalize_target env t \<noteq> []"
    and "normalize_target env t' = normalize_target env t" "now' - now \<le> ir_ttl r"
  shows "map_option ie_reason (fst (intent_lookup env now' t' (intent_record env now t reason (Some r)))) =
      Some (take max_reason_len (trim_space reason)) \<and>
    map_option ie_reason (fst (intent_lookup env now' t' (record_and_clear env now t reason (Some r)))) =
      Some (take max_reason_len (trim_space reason)) \<and>
    fst (consume_explain_more env now' t' (record_and_clear env now t reason (Some r))) = False"
proof -
  have c: "cut_reason reason \<noteq> []" using assms(1) cut_reason_ok by blast
  have ttl: "ir_ttl (record_locked now x s r) = ir_ttl r" "ir_explain (record_locked now x s r) = ir_explain r" for x s
    by (simp_all add: record_locked_def)
  have ne: "\<not> expired r' now' now" if "ir_ttl r' = ir_ttl r" for r'
    using assms(4) that by (simp add: expired_def)
  have e: "map_of (ir_entries (record_locked now (normalize_target env t) s r)) (normalize_target env t) =
      Some \<lparr>ie_target = normalize_target env t, ie_reason = s, ie_time = now\<rparr>" for s
    by (simp add: record_locked_def)
  show ?thesis
    using assms c by (simp add: intent_record_def record_and_clear_def intent_lookup_def Let_def e ne ttl
        consume_explain_more_def delete_conv' cut_reason_def)
qed

definition demo_env :: intent_env where
  "demo_env = \<lparr>iv_url_host = (\<lambda>_. Some ''API.example.com''), iv_home = Some ''/home/u'', iv_cwd = Some ''/w''\<rparr>"

lemma demo_targets:
  "normalize_target demo_env ''https://API.example.com/v1'' = ''api.example.com''"
  "normalize_target demo_env ''api.example.com:443'' = ''api.example.com''"
  by (simp_all add: normalize_target_def demo_env_def host_form_def split_host_port_def last_index_of_def Let_def gostr)

theorem intent_record_lookup_witness:
  "map_option ie_reason (fst (intent_lookup demo_env 50 ''api.example.com:443''
     (intent_record demo_env 0 ''https://API.example.com/v1'' '' fetch the docs '' (Some (new_registry 600))))) =
   Some ''fetch the docs''"
proof -
  have t: "trim_space '' fetch the docs '' = ''fetch the docs''" by (simp add: gostr)
  from intent_record_lookup [of "'' fetch the docs ''" demo_env "''https://API.example.com/v1''"
      "''api.example.com:443''" 50 0 "new_registry 600"]
  show ?thesis by (simp add: t demo_targets new_registry_def max_reason_len_def)
qed

text \<open>
  \<open>Explain more\<close> is one-shot.  Whether or not a flag was set, once it has been consumed for a
  target a second consume of it, under any spelling and at any time, answers no.
\<close>

theorem explain_more_one_shot:
  assumes "normalize_target env t' = normalize_target env t"
  shows "fst (consume_explain_more env now' t' (snd (consume_explain_more env now t reg))) = False"
proof (cases reg)
  case (Some r)
  then show ?thesis
    by (cases "map_of (ir_explain r) (normalize_target env t)")
       (simp_all add: consume_explain_more_def Let_def assms delete_conv')
qed (simp add: consume_explain_more_def)

theorem explain_more_one_shot_witness:
  "fst (consume_explain_more demo_env 9 ''api.example.com:443''
     (snd (consume_explain_more demo_env 5 ''https://API.example.com/v1''
       (mark_explain_more demo_env 0 ''api.example.com:443'' (Some (new_registry 600)))))) = False"
  by (rule explain_more_one_shot) (simp add: demo_targets)

text \<open>
  The folder review sees exactly the live path intents related to a directory: equal to it,
  under it, or above it, each once and in the order of their targets.
\<close>

theorem lookup_subtree_exact:
  assumes "intent_ok r" "is_abs (normalize_target env dir)"
  shows "set (fst (lookup_subtree env now dir (Some r))) =
      {e. (\<exists>k. map_of (ir_entries r) k = Some e) \<and> \<not> expired r now (ie_time e) \<and> is_abs (ie_target e) \<and>
          path_related (normalize_target env dir) (ie_target e)} \<and>
    sorted (map ie_target (fst (lookup_subtree env now dir (Some r)))) \<and>
    distinct (fst (lookup_subtree env now dir (Some r)))"
proof -
  have d: "distinct (map fst (ir_entries r))" using assms(1) by (simp add: intent_ok_def)
  have k: "fst x = ie_target (snd x)" if "x \<in> set (ir_entries r)" for x
    using assms(1) that by (auto simp: intent_ok_def)
  have inj: "inj_on snd (set (ir_entries r))"
    by (rule inj_onI) (metis k prod.collapse)
  have "distinct (map snd (live_entries r now))"
    unfolding live_entries_def using d inj
    by (auto simp: distinct_map intro: inj_on_subset)
  moreover have "map_of (ir_entries r) k' = Some e \<longleftrightarrow> (k', e) \<in> set (ir_entries r)" for k' e
    using d by simp
  ultimately show ?thesis
    using assms(2) by (auto simp: lookup_subtree_def Let_def live_entries_def intro!: image_eqI [where f = snd])
qed

lemma demo_dir: "normalize_target demo_env ''~/src/../docs'' = ''/home/u/docs''"
  by (simp add: normalize_target_def demo_env_def expand_tilde_def intent_abs_def gostr)

theorem lookup_subtree_exact_witness:
  "fst (lookup_subtree demo_env 3 ''~/src/../docs'' (Some (new_registry 600))) = []"
proof -
  have "intent_ok (new_registry 600)" by (simp add: new_registry_def intent_ok_def max_entries_def)
  from lookup_subtree_exact [OF this, of demo_env "''~/src/../docs''" 3]
  show ?thesis by (simp add: demo_dir is_abs_def has_prefix_def new_registry_def)
qed

end
