(* ===== verification/DenyResponse.thy ===== *)
theory DenyResponse
  imports NetFilter Dialer Intent
begin

text \<open>
  What the proxy tells the agent (\<open>internal/netproxy/server.go\<close>, \<open>registryhint.go\<close>): the headers
  and bodies of refusals and upstream failures, chosen by the reason of the verdict.
\<close>

section \<open>Package registries\<close>

definition known_registry_suffixes :: "string list" where
  "known_registry_suffixes =
     [''registry.npmjs.org'', ''registry.yarnpkg.com'', ''npm.pkg.github.com'', ''pypi.org'',
      ''files.pythonhosted.org'', ''crates.io'', ''static.crates.io'', ''rubygems.org'',
      ''proxy.golang.org'', ''sum.golang.org'']"

definition registry_fragments :: "string list" where
  "registry_fragments = [''pypi'', ''pythonhosted'', ''crates'', ''rubygems'', ''goproxy'']"

definition is_package_registry :: "string \<Rightarrow> bool" where
  "is_package_registry host =
     (let h = normalize_host host in
      if list_ex (\<lambda>s. match_host_or_suffix h s True) known_registry_suffixes then True
      else if list_ex (\<lambda>l. l = ''registry'' \<or> l = ''npm'') (split_on dot h) then True
      else list_ex (\<lambda>frag. contains_str h frag) registry_fragments)"

text \<open>The advice for a denied registry; \<open>None\<close> where the source returns early.\<close>

definition registry_advice :: "string \<Rightarrow> string option" where
  "registry_advice reason =
     (if contains_str reason ''prompt unavailable'' then
        Some (''This launch has no interactive network prompt (e.g. '' @ [CHR 0x60] @ ''omac serve'' @
      [CHR 0x60] @ '' or a non-TTY'' @ [lf] @
      ''session), so the request was auto-denied (on_unavailable=deny). Pre-allow it with'' @
      [lf] @ ''network.allow_domain, or pre-warm the cache once via an interactive '' @
      [CHR 0x60] @ ''omac start'' @ [CHR 0x60] @ ''.'')
      else if contains_str reason ''not in allowlist'' then
        Some (''The network prompt is disabled for this profile, so unlisted hosts are denied.'' @ [lf] @
      ''Add it to network.allow_domain.'')
      else if contains_str reason ''needs_intent'' then
        Some (''The user asked what the fetch is for. Name the package or plugin being'' @ [lf] @
      ''installed in your intent, then retry.'')
      else if contains_str reason ''prompt:deny'' then
        Some (''It was denied at the network prompt. Re-run and choose Allow (optionally persist)'' @
      [lf] @ ''to let the install proceed.'')
      else if contains_str reason ''dns resolution failed'' then
        Some (''A private registry usually resolves only on the corporate VPN; a public one'' @ [lf] @
      ''failing to resolve points at the sandbox'' @ [CHR 0x27] @ ''s DNS instead.'')
      else if has_prefix reason ''hard-deny'' then
        Some (''A real registry should not resolve to a link-local address '' @
      [CHR 0xE2, CHR 0x80, CHR 0x94] @ '' treat this as a'' @ [lf] @
      ''stale hosts entry or a hijacked DNS record, not a policy problem.'')
      else if has_prefix reason ''session'' then None
      else
        Some (''It matches a deny rule; remove it from network.deny_domain or the learned'' @ [lf] @
      ''<profile>.pages.json policy file.''))"

definition registry_deny_hint :: "string \<Rightarrow> string \<Rightarrow> string" where
  "registry_deny_hint host reason =
     (if \<not> is_package_registry host then []
      else case registry_advice reason of
        None \<Rightarrow> []
      | Some advice \<Rightarrow>
          [lf] @ ''Note: '' @ go_quote host @
          '' looks like a package registry. A tool or harness plugin/provider'' @ [lf] @
      ''install likely tried to fetch from it into a cold cache.'' @ [lf] @
          advice @
          [lf] @ ''Once the fetch succeeds, the plugin is cached and reused on later launches.'' @
      [lf])"

definition registry_upstream_hint :: "string \<Rightarrow> string" where
  "registry_upstream_hint host =
     (if \<not> is_package_registry host then []
      else [lf] @ ''Note: '' @ go_quote host @
        '' looks like a package registry. It was allowed by policy, so'' @ [lf] @
      ''this is not a sandbox denial '' @ [CHR 0xE2, CHR 0x80, CHR 0x94] @
      '' the connection itself failed. If it is a'' @ [lf] @
      ''private/VPN-scoped registry, check that your VPN is connected and the'' @ [lf] @
      ''host is reachable.'' @ [lf])"

text \<open>\<open>strings.Fields\<close> and \<open>flattenForLog\<close>.\<close>

fun fields_loop :: "string \<Rightarrow> string \<Rightarrow> string list" where
  "fields_loop [] cur = (if cur = [] then [] else [cur])"
| "fields_loop (c # s) cur =
     (if is_space c then (if cur = [] then fields_loop s [] else cur # fields_loop s [])
      else fields_loop s (cur @ [c]))"

definition fields :: "string \<Rightarrow> string list" where
  "fields s = fields_loop s []"

definition flatten_for_log :: "string \<Rightarrow> string" where
  "flatten_for_log s = join_with '' '' (fields s)"

section \<open>Headers of a denial\<close>

definition sandbox_deny_header :: string where
  "sandbox_deny_header = ''X-Omac-Sandbox: denied'' @ crlf"

definition intent_hint_header :: string where
  "intent_hint_header = ''X-Omac-Intent-Hint''"

definition intent_hint_for :: "verdict \<Rightarrow> string" where
  "intent_hint_for v =
     (if contains_str (v_reason v) ''needs_intent'' then hint_explain_more
      else if contains_str (v_reason v) ''prompt:deny'' \<and> trim_space (v_intent_reason v) \<noteq> [] then hint_declared
      else [])"

definition deny_headers :: "verdict \<Rightarrow> string" where
  "deny_headers v =
     (let hint = intent_hint_for v
      in if hint \<noteq> [] then sandbox_deny_header @ intent_hint_header @ '': '' @ hint @ crlf
         else sandbox_deny_header)"

section \<open>Body of a denial\<close>

definition sanitize_reason :: "string \<Rightarrow> string" where
  "sanitize_reason s = trim_space (map (\<lambda>c. if c = cr \<or> c = lf then CHR '' '' else c) s)"

definition prior_intent :: "verdict \<Rightarrow> string" where
  "prior_intent v =
     (let r = sanitize_reason (v_intent_reason v)
      in if r \<noteq> [] then [lf] @ ''Your declared intent on file: '' @ go_quote r @ [lf] else [])"

definition access_to :: "string \<Rightarrow> string" where
  "access_to host = ''omac sandbox: access to '' @ go_quote host"

definition not_contacted :: "string \<Rightarrow> string" where
  "not_contacted host =
     ''This response comes from the omac sandbox proxy, not from '' @ host @ ''.'' @ [lf] @ ''The destination was never contacted.'' @ [lf, lf]"

definition deny_body :: "string \<Rightarrow> verdict \<Rightarrow> string" where
  "deny_body host v =
     (let reason = v_reason v;
          prior = prior_intent v;
          note = registry_deny_hint host reason
      in if contains_str reason ''needs_intent'' then
           access_to host @
           '' was DENIED '' @ [CHR 0xE2, CHR 0x80, CHR 0x94] @
      '' the user asked for more explanation.'' @ [lf, lf] @
           hint_explain_more @ [lf] @ prior @ note
         else if contains_str reason ''prompt:deny'' \<and> prior \<noteq> [] then
           access_to host @
           '' was DENIED '' @ [CHR 0xE2, CHR 0x80, CHR 0x94] @
      '' the user reviewed your declared intent and declined it.'' @ [lf, lf] @
           hint_declared @ [lf] @ prior
         else if contains_str reason ''dns resolution failed'' then
           access_to host @
           '' was refused because the name did not resolve.'' @ [lf, lf] @
      ''This response comes from the omac sandbox proxy, not from '' @ host @
           ''.'' @ [lf] @ ''The sandbox network policy did not reject it '' @
      [CHR 0xE2, CHR 0x80, CHR 0x94] @ '' resolution failed before'' @ [lf] @
      ''any rule was consulted, so no sandbox setting changes this.'' @ [lf, lf] @
      ''To fix this:'' @ [lf] @ ''  - check the hostname for typos,'' @ [lf] @
      ''  - check that the name resolves from this machine (private and'' @ [lf] @
      ''    VPN-scoped names need the VPN connected),'' @ [lf] @
      ''  - check the DNS servers reachable from the sandbox.'' @ [lf] @ note
         else if has_prefix reason ''session'' then
           access_to host @
           '' was DENIED BY THE SANDBOX network policy ('' @ reason @ '').'' @ [lf, lf] @
           not_contacted host @
           ''The user denied this destination for the rest of this session at the'' @ [lf] @
      ''network prompt. The choice is held in memory only '' @ [CHR 0xE2, CHR 0x80, CHR 0x94] @
      '' no profile or'' @ [lf] @
      ''policy file contains it, and editing one will not lift it. It also'' @ [lf] @
      ''suppresses further prompts for this host, so retrying is pointless.'' @ [lf, lf] @
      ''To lift it, restart the sandbox and choose Allow at the prompt.'' @ [lf] @ note
         else if has_prefix reason ''hard-deny'' then
           access_to host @
           '' was DENIED BY THE SANDBOX built-in guard ('' @ reason @ '').'' @ [lf, lf] @
           not_contacted host @
           ''Cloud-metadata hostnames and link-local addresses are blocked before any'' @ [lf] @
      ''rule is consulted, so this cannot be overridden by a sandbox profile.'' @ [lf] @
      ''If the host is not meant to be an internal address, check your DNS and'' @ [lf] @
      ''/etc/hosts for an entry pointing it at a link-local range.'' @ [lf] @ note
         else
           access_to host @
           '' was DENIED BY THE SANDBOX network policy ('' @ reason @ '').'' @ [lf, lf] @
           not_contacted host @
           ''To allow this host, either:'' @ [lf] @ ''  - answer '' @ [dquote] @ ''Allow'' @ [dquote] @
      '' in the network prompt (if enabled),'' @ [lf] @
      ''  - add it to network.allow_domain in your sandbox profile'' @ [lf] @
      ''    (~/.config/omac/sandbox-profiles/<profile>.json),'' @ [lf] @
      ''  - or remove a matching deny entry from network.deny_domain or the'' @ [lf] @
      ''    <profile>.pages.json learned-policy file.'' @ [lf] @ note)"

section \<open>Upstream failures\<close>

definition upstream_error_body :: "string \<Rightarrow> string \<Rightarrow> string" where
  "upstream_error_body proxy_host status_line =
     (if status_line \<noteq> [] then
        ''omac sandbox: upstream proxy '' @ go_quote proxy_host @ '' rejected the tunnel ('' @ status_line @
        '').'' @ [lf, lf] @
      ''This error comes from the omac sandbox proxy, not from the destination.'' @ [lf] @
      ''The upstream proxy was contacted but refused the CONNECT.'' @ [lf, lf] @
      ''To fix this:'' @ [lf] @
      ''  - verify the upstream proxy URL and credentials in your sandbox profile'' @ [lf] @
      ''  - check that the upstream proxy allows CONNECT to the target host:port'' @ [lf]
      else
        ''omac sandbox: could not connect to upstream proxy '' @ go_quote proxy_host @
        ''.'' @ [lf, lf] @ ''This error comes from the omac sandbox proxy.'' @ [lf] @
      ''The upstream proxy was unreachable.'' @ [lf, lf] @ ''To fix this:'' @ [lf] @
      ''  - verify the upstream proxy URL in your sandbox profile or HTTPS_PROXY env var'' @
      [lf] @ ''  - check that the upstream proxy host is reachable from this machine'' @ [lf])"

definition upstream_failure_response :: "string \<Rightarrow> dial_error \<Rightarrow> string \<times> string" where
  "upstream_failure_response host err =
     (let (header, body) =
            (case err of
               UpstreamFailed ue \<Rightarrow> (''X-Omac-Sandbox: upstream-error'' @ crlf,
                                    upstream_error_body (ue_proxy_host ue) (ue_status_line ue))
             | DialError e \<Rightarrow> ([], ''upstream dial failed: '' @ e @ [lf]))
      in (header, body @ registry_upstream_hint host))"

section \<open>Facts\<close>

text \<open>One header line: it ends in CR LF and contains neither before.\<close>

definition header_line :: "string \<Rightarrow> bool" where
  "header_line l \<longleftrightarrow> (\<exists>t. l = t @ crlf \<and> cr \<notin> set t \<and> lf \<notin> set t)"

lemma hint_single_line:
  "cr \<notin> set hint_explain_more" "lf \<notin> set hint_explain_more" "cr \<notin> set hint_declared" "lf \<notin> set hint_declared"
  "hint_explain_more \<noteq> []" "hint_declared \<noteq> []"
  by (simp_all add: hint_explain_more_def hint_declared_def)

lemma deny_headers_cases:
  "deny_headers v \<in> {sandbox_deny_header,
     sandbox_deny_header @ intent_hint_header @ '': '' @ hint_explain_more @ crlf,
     sandbox_deny_header @ intent_hint_header @ '': '' @ hint_declared @ crlf}"
  by (simp add: deny_headers_def intent_hint_for_def Let_def)

text \<open>
  The agent cannot inject a header into a denial.  Whatever the host and the reason the agent
  declared, the extra headers of a denial are the sandbox marker, alone or followed by one hint
  line, each a single line; and the reason echoed in the body is one quoted line.
\<close>

theorem deny_headers_no_injection:
  "(\<exists>ls. deny_headers v = concat ls \<and> list_all header_line ls \<and> length ls \<le> 2 \<and> ls \<noteq> [] \<and> hd ls = sandbox_deny_header) \<and>
   cr \<notin> set (sanitize_reason s) \<and> lf \<notin> set (sanitize_reason s)"
proof (intro conjI)
  have s: "header_line sandbox_deny_header"
    unfolding header_line_def sandbox_deny_header_def by (intro exI [of _ "''X-Omac-Sandbox: denied''"]) simp
  have h: "header_line (intent_hint_header @ '': '' @ h @ crlf)" if "cr \<notin> set h" "lf \<notin> set h" for h
    unfolding header_line_def intent_hint_header_def
    using that by (intro exI [of _ "''X-Omac-Intent-Hint'' @ '': '' @ h"]) simp
  from deny_headers_cases [of v]
  show "\<exists>ls. deny_headers v = concat ls \<and> list_all header_line ls \<and> length ls \<le> 2 \<and> ls \<noteq> [] \<and> hd ls = sandbox_deny_header"
  proof (elim insertE emptyE)
    assume "deny_headers v = sandbox_deny_header"
    with s show ?thesis by (intro exI [of _ "[sandbox_deny_header]"]) simp
  next
    assume e: "deny_headers v = sandbox_deny_header @ intent_hint_header @ '': '' @ hint_explain_more @ crlf"
    show ?thesis
      by (intro exI [of _ "[sandbox_deny_header, intent_hint_header @ '': '' @ hint_explain_more @ crlf]"])
         (simp add: e s h [OF hint_single_line(1,2)] del: append.simps)
  next
    assume e: "deny_headers v = sandbox_deny_header @ intent_hint_header @ '': '' @ hint_declared @ crlf"
    show ?thesis
      by (intro exI [of _ "[sandbox_deny_header, intent_hint_header @ '': '' @ hint_declared @ crlf]"])
         (simp add: e s h [OF hint_single_line(3,4)] del: append.simps)
  qed
  have "set (sanitize_reason s) \<subseteq> set (map (\<lambda>c. if c = cr \<or> c = lf then CHR '' '' else c) s)"
    unfolding sanitize_reason_def by (rule set_trim_space)
  then show "cr \<notin> set (sanitize_reason s)" "lf \<notin> set (sanitize_reason s)" by auto
qed

end
