(* ===== verification/ProxyServer.thy ===== *)
theory ProxyServer
  imports NetFilterProps Hostname DenyResponse
begin

text \<open>
  The filtering proxy (\<open>internal/netproxy/server.go\<close>): authentication of the sandboxed child,
  admission and dialing, the CONNECT tunnel and the forwarding of plain HTTP requests.  A request
  is what \<open>http.ReadRequest\<close> parsed; what a handler does on its connections is a list of effects.
\<close>

section \<open>Requests and effects\<close>

text \<open>Header fields by canonical name, in order; \<open>Get\<close>, \<open>Del\<close> and \<open>Set\<close> of \<open>http.Header\<close>.\<close>

type_synonym headers = "(string \<times> string) list"

definition header_get :: "headers \<Rightarrow> string \<Rightarrow> string" where
  "header_get hs k = (case map_of hs k of None \<Rightarrow> [] | Some v \<Rightarrow> v)"

definition header_del :: "string \<Rightarrow> headers \<Rightarrow> headers" where
  "header_del k hs = filter (\<lambda>(k', _). k' \<noteq> k) hs"

definition header_set :: "string \<Rightarrow> string \<Rightarrow> headers \<Rightarrow> headers" where
  "header_set k v hs = header_del k hs @ [(k, v)]"

record request =
  rq_method :: string
  rq_host :: string
  rq_headers :: headers
  rq_abs :: bool
  rq_scheme :: string
  rq_hostname :: string
  rq_port :: string
  rq_path :: string
  rq_body :: string

text \<open>A forwarded request: to the origin with a path only, or to a proxy with the absolute URI.\<close>

record out_request =
  or_method :: string
  or_absolute :: bool
  or_headers :: headers
  or_path :: string
  or_body :: string

datatype effect =
    Respond string
  | LogLine string
  | TunnelUp tunnel
  | ForwardTo tunnel out_request

section \<open>The server\<close>

record server =
  sv_cfg :: filter_config
  sv_dialer :: dialer
  sv_token :: string
  sv_port :: int

definition proxy_url :: "server \<Rightarrow> string" where
  "proxy_url s = ''http://omac:'' @ sv_token s @ ''@127.0.0.1:'' @ show_int (sv_port s)"

definition env_vars :: "server \<Rightarrow> (string \<times> string) list" where
  "env_vars s =
     [(''HTTP_PROXY'', proxy_url s), (''HTTPS_PROXY'', proxy_url s),
      (''http_proxy'', proxy_url s), (''https_proxy'', proxy_url s),
      (''NO_PROXY'', ''localhost,127.0.0.1,::1''), (''no_proxy'', ''localhost,127.0.0.1,::1'')]"

definition status_text :: "int \<Rightarrow> string" where
  "status_text status =
     (if status = 400 then ''Bad Request''
      else if status = 403 then ''Forbidden''
      else if status = 407 then ''Proxy Authentication Required''
      else if status = 502 then ''Bad Gateway'' else [])"

definition raw_response :: "int \<Rightarrow> string \<Rightarrow> string \<Rightarrow> string" where
  "raw_response status extra body =
     ''HTTP/1.1 '' @ show_int status @ '' '' @ status_text status @ crlf @
     extra @ ''Content-Type: text/plain; charset=utf-8'' @ crlf @
     ''Content-Length: '' @ show_int (int (length body)) @ crlf @
     ''Connection: close'' @ crlf @ crlf @ body"

text \<open>\<open>authorized\<close> on the value of the \<open>Proxy-Authorization\<close> header.\<close>

definition authorized :: "string \<Rightarrow> string \<Rightarrow> bool" where
  "authorized token h =
     (if h = [] then False
      else case index_of (CHR '' '') h of
        None \<Rightarrow> False
      | Some i \<Rightarrow>
          if to_lower (take i h) \<noteq> ''basic'' then False
          else case b64_decode (trim_space (drop (Suc i) h)) of
            None \<Rightarrow> False
          | Some creds \<Rightarrow>
              (case index_of colon creds of
                 None \<Rightarrow> False
               | Some j \<Rightarrow> drop (Suc j) creds = token))"

definition admit :: "server \<Rightarrow> save_io \<Rightarrow> filter_state \<Rightarrow> string \<Rightarrow> int \<Rightarrow> admission" where
  "admit s io st host port =
     (if chains_host (sv_dialer s) host then check_host_pinned (sv_cfg s) io st host port
      else filter_check (sv_cfg s) io st host port)"

text \<open>The tunnel or the error is only there on an Allow.\<close>

definition check_and_dial ::
    "server \<Rightarrow> save_io \<Rightarrow> transport \<Rightarrow> filter_state \<Rightarrow> string \<Rightarrow> int \<Rightarrow>
     ((dial_error + tunnel) option \<times> verdict \<times> effect list) \<times> filter_state" where
  "check_and_dial s io tr st host port =
     (let ((v, addrs), st') = admit s io st host port
      in if v_decision v \<noteq> Allow then ((None, v, []), st')
         else let (res, logs) = dial_tunnel (sv_dialer s) tr host port addrs
              in ((Some res, v, map LogLine logs), st'))"

definition loopback_refusal :: "string \<Rightarrow> string \<Rightarrow> effect" where
  "loopback_refusal what host =
     Respond (raw_response 403 sandbox_deny_header
       (''omac sandbox: '' @ what @ '' to loopback '' @ go_quote host @
        '' refused by the sandbox (loopback traffic must use a granted open_port, not the proxy)'' @
      [lf]))"

text \<open>The part of both handlers for an allowed host that could not be dialed.\<close>

definition dial_failure :: "string \<Rightarrow> dial_error \<Rightarrow> effect list" where
  "dial_failure host err =
     (let hint = registry_upstream_hint host;
          (header, body) = upstream_failure_response host err
      in (if hint \<noteq> [] then [LogLine (''omac sandbox: '' @ flatten_for_log hint)] else []) @
         (case err of
            UpstreamFailed _ \<Rightarrow> [LogLine (''omac sandbox: upstream error: '' @ dial_error_string err)]
          | DialError _ \<Rightarrow> []) @
         [Respond (raw_response 502 header body)])"

type_synonym handled = "effect list \<times> filter_state"

definition handle_connect :: "server \<Rightarrow> save_io \<Rightarrow> transport \<Rightarrow> filter_state \<Rightarrow> request \<Rightarrow> handled" where
  "handle_connect s io tr st req =
     (case split_connect_target (rq_host req) of
        Inl _ \<Rightarrow> ([Respond (raw_response 400 [] (''malformed CONNECT target'' @ [lf]))], st)
      | Inr (host, port) \<Rightarrow>
          if is_loopback_host host then ([loopback_refusal ''CONNECT'' host], st)
          else let ((res, v, logs), st') = check_and_dial s io tr st host port
               in (logs @
                   (case res of
                      None \<Rightarrow> [Respond (raw_response 403 (deny_headers v) (deny_body host v))]
                    | Some (Inl err) \<Rightarrow> dial_failure host err
                    | Some (Inr t) \<Rightarrow>
                        [Respond (''HTTP/1.1 200 Connection Established'' @ crlf @ crlf), TunnelUp t]), st'))"

definition forward_port :: "request \<Rightarrow> int" where
  "forward_port req =
     (if rq_port req = [] then 80 else case atoi (rq_port req) of Some n \<Rightarrow> n | None \<Rightarrow> 80)"

text \<open>The request that leaves the proxy: hop-by-hop credentials replaced, one shot.\<close>

definition forward_request :: "server \<Rightarrow> request \<Rightarrow> out_request" where
  "forward_request s req =
     (let hs = header_del ''Proxy-Connection'' (header_del ''Proxy-Authorization'' (rq_headers req));
          hs1 = header_set ''Connection'' ''close'' hs;
          chained = chains_host (sv_dialer s) (rq_hostname req);
          hs2 = (if chained then
                   (case proxy_auth_header (sv_dialer s) of
                      Some h \<Rightarrow> if h \<noteq> [] then header_set ''Proxy-Authorization'' h hs1 else hs1
                    | None \<Rightarrow> hs1)
                 else hs1)
      in \<lparr>or_method = rq_method req, or_absolute = chained, or_headers = hs2,
          or_path = rq_path req, or_body = rq_body req\<rparr>)"

definition handle_forward :: "server \<Rightarrow> save_io \<Rightarrow> transport \<Rightarrow> filter_state \<Rightarrow> request \<Rightarrow> handled" where
  "handle_forward s io tr st req =
     (if \<not> rq_abs req then ([Respond (raw_response 400 [] (''absolute-URI required on a proxy'' @ [lf]))], st)
      else if to_lower (rq_scheme req) \<noteq> ''http'' then
        ([Respond (raw_response 400 [] (''only http:// forwarding is supported (use CONNECT for TLS)'' @ [lf]))], st)
      else let host = rq_hostname req; port = forward_port req in
        if is_loopback_host host then ([loopback_refusal ''forward'' host], st)
        else let ((res, v, logs), st') = check_and_dial s io tr st host port
             in (logs @
                 (case res of
                    None \<Rightarrow> [Respond (raw_response 403 (deny_headers v) (deny_body host v))]
                  | Some (Inl err) \<Rightarrow> dial_failure host err
                  | Some (Inr t) \<Rightarrow> [ForwardTo t (forward_request s req)]), st'))"

text \<open>\<open>handle\<close>, for what \<open>http.ReadRequest\<close> returned.\<close>

definition handle :: "server \<Rightarrow> save_io \<Rightarrow> transport \<Rightarrow> filter_state \<Rightarrow> request option \<Rightarrow> handled" where
  "handle s io tr st parsed =
     (case parsed of
        None \<Rightarrow> ([], st)
      | Some req \<Rightarrow>
          if \<not> authorized (sv_token s) (header_get (rq_headers req) ''Proxy-Authorization'') then
            ([LogLine (''omac sandbox: net DENY '' @ rq_host req @ '' (missing/invalid proxy token)''),
              Respond (raw_response 407 (''Proxy-Authenticate: Basic realm='' @ [dquote] @ ''omac'' @ [dquote] @ crlf)
                (''proxy authentication required'' @ [lf]))], st)
          else if rq_method req = ''CONNECT'' then handle_connect s io tr st req
          else handle_forward s io tr st req)"

section \<open>Authentication\<close>

lemma is_space_b64: "n < 64 \<Longrightarrow> \<not> is_space (b64_char n)"
  by (auto simp: is_space_def b64_char_def code_def of_char_of)

lemma trim_space_id: "list_all (\<lambda>c. \<not> is_space c) s \<Longrightarrow> trim_space s = s"
proof -
  assume a: "list_all (\<lambda>c. \<not> is_space c) s"
  then have "dropWhile is_space s = s" by (cases s) simp_all
  moreover have "trim_right is_space s = s"
    using a by (intro trim_right_id) (auto simp: list_all_iff)
  ultimately show ?thesis by (simp add: trim_space_def)
qed

lemma b64_encode_no_space: "list_all (\<lambda>c. \<not> is_space c) (b64_encode s)"
proof -
  have "\<not> is_space pad" by (simp add: is_space_def code_def)
  then show ?thesis by (induction s rule: b64_encode.induct) (simp_all add: is_space_b64)
qed

lemma take_upto: "d \<notin> set a \<Longrightarrow> index_of d (a @ d # b) = Some (length a)"
  by (rule index_of_append)

lemma index_of_decomp: "index_of d s = Some i \<Longrightarrow> s = take i s @ d # drop (Suc i) s \<and> d \<notin> set (take i s)"
  using index_of_Some [of d s i] id_take_nth_drop [of i s] by auto

text \<open>
  Who is let in.  A header authenticates exactly when it is the scheme \<open>Basic\<close> in any case, a
  space, and the base64 of a user name without colon, a colon, and the session token; the
  credentials in the \<open>HTTP_PROXY\<close> URL the child gets are of this form.
\<close>

theorem authorized_exactly:
  "(authorized token h \<longleftrightarrow>
     (\<exists>scheme enc user. h = scheme @ '' '' @ enc \<and> CHR '' '' \<notin> set scheme \<and> to_lower scheme = ''basic'' \<and>
        colon \<notin> set user \<and> b64_decode (trim_space enc) = Some (user @ [colon] @ token))) \<and>
   authorized token (''Basic '' @ b64_encode (''omac'' @ [colon] @ token))"
proof (intro conjI iffI)
  assume a: "authorized token h"
  then obtain i creds j where s: "index_of (CHR '' '') h = Some i" "to_lower (take i h) = ''basic''"
    "b64_decode (trim_space (drop (Suc i) h)) = Some creds" "index_of colon creds = Some j"
    "drop (Suc j) creds = token"
    by (auto simp: authorized_def split: if_splits option.splits)
  from index_of_decomp [OF s(1)] index_of_decomp [OF s(4)] s
  show "\<exists>scheme enc user. h = scheme @ '' '' @ enc \<and> CHR '' '' \<notin> set scheme \<and> to_lower scheme = ''basic'' \<and>
        colon \<notin> set user \<and> b64_decode (trim_space enc) = Some (user @ [colon] @ token)"
    by (intro exI [of _ "take i h"] exI [of _ "drop (Suc i) h"] exI [of _ "take j creds"]) auto
next
  assume "\<exists>scheme enc user. h = scheme @ '' '' @ enc \<and> CHR '' '' \<notin> set scheme \<and> to_lower scheme = ''basic'' \<and>
        colon \<notin> set user \<and> b64_decode (trim_space enc) = Some (user @ [colon] @ token)"
  then show "authorized token h"
    by (auto simp: authorized_def index_of_append)
next
  have "authorized token (sch @ '' '' @ b64_encode (user @ [colon] @ token))"
    if "CHR '' '' \<notin> set sch" "to_lower sch = ''basic''" "colon \<notin> set user" for sch user
    using that by (simp add: authorized_def index_of_append trim_space_id [OF b64_encode_no_space])
  from this [of "''Basic''" "''omac''"]
  show "authorized token (''Basic '' @ b64_encode (''omac'' @ [colon] @ token))"
    by (simp add: gostr del: b64_encode.simps)
qed

section \<open>Tunnels\<close>

text \<open>Where a tunnel ends.\<close>

definition tunnel_end :: "tunnel \<Rightarrow> addr \<Rightarrow> int \<Rightarrow> bool" where
  "tunnel_end t a port =
     (case t of DirectTunnel (_, b) \<Rightarrow> b = a
      | ProxyTunnel target _ \<Rightarrow> target = join_host_port (addr_string a) (show_int port))"

text \<open>The configuration a production run builds: the test seams are off.\<close>

definition production :: "server \<Rightarrow> transport \<Rightarrow> bool" where
  "production s tr \<longleftrightarrow> resolve_on_check_host (sv_cfg s) \<and> \<not> allow_loopback_origin (sv_cfg s) \<and>
     arrival_order (tr_order tr) \<and>
     (case sv_dialer s of Direct al \<Rightarrow> \<not> al | Upstream d \<Rightarrow> \<not> up_allow_loopback d)"

lemma admit_Allow:
  assumes "production s tr" "admit s io st host port = ((v, addrs), st')" "v_decision v = Allow"
  shows "pinned_ok (sv_cfg s) (normalize_host host) addrs"
proof (cases "chains_host (sv_dialer s) host")
  case True
  then have "check_host_pinned (sv_cfg s) io st host port = ((v, addrs), st')"
    using assms(2) by (simp add: admit_def)
  then show ?thesis
    using assms(1,3) unfolding check_host_pinned_eq
    by (auto simp: Let_def answer_eq production_def pin_addrs_check_addrs intro: check_addrs_Inr
        dest: check_addrs_Inl split: if_splits sum.splits prod.splits)
next
  case False
  then have "filter_check (sv_cfg s) io st host port = ((v, addrs), st')"
    using assms(2) by (simp add: admit_def)
  from filter_check_Allow [OF this assms(3)] show ?thesis
    using assms(1) by (auto simp: production_def intro: check_addrs_Inr)
qed

lemma dial_direct_end:
  assumes "dial_direct False tr addrs port = Inr t" "arrival_order (tr_order tr)"
  shows "\<exists>a \<in> set addrs. tunnel_end t a port"
proof -
  obtain i a where d: "fst (dial_pinned False (tr_net tr) (tr_order tr) addrs port) = Inr (i, a)" "t = DirectTunnel (i, a)"
    using assms(1) by (auto simp: dial_direct_def split: sum.splits)
  then have "dial_pinned False (tr_net tr) (tr_order tr) addrs port =
      (Inr (i, a), snd (dial_pinned False (tr_net tr) (tr_order tr) addrs port))"
    by (metis prod.collapse)
  from dial_pinned_cases [OF this assms(2)] have "a \<in> set addrs" by auto
  then show ?thesis using d(2) by (intro bexI [of _ a]) (simp_all add: tunnel_end_def)
qed

lemma dial_tunnel_end:
  assumes "production s tr" "fst (dial_tunnel (sv_dialer s) tr host port addrs) = Inr t" "addrs \<noteq> []"
  shows "\<exists>a \<in> set addrs. tunnel_end t a port"
proof (cases "sv_dialer s")
  case (Direct al)
  then show ?thesis using assms dial_direct_end by (simp add: production_def)
next
  case (Upstream d)
  show ?thesis
  proof (cases "host_matches_no_proxy (normalize_host host) (up_no_proxy d)")
    case True
    then show ?thesis using assms dial_direct_end Upstream by (simp add: production_def)
  next
    case False
    with Upstream assms(2) have "dial_upstream d (tr_proxy tr) (normalize_host host) port addrs = Inr t" by simp
    from dial_upstream_tunnel [OF this] show ?thesis
      using assms(3) by (intro bexI [of _ "hd addrs"]) (auto simp: tunnel_end_def connect_target_def split: list.split)
  qed
qed

definition sound_end :: "filter_config \<Rightarrow> string \<Rightarrow> int \<Rightarrow> tunnel \<Rightarrow> bool" where
  "sound_end cfg host port t \<longleftrightarrow>
     (\<exists>a. tunnel_end t a port \<and> hard_denied_addr a = None \<and>
        (parse_addr host = Some a \<or> (\<exists>addrs. resolve cfg host = Some addrs \<and> a \<in> set addrs)))"

lemma check_and_dial_sound:
  assumes "production s tr" "check_and_dial s io tr st host port = ((Some (Inr t), v, logs), st')"
  shows "v_decision v = Allow \<and> fst (fst (admit s io st host port)) = v \<and>
    sound_end (sv_cfg s) (normalize_host host) port t"
proof -
  obtain addrs st1 where a: "admit s io st host port = ((v, addrs), st1)" "v_decision v = Allow"
    and d: "fst (dial_tunnel (sv_dialer s) tr host port addrs) = Inr t"
    using assms(2) by (auto simp: check_and_dial_def Let_def split: prod.splits if_splits)
  have p: "pinned_ok (sv_cfg s) (normalize_host host) addrs" by (rule admit_Allow [OF assms(1) a])
  then have "addrs \<noteq> []" by (simp add: pinned_ok_def)
  from dial_tunnel_end [OF assms(1) d this] p show ?thesis
    using a by (auto simp: pinned_ok_def sound_end_def split: option.splits)
qed

text \<open>The host and port an effect's request asked for.\<close>

definition asks_for :: "request \<Rightarrow> string \<Rightarrow> int \<Rightarrow> bool" where
  "asks_for req host port \<longleftrightarrow>
     (if rq_method req = ''CONNECT'' then split_connect_target (rq_host req) = Inr (host, port)
      else rq_abs req \<and> host = rq_hostname req \<and> port = forward_port req)"

lemma dial_failure_no_tunnel: "TunnelUp t \<notin> set (dial_failure host err)" "ForwardTo t out \<notin> set (dial_failure host err)"
  by (auto simp: dial_failure_def Let_def split: prod.splits dial_error.splits)

lemma logs_only: "check_and_dial s io tr st host port = ((res, v, logs), st') \<Longrightarrow> set logs \<subseteq> range LogLine"
  by (auto simp: check_and_dial_def Let_def split: prod.splits if_splits)

lemma handle_connect_tunnel:
  assumes "TunnelUp t \<in> set (fst (handle_connect s io tr st req))"
  shows "\<exists>host port v logs st'. split_connect_target (rq_host req) = Inr (host, port) \<and> \<not> is_loopback_host host \<and>
    check_and_dial s io tr st host port = ((Some (Inr t), v, logs), st')"
proof -
  obtain host port where t: "split_connect_target (rq_host req) = Inr (host, port)" "\<not> is_loopback_host host"
    using assms by (auto simp: handle_connect_def loopback_refusal_def split: sum.splits if_splits)
  obtain res v logs st' where c: "check_and_dial s io tr st host port = ((res, v, logs), st')"
    by (metis prod.collapse)
  have "TunnelUp t \<notin> set logs" using logs_only [OF c] by auto
  then have "res = Some (Inr t)"
    using assms by (auto simp: handle_connect_def t c dial_failure_no_tunnel split: option.splits sum.splits)
  with t c show ?thesis by blast
qed

lemma handle_forward_tunnel:
  assumes "ForwardTo t out \<in> set (fst (handle_forward s io tr st req))"
  shows "rq_abs req \<and> \<not> is_loopback_host (rq_hostname req) \<and> out = forward_request s req \<and>
    (\<exists>v logs st'. check_and_dial s io tr st (rq_hostname req) (forward_port req) = ((Some (Inr t), v, logs), st'))"
proof -
  have t: "rq_abs req" "\<not> is_loopback_host (rq_hostname req)" "to_lower (rq_scheme req) = ''http''"
    using assms by (auto simp: handle_forward_def loopback_refusal_def Let_def split: if_splits)
  obtain res v logs st' where c: "check_and_dial s io tr st (rq_hostname req) (forward_port req) = ((res, v, logs), st')"
    by (metis prod.collapse)
  have "ForwardTo t out \<notin> set logs" using logs_only [OF c] by auto
  then have "res = Some (Inr t) \<and> out = forward_request s req"
    using assms by (auto simp: handle_forward_def t c Let_def dial_failure_no_tunnel split: option.splits sum.splits)
  with t c show ?thesis by blast
qed

lemma no_cross_effects:
  "TunnelUp t \<notin> set (fst (handle_forward s io tr st req))"
  "ForwardTo t out \<notin> set (fst (handle_connect s io tr st req))"
proof -
  obtain res v logs st' where c: "check_and_dial s io tr st (rq_hostname req) (forward_port req) = ((res, v, logs), st')"
    by (metis prod.collapse)
  show "TunnelUp t \<notin> set (fst (handle_forward s io tr st req))"
    using logs_only [OF c] by (auto simp: handle_forward_def c Let_def loopback_refusal_def dial_failure_no_tunnel
        split: option.split sum.split)
  show "ForwardTo t out \<notin> set (fst (handle_connect s io tr st req))"
  proof (cases "split_connect_target (rq_host req)")
    case (Inr hp)
    obtain host port where hp: "hp = (host, port)" by fastforce
    obtain res v logs st' where c: "check_and_dial s io tr st host port = ((res, v, logs), st')"
      by (metis prod.collapse)
    show ?thesis
      using logs_only [OF c] by (auto simp: handle_connect_def Inr hp c loopback_refusal_def dial_failure_no_tunnel
          split: option.split sum.split)
  qed (simp add: handle_connect_def)
qed

text \<open>
  C2: End-to-end soundness of the proxy.  In a production configuration, whenever a request makes
  the proxy open a CONNECT tunnel or forward a plain request, the request carried the session
  token, its host is no spelling of a loopback host, the filter decided Allow for that host and
  port, and the connection (or, behind an upstream proxy, the CONNECT target) is an address that
  is not hard-denied and is the requested literal or one this admission resolved for the host.
\<close>

theorem proxy_tunnel_sound:
  assumes "production s tr"
    and "TunnelUp t \<in> set (fst (handle s io tr st (Some req))) \<or>
         ForwardTo t out \<in> set (fst (handle s io tr st (Some req)))"
  shows "authorized (sv_token s) (header_get (rq_headers req) ''Proxy-Authorization'') \<and>
    (\<exists>host port. asks_for req host port \<and> \<not> is_loopback_host host \<and>
       v_decision (fst (fst (admit s io st host port))) = Allow \<and>
       sound_end (sv_cfg s) (normalize_host host) port t)"
proof -
  have auth: "authorized (sv_token s) (header_get (rq_headers req) ''Proxy-Authorization'')"
    using assms(2) by (auto simp: handle_def split: if_splits)
  show ?thesis
  proof (cases "rq_method req = ''CONNECT''")
    case True
    then have "TunnelUp t \<in> set (fst (handle_connect s io tr st req))"
      using assms(2) auth no_cross_effects by (auto simp: handle_def)
    from handle_connect_tunnel [OF this] obtain host port v logs st'
      where h: "split_connect_target (rq_host req) = Inr (host, port)" "\<not> is_loopback_host host"
        and c: "check_and_dial s io tr st host port = ((Some (Inr t), v, logs), st')" by blast
    from check_and_dial_sound [OF assms(1) c] h auth True show ?thesis
      by (auto simp: asks_for_def)
  next
    case False
    then have "ForwardTo t out \<in> set (fst (handle_forward s io tr st req))"
      using assms(2) auth no_cross_effects by (auto simp: handle_def)
    from handle_forward_tunnel [OF this] obtain v logs st'
      where h: "rq_abs req" "\<not> is_loopback_host (rq_hostname req)"
        and c: "check_and_dial s io tr st (rq_hostname req) (forward_port req) = ((Some (Inr t), v, logs), st')"
      by blast
    from check_and_dial_sound [OF assms(1) c] h auth False show ?thesis
      by (auto simp: asks_for_def)
  qed
qed

definition demo_server :: server where
  "demo_server = \<lparr>sv_cfg = demo_cfg, sv_dialer = Direct False, sv_token = ''t0ken'', sv_port = 4444\<rparr>"

definition demo_transport :: transport where
  "demo_transport = \<lparr>tr_net = (\<lambda>_ _. None), tr_order = id, tr_proxy = demo_proxy\<rparr>"

definition demo_request :: request where
  "demo_request = \<lparr>rq_method = ''CONNECT'', rq_host = ''API.example.com.:443'',
     rq_headers = [(''Proxy-Authorization'', ''Basic b21hYzp0MGtlbg=='')], rq_abs = False, rq_scheme = [],
     rq_hostname = [], rq_port = [], rq_path = [], rq_body = []\<rparr>"

lemma demo_auth: "authorized ''t0ken'' (header_get (rq_headers demo_request) ''Proxy-Authorization'')"
  by (simp add: demo_request_def header_get_def authorized_def b64_decode_def b64_val_def byte1_def byte2_def
      byte3_def gostr)

lemma demo_tunnel:
  "TunnelUp (DirectTunnel (0, V4 0x5DB8D822)) \<in>
     set (fst (handle demo_server io_all_ok demo_transport demo_state (Some demo_request)))"
proof -
  obtain st' where c: "filter_check demo_cfg io_all_ok demo_state ''api.example.com'' 443 =
      ((mk_verdict Allow ''allow_domain'', [V4 0x5DB8D822]), st')"
    using demo_check_lower by (metis prod.collapse)
  have hd: "hard_denied_addr (V4 0x5DB8D822) = None"
    using denied_ranges [of "V4 0x5DB8D822"] by (simp add: unmap_def is_4in6_def)
  have l: "\<not> is_loopback_host ''api.example.com''"
    by (simp add: is_loopback_host_def Let_def gostr)
  have d: "dial_pinned False (\<lambda>_ _. None) id [V4 0x5DB8D822] 443 = (Inr (0, V4 0x5DB8D822), [])"
    by (simp add: dial_pinned_def attempts_def attempt_def refused_def hd)
  have "check_and_dial demo_server io_all_ok demo_transport demo_state ''api.example.com'' 443 =
      ((Some (Inr (DirectTunnel (0, V4 0x5DB8D822))), mk_verdict Allow ''allow_domain'', []), st')"
    by (simp add: check_and_dial_def admit_def demo_server_def c dial_direct_def demo_transport_def d)
  then show ?thesis
    using demo_auth by (simp add: handle_def demo_server_def demo_request_def handle_connect_def demo_target l)
qed

theorem proxy_tunnel_sound_witness:
  "sound_end demo_cfg ''api.example.com'' 443 (DirectTunnel (0, V4 0x5DB8D822))"
proof -
  have "production demo_server demo_transport"
    by (simp add: production_def demo_server_def demo_cfg_def demo_transport_def arrival_order_def)
  from proxy_tunnel_sound [OF this disjI1 [OF demo_tunnel]]
  have "sound_end (sv_cfg demo_server) (normalize_host ''api.example.com'') 443 (DirectTunnel (0, V4 0x5DB8D822))"
    by (auto simp: asks_for_def demo_request_def demo_target)
  then show ?thesis by (simp add: demo_server_def gostr)
qed

section \<open>Credentials\<close>

lemma header_del_values: "(k, v) \<in> set (header_del k hs) \<longleftrightarrow> False"
  by (auto simp: header_del_def)

lemma header_del_other: "k \<noteq> k' \<Longrightarrow> (k, v) \<in> set (header_del k' hs) \<longleftrightarrow> (k, v) \<in> set hs"
  by (auto simp: header_del_def)

lemma header_set_values:
  "(k, v) \<in> set (header_set k' w hs) \<longleftrightarrow> (if k = k' then v = w else (k, v) \<in> set hs)"
  by (auto simp: header_set_def header_del_def)

text \<open>
  Credentials do not cross.  A forwarded request carries a \<open>Proxy-Authorization\<close> only when it
  goes through the upstream proxy, and then only the upstream's own; the one the child sent, with
  the session token, never leaves.  Every other header but the two connection headers is kept,
  and \<open>Connection\<close> is \<open>close\<close>.
\<close>

theorem forward_credentials:
  "((''Proxy-Authorization'', v) \<in> set (or_headers (forward_request s req)) \<longleftrightarrow>
      chains_host (sv_dialer s) (rq_hostname req) \<and> proxy_auth_header (sv_dialer s) = Some v \<and> v \<noteq> []) \<and>
   ((''Connection'', v) \<in> set (or_headers (forward_request s req)) \<longleftrightarrow> v = ''close'') \<and>
   {(k, w) \<in> set (or_headers (forward_request s req)).
      k \<notin> {''Proxy-Authorization'', ''Proxy-Connection'', ''Connection''}} =
   {(k, w) \<in> set (rq_headers req). k \<notin> {''Proxy-Authorization'', ''Proxy-Connection'', ''Connection''}}"
  by (auto simp: forward_request_def Let_def header_set_values header_del_values header_del_other
      split: option.splits if_splits)

end
