(* ===== verification/Prompt.thy ===== *)
theory Prompt
  imports NetFilter
begin

text \<open>
  The network dialog (\<open>internal/netprompt/prompt.go\<close>, \<open>stub.go\<close>) and the map from hosts to likely
  causes (\<open>hostmap/hostmap.go\<close>): the eleven options, the tokens they stand for, the text shown,
  the dialog tools, the stub that answers from a file, and \<open>Prompter.Prompt\<close> over them.  The
  public suf list, the dialog tools' output and the intent registry are parameters.
\<close>

section \<open>Options and tokens\<close>

definition wild :: "string \<Rightarrow> string" where
  "wild suf = ''(*.'' @ suf @ '')''"

definition option_labels :: "string \<Rightarrow> string list" where
  "option_labels suf =
     [''Allow once'',
      ''Allow for this session (this host)'',
      ''Allow for this session '' @ wild suf,
      ''Allow permanently (this host)'',
      ''Allow permanently '' @ wild suf,
      ''Deny once'',
      ''Deny for this session (this host)'',
      ''Deny for this session '' @ wild suf,
      ''Deny permanently (this host)'',
      ''Deny permanently '' @ wild suf,
      ''Explain more'']"

datatype token =
    AllowOnce
  | AllowPermanentHost
  | AllowPermanentSuffix
  | DenyOnce
  | DenyPermanentHost
  | DenyPermanentSuffix
  | AllowSessionHost
  | AllowSessionSuffix
  | DenySessionHost
  | DenySessionSuffix
  | NeedsIntent

definition label_to_token :: "string \<Rightarrow> string \<Rightarrow> token" where
  "label_to_token label suf =
     (if label = ''Allow once'' then AllowOnce
      else if label = ''Allow for this session (this host)'' then AllowSessionHost
      else if label = ''Allow for this session '' @ wild suf then AllowSessionSuffix
      else if label = ''Allow permanently (this host)'' then AllowPermanentHost
      else if label = ''Allow permanently '' @ wild suf then AllowPermanentSuffix
      else if label = ''Deny for this session (this host)'' then DenySessionHost
      else if label = ''Deny for this session '' @ wild suf then DenySessionSuffix
      else if label = ''Deny permanently (this host)'' then DenyPermanentHost
      else if label = ''Deny permanently '' @ wild suf then DenyPermanentSuffix
      else if label = ''Explain more'' then NeedsIntent
      else DenyOnce)"

definition no_result :: prompt_result where
  "no_result = \<lparr>pr_allow = False, pr_persist = False, pr_session = False, pr_scope = [], pr_suffix = [],
     pr_needs_intent = False, pr_prior_reason = []\<rparr>"

definition token_to_result :: "token \<Rightarrow> string \<Rightarrow> string \<Rightarrow> prompt_result" where
  "token_to_result tok host suf =
     (case tok of
        AllowOnce \<Rightarrow> no_result\<lparr>pr_allow := True\<rparr>
      | AllowSessionHost \<Rightarrow> no_result\<lparr>pr_allow := True, pr_session := True, pr_scope := ''host''\<rparr>
      | AllowSessionSuffix \<Rightarrow>
          no_result\<lparr>pr_allow := True, pr_session := True, pr_scope := ''suffix'', pr_suffix := suf\<rparr>
      | DenySessionHost \<Rightarrow> no_result\<lparr>pr_session := True, pr_scope := ''host''\<rparr>
      | DenySessionSuffix \<Rightarrow> no_result\<lparr>pr_session := True, pr_scope := ''suffix'', pr_suffix := suf\<rparr>
      | AllowPermanentHost \<Rightarrow> no_result\<lparr>pr_allow := True, pr_persist := True, pr_scope := ''host''\<rparr>
      | AllowPermanentSuffix \<Rightarrow>
          no_result\<lparr>pr_allow := True, pr_persist := True, pr_scope := ''suffix'', pr_suffix := suf\<rparr>
      | DenyPermanentHost \<Rightarrow> no_result\<lparr>pr_persist := True, pr_scope := ''host''\<rparr>
      | DenyPermanentSuffix \<Rightarrow> no_result\<lparr>pr_persist := True, pr_scope := ''suffix'', pr_suffix := suf\<rparr>
      | NeedsIntent \<Rightarrow> no_result\<lparr>pr_needs_intent := True\<rparr>
      | DenyOnce \<Rightarrow> no_result)"

text \<open>
  \<open>RegisteredSuffixHint\<close>; \<open>etld1\<close> is \<open>publicsuffix.EffectiveTLDPlusOne\<close>, \<open>None\<close> on its error.
  \<open>net.ParseIP\<close> accepts what \<open>netip.ParseAddr\<close> does without a zone.
\<close>

definition parse_ip :: "string \<Rightarrow> bool" where
  "parse_ip host \<longleftrightarrow> (case parse_addr host of Some (V4 _) \<Rightarrow> True | Some (V6 _ z) \<Rightarrow> z = [] | None \<Rightarrow> False)"

definition registered_suffix_hint :: "(string \<Rightarrow> string option) \<Rightarrow> string \<Rightarrow> string" where
  "registered_suffix_hint etld1 host =
     (if parse_ip host then host
      else case etld1 host of
        None \<Rightarrow> host
      | Some d \<Rightarrow> if d = host then host else d)"

section \<open>The text of the dialog\<close>

text \<open>
  \<open>escapePangoMarkup\<close>: line ends become spaces, control characters (also the two-byte encodings
  of U+0080 to U+009F) are dropped, and the three markup characters escaped.
\<close>

definition is_control :: "char \<Rightarrow> bool" where
  "is_control c \<longleftrightarrow> code c < 32 \<or> code c = 127"

fun strip_controls :: "string \<Rightarrow> string" where
  "strip_controls [] = []"
| "strip_controls (c # s) =
     (if c = lf \<or> c = cr then CHR '' '' # strip_controls s
      else if is_control c then strip_controls s
      else case s of
        d # s' \<Rightarrow>
          if code c = 0xC2 \<and> 0x80 \<le> code d \<and> code d \<le> 0x9F then strip_controls s'
          else c # strip_controls s
      | [] \<Rightarrow> [c])"

definition escape_char :: "char \<Rightarrow> string" where
  "escape_char c =
     (if c = CHR ''&'' then ''&amp;'' else if c = CHR ''<'' then ''&lt;''
      else if c = CHR ''>'' then ''&gt;'' else [c])"

definition escape_pango_markup :: "string \<Rightarrow> string" where
  "escape_pango_markup s = concat (map escape_char (strip_controls s))"

definition prompt_text :: "string \<Rightarrow> int \<Rightarrow> string \<Rightarrow> string \<Rightarrow> string \<Rightarrow> nat \<Rightarrow> string" where
  "prompt_text host port intent cause origin_line num_options =
     ''The sandboxed process is trying to reach:'' @ [lf, lf] @ ''    '' @ escape_pango_markup host @ '':'' @ show_int port @ [lf, lf] @
     (if origin_line \<noteq> [] then ''Origin: '' @ escape_pango_markup origin_line @ [lf] else []) @
     (if cause \<noteq> [] then ''Likely cause: '' @ escape_pango_markup cause @ [lf] else []) @
     (if intent \<noteq> [] then ''Agent intent: '' @ go_quote (escape_pango_markup intent)
      else ''Agent intent: (not declared)'') @
     [lf, lf] @ ''How should omac handle this destination? ('' @ show_nat num_options @ '' options)''"

definition env_dimension :: "string option \<Rightarrow> int \<Rightarrow> int" where
  "env_dimension v def =
     (case atoi (trim_space (case v of None \<Rightarrow> [] | Some s \<Rightarrow> s)) of
        Some n \<Rightarrow> if n > 0 then n else def | None \<Rightarrow> def)"

section \<open>Dialog tools\<close>

text \<open>What a run of a tool gave: its output, or an error, with the context expired or not.\<close>

datatype tool_run = Printed string | ToolError bool string

text \<open>The chosen label, or an error.\<close>

type_synonym shown = "string + string"

definition zenity_show :: "tool_run \<Rightarrow> shown" where
  "zenity_show r =
     (case r of Printed out \<Rightarrow> Inr (trim_space out)
      | ToolError expired e \<Rightarrow> if expired then Inl e else Inr [])"

definition kdialog_show :: "string \<Rightarrow> tool_run \<Rightarrow> shown" where
  "kdialog_show suf r =
     (case r of
        Printed out \<Rightarrow>
          (case find (\<lambda>(i, _). show_nat i = trim_space out) (enumerate 0 (option_labels suf)) of
             Some (_, o1) \<Rightarrow> Inr o1 | None \<Rightarrow> Inr [])
      | ToolError expired e \<Rightarrow> if expired then Inl e else Inr [])"

definition osascript_show :: "tool_run \<Rightarrow> shown" where
  "osascript_show r =
     (case r of
        Printed out \<Rightarrow>
          (let choice = trim_space out in if choice = ''false'' \<or> choice = [] then Inr [] else Inr choice)
      | ToolError _ e \<Rightarrow> Inl e)"

definition zenity_args ::
    "int \<times> int \<Rightarrow> string \<Rightarrow> int \<Rightarrow> string \<Rightarrow> string \<Rightarrow> string \<Rightarrow> string \<Rightarrow> string list" where
  "zenity_args dims host port suf intent cause origin_line =
     (let opts = option_labels suf
      in [''--list'', ''--radiolist'', ''--no-markup'', ''--title'', ''omac: network access'',
          ''--text'', prompt_text host port intent cause origin_line (length opts),
          ''--column'', [], ''--column'', ''Decision'',
          ''--width'', show_int (fst dims), ''--height'', show_int (snd dims)] @
         concat (map (\<lambda>o1. [if o1 = ''Deny once'' then ''TRUE'' else ''FALSE'', o1]) opts))"

definition kdialog_args ::
    "int \<times> int \<Rightarrow> string \<Rightarrow> int \<Rightarrow> string \<Rightarrow> string \<Rightarrow> string \<Rightarrow> string \<Rightarrow> string list" where
  "kdialog_args dims host port suf intent cause origin_line =
     (let opts = option_labels suf
      in [''--geometry'', show_int (fst dims) @ ''x'' @ show_int (snd dims),
          ''--title'', ''omac: network access'',
          ''--radiolist'', prompt_text host port intent cause origin_line (length opts)] @
         concat (map (\<lambda>(i, o1). [show_nat i, o1, if o1 = ''Deny once'' then ''on'' else ''off'']) (enumerate 0 opts)))"

section \<open>The stub\<close>

record stub_decision =
  sd_allow :: bool
  sd_persist :: bool
  sd_session :: bool
  sd_scope :: string
  sd_needs_intent :: bool

text \<open>The decisions as decoded from the file; \<open>None\<close> for an unreadable or malformed file.\<close>

definition load_decisions :: "(string \<times> stub_decision) list option \<Rightarrow> (string \<times> stub_decision) list" where
  "load_decisions decoded =
     (case decoded of None \<Rightarrow> []
      | Some ds \<Rightarrow> filter (\<lambda>(_, d). \<not> (sd_persist d \<and> sd_session d)) ds)"

definition stub_lookup :: "(string \<times> stub_decision) list \<Rightarrow> string \<Rightarrow> stub_decision option" where
  "stub_lookup ds host =
     (case map_of ds (to_lower host) of Some d \<Rightarrow> Some d | None \<Rightarrow> map_of ds ''*'')"

definition decision_to_label :: "stub_decision \<Rightarrow> string \<Rightarrow> string" where
  "decision_to_label d suf =
     (if sd_needs_intent d then ''Explain more''
      else if sd_allow d \<and> sd_session d \<and> sd_scope d = ''host'' then ''Allow for this session (this host)''
      else if sd_allow d \<and> sd_session d \<and> sd_scope d = ''suffix'' then ''Allow for this session '' @ wild suf
      else if \<not> sd_allow d \<and> sd_session d \<and> sd_scope d = ''host'' then ''Deny for this session (this host)''
      else if \<not> sd_allow d \<and> sd_session d \<and> sd_scope d = ''suffix'' then ''Deny for this session '' @ wild suf
      else if sd_allow d \<and> sd_persist d \<and> sd_scope d = ''host'' then ''Allow permanently (this host)''
      else if sd_allow d \<and> sd_persist d \<and> sd_scope d = ''suffix'' then ''Allow permanently '' @ wild suf
      else if sd_allow d then ''Allow once''
      else if \<not> sd_allow d \<and> sd_persist d \<and> sd_scope d = ''host'' then ''Deny permanently (this host)''
      else if \<not> sd_allow d \<and> sd_persist d \<and> sd_scope d = ''suffix'' then ''Deny permanently '' @ wild suf
      else ''Deny once'')"

definition stub_show :: "(string \<times> stub_decision) list \<Rightarrow> string \<Rightarrow> string \<Rightarrow> shown" where
  "stub_show ds host suf =
     (case stub_lookup ds host of None \<Rightarrow> Inr ''Deny once'' | Some d \<Rightarrow> Inr (decision_to_label d suf))"

section \<open>Likely causes\<close>

record cause_entry =
  ce_host :: string
  ce_match :: string
  ce_cause :: string

record cause_map =
  cm_exact :: "(string \<times> cause_entry) list"
  cm_suffix :: "cause_entry list"

definition cause_normalize :: "string \<Rightarrow> string" where
  "cause_normalize host = trim_suffix (to_lower (trim_space host)) ''.''"

text \<open>\<open>parse\<close>, after decoding; a later exact entry replaces an earlier one for its host.\<close>

fun build_cause_map :: "cause_entry list \<Rightarrow> cause_map \<Rightarrow> cause_map" where
  "build_cause_map [] m = m"
| "build_cause_map (e # es) m =
     (let h = cause_normalize (ce_host e)
      in if h = [] \<or> ce_cause e = [] then build_cause_map es m
         else if ce_match e = ''suffix'' then build_cause_map es (m\<lparr>cm_suffix := cm_suffix m @ [e]\<rparr>)
         else build_cause_map es (m\<lparr>cm_exact := (h, e) # cm_exact m\<rparr>))"

definition cause_lookup :: "cause_map option \<Rightarrow> string \<Rightarrow> cause_entry option" where
  "cause_lookup cm host =
     (case cm of None \<Rightarrow> None | Some m \<Rightarrow>
        let h = cause_normalize host in
        if h = [] then None
        else case map_of (cm_exact m) h of
          Some e \<Rightarrow> Some e
        | None \<Rightarrow>
            find (\<lambda>e. h = cause_normalize (ce_host e) \<or> has_suffix h (dot # cause_normalize (ce_host e)))
              (cm_suffix m))"

section \<open>Prompter.Prompt\<close>

datatype backend =
    Zenity bool
  | Kdialog bool
  | Osascript bool
  | Stub "(string \<times> stub_decision) list"

fun available :: "backend \<Rightarrow> bool" where
  "available (Zenity b) = b"
| "available (Kdialog b) = b"
| "available (Osascript b) = b"
| "available (Stub _) = True"

fun backend_show :: "backend \<Rightarrow> tool_run \<Rightarrow> string \<Rightarrow> string \<Rightarrow> shown" where
  "backend_show (Zenity _) r host suf = zenity_show r"
| "backend_show (Kdialog _) r host suf = kdialog_show suf r"
| "backend_show (Osascript _) r host suf = osascript_show r"
| "backend_show (Stub ds) r host suf = stub_show ds host suf"

record prompter =
  pm_backends :: "backend list"
  pm_etld1 :: "string \<Rightarrow> string option"
  pm_intent :: "string \<Rightarrow> string option"
  pm_records_explain :: bool

text \<open>
  The result, and the hosts reported as wanting an explanation.  \<open>tool\<close> is what the user and the
  tool do with the dialog of this host, port and suf.
\<close>

definition prompt :: "prompter \<Rightarrow> (string \<Rightarrow> int \<Rightarrow> string \<Rightarrow> tool_run) \<Rightarrow> string \<Rightarrow> int \<Rightarrow> prompt_result \<times> string list" where
  "prompt pm tool host port =
     (case find available (pm_backends pm) of
        None \<Rightarrow> (no_result, [])
      | Some b \<Rightarrow>
          (let suf = registered_suffix_hint (pm_etld1 pm) host;
               intent = (case pm_intent pm host of None \<Rightarrow> [] | Some r \<Rightarrow> r)
           in case backend_show b (tool host port suf) host suf of
                Inl _ \<Rightarrow> (no_result, [])
              | Inr label \<Rightarrow>
                  (let res = (token_to_result (label_to_token label suf) host suf)\<lparr>pr_prior_reason := intent\<rparr>
                   in (res, if pr_needs_intent res \<and> pm_records_explain pm then [host] else []))))"

text \<open>\<open>NewPrompter\<close>: the backends of the platform, or the stub.\<close>

definition is_truthy_env :: "string \<Rightarrow> bool" where
  "is_truthy_env v \<longleftrightarrow> to_lower (trim_space v) \<in> {''1'', ''true'', ''yes'', ''on''}"

definition new_prompter ::
    "string \<Rightarrow> (string \<times> stub_decision) list option \<Rightarrow> bool \<Rightarrow> bool \<times> bool \<times> bool \<Rightarrow>
     (string \<Rightarrow> string option) \<Rightarrow> (string \<Rightarrow> string option) \<Rightarrow> bool \<Rightarrow> prompter \<times> bool" where
  "new_prompter stub_env decoded darwin tools etld1 intent records =
     (let (zen, kd, osa) = tools;
          bs = (if is_truthy_env stub_env then [Stub (load_decisions decoded)]
                else if darwin then [Osascript osa] else [Zenity zen, Kdialog kd])
      in (\<lparr>pm_backends = bs, pm_etld1 = etld1, pm_intent = intent, pm_records_explain = records\<rparr>,
          list_ex available bs))"

section \<open>Every option means what it says\<close>

definition option_results :: "string \<Rightarrow> prompt_result list" where
  "option_results suf =
     [no_result\<lparr>pr_allow := True\<rparr>,
      no_result\<lparr>pr_allow := True, pr_session := True, pr_scope := ''host''\<rparr>,
      no_result\<lparr>pr_allow := True, pr_session := True, pr_scope := ''suffix'', pr_suffix := suf\<rparr>,
      no_result\<lparr>pr_allow := True, pr_persist := True, pr_scope := ''host''\<rparr>,
      no_result\<lparr>pr_allow := True, pr_persist := True, pr_scope := ''suffix'', pr_suffix := suf\<rparr>,
      no_result,
      no_result\<lparr>pr_session := True, pr_scope := ''host''\<rparr>,
      no_result\<lparr>pr_session := True, pr_scope := ''suffix'', pr_suffix := suf\<rparr>,
      no_result\<lparr>pr_persist := True, pr_scope := ''host''\<rparr>,
      no_result\<lparr>pr_persist := True, pr_scope := ''suffix'', pr_suffix := suf\<rparr>,
      no_result\<lparr>pr_needs_intent := True\<rparr>]"

abbreviation label_result :: "string \<Rightarrow> string \<Rightarrow> string \<Rightarrow> prompt_result" where
  "label_result label host suf \<equiv> token_to_result (label_to_token label suf) host suf"

lemma option_label_results:
  "map (\<lambda>l. label_result l host suf) (option_labels suf) = option_results suf"
  by (simp add: option_labels_def option_results_def label_to_token_def token_to_result_def wild_def)

lemmas label_results = option_label_results [unfolded option_labels_def option_results_def list.map list.inject]

lemma option_labels_length [simp]: "length (option_labels suf) = 11"
  by (simp add: option_labels_def)

lemma other_label_denies:
  "label \<notin> set (option_labels suf) \<Longrightarrow> label_result label host suf = no_result"
  by (simp add: option_labels_def label_to_token_def token_to_result_def)

lemma option_labels_distinct: "distinct (option_labels suf)"
  by (simp add: option_labels_def wild_def)

lemma trim_space_newline: "trim_space (s @ [lf]) = trim_space s"
proof -
  have sp: "is_space lf" by (simp add: is_space_def code_def)
  show ?thesis
  proof (cases "dropWhile is_space s = []")
    case True
    then have "dropWhile is_space (s @ [lf]) = []"
      using sp by (auto simp: dropWhile_eq_Nil_conv)
    with True show ?thesis by (simp only: trim_space_def)
  next
    case False
    then have "dropWhile is_space (s @ [lf]) = dropWhile is_space s @ [lf]"
      by (metis dropWhile_append1 dropWhile_eq_Nil_conv)
    with sp show ?thesis by (simp add: trim_space_def trim_right_def)
  qed
qed

lemma label_edges:
  "l \<in> set (option_labels suf) \<Longrightarrow> l \<noteq> [] \<and> \<not> is_space (hd l) \<and> \<not> is_space (last l)"
  by (auto simp: option_labels_def wild_def is_space_def code_def)

lemma option_label_trim: "l \<in> set (option_labels suf) \<Longrightarrow> trim_space l = l"
proof -
  assume "l \<in> set (option_labels suf)"
  then have e: "l \<noteq> []" "\<not> is_space (hd l)" "\<not> is_space (last l)" using label_edges by blast+
  then have "dropWhile is_space l = l" by (cases l) simp_all
  moreover have "trim_right is_space l = l" using e by (intro trim_right_id) simp
  ultimately show ?thesis by (simp add: trim_space_def)
qed

text \<open>\<open>kdialog\<close> answers with the number of the option.\<close>

lemma show_nat_inject: "show_nat i = show_nat j \<longleftrightarrow> i = j"
  by (metis option.inject parse_show_nat)

lemma show_nat_trim: "trim_space (show_nat i @ [lf]) = show_nat i"
proof -
  have d: "\<not> is_space c" if "c \<in> set (show_nat i)" for c
    using show_nat_digits [of i] that by (auto simp: list_all_iff is_digit_def is_space_def)
  have "dropWhile is_space (show_nat i) = show_nat i"
    using d [of "hd (show_nat i)"] by (cases "show_nat i") simp_all
  moreover have "trim_right is_space (show_nat i) = show_nat i"
    using d [of "last (show_nat i)"] by (intro trim_right_id) simp
  ultimately show ?thesis by (simp only: trim_space_newline) (simp add: trim_space_def)
qed

lemma find_enumerate:
  "i < length xs \<Longrightarrow> find (\<lambda>(j, _). show_nat j = show_nat (n + i)) (enumerate n xs) = Some (n + i, xs ! i)"
proof (induction xs arbitrary: n i)
  case (Cons x xs)
  then show ?case using Cons.IH [of "i - 1" "Suc n"] by (cases i) (auto simp: show_nat_inject)
qed simp

lemma kdialog_choice:
  "i < 11 \<Longrightarrow> kdialog_show suf (Printed (show_nat i @ [lf])) = Inr (option_labels suf ! i)"
  using find_enumerate [of i "option_labels suf" 0] by (simp add: kdialog_show_def show_nat_trim)

lemma zenity_choice:
  "i < 11 \<Longrightarrow> zenity_show (Printed (option_labels suf ! i @ [lf])) = Inr (option_labels suf ! i)"
  by (simp add: zenity_show_def trim_space_newline option_label_trim [OF nth_mem])

lemma osascript_choice:
  assumes "i < 11"
  shows "osascript_show (Printed (option_labels suf ! i @ [lf])) = Inr (option_labels suf ! i)"
proof -
  have m: "option_labels suf ! i \<in> set (option_labels suf)" using assms by simp
  then have "option_labels suf ! i \<noteq> ''false''" by (auto simp: option_labels_def)
  with m label_edges [OF m] show ?thesis
    by (simp add: osascript_show_def trim_space_newline option_label_trim Let_def)
qed

text \<open>
  The user's choice is what happens.  Picking the \<open>i\<close>-th option in zenity (which prints the
  label), kdialog (which prints the number) or osascript gives exactly the decision, scope and
  duration of that option, with the wildcard shown in it; whatever else a tool prints is a deny
  of this one request.
\<close>

theorem dialog_choice_faithful:
  assumes "i < 11"
  shows "(case zenity_show (Printed (option_labels suf ! i @ [lf])) of
           Inr l \<Rightarrow> label_result l host suf = option_results suf ! i | Inl _ \<Rightarrow> False) \<and>
    (case kdialog_show suf (Printed (show_nat i @ [lf])) of
       Inr l \<Rightarrow> label_result l host suf = option_results suf ! i | Inl _ \<Rightarrow> False) \<and>
    (case osascript_show (Printed (option_labels suf ! i @ [lf])) of
       Inr l \<Rightarrow> label_result l host suf = option_results suf ! i | Inl _ \<Rightarrow> False) \<and>
    (out \<in> set (option_labels suf) \<or> label_result out host suf = no_result)"
proof -
  have "label_result (option_labels suf ! i) host suf = option_results suf ! i"
  proof -
    have "map (\<lambda>l. label_result l host suf) (option_labels suf) ! i = option_results suf ! i"
      by (simp only: option_label_results)
    moreover have "i < length (option_labels suf)" using assms by (simp only: option_labels_length)
    ultimately show ?thesis by (simp only: nth_map)
  qed
  then have c: "case (Inr (option_labels suf ! i) :: shown) of
      Inr l \<Rightarrow> label_result l host suf = option_results suf ! i | Inl _ \<Rightarrow> False" by simp
  have d: "out \<in> set (option_labels suf) \<or> label_result out host suf = no_result"
    by (cases "out \<in> set (option_labels suf)") (simp_all only: other_label_denies simp_thms)
  show ?thesis
    unfolding zenity_choice [OF assms] kdialog_choice [OF assms] osascript_choice [OF assms]
    by (intro conjI c d)
qed

theorem dialog_choice_faithful_witness:
  "case kdialog_show ''example.com'' (Printed (show_nat 7 @ [lf])) of
     Inr l \<Rightarrow> label_result l ''api.example.com'' ''example.com'' =
       no_result\<lparr>pr_session := True, pr_scope := ''suffix'', pr_suffix := ''example.com''\<rparr> | Inl _ \<Rightarrow> False"
proof -
  have "(7::nat) < 11" by simp
  from dialog_choice_faithful [OF this, of "''example.com''" "''api.example.com''"]
  have "case kdialog_show ''example.com'' (Printed (show_nat 7 @ [lf])) of
     Inr l \<Rightarrow> label_result l ''api.example.com'' ''example.com'' = option_results ''example.com'' ! 7 | Inl _ \<Rightarrow> False"
    by blast
  moreover have "option_results ''example.com'' ! 7 =
      no_result\<lparr>pr_session := True, pr_scope := ''suffix'', pr_suffix := ''example.com''\<rparr>"
    by (simp add: option_results_def)
  ultimately show ?thesis by (simp only:)
qed


definition demo_prompter :: prompter where
  "demo_prompter = \<lparr>pm_backends = [Zenity False, Kdialog True], pm_etld1 = (\<lambda>_. Some ''example.com''),
     pm_intent = (\<lambda>_. None), pm_records_explain = True\<rparr>"

lemma demo_prompt:
  "prompt demo_prompter (\<lambda>_ _ _. Printed (show_nat 1 @ [lf])) ''api.example.com'' 443 =
     (no_result\<lparr>pr_allow := True, pr_session := True, pr_scope := ''host''\<rparr>, [])"
proof -
  have s: "registered_suffix_hint (\<lambda>_. Some ''example.com'') ''api.example.com'' = ''example.com''"
    by (simp add: registered_suffix_hint_def parse_ip_def gostr)
  have "option_labels ''example.com'' ! 1 = ''Allow for this session (this host)''"
    by (simp add: option_labels_def)
  then show ?thesis
    using kdialog_choice [of 1 "''example.com''"]
    by (simp add: prompt_def demo_prompter_def s Let_def label_to_token_def token_to_result_def no_result_def)
qed


text \<open>
  The wildcard is always on offer.  For a host without a registrable domain below it (a public
  suffix like \<open>co.uk\<close>, or any host the list rejects), the hint is the host itself, and the dialog
  still has the option of allowing \<open>*.<host>\<close> permanently; picking it yields a rule for the host
  and every subdomain of it.
\<close>

theorem wildcard_on_public_suffix:
  assumes "etld1 host = None \<or> etld1 host = Some host" "normalize_host host = host"
  shows "registered_suffix_hint etld1 host = host \<and>
    ''Allow permanently (*.'' @ host @ '')'' \<in> set (option_labels (registered_suffix_hint etld1 host)) \<and>
    (let res = label_result (''Allow permanently (*.'' @ host @ '')'') host (registered_suffix_hint etld1 host)
     in pr_allow res \<and> pr_persist res \<and> valid_scope (pr_scope res) \<and> record_target host res = host \<and>
        match_host_rule (p @ dot # host) (normalize_host (record_target host res)) (pr_scope res) = (p \<noteq> []))"
proof -
  have s: "registered_suffix_hint etld1 host = host"
    using assms(1) by (auto simp: registered_suffix_hint_def)
  have r: "label_result (''Allow permanently (*.'' @ host @ '')'') host host =
      no_result\<lparr>pr_allow := True, pr_persist := True, pr_scope := ''suffix'', pr_suffix := host\<rparr>"
    by (simp add: label_to_token_def token_to_result_def wild_def)
  have m: "match_host_rule (p @ dot # host) host ''suffix'' = (p \<noteq> [])"
    by (auto simp: match_host_rule_def match_wildcard_iff subdomain_of_def)
  have t: "record_target host (no_result\<lparr>pr_allow := True, pr_persist := True, pr_scope := ''suffix'', pr_suffix := host\<rparr>) = host"
    by (simp add: record_target_def)
  have o1: "''Allow permanently (*.'' @ host @ '')'' \<in> set (option_labels host)"
    by (simp add: option_labels_def wild_def)
  show ?thesis
    unfolding s r Let_def t assms(2) using o1 m by (simp add: valid_scope_def)
qed

theorem wildcard_on_public_suffix_witness:
  "let res = label_result (''Allow permanently (*.'' @ ''co.uk'' @ '')'') ''co.uk'' (registered_suffix_hint (\<lambda>_. None) ''co.uk'')
   in pr_allow res \<and> match_host_rule ''bank.co.uk'' (normalize_host (record_target ''co.uk'' res)) (pr_scope res)"
proof -
  have n: "normalize_host ''co.uk'' = ''co.uk''" by (simp add: normalize_host_def gostr)
  have e: "''bank.co.uk'' = ''bank'' @ dot # ''co.uk''" by simp
  have b: "''bank'' \<noteq> []" by simp
  from wildcard_on_public_suffix [of "\<lambda>_. None" "''co.uk''" "''bank''", OF disjI1 n]
  show ?thesis unfolding Let_def e using b by blast
qed

text \<open>
  Nothing the agent writes can style the dialog or forge a line.  Escaped text has no markup
  bracket, no line end and no control character, whatever bytes it was made from.
\<close>

theorem escape_pango_safe:
  "list_all (\<lambda>c. c \<noteq> CHR ''<'' \<and> c \<noteq> CHR ''>'' \<and> \<not> is_control c) (escape_pango_markup s)"
proof -
  have sp: "\<not> is_control (CHR '' '')" by (simp add: is_control_def code_def)
  have esc: "list_all (\<lambda>c. c \<noteq> CHR ''<'' \<and> c \<noteq> CHR ''>'' \<and> \<not> is_control c) e"
    if "e \<in> {''&amp;'', ''&lt;'', ''&gt;''}" for e
    using that by (elim insertE emptyE) (simp_all add: is_control_def code_def)
  have "\<not> is_control c" if "c \<in> set (strip_controls s)" for c
    using that
  proof (induction s rule: strip_controls.induct)
    case (2 a s)
    show ?case
      using 2 sp unfolding strip_controls.simps(2) [of a s]
      by (auto simp del: strip_controls.simps split: list.splits if_splits)
  qed simp
  moreover have "c \<noteq> CHR ''<'' \<and> c \<noteq> CHR ''>'' \<and> \<not> is_control c"
    if "\<not> is_control d" "c \<in> set (escape_char d)" for c d
  proof (cases "d \<in> {CHR ''&'', CHR ''<'', CHR ''>''}")
    case True
    then have "escape_char d \<in> {''&amp;'', ''&lt;'', ''&gt;''}" by (auto simp: escape_char_def)
    from esc [OF this] that(2) show ?thesis by (simp add: list_all_iff)
  next
    case False
    with that show ?thesis by (simp add: escape_char_def)
  qed
  ultimately show ?thesis by (auto simp: escape_pango_markup_def list_all_iff)
qed

text \<open>
  The stub says what its file says.  A stub decision with a valid scope that is not both
  permanent and per-session passes through labels and tokens to the very decision on file.
\<close>

definition stub_valid :: "stub_decision \<Rightarrow> bool" where
  "stub_valid d \<longleftrightarrow> \<not> sd_needs_intent d \<and> \<not> (sd_persist d \<and> sd_session d) \<and>
     (if sd_persist d \<or> sd_session d then sd_scope d = ''host'' \<or> sd_scope d = ''suffix'' else sd_scope d = [])"

theorem stub_round_trip:
  assumes "stub_valid d"
  shows "label_result (decision_to_label d suf) host suf =
    \<lparr>pr_allow = sd_allow d, pr_persist = sd_persist d, pr_session = sd_session d, pr_scope = sd_scope d,
     pr_suffix = (if sd_scope d = ''suffix'' then suf else []), pr_needs_intent = False, pr_prior_reason = []\<rparr>"
proof -
  consider (none) "\<not> sd_persist d" "\<not> sd_session d" "sd_scope d = []" "\<not> sd_needs_intent d"
    | (host) "sd_persist d \<noteq> sd_session d" "sd_scope d = ''host''" "\<not> sd_needs_intent d"
    | (wild) "sd_persist d \<noteq> sd_session d" "sd_scope d = ''suffix''" "\<not> sd_needs_intent d"
    using assms unfolding stub_valid_def by metis
  then show ?thesis
  proof cases
    case none
    then have "decision_to_label d suf = (if sd_allow d then ''Allow once'' else ''Deny once'')"
      by (simp add: decision_to_label_def)
    with none show ?thesis by (simp add: label_results no_result_def)
  next
    case host
    then have "decision_to_label d suf =
        (if sd_allow d then (if sd_session d then ''Allow for this session (this host)'' else ''Allow permanently (this host)'')
         else (if sd_session d then ''Deny for this session (this host)'' else ''Deny permanently (this host)''))"
      by (simp add: decision_to_label_def)
    with host show ?thesis by (cases "sd_session d") (simp_all add: label_results no_result_def)
  next
    case wild
    then have "decision_to_label d suf =
        (if sd_allow d then (if sd_session d then ''Allow for this session '' @ wild suf else ''Allow permanently '' @ wild suf)
         else (if sd_session d then ''Deny for this session '' @ wild suf else ''Deny permanently '' @ wild suf))"
      by (simp add: decision_to_label_def)
    with wild show ?thesis
      by (cases "sd_session d") (simp_all add: label_results no_result_def del: append_Cons)
  qed
qed

theorem stub_round_trip_witness:
  "label_result (decision_to_label \<lparr>sd_allow = False, sd_persist = True, sd_session = False,
     sd_scope = ''suffix'', sd_needs_intent = False\<rparr> ''a.io'') ''x.a.io'' ''a.io'' =
   \<lparr>pr_allow = False, pr_persist = True, pr_session = False, pr_scope = ''suffix'', pr_suffix = ''a.io'',
    pr_needs_intent = False, pr_prior_reason = []\<rparr>"
  using stub_round_trip [of "\<lparr>sd_allow = False, sd_persist = True, sd_session = False,
     sd_scope = ''suffix'', sd_needs_intent = False\<rparr>" "''a.io''" "''x.a.io''"]
  by (simp add: stub_valid_def)

end
