(* ===== verification/EnvFilter.thy ===== *)
theory EnvFilter
  imports Prelude "HOL-Library.List_Lexorder" "HOL-Library.Char_ord"
begin

text \<open>
  The environment of the sandboxed child (\<open>internal/sandboxprofile/env.go\<close>): variable patterns,
  the danger blocklist, the allowlists, and \<open>FilterEnv\<close>.  The injected map is a list of pairs
  with distinct names, in the order Go happens to iterate it.
\<close>

section \<open>Lists\<close>

definition dangerous_env_exact :: "string list" where
  "dangerous_env_exact =
     [''BASH_ENV'', ''ENV'', ''CDPATH'', ''GLOBIGNORE'', ''PROMPT_COMMAND'', ''IFS'', ''PYTHONSTARTUP'',
      ''PYTHONPATH'', ''NODE_OPTIONS'', ''NODE_PATH'', ''PERL5OPT'', ''PERL5LIB'', ''RUBYOPT'', ''RUBYLIB'',
      ''GEM_PATH'', ''GEM_HOME'', ''JAVA_TOOL_OPTIONS'', ''_JAVA_OPTIONS'', ''DOTNET_STARTUP_HOOKS'',
      ''GOFLAGS'', ''OP_SERVICE_ACCOUNT_TOKEN'', ''OP_CONNECT_TOKEN'', ''OP_CONNECT_HOST'']"

definition dangerous_env_prefixes :: "string list" where
  "dangerous_env_prefixes = [''LD_'', ''DYLD_'', ''BASH_FUNC_'', ''OP_SESSION_'']"

definition base_allow_vars :: "string list" where
  "base_allow_vars =
     [''OMAC_*'', ''HOME'', ''PATH'', ''PWD'', ''TMPDIR'', ''LANG'', ''LC_*'', ''TERM'', ''COLORTERM'']"

definition convenience_allow_vars :: "string list" where
  "convenience_allow_vars =
     [''SHELL'', ''USER'', ''LOGNAME'', ''TZ'', ''EDITOR'', ''VISUAL'', ''XDG_CONFIG_HOME'', ''XDG_DATA_HOME'',
      ''XDG_STATE_HOME'', ''NPM_CONFIG_PREFIX'', ''DISPLAY'']"

definition default_allow_vars :: "string list" where
  "default_allow_vars = base_allow_vars @ convenience_allow_vars"

section \<open>Patterns\<close>

definition strip_star :: "string \<Rightarrow> string" where
  "strip_star pat = take (length pat - 1) pat"

fun env_var_matches :: "string \<Rightarrow> string list \<Rightarrow> bool" where
  "env_var_matches key [] = False"
| "env_var_matches key (pat # pats) =
     (if pat = ''*'' then True
      else if has_suffix pat ''*'' then
        (if has_prefix key (strip_star pat) then True else env_var_matches key pats)
      else if key = pat then True else env_var_matches key pats)"

definition patterns_overlap :: "string \<Rightarrow> string \<Rightarrow> bool" where
  "patterns_overlap a b =
     (if a = ''*'' \<or> b = ''*'' then True
      else let a_star = has_suffix a ''*''; b_star = has_suffix b ''*'' in
        if a_star \<and> b_star then
          (let pa = strip_star a; pb = strip_star b in has_prefix pa pb \<or> has_prefix pb pa)
        else if a_star then has_prefix b (strip_star a)
        else if b_star then has_prefix a (strip_star b)
        else a = b)"

definition is_dangerous_env_var :: "string \<Rightarrow> bool" where
  "is_dangerous_env_var key =
     (if key \<in> set dangerous_env_exact then True
      else list_ex (\<lambda>p. has_prefix key p) dangerous_env_prefixes)"

definition dangerous_env_blocklist :: "string list \<times> string list" where
  "dangerous_env_blocklist = (sort dangerous_env_exact, sort dangerous_env_prefixes)"

fun append_unseen :: "string list \<Rightarrow> string list \<Rightarrow> string list \<Rightarrow> string list" where
  "append_unseen seen out [] = out"
| "append_unseen seen out (v # vs) =
     (if v \<in> set seen then append_unseen seen out vs else append_unseen (v # seen) (out @ [v]) vs)"

definition effective_allow_vars :: "string list \<Rightarrow> string list" where
  "effective_allow_vars profile_allow =
     (if ''*'' \<in> set profile_allow then profile_allow
      else if profile_allow = [] then default_allow_vars
      else append_unseen default_allow_vars default_allow_vars profile_allow)"

definition denied_base_vars :: "string list \<Rightarrow> string list" where
  "denied_base_vars deny_vars =
     (if deny_vars = [] then []
      else filter (\<lambda>b. list_ex (\<lambda>d. patterns_overlap d b) deny_vars) base_allow_vars)"

definition env_var_allowed :: "string \<Rightarrow> string list \<Rightarrow> bool" where
  "env_var_allowed key allow_vars = (if allow_vars = [] then True else env_var_matches key allow_vars)"

section \<open>FilterEnv\<close>

text \<open>The name of an entry \<open>KEY=VALUE\<close>; \<open>None\<close> when there is no \<open>=\<close> after the first byte.\<close>

definition env_key :: "string \<Rightarrow> string option" where
  "env_key kv = (case index_of (CHR ''='') kv of
     None \<Rightarrow> None | Some i \<Rightarrow> if i = 0 then None else Some (take i kv))"

definition inherited :: "string list \<Rightarrow> (string \<times> string) list \<Rightarrow> string \<Rightarrow> bool" where
  "inherited allow_vars injected kv =
     (case env_key kv of
        None \<Rightarrow> False
      | Some key \<Rightarrow>
          if is_dangerous_env_var key then False
          else if \<not> env_var_allowed key allow_vars then False
          else key \<notin> fst ` set injected)"

definition filter_env ::
    "string list \<Rightarrow> string list \<Rightarrow> string list \<Rightarrow> (string \<times> string) list \<Rightarrow> string list" where
  "filter_env environ allow_vars deny_vars injected =
     (let out = filter (inherited allow_vars injected) environ @ map (\<lambda>(k, v). k @ ''='' @ v) injected
      in if deny_vars = [] then out
         else filter (\<lambda>kv. case env_key kv of None \<Rightarrow> True | Some key \<Rightarrow> \<not> env_var_matches key deny_vars) out)"

section \<open>What patterns mean\<close>

definition pattern_matches :: "string \<Rightarrow> string \<Rightarrow> bool" where
  "pattern_matches key pat =
     (if has_suffix pat ''*'' then has_prefix key (strip_star pat) else key = pat)"

lemma env_var_matches_iff: "env_var_matches key pats \<longleftrightarrow> (\<exists>pat \<in> set pats. pattern_matches key pat)"
  by (induction key pats rule: env_var_matches.induct)
     (auto simp: pattern_matches_def strip_star_def has_suffix_def has_prefix_def)

lemma star_pattern [simp]: "pattern_matches key ''*''"
  by (simp add: pattern_matches_def strip_star_def has_suffix_def has_prefix_def)

lemma pattern_witness: "\<exists>key. pattern_matches key a"
  by (cases "has_suffix a ''*''")
     (auto simp: pattern_matches_def intro: exI [of _ "strip_star a"])

lemma prefix_common:
  "(\<exists>key. has_prefix key p \<and> has_prefix key q) \<longleftrightarrow> has_prefix p q \<or> has_prefix q p"
proof
  assume "\<exists>key. has_prefix key p \<and> has_prefix key q"
  then obtain s t where "p @ s = q @ t" by (auto simp: has_prefix_iff)
  then show "has_prefix p q \<or> has_prefix q p"
    by (auto simp: append_eq_append_conv2 has_prefix_iff)
next
  assume "has_prefix p q \<or> has_prefix q p"
  then show "\<exists>key. has_prefix key p \<and> has_prefix key q" using has_prefix_refl by blast
qed

text \<open>
  The overlap test is exact.  \<open>patternsOverlap\<close> holds of two patterns exactly when some
  variable name matches both, so \<open>DeniedBaseVars\<close> reports exactly the operational patterns of which
  \<open>deny_vars\<close> would drop some variable.
\<close>

theorem patterns_overlap_exact:
  "(patterns_overlap a b \<longleftrightarrow> (\<exists>key. pattern_matches key a \<and> pattern_matches key b)) \<and>
   set (denied_base_vars deny) =
     {b. b \<in> set base_allow_vars \<and> (\<exists>key. pattern_matches key b \<and> env_var_matches key deny)}"
proof -
  have o1: "patterns_overlap a b \<longleftrightarrow> (\<exists>key. pattern_matches key a \<and> pattern_matches key b)" for a b
  proof (cases "a = ''*'' \<or> b = ''*''")
    case True
    then show ?thesis
      using pattern_witness star_pattern by (auto simp: patterns_overlap_def)
  next
    case False
    then show ?thesis
      by (simp add: patterns_overlap_def pattern_matches_def prefix_common Let_def)
  qed
  show ?thesis
    by (auto simp: o1 denied_base_vars_def env_var_matches_iff list_ex_iff)
qed

section \<open>What the child inherits\<close>

lemma set_append_unseen: "set (append_unseen seen out vs) = set out \<union> (set vs - set seen)"
  by (induction seen out vs rule: append_unseen.induct) auto

lemma effective_allow_vars_set:
  "''*'' \<notin> set pa \<Longrightarrow> set (effective_allow_vars pa) = set default_allow_vars \<union> set pa"
  by (auto simp: effective_allow_vars_def set_append_unseen)

lemma effective_allow_vars_ne: "effective_allow_vars pa \<noteq> []"
proof (cases "''*'' \<in> set pa")
  case True
  then show ?thesis by (auto simp: effective_allow_vars_def)
next
  case False
  have "default_allow_vars \<noteq> []" by (simp add: default_allow_vars_def base_allow_vars_def)
  with effective_allow_vars_set [OF False] show ?thesis by (metis Un_empty set_empty)
qed

lemma env_key_pair: "k \<noteq> [] \<Longrightarrow> CHR ''='' \<notin> set k \<Longrightarrow> env_key (k @ CHR ''='' # v) = Some k"
  by (simp add: env_key_def index_of_append)

text \<open>
  C35: The child's environment, variable by variable.  With the profile's effective allowlist, an
  entry of the child is an injected pair, or an entry of the parent whose name is not on the
  danger list, matches a default or a profile pattern, and is not injected; and no entry whose
  name matches \<open>deny_vars\<close> is there at all, injected or not.  Nothing else is dropped or added.
\<close>

theorem filter_env_exact:
  assumes "\<forall>(k, v) \<in> set injected. k \<noteq> [] \<and> CHR ''='' \<notin> set k"
  shows "kv \<in> set (filter_env environ (effective_allow_vars pa) deny injected) \<longleftrightarrow>
    (\<exists>key. env_key kv = Some key \<and> \<not> env_var_matches key deny \<and>
       ((\<exists>v. (key, v) \<in> set injected \<and> kv = key @ ''='' @ v) \<or>
        (kv \<in> set environ \<and> \<not> is_dangerous_env_var key \<and> key \<notin> fst ` set injected \<and>
         env_var_matches key (effective_allow_vars pa))))"
proof -
  have inj: "kv \<in> set (map (\<lambda>(k, v). k @ ''='' @ v) injected) \<longleftrightarrow>
      (\<exists>key. env_key kv = Some key \<and> (\<exists>v. (key, v) \<in> set injected \<and> kv = key @ ''='' @ v))"
    using assms by (force simp: env_key_pair)
  have inh: "kv \<in> set (filter (inherited (effective_allow_vars pa) injected) environ) \<longleftrightarrow>
      (\<exists>key. env_key kv = Some key \<and> kv \<in> set environ \<and> \<not> is_dangerous_env_var key \<and>
         key \<notin> fst ` set injected \<and> env_var_matches key (effective_allow_vars pa))"
    using effective_allow_vars_ne [of pa]
    by (auto simp: inherited_def env_var_allowed_def split: option.splits if_splits)
  show ?thesis
  proof (cases "deny = []")
    case True
    then show ?thesis using inj inh by (auto simp: filter_env_def)
  next
    case False
    then have "kv \<in> set (filter_env environ (effective_allow_vars pa) deny injected) \<longleftrightarrow>
        (kv \<in> set (filter (inherited (effective_allow_vars pa) injected) environ) \<or>
         kv \<in> set (map (\<lambda>(k, v). k @ ''='' @ v) injected)) \<and>
        (case env_key kv of None \<Rightarrow> True | Some key \<Rightarrow> \<not> env_var_matches key deny)"
      by (auto simp: filter_env_def)
    then show ?thesis unfolding inj inh by (cases "env_key kv") auto
  qed
qed

theorem filter_env_exact_witness:
  "''HTTP_PROXY=p'' \<in> set (filter_env [''HOME=/h'', ''LD_PRELOAD=x'', ''SECRET=1''] (effective_allow_vars [''GO*''])
      [''LC_*''] [(''HTTP_PROXY'', ''p'')]) \<and>
   ''LD_PRELOAD=x'' \<notin> set (filter_env [''HOME=/h'', ''LD_PRELOAD=x'', ''SECRET=1''] (effective_allow_vars [''GO*''])
      [''LC_*''] [(''HTTP_PROXY'', ''p'')])"
proof -
  have i: "\<forall>(k, v) \<in> set [(''HTTP_PROXY'', ''p'')]. k \<noteq> [] \<and> CHR ''='' \<notin> set k" by simp
  have "env_key ''HTTP_PROXY=p'' = Some ''HTTP_PROXY''" "env_key ''LD_PRELOAD=x'' = Some ''LD_PRELOAD''"
    by (simp_all add: env_key_def)
  moreover have "is_dangerous_env_var ''LD_PRELOAD''"
    by (simp add: is_dangerous_env_var_def dangerous_env_prefixes_def has_prefix_def)
  moreover have "\<not> env_var_matches ''HTTP_PROXY'' [''LC_*'']"
    by (simp add: env_var_matches_iff pattern_matches_def has_suffix_def has_prefix_def strip_star_def)
  ultimately show ?thesis
    unfolding filter_env_exact [OF i] by auto
qed

text \<open>
  A profile cannot take an operational variable away by listing, but it can by denying.  For
  every profile list, the effective allowlist covers every default pattern; with \<open>deny_vars\<close>
  naming it, a base variable like PATH is dropped all the same.
\<close>

theorem base_vars_kept_unless_denied:
  "(\<forall>b \<in> set default_allow_vars. env_var_matches key [b] \<longrightarrow> env_var_matches key (effective_allow_vars pa)) \<and>
   ''PATH'' \<in> set base_allow_vars \<and>
   filter_env [''PATH=/bin''] (effective_allow_vars pa) [''PATH''] [] = []"
proof (intro conjI ballI impI)
  fix b assume "b \<in> set default_allow_vars" "env_var_matches key [b]"
  then show "env_var_matches key (effective_allow_vars pa)"
    using effective_allow_vars_set [of pa]
    by (cases "''*'' \<in> set pa") (auto simp: env_var_matches_iff effective_allow_vars_def intro: bexI [of _ "''*''"])
next
  show "''PATH'' \<in> set base_allow_vars" by (simp add: base_allow_vars_def)
  have "env_key ''PATH=/bin'' = Some ''PATH''" by (simp add: env_key_def)
  moreover have "env_var_matches ''PATH'' [''PATH'']" by (simp add: has_suffix_def)
  ultimately show "filter_env [''PATH=/bin''] (effective_allow_vars pa) [''PATH''] [] = []"
    by (simp add: filter_env_def)
qed

theorem base_vars_kept_unless_denied_witness:
  "env_var_matches ''COLORTERM'' (effective_allow_vars [''FOO''])"
proof -
  have "''COLORTERM'' \<in> set default_allow_vars" "env_var_matches ''COLORTERM'' [''COLORTERM'']"
    by (simp_all add: default_allow_vars_def base_allow_vars_def has_suffix_def)
  then show ?thesis using base_vars_kept_unless_denied [of "''COLORTERM''" "[''FOO'']"] by blast
qed

end
