(* ===== verification/Expand.thy ===== *)
theory Expand
  imports Paths
begin

text \<open>
  Path expansion and the platform baseline (\<open>internal/sandboxprofile/expand.go\<close>, \<open>baseline.go\<close>):
  \<open>~\<close>, \<open>$VAR\<close> and \<open>${VAR}\<close> in the supervisor's environment, the paths that exist, and the
  implicit grants and protected paths of each platform.
\<close>

section \<open>\<open>os.Expand\<close>\<close>

definition is_shell_special :: "char \<Rightarrow> bool" where
  "is_shell_special c \<longleftrightarrow> c \<in> set ''*#$@!?-'' \<or> is_digit c"

definition is_alpha_num :: "char \<Rightarrow> bool" where
  "is_alpha_num c \<longleftrightarrow> c = CHR ''_'' \<or> is_digit c \<or> is_lower_alpha c \<or> is_upper_alpha c"

abbreviation dollar :: char where "dollar \<equiv> CHR ''$''"
abbreviation rbrace :: char where "rbrace \<equiv> CHR ''}''"

text \<open>The name after a \<open>$\<close> and the number of bytes it takes.\<close>

definition shell_name :: "string \<Rightarrow> string \<times> nat" where
  "shell_name s =
     (if hd s = CHR ''{'' then
        (if length s > 2 \<and> is_shell_special (s ! 1) \<and> s ! 2 = rbrace then ([s ! 1], 3)
         else case index_of rbrace (tl s) of
           Some 0 \<Rightarrow> ([], 2)
         | Some i \<Rightarrow> (take i (tl s), i + 2)
         | None \<Rightarrow> ([], 1))
      else if is_shell_special (hd s) then ([hd s], 1)
      else let n = takeWhile is_alpha_num s in (n, length n))"

function os_expand :: "(string \<Rightarrow> string) \<Rightarrow> string \<Rightarrow> string" where
  "os_expand env [] = []"
| "os_expand env (c # s) =
     (if c = dollar \<and> s \<noteq> [] then
        (let (name, w) = shell_name s
         in (if name = [] \<and> w > 0 then [] else if name = [] then [dollar] else env name) @
            os_expand env (drop w s))
      else c # os_expand env s)"
  by pat_completeness auto
termination by (relation "measure (\<lambda>(_, s). length s)") auto

section \<open>ExpandPath\<close>

text \<open>The environment of the supervisor: \<open>os.Getenv\<close> (empty when unset), and the working directory.\<close>

record host_env =
  he_getenv :: "string \<Rightarrow> string"
  he_cwd :: "string option"

definition user_home_dir :: "host_env \<Rightarrow> string option" where
  "user_home_dir env = (let h = he_getenv env ''HOME'' in if h = [] then None else Some h)"

datatype expand_error = EmptyPath | NoHome | EmptyExpansion | NoCwd

definition abs_path :: "host_env \<Rightarrow> string \<Rightarrow> expand_error + string" where
  "abs_path env p =
     (if is_abs p then Inr (clean p)
      else case he_cwd env of None \<Rightarrow> Inl NoCwd | Some cwd \<Rightarrow> Inr (path_join [cwd, p]))"

text \<open>After the tilde: variables, the check for an empty result, and \<open>filepath.Abs\<close>.\<close>

definition expand_rest :: "host_env \<Rightarrow> string \<Rightarrow> string \<Rightarrow> expand_error + string" where
  "expand_rest env home_prefix p =
     (let q = os_expand (he_getenv env) p
      in if q = [] \<or> (home_prefix \<noteq> [] \<and> clean q = clean home_prefix) then Inl EmptyExpansion
         else abs_path env q)"

definition expand_path :: "host_env \<Rightarrow> string \<Rightarrow> expand_error + string" where
  "expand_path env p =
     (if p = [] then Inl EmptyPath
      else if p = ''~'' then
        (case user_home_dir env of None \<Rightarrow> Inl NoHome | Some home \<Rightarrow> expand_rest env [] home)
      else if has_prefix p ''~/'' then
        (case user_home_dir env of None \<Rightarrow> Inl NoHome
         | Some home \<Rightarrow> expand_rest env home (path_join [home, drop 2 p]))
      else expand_rest env [] p)"

text \<open>What \<open>os.Lstat\<close> says of a path.\<close>

datatype lstat = Exists | NotExist | LstatError string

datatype grant_error = ExpandFailed string expand_error | StatFailed string string

fun expand_existing ::
    "host_env \<Rightarrow> (string \<Rightarrow> lstat) \<Rightarrow> string list \<Rightarrow> grant_error + string list" where
  "expand_existing env stat [] = Inr []"
| "expand_existing env stat (raw # paths) =
     (case expand_path env raw of
        Inl e \<Rightarrow> if e = EmptyExpansion then expand_existing env stat paths else Inl (ExpandFailed raw e)
      | Inr p \<Rightarrow>
          (case stat p of
             NotExist \<Rightarrow> expand_existing env stat paths
           | LstatError e \<Rightarrow> Inl (StatFailed raw e)
           | Exists \<Rightarrow> (case expand_existing env stat paths of Inl e \<Rightarrow> Inl e | Inr ps \<Rightarrow> Inr (p # ps))))"

section \<open>The baseline\<close>

record baseline =
  bl_read :: "string list"
  bl_write :: "string list"
  bl_protected :: "string list"
  bl_workdir_protected :: "string list"

definition protected_common :: "string list" where
  "protected_common =
     [''~/.config/omac'', ''$XDG_CONFIG_HOME/omac'', ''~/.ssh'', ''~/.gnupg'', ''~/.aws'',
      ''~/.azure'', ''~/.config/gcloud'', ''~/.gcloud'', ''~/.kube'', ''~/.docker'',
      ''~/.git-credentials'', ''~/.netrc'', ''~/.npmrc'', ''~/.vault-token'',
      ''~/.credentials'', ''~/.secrets'', ''~/.keys'', ''~/.pki'', ''~/.terraform.d'',
      ''~/.config/op'', ''~/.bash_history'', ''~/.zsh_history'', ''~/.history'',
      ''~/.python_history'', ''~/.zshrc'', ''~/.zprofile'', ''~/.zshenv'', ''~/.zlogin'',
      ''~/.zlogout'', ''~/.bashrc'', ''~/.bash_profile'', ''~/.bash_login'',
      ''~/.bash_logout'', ''~/.profile'', ''~/.config/fish'', ''~/.env'', ''~/.envrc'']"

definition workdir_protected_common :: "string list" where
  "workdir_protected_common =
     [''.env'', ''.envrc'', ''.env.local'', ''.env.development'', ''.env.production'',
      ''.env.staging'', ''.env.test'', ''.env.development.local'', ''.env.production.local'',
      ''.env.test.local'', ''.env.backup'']"

definition darwin_baseline :: baseline where
  "darwin_baseline =
     \<lparr>bl_read =
       [''/bin'', ''/sbin'', ''/usr/bin'', ''/usr/sbin'', ''/usr/local/bin'', ''/usr/lib'',
       ''/usr/local/lib'', ''/usr/share'', ''/System'', ''/Library'', ''/dev'',
       ''/private/var/db/dyld'', ''/var/db'', ''/private/var/select'', ''/var/select'',
       ''/etc'', ''/private/etc'', ''/usr/share/zoneinfo'', ''/usr/share/terminfo'',
       ''/var/db/timezone'', ''/opt'', ''/Applications'', ''/opt/homebrew'',
       ''/usr/local/Cellar'', ''/usr/local/opt'', ''~/.local/bin'', ''$TMPDIR'', ''/tmp'',
       ''/private/tmp'', ''/var/folders'', ''/private/var/folders''],
      bl_write = [''/private/var/folders'', ''/var/folders'', ''/dev'', ''$TMPDIR''],
      bl_protected = protected_common @
       [''/var/run/docker.sock'', ''~/Library/Keychains'', ''/Library/Keychains'',
       ''~/.password-store'', ''~/.1password'',
       ''~/Library/Group Containers/2BUA8C4S2C.com.1password'',
       ''~/Library/Application Support/1Password'',
       ''~/Library/Containers/com.1password.1password'',
       ''~/Library/Application Support/Google/Chrome'',
       ''~/Library/Application Support/Firefox'',
       ''~/Library/Application Support/Microsoft Edge'', ''~/Library/Application Support/Arc'',
       ''~/Library/Application Support/Brave Browser'', ''~/Library/Safari'',
       ''~/Library/Messages'', ''~/Library/Mail'', ''~/Library/Cookies'',
       ''~/Library/Containers/com.apple.Safari'', ''~/Library/Application Support/MobileSync''],
      bl_workdir_protected = workdir_protected_common\<rparr>"

definition linux_baseline :: baseline where
  "linux_baseline =
     \<lparr>bl_read = [''/bin'', ''/sbin'', ''/usr'', ''/lib'', ''/lib64'', ''/etc'', ''/run/systemd/resolve'',
        ''~/.local/bin''],
      bl_write = [],
      bl_protected = protected_common @
       [''/var/run/docker.sock'', ''/run/docker.sock'', ''~/.password-store'',
       ''~/.local/share/keyrings'', ''~/.config/keyrings'', ''~/.mozilla'',
       ''~/.config/google-chrome'', ''~/.config/chromium'', ''~/.config/microsoft-edge'',
       ''~/.config/BraveSoftware''],
      bl_workdir_protected = workdir_protected_common\<rparr>"

definition platform_baseline :: "bool \<Rightarrow> baseline" where
  "platform_baseline darwin = (if darwin then darwin_baseline else linux_baseline)"

definition override_lookup :: "host_env \<Rightarrow> string list \<Rightarrow> string set" where
  "override_lookup env override_deny =
     set override_deny \<union> set (List.map_filter (\<lambda>raw. case expand_path env raw of Inr e \<Rightarrow> Some e | Inl _ \<Rightarrow> None) override_deny)"

fun protected_loop :: "host_env \<Rightarrow> string set \<Rightarrow> string list \<Rightarrow> string list" where
  "protected_loop env overrides [] = []"
| "protected_loop env overrides (p # ps) =
     (case expand_path env p of
        Inl _ \<Rightarrow> p # protected_loop env overrides ps
      | Inr e \<Rightarrow> if e \<in> overrides then protected_loop env overrides ps else e # protected_loop env overrides ps)"

definition effective_protected_paths :: "host_env \<Rightarrow> baseline \<Rightarrow> string list \<Rightarrow> string list" where
  "effective_protected_paths env b override_deny =
     protected_loop env (override_lookup env override_deny) (bl_protected b)"

section \<open>Facts\<close>

lemma is_abs_join_abs: "is_abs d \<Longrightarrow> is_abs (path_join [d, p])"
proof -
  assume "is_abs d"
  then obtain r where d: "d = slash # r" by (auto simp: is_abs_def has_prefix_iff)
  have "path_join [d, p] = clean (join_with ''/'' [d, p])" by (simp add: path_join_def d)
  then show ?thesis by (simp only: is_abs_clean) (simp add: d is_abs_def has_prefix_def)
qed

lemma path_join_clean: "clean (path_join es) = path_join es \<or> path_join es = []"
  by (simp add: path_join_def Let_def)

text \<open>
  Expansion gives absolute, clean paths.  Whatever the entry and the environment, with an
  absolute working directory a path that \<open>ExpandPath\<close> returns is absolute and cleaned, so no
  element of it is blank, \<open>.\<close> or \<open>..\<close>, and expanding it to existing paths keeps that.
\<close>

theorem expand_path_clean:
  assumes "case he_cwd env of Some cwd \<Rightarrow> is_abs cwd | None \<Rightarrow> True" "expand_path env p = Inr q"
  shows "is_abs q \<and> clean q = q \<and> (\<forall>e \<in> set (clean_parts q). plain e)"
proof -
  have r: "is_abs q \<and> clean q = q" if ap: "abs_path env x = Inr q" for x
  proof (cases "is_abs x")
    case True
    then show ?thesis using ap by (auto simp: abs_path_def)
  next
    case False
    then obtain cwd where c: "he_cwd env = Some cwd" "q = path_join [cwd, x]"
      using ap by (auto simp: abs_path_def split: option.splits)
    then have "is_abs q" using assms(1) is_abs_join_abs by simp
    then show ?thesis using path_join_clean [of "[cwd, x]"] c(2) by (auto simp: is_abs_def has_prefix_def)
  qed
  have "\<exists>x. abs_path env x = Inr q"
    using assms(2) by (auto simp: expand_path_def expand_rest_def Let_def split: if_splits option.splits)
  with r have "is_abs q" "clean q = q" by blast+
  then show ?thesis using clean_abs_no_dotdot by blast
qed

definition demo_host_env :: host_env where
  "demo_host_env = \<lparr>he_getenv = (\<lambda>v. if v = ''HOME'' then ''/home/u'' else if v = ''SUB'' then ''a/../b'' else []),
     he_cwd = Some ''/w''\<rparr>"

lemmas expand_eval = expand_path_def expand_rest_def user_home_dir_def abs_path_def shell_name_def
  is_shell_special_def is_alpha_num_def demo_host_env_def

lemma demo_expand: "expand_path demo_host_env ''~/$SUB//./c'' = Inr ''/home/u/b/c''"
  by (simp add: expand_eval gostr)

theorem expand_path_clean_witness: "expand_path demo_host_env ''~/$SUB//./c'' = Inr ''/home/u/b/c'' \<and> is_abs ''/home/u/b/c''"
proof -
  have "case he_cwd demo_host_env of Some cwd \<Rightarrow> is_abs cwd | None \<Rightarrow> True"
    by (simp add: demo_host_env_def is_abs_def has_prefix_def)
  from expand_path_clean [OF this demo_expand] demo_expand show ?thesis by blast
qed

text \<open>
  The home directory and empty variables.  \<open>~\<close> expands to the home directory, but \<open>~/\<close>
  and \<open>~/.\<close> do not: they count as an expansion to nothing, like \<open>~/$UNSET\<close>; written with
  \<open>$HOME\<close> instead of \<open>~\<close>, the same entry with an unset variable is the whole home directory,
  and \<open>/$UNSET\<close> is the root.
\<close>

theorem expand_home_forms:
  "expand_path demo_host_env ''~'' = Inr ''/home/u'' \<and>
   expand_path demo_host_env ''~/'' = Inl EmptyExpansion \<and>
   expand_path demo_host_env ''~/.'' = Inl EmptyExpansion \<and>
   expand_path demo_host_env ''~/$UNSET'' = Inl EmptyExpansion \<and>
   expand_path demo_host_env ''$UNSET'' = Inl EmptyExpansion \<and>
   expand_path demo_host_env ''$HOME/$UNSET'' = Inr ''/home/u'' \<and>
   expand_path demo_host_env ''/$UNSET'' = Inr ''/''"
  by (intro conjI) (simp_all add: expand_eval gostr)

text \<open>Protected paths: expanded, minus the overrides.\<close>

lemma protected_loop_set:
  "q \<in> set (protected_loop env ov ps) \<longleftrightarrow>
     (\<exists>p \<in> set ps. case expand_path env p of Inl _ \<Rightarrow> q = p | Inr e \<Rightarrow> q = e \<and> e \<notin> ov)"
  by (induction ps) (auto split: sum.splits)

text \<open>
  Overrides lift what they name and nothing else.  An entry of the protected set, written
  \<open>~/.ssh\<close> say, stays protected under its expanded name unless \<open>override_deny\<close> has an entry with that
  expansion or that very text; lifting one path leaves every other one protected.
\<close>

theorem override_deny_exact:
  assumes "p \<in> set (bl_protected b)" "expand_path env p = Inr q"
  shows "q \<in> set (effective_protected_paths env b overrides) \<longleftrightarrow>
    (q \<notin> set overrides \<and> (\<forall>o1 \<in> set overrides. expand_path env o1 \<noteq> Inr q)) \<or>
    (\<exists>p' \<in> set (bl_protected b). p' = q \<and> (\<exists>e. expand_path env p' = Inl e))"
proof -
  have l: "x \<in> override_lookup env overrides \<longleftrightarrow> x \<in> set overrides \<or> (\<exists>o1 \<in> set overrides. expand_path env o1 = Inr x)" for x
  proof -
    have "(case expand_path env raw of Inr e \<Rightarrow> Some e | Inl _ \<Rightarrow> None) = Some x \<longleftrightarrow> expand_path env raw = Inr x" for raw
      by (cases "expand_path env raw") auto
    then show ?thesis by (simp add: override_lookup_def set_map_filter)
  qed
  have c: "(case expand_path env p' of Inl _ \<Rightarrow> q = p' | Inr e \<Rightarrow> q = e \<and> e \<notin> ov) \<longleftrightarrow>
      (expand_path env p' = Inr q \<and> q \<notin> ov) \<or> (p' = q \<and> (\<exists>e. expand_path env p' = Inl e))" for p' ov
    by (cases "expand_path env p'") auto
  have "q \<in> set (effective_protected_paths env b overrides) \<longleftrightarrow>
      (\<exists>p' \<in> set (bl_protected b). expand_path env p' = Inr q \<and> q \<notin> override_lookup env overrides) \<or>
      (\<exists>p' \<in> set (bl_protected b). p' = q \<and> (\<exists>e. expand_path env p' = Inl e))"
    unfolding effective_protected_paths_def protected_loop_set c by blast
  moreover have "(\<exists>p' \<in> set (bl_protected b). expand_path env p' = Inr q \<and> q \<notin> override_lookup env overrides) \<longleftrightarrow>
      q \<notin> override_lookup env overrides"
    using assms by blast
  ultimately show ?thesis unfolding l by blast
qed

theorem override_deny_exact_witness:
  "''/home/u/.ssh'' \<in> set (effective_protected_paths demo_host_env linux_baseline [''~/.aws''])"
proof -
  have p: "''~/.ssh'' \<in> set (bl_protected linux_baseline)"
    by (simp add: linux_baseline_def protected_common_def)
  have e: "expand_path demo_host_env ''~/.ssh'' = Inr ''/home/u/.ssh''"
    "expand_path demo_host_env ''~/.aws'' = Inr ''/home/u/.aws''"
    by (simp_all add: expand_eval gostr)
  show ?thesis using override_deny_exact [OF p e(1), of "[''~/.aws'']"] e(2) by simp
qed

end
