(* ===== verification/Glob.thy ===== *)
theory Glob
  imports Prelude
begin

text \<open>
  \<open>filepath.Match\<close> of Go's standard library on Unix, with which \<open>filesystem.deny\<close> globs are
  validated and matched, read byte by byte; \<open>None\<close> is \<open>ErrBadPattern\<close>.
\<close>

abbreviation lbrack :: char where "lbrack \<equiv> CHR ''[''"
abbreviation rbrack :: char where "rbrack \<equiv> CHR '']''"
abbreviation question :: char where "question \<equiv> CHR ''?''"

definition get_esc :: "string \<Rightarrow> (char \<times> string) option" where
  "get_esc s =
     (if s = [] \<or> hd s = CHR ''-'' \<or> hd s = rbrack then None
      else let s' = (if hd s = backslash then tl s else s)
           in if s' = [] \<or> tl s' = [] then None else Some (hd s', tl s'))"

lemma get_esc_shorter: "get_esc s = Some (c, s') \<Longrightarrow> length s' < length s"
  by (cases s) (auto simp: get_esc_def Let_def split: if_splits)

lemma get_esc_ne: "get_esc s = Some (c, s') \<Longrightarrow> s' \<noteq> []"
  by (auto simp: get_esc_def Let_def split: if_splits)

definition in_range :: "char \<Rightarrow> char \<Rightarrow> char \<Rightarrow> bool" where
  "in_range lo r hi \<longleftrightarrow> code lo \<le> code r \<and> code r \<le> code hi"

text \<open>The ranges of a class, until the bracket that closes it: whether one matched, and the rest.\<close>

function class_loop :: "char \<Rightarrow> string \<Rightarrow> bool \<Rightarrow> nat \<Rightarrow> (bool \<times> string) option" where
  "class_loop r chunk m n =
     (if chunk \<noteq> [] \<and> hd chunk = rbrack \<and> n > 0 then Some (m, tl chunk)
      else case get_esc chunk of
        None \<Rightarrow> None
      | Some (lo, c1) \<Rightarrow>
          if hd c1 = CHR ''-'' then
            (case get_esc (tl c1) of
               None \<Rightarrow> None
             | Some (hi, c2) \<Rightarrow> class_loop r c2 (m \<or> in_range lo r hi) (n + 1))
          else class_loop r c1 (m \<or> in_range lo r lo) (n + 1))"
  by pat_completeness auto
termination
proof (relation "measure (\<lambda>(_, chunk, _, _). length chunk)", goal_cases)
  case (2 r chunk m n x lo c1 y hi c2)
  then have "length c1 < length chunk" "length c2 < length (tl c1)" by (auto dest: get_esc_shorter)
  then show ?case by simp
next
  case (3 r chunk m n x lo c1)
  then show ?case by (auto dest: get_esc_shorter)
qed simp

declare class_loop.simps [simp del]

lemma class_loop_shorter: "class_loop r chunk m n = Some (b, rest) \<Longrightarrow> length rest < length chunk"
proof (induction r chunk m n rule: class_loop.induct)
  case (1 r chunk m n)
  show ?case
  proof (cases "chunk \<noteq> [] \<and> hd chunk = rbrack \<and> n > 0")
    case True
    then have "class_loop r chunk m n = Some (m, tl chunk)" by (subst class_loop.simps) simp
    with "1.prems" True show ?thesis by (cases chunk) auto
  next
    case False
    with "1.prems" obtain lo c1 where e: "get_esc chunk = Some (lo, c1)"
      by (auto simp: class_loop.simps [of r chunk] split: option.splits)
    have l: "length c1 < length chunk" using e by (rule get_esc_shorter)
    show ?thesis
    proof (cases "hd c1 = CHR ''-''")
      case True
      with "1.prems" False e obtain hi c2 where e2: "get_esc (tl c1) = Some (hi, c2)"
        and c: "class_loop r c2 (m \<or> in_range lo r hi) (n + 1) = Some (b, rest)"
        by (auto simp: class_loop.simps [of r chunk] split: option.splits)
      have "length rest < length c2"
        using "1.IH"(1) [OF False e refl True e2 refl c] .
      then show ?thesis using l get_esc_shorter [OF e2] by simp
    next
      case nd: False
      with "1.prems" False e have "class_loop r c1 (m \<or> in_range lo r lo) (n + 1) = Some (b, rest)"
        by (auto simp: class_loop.simps [of r chunk])
      then have "length rest < length c1" using "1.IH"(2) [OF False e refl nd] by simp
      then show ?thesis using l by simp
    qed
  qed
qed

definition negation :: "string \<Rightarrow> bool \<times> string" where
  "negation cs = (if cs \<noteq> [] \<and> hd cs = CHR ''^'' then (True, tl cs) else (False, cs))"

function match_chunk :: "string \<Rightarrow> string \<Rightarrow> bool \<Rightarrow> (string \<times> bool) option" where
  "match_chunk [] s failed = Some (if failed then ([], False) else (s, True))"
| "match_chunk (c # cs) s failed0 =
     (let failed = (failed0 \<or> s = []);
          s' = (if failed then s else tl s)
      in if c = lbrack then
           (case class_loop (if failed then CHR 0x00 else hd s) (snd (negation cs)) False 0 of
              None \<Rightarrow> None
            | Some (m, rest) \<Rightarrow> match_chunk rest s' (failed \<or> m = fst (negation cs)))
         else if c = question then match_chunk cs s' (failed \<or> hd s = slash)
         else if c = backslash then
           (case cs of [] \<Rightarrow> None | d # ds \<Rightarrow> match_chunk ds s' (failed \<or> d \<noteq> hd s))
         else match_chunk cs s' (failed \<or> c \<noteq> hd s))"
  by pat_completeness auto
termination
  by (relation "measure (\<lambda>(chunk, _, _). length chunk)")
     (auto simp: negation_def dest!: class_loop_shorter split: if_splits)

text \<open>\<open>scanChunk\<close>: the leading stars, then up to the next star outside a class.\<close>

fun scan_len :: "string \<Rightarrow> bool \<Rightarrow> nat" where
  "scan_len [] inside = 0"
| "scan_len (c # cs) inside =
     (if c = backslash then (case cs of [] \<Rightarrow> 1 | _ # ds \<Rightarrow> 2 + scan_len ds inside)
      else if c = lbrack then 1 + scan_len cs True
      else if c = rbrack then 1 + scan_len cs False
      else if c = star \<and> \<not> inside then 0
      else 1 + scan_len cs inside)"

definition scan_chunk :: "string \<Rightarrow> bool \<times> string \<times> string" where
  "scan_chunk pattern =
     (let p = dropWhile (\<lambda>c. c = star) pattern; n = scan_len p False
      in (p \<noteq> pattern, take n p, drop n p))"

lemma scan_chunk_shorter: "pattern \<noteq> [] \<Longrightarrow> scan_chunk pattern = (st, chunk, rest) \<Longrightarrow> length rest < length pattern"
proof -
  assume ne: "pattern \<noteq> []" and s: "scan_chunk pattern = (st, chunk, rest)"
  let ?p = "dropWhile (\<lambda>c. c = star) pattern"
  have r: "rest = drop (scan_len ?p False) ?p" using s by (auto simp: scan_chunk_def Let_def)
  have len: "length ?p \<le> length pattern" by (rule length_dropWhile_le)
  show ?thesis
  proof (cases "?p = pattern")
    case True
    then have "hd pattern \<noteq> star" using ne unfolding dropWhile_eq_self_iff by blast
    then obtain c cs where p: "pattern = c # cs" "c \<noteq> star" using ne by (cases pattern) auto
    have "scan_len pattern False > 0" using p by (auto split: list.split)
    then show ?thesis using r True ne by (cases pattern) auto
  next
    case False
    then have "length ?p < length pattern"
      by (cases pattern) (auto simp: length_dropWhile_le le_imp_less_Suc split: if_splits)
    then show ?thesis using r by simp
  qed
qed

fun star_skip :: "string \<Rightarrow> bool \<Rightarrow> string \<Rightarrow> string option option" where
  "star_skip chunk final [] = Some None"
| "star_skip chunk final (c # cs) =
     (if c = slash then Some None
      else case match_chunk chunk cs False of
        None \<Rightarrow> None
      | Some (t, ok) \<Rightarrow>
          if ok \<and> \<not> (final \<and> t \<noteq> []) then Some (Some t) else star_skip chunk final cs)"

text \<open>The rest of a pattern is checked before a mismatch is reported.\<close>

function check_rest :: "string \<Rightarrow> bool option" where
  "check_rest pattern =
     (if pattern = [] then Some False
      else case match_chunk (fst (snd (scan_chunk pattern))) [] False of
        None \<Rightarrow> None | Some _ \<Rightarrow> check_rest (snd (snd (scan_chunk pattern))))"
  by pat_completeness auto
termination
proof (relation "measure length", goal_cases)
  case (2 pattern y)
  then show ?case using scan_chunk_shorter [of pattern] by (metis in_measure prod.collapse)
qed simp

function glob_match :: "string \<Rightarrow> string \<Rightarrow> bool option" where
  "glob_match pattern name =
     (if pattern = [] then Some (name = [])
      else let (st, chunk, rest) = scan_chunk pattern in
        if st \<and> chunk = [] then Some (slash \<notin> set name)
        else case match_chunk chunk name False of
          None \<Rightarrow> None
        | Some (t, ok) \<Rightarrow>
            if ok \<and> (t = [] \<or> rest \<noteq> []) then glob_match rest t
            else if st then
              (case star_skip chunk (rest = []) name of
                 None \<Rightarrow> None
               | Some (Some t') \<Rightarrow> glob_match rest t'
               | Some None \<Rightarrow> check_rest rest)
            else check_rest rest)"
  by pat_completeness auto
termination
  by (relation "measure (\<lambda>(pattern, _). length pattern)") (auto dest: scan_chunk_shorter [OF _ sym])

declare glob_match.simps [simp del] check_rest.simps [simp del] match_chunk.simps(2) [simp del]

section \<open>A name without metacharacters matches itself only\<close>

definition no_meta :: "string \<Rightarrow> bool" where
  "no_meta s \<longleftrightarrow> set s \<inter> {star, question, lbrack, rbrack, backslash} = {}"

lemma scan_len_no_meta: "no_meta s \<Longrightarrow> scan_len s False = length s"
  by (induction s) (auto simp: no_meta_def)

lemma match_chunk_failed: "no_meta p \<Longrightarrow> match_chunk p s True = Some ([], False)"
proof (induction p arbitrary: s)
  case (Cons c p)
  then have "no_meta p" "c \<noteq> lbrack" "c \<noteq> question" "c \<noteq> backslash" by (auto simp: no_meta_def)
  with Cons.IH show ?case by (simp add: match_chunk.simps(2) Let_def)
qed simp

lemma match_chunk_literal:
  "no_meta p \<Longrightarrow> match_chunk p s False = Some (if has_prefix s p then (drop (length p) s, True) else ([], False))"
proof (induction p arbitrary: s)
  case (Cons c p)
  then have m: "no_meta p" "c \<noteq> lbrack" "c \<noteq> question" "c \<noteq> backslash" by (auto simp: no_meta_def)
  show ?case
  proof (cases s)
    case Nil
    then show ?thesis using m by (simp add: match_chunk.simps(2) Let_def match_chunk_failed has_prefix_def)
  next
    case (Cons d t)
    then show ?thesis
      using m Cons.IH [of t] by (cases "c = d")
        (auto simp: match_chunk.simps(2) Let_def match_chunk_failed has_prefix_def)
  qed
qed (simp add: has_prefix_def)

lemma glob_match_literal:
  assumes "no_meta p"
  shows "glob_match p name = Some (name = p)"
proof (cases "p = []")
  case True
  then show ?thesis by (simp add: glob_match.simps)
next
  case False
  then have d: "dropWhile (\<lambda>c. c = star) p = p"
    using assms by (cases p) (auto simp: no_meta_def)
  have s: "scan_chunk p = (False, p, [])"
    by (simp add: scan_chunk_def d scan_len_no_meta [OF assms])
  show ?thesis
  proof (cases "has_prefix name p \<and> drop (length p) name = []")
    case True
    then have "name = p" by (auto simp: has_prefix_iff)
    then show ?thesis
      using False True by (simp add: glob_match.simps [of p] s match_chunk_literal [OF assms] glob_match.simps [of "[]"])
  next
    case no: False
    then have "name \<noteq> p" by auto
    then show ?thesis
      using False no by (simp add: glob_match.simps [of p] s match_chunk_literal [OF assms] check_rest.simps)
  qed
qed

section \<open>Wildcards: the matcher and its reference\<close>

text \<open>
  A pattern of stars, question marks and literals by its definition: a star is any run of characters
  that are not a slash.  The chunk-wise matcher, which backtracks over the last star only, agrees with
  it on every pattern without slash, class and escape.
\<close>

fun wild :: "string \<Rightarrow> string \<Rightarrow> bool" where
  "wild [] s \<longleftrightarrow> s = []"
| "wild (c # p) s \<longleftrightarrow>
     (if c = star then list_ex (\<lambda>k. slash \<notin> set (take k s) \<and> wild p (drop k s)) [0..<length s + 1]
      else s \<noteq> [] \<and> (if c = question then hd s \<noteq> slash else hd s = c) \<and> wild p (tl s))"

lemma wild_star: "wild (star # p) s \<longleftrightarrow> (\<exists>u v. s = u @ v \<and> slash \<notin> set u \<and> wild p v)"
proof
  assume "wild (star # p) s"
  then obtain k where "slash \<notin> set (take k s)" "wild p (drop k s)"
    by (simp only: wild.simps list_ex_iff if_True refl) blast
  then show "\<exists>u v. s = u @ v \<and> slash \<notin> set u \<and> wild p v" by (metis append_take_drop_id)
next
  assume "\<exists>u v. s = u @ v \<and> slash \<notin> set u \<and> wild p v"
  then obtain u v where "s = u @ v" "slash \<notin> set u" "wild p v" by blast
  then show "wild (star # p) s" by (auto simp: list_ex_iff intro!: bexI [of _ "length u"])
qed

declare wild.simps(2) [simp del]

lemma wild_char: "c \<noteq> star \<Longrightarrow> wild (c # p) s \<longleftrightarrow> s \<noteq> [] \<and> (if c = question then hd s \<noteq> slash else hd s = c) \<and> wild p (tl s)"
  by (simp add: wild.simps(2))

definition wild_glob :: "string \<Rightarrow> bool" where
  "wild_glob p \<longleftrightarrow> set p \<inter> {lbrack, backslash, slash} = {}"

lemma wild_glob_subset: "wild_glob p \<Longrightarrow> set q \<subseteq> set p \<Longrightarrow> wild_glob q"
  unfolding wild_glob_def by (metis Int_mono order_refl subset_empty)

text \<open>A chunk, a pattern without star, matches a prefix of fixed length.\<close>

lemma wild_chunk:
  "star \<notin> set c \<Longrightarrow> wild (c @ p) s \<longleftrightarrow> length c \<le> length s \<and> wild c (take (length c) s) \<and> wild p (drop (length c) s)"
proof (induction c arbitrary: s)
  case (Cons a c)
  show ?case
  proof (cases s)
    case (Cons d t)
    then show ?thesis using Cons.IH [of t] Cons.prems by (auto simp: wild_char)
  qed (use Cons.prems in \<open>auto simp: wild_char\<close>)
qed simp

lemma wild_no_slash: "wild_glob c \<Longrightarrow> wild c s \<Longrightarrow> slash \<notin> set s"
proof (induction c arbitrary: s)
  case (Cons a c)
  then have g: "wild_glob c" "a \<noteq> slash" by (auto simp: wild_glob_def)
  show ?case
  proof (cases "a = star")
    case True
    then show ?thesis using Cons.IH [OF g(1)] Cons.prems(2) by (auto simp: wild_star)
  next
    case False
    then have "s \<noteq> []" "hd s \<noteq> slash" "wild c (tl s)" using Cons.prems(2) g(2) by (auto simp: wild_char split: if_splits)
    then show ?thesis using Cons.IH [OF g(1)] by (cases s) auto
  qed
qed simp

lemma match_chunk_wild:
  assumes "wild_glob c" "star \<notin> set c"
  shows "match_chunk c s failed =
    Some (if \<not> failed \<and> length c \<le> length s \<and> wild c (take (length c) s) then (drop (length c) s, True) else ([], False))"
  using assms
proof (induction c arbitrary: s failed)
  case (Cons a c)
  then have g: "wild_glob c" "star \<notin> set c" "a \<noteq> lbrack" "a \<noteq> backslash" "a \<noteq> star" by (auto simp: wild_glob_def)
  show ?case
  proof (cases s)
    case Nil
    then show ?thesis using g Cons.IH by (simp add: match_chunk.simps(2) Let_def)
  next
    case (Cons d t)
    then show ?thesis using g Cons.IH [OF g(1,2)] by (auto simp: match_chunk.simps(2) Let_def wild_char)
  qed
qed (simp add: match_chunk.simps)

lemma scan_len_wild: "wild_glob p \<Longrightarrow> scan_len p False = length (takeWhile (\<lambda>c. c \<noteq> star) p)"
  by (induction p) (auto simp: wild_glob_def)

lemma take_takeWhile: "take (length (takeWhile P xs)) xs = takeWhile P xs"
  by (metis append_eq_conv_conj takeWhile_dropWhile_id)

lemma drop_takeWhile: "drop (length (takeWhile P xs)) xs = dropWhile P xs"
  by (simp add: dropWhile_eq_drop)

lemma takeWhile_as_stars: "takeWhile (\<lambda>c. c = x) xs = replicate (length (takeWhile (\<lambda>c. c = x) xs)) x"
  by (induction xs) auto

text \<open>A pattern is stars, a chunk and a rest that is empty or starts with a star.\<close>

lemma scan_chunk_wild:
  assumes "wild_glob p"
  obtains k chunk rest where "p = replicate k star @ chunk @ rest" "scan_chunk p = (k > 0, chunk, rest)"
    "star \<notin> set chunk" "rest \<noteq> [] \<longrightarrow> hd rest = star" "k > 0 \<and> chunk = [] \<longrightarrow> rest = []" "wild_glob chunk" "wild_glob rest"
proof -
  define q where "q = dropWhile (\<lambda>c. c = star) p"
  define n where "n = length (takeWhile (\<lambda>c. c = star) p)"
  have tw: "takeWhile (\<lambda>c. c = star) p = replicate n star" unfolding n_def by (rule takeWhile_as_stars)
  have split: "p = replicate n star @ q"
    using takeWhile_dropWhile_id [of "\<lambda>c. c = star" p] unfolding tw q_def [symmetric] by (rule sym)
  have "wild_glob q" unfolding q_def by (rule wild_glob_subset [OF assms]) (auto dest: set_dropWhileD)
  then have s: "scan_chunk p = (q \<noteq> p, takeWhile (\<lambda>c. c \<noteq> star) q, dropWhile (\<lambda>c. c \<noteq> star) q)"
    by (simp add: scan_chunk_def q_def [symmetric] Let_def scan_len_wild take_takeWhile drop_takeWhile)
  have ne: "q \<noteq> p \<longleftrightarrow> n > 0" by (simp add: split)
  have hq: "q \<noteq> [] \<Longrightarrow> hd q \<noteq> star" unfolding q_def by (rule hd_dropWhile)
  show ?thesis
  proof (rule that [of n "takeWhile (\<lambda>c. c \<noteq> star) q" "dropWhile (\<lambda>c. c \<noteq> star) q"])
    show "dropWhile (\<lambda>c. c \<noteq> star) q \<noteq> [] \<longrightarrow> hd (dropWhile (\<lambda>c. c \<noteq> star) q) = star"
      using hd_dropWhile [of "\<lambda>c. c \<noteq> star" q] by blast
    show "n > 0 \<and> takeWhile (\<lambda>c. c \<noteq> star) q = [] \<longrightarrow> dropWhile (\<lambda>c. c \<noteq> star) q = []"
      using hq by (cases q) simp_all
    show "wild_glob (takeWhile (\<lambda>c. c \<noteq> star) q)" "wild_glob (dropWhile (\<lambda>c. c \<noteq> star) q)"
      by (rule wild_glob_subset [OF \<open>wild_glob q\<close>]; auto dest: set_takeWhileD set_dropWhileD)+
  qed (use split s ne in \<open>auto dest: set_takeWhileD\<close>)
qed

lemma wild_stars: "k > 0 \<Longrightarrow> wild (replicate k star @ p) s \<longleftrightarrow> wild (star # p) s"
proof (induction k arbitrary: s)
  case (Suc k)
  show ?case
  proof (cases "k = 0")
    case False
    have "wild (star # star # p) s \<longleftrightarrow> wild (star # p) s" for s
    proof
      assume "wild (star # star # p) s"
      then obtain u v u' v' where "s = u @ v" "slash \<notin> set u" "v = u' @ v'" "slash \<notin> set u'" "wild p v'"
        by (auto simp: wild_star)
      then show "wild (star # p) s" unfolding wild_star by (intro exI [of _ "u @ u'"] exI [of _ v']) simp
    next
      assume "wild (star # p) s"
      then show "wild (star # star # p) s" unfolding wild_star [of "star # p"] by (intro exI [of _ "[]"] exI [of _ s]) simp
    qed
    then show ?thesis using Suc.IH False by (simp add: wild_star)
  qed simp
qed simp

lemma check_rest_wild: "wild_glob p \<Longrightarrow> check_rest p = Some False"
proof (induction p rule: check_rest.induct)
  case (1 p)
  obtain k chunk rest where s: "p = replicate k star @ chunk @ rest" "scan_chunk p = (k > 0, chunk, rest)"
    "star \<notin> set chunk" "rest \<noteq> [] \<longrightarrow> hd rest = star" "k > 0 \<and> chunk = [] \<longrightarrow> rest = []" "wild_glob chunk" "wild_glob rest"
    by (rule scan_chunk_wild [OF "1.prems"])
  show ?case using "1.IH" s(2,7) match_chunk_wild [OF s(6,3)] by (subst check_rest.simps) (simp split: if_splits)
qed


text \<open>The leftmost match of the chunk after a star is as good as any other.\<close>

lemma wild_star_absorbs: "slash \<notin> set x \<Longrightarrow> wild (star # p) s \<Longrightarrow> wild (star # p) (x @ s)"
  unfolding wild_star by (metis Un_iff append.assoc set_append)

lemma leftmost:
  assumes c: "wild_glob c" "star \<notin> set c" and r: "rest \<noteq> [] \<longrightarrow> hd rest = star"
    and hit: "length c \<le> length s" "rest \<noteq> [] \<or> drop (length c) s = []"
    and m: "s = u @ v" "slash \<notin> set u" "wild (c @ rest) v"
  shows "wild rest (drop (length c) s)"
proof (cases rest)
  case Nil
  then show ?thesis using hit(2) by simp
next
  case (Cons a r')
  then have a: "rest = star # r'" using r by simp
  have v: "wild c (take (length c) v)" "wild rest (drop (length c) v)" "length c \<le> length v"
    using m(3) wild_chunk [OF c(2)] by blast+
  let ?x = "drop (length c) (u @ take (length c) v)"
  have "s = (u @ take (length c) v) @ drop (length c) v" using m(1) by simp
  moreover have "length c \<le> length (u @ take (length c) v)" using v(3) by simp
  ultimately have "drop (length c) s = ?x @ drop (length c) v" by (metis drop_append diff_is_0_eq drop0)
  moreover have "slash \<notin> set ?x" using m(2) wild_no_slash [OF c(1) v(1)] by (auto dest: in_set_dropD)
  ultimately show ?thesis using v(2) wild_star_absorbs a by metis
qed

lemma star_skip_wild:
  assumes c: "wild_glob c" "star \<notin> set c" and r: "rest \<noteq> [] \<longrightarrow> hd rest = star"
  shows "(\<exists>u v. s = u @ v \<and> u \<noteq> [] \<and> slash \<notin> set u \<and> wild (c @ rest) v) \<longleftrightarrow>
    (\<exists>t. star_skip c (rest = []) s = Some (Some t) \<and> wild rest t)"
    and "star_skip c (rest = []) s \<noteq> None"
proof (induction s)
  case (Cons d s)
  let ?hit = "length c \<le> length s \<and> wild c (take (length c) s) \<and> (rest \<noteq> [] \<or> drop (length c) s = [])"
  have skip: "star_skip c (rest = []) (d # s) =
      (if d = slash then Some None else if ?hit then Some (Some (drop (length c) s)) else star_skip c (rest = []) s)"
    using match_chunk_wild [OF c, of s False] by auto
  have miss: "wild (c @ rest) s \<Longrightarrow> ?hit" using wild_chunk [OF c(2), of rest s] by (cases "rest = []") auto
  show "star_skip c (rest = []) (d # s) \<noteq> None" unfolding skip using Cons.IH(2) by simp
  show "(\<exists>u v. d # s = u @ v \<and> u \<noteq> [] \<and> slash \<notin> set u \<and> wild (c @ rest) v) \<longleftrightarrow>
      (\<exists>t. star_skip c (rest = []) (d # s) = Some (Some t) \<and> wild rest t)" (is "?L \<longleftrightarrow> _")
  proof (cases "d = slash")
    case True
    then show ?thesis by (auto simp: skip Cons_eq_append_conv)
  next
    case False
    have L: "?L \<longleftrightarrow> (\<exists>u v. s = u @ v \<and> slash \<notin> set u \<and> wild (c @ rest) v)"
    proof
      assume ?L
      then obtain u v where "d # s = u @ v" "u \<noteq> []" "slash \<notin> set u" "wild (c @ rest) v" by blast
      then show "\<exists>u v. s = u @ v \<and> slash \<notin> set u \<and> wild (c @ rest) v"
        by (intro exI [of _ "tl u"] exI [of _ v]) (cases u; simp)
    next
      assume "\<exists>u v. s = u @ v \<and> slash \<notin> set u \<and> wild (c @ rest) v"
      then obtain u v where "s = u @ v" "slash \<notin> set u" "wild (c @ rest) v" by blast
      then show ?L using False by (intro exI [of _ "d # u"] exI [of _ v]) simp
    qed
    show ?thesis
    proof (cases ?hit)
      case True
      have "?L \<longleftrightarrow> wild rest (drop (length c) s)"
      proof
        assume ?L
        then show "wild rest (drop (length c) s)" unfolding L using leftmost [OF c r] True by blast
      next
        assume "wild rest (drop (length c) s)"
        then have "wild (c @ rest) s" using True wild_chunk [OF c(2)] by blast
        then show ?L unfolding L by (intro exI [of _ "[]"] exI [of _ s]) simp
      qed
      then show ?thesis unfolding skip using True False by simp
    next
      case nohit: False
      then have "\<not> wild (c @ rest) s" using miss by blast
      then have "?L \<longleftrightarrow> (\<exists>u v. s = u @ v \<and> u \<noteq> [] \<and> slash \<notin> set u \<and> wild (c @ rest) v)"
        unfolding L by (metis append_Nil)
      then show ?thesis using Cons.IH(1) nohit False by (simp only: skip if_not_P if_False simp_thms)
    qed
  qed
qed simp_all

theorem glob_match_wild:
  assumes "wild_glob p"
  shows "glob_match p s = Some (wild p s)"
  using assms
proof (induction p s rule: glob_match.induct)
  case (1 p s)
  obtain k chunk rest where s: "p = replicate k star @ chunk @ rest" "scan_chunk p = (k > 0, chunk, rest)"
    "star \<notin> set chunk" "rest \<noteq> [] \<longrightarrow> hd rest = star" "k > 0 \<and> chunk = [] \<longrightarrow> rest = []"
    "wild_glob chunk" "wild_glob rest"
    by (rule scan_chunk_wild [OF "1.prems"])
  note mc = match_chunk_wild [OF s(6,3)]
  let ?hit = "length chunk \<le> length s \<and> wild chunk (take (length chunk) s)"
  show ?case
  proof (cases "p = []")
    case True
    then show ?thesis by (simp add: glob_match.simps)
  next
    case ne: False
    have stars: "k > 0 \<Longrightarrow> wild p s \<longleftrightarrow> (\<exists>u v. s = u @ v \<and> slash \<notin> set u \<and> wild (chunk @ rest) v)"
      using wild_stars [of k "chunk @ rest" s] s(1) by (simp add: wild_star)
    have here: "wild (chunk @ rest) s \<longleftrightarrow> ?hit \<and> wild rest (drop (length chunk) s)" using wild_chunk [OF s(3)] by simp
    have step: "glob_match p s =
        (if k > 0 \<and> chunk = [] then Some (slash \<notin> set s)
         else if ?hit \<and> (drop (length chunk) s = [] \<or> rest \<noteq> []) then glob_match rest (drop (length chunk) s)
         else if k > 0 then
           (case star_skip chunk (rest = []) s of
              None \<Rightarrow> None | Some (Some t) \<Rightarrow> glob_match rest t | Some None \<Rightarrow> check_rest rest)
         else check_rest rest)"
      using ne by (subst glob_match.simps) (simp add: s(2) mc)
    consider (trail) "k > 0" "chunk = []"
      | (hit) "\<not> (k > 0 \<and> chunk = [])" "?hit" "drop (length chunk) s = [] \<or> rest \<noteq> []"
      | (skip) "k > 0" "chunk \<noteq> []" "\<not> (?hit \<and> (drop (length chunk) s = [] \<or> rest \<noteq> []))"
      | (miss) "k = 0" "\<not> (?hit \<and> (drop (length chunk) s = [] \<or> rest \<noteq> []))"
      by blast
    then show ?thesis
    proof cases
      case trail
      then have "wild p s \<longleftrightarrow> slash \<notin> set s" using stars s(5) by simp
      then show ?thesis using trail by (simp add: step)
    next
      case hit
      have "glob_match rest (drop (length chunk) s) = Some (wild rest (drop (length chunk) s))"
        using "1.IH"(1) [OF ne s(2) [symmetric] refl] hit mc s(7) by auto
      moreover have "wild p s \<longleftrightarrow> wild rest (drop (length chunk) s)"
        using here hit stars leftmost [OF s(6,3,4)] s(1) by (cases "k = 0") (simp, metis append_Nil empty_iff empty_set gr0I)
      ultimately show ?thesis
        unfolding step if_not_P [OF hit(1)] if_P [OF conjI [OF hit(2,3)]] by simp
    next
      case skip
      have "\<not> wild (chunk @ rest) s" using skip(3) here by (cases "rest = []") auto
      then have w: "wild p s \<longleftrightarrow> (\<exists>t. star_skip chunk (rest = []) s = Some (Some t) \<and> wild rest t)"
        using stars [OF skip(1)] star_skip_wild(1) [OF s(6,3,4)] by (metis append_Nil)
      show ?thesis
      proof (cases "star_skip chunk (rest = []) s")
        case None
        then show ?thesis using star_skip_wild(2) [OF s(6,3,4)] by blast
      next
        case (Some r)
        have "glob_match rest t = Some (wild rest t)" if "r = Some t" for t
        proof (cases "rest = []")
          case True
          then show ?thesis by (simp add: glob_match.simps)
        next
          case False
          then have "\<not> ?hit" using skip(3) by blast
          then show ?thesis using "1.IH"(2) [OF ne s(2) [symmetric] refl] skip mc Some that s(7) False by simp
        qed
        then show ?thesis
          using skip Some check_rest_wild [OF s(7)] by (cases r) (auto simp: step w)
      qed
    next
      case miss
      then have "\<not> wild p s" using here s(1) by (cases "rest = []") auto
      then show ?thesis using miss check_rest_wild [OF s(7)] by (auto simp: step)
    qed
  qed
qed

end
