(* ===== verification/Profile.thy ===== *)
theory Profile
  imports Expand Glob EnvFilter
begin

text \<open>
  The sandbox profile (\<open>internal/sandboxprofile/profile.go\<close>, \<open>resolve.go\<close>): its data, the defaults
  of its accessors, \<open>Validate\<close> and \<open>Parse\<close> after JSON decoding, and how a reference to a profile is
  resolved to a file.  Absent JSON fields are empty strings, empty lists or \<open>None\<close>.
\<close>

section \<open>Data\<close>

record filesystem =
  pf_allow :: "string list"
  pf_read :: "string list"
  pf_write :: "string list"
  pf_allow_unix_dir :: "string list"
  pf_deny :: "string list"
  pf_deny_literal :: "string list"
  pf_override_deny :: "string list"
  pf_registry_config :: "string list"

record network_prompt =
  np_enabled :: "bool option"
  np_timeout :: int
  np_on_unavailable :: string

record network =
  pn_mode :: string
  pn_allow_domain :: "string list"
  pn_deny_domain :: "string list"
  pn_listen_port :: "int list"
  pn_allow_tcp_connect :: "int list"
  pn_open_port :: "int list"
  pn_prompt :: "network_prompt option"
  pn_enforcement :: string
  pn_upstream_proxy :: string
  pn_no_proxy :: "string list"
  pn_proxy_injection :: "string list"

record denial =
  dn_marker_file :: string
  dn_marker_dir_name :: string
  dn_facade_note :: string

record profile =
  pr_name :: string
  pr_workdir_access :: string
  pr_fs :: filesystem
  pr_net :: network
  pr_allow_vars :: "string list"
  pr_deny_vars :: "string list"
  pr_denial :: "denial option"

definition default_prompt_timeout_secs :: int where
  "default_prompt_timeout_secs = 60"

definition proxy_injection_tools :: "string list" where
  "proxy_injection_tools = [''jvm'', ''node'']"

definition registry_config_tools :: "string list" where
  "registry_config_tools = [''npm'']"

section \<open>Accessors with defaults\<close>

definition net_prompt_enabled :: "network \<Rightarrow> bool" where
  "net_prompt_enabled n =
     (case pn_prompt n of None \<Rightarrow> False
      | Some np \<Rightarrow> (case np_enabled np of None \<Rightarrow> True | Some b \<Rightarrow> b))"

definition prompt_timeout_secs :: "network \<Rightarrow> int" where
  "prompt_timeout_secs n =
     (case pn_prompt n of None \<Rightarrow> default_prompt_timeout_secs
      | Some np \<Rightarrow> if np_timeout np \<le> 0 then default_prompt_timeout_secs else np_timeout np)"

definition on_unavailable :: "network \<Rightarrow> string" where
  "on_unavailable n =
     (case pn_prompt n of None \<Rightarrow> ''deny''
      | Some np \<Rightarrow> if np_on_unavailable np = [] then ''deny'' else np_on_unavailable np)"

definition effective_mode :: "network \<Rightarrow> string" where
  "effective_mode n = (if pn_mode n = [] then ''filtered'' else pn_mode n)"

definition effective_enforcement :: "network \<Rightarrow> string" where
  "effective_enforcement n = (if pn_enforcement n = [] then ''kernel'' else pn_enforcement n)"

section \<open>Validation\<close>

definition is_basename_glob :: "string \<Rightarrow> bool" where
  "is_basename_glob entry =
     (if slash \<in> set entry then False
      else if has_prefix entry ''~'' \<or> has_prefix entry ''$'' then False else True)"

text \<open>Each loop of \<open>Validate\<close> returns the error of the first bad entry.\<close>

fun first_error :: "('a \<Rightarrow> string option) \<Rightarrow> 'a list \<Rightarrow> string option" where
  "first_error f [] = None"
| "first_error f (x # xs) = (case f x of Some e \<Rightarrow> Some e | None \<Rightarrow> first_error f xs)"

definition blank_error :: "string \<Rightarrow> string \<Rightarrow> string option" where
  "blank_error field entry =
     (if trim_space entry = [] then Some (''sandbox profile: '' @ field @ '' contains an empty entry'') else None)"

definition member_error :: "string \<Rightarrow> string list \<Rightarrow> string \<Rightarrow> string option" where
  "member_error field allowed x =
     (if x \<notin> set allowed
      then Some (''sandbox profile: invalid '' @ field @ '' '' @ go_quote x @ '' (want one of '' @
                 join_with '', '' allowed @ '')'')
      else None)"

definition port_error :: "string \<Rightarrow> bool \<Rightarrow> int \<Rightarrow> string option" where
  "port_error name allow_zero port =
     (if allow_zero \<and> port = 0 then None
      else if port < 1 \<or> port > 65535
      then Some (''sandbox profile: network.'' @ name @ '' contains invalid port '' @ show_int port) else None)"

definition deny_error :: "string \<Rightarrow> string option" where
  "deny_error d =
     (if trim_space d = [] then Some (''sandbox profile: filesystem.deny contains an empty entry'')
      else if slash \<in> set d \<and> (star \<in> set d \<or> question \<in> set d \<or> lbrack \<in> set d)
      then Some (''sandbox profile: filesystem.deny '' @ go_quote d @
                 '' mixes a path separator with glob metacharacters; use a bare basename glob or an '' @
      ''explicit path'')
      else if is_basename_glob d \<and> glob_match d ''probe'' = None
      then Some (''sandbox profile: filesystem.deny '' @ go_quote d @
                 '' is not a valid glob: syntax error in pattern'')
      else None)"

definition deny_literal_error :: "string \<Rightarrow> string option" where
  "deny_literal_error d =
     (if \<not> is_abs d then Some (''sandbox: --deny-literal '' @ go_quote d @ '' is not an absolute path'') else None)"

definition root_error :: "host_env \<Rightarrow> string \<Rightarrow> string option" where
  "root_error env entry =
     (case expand_path env entry of
        Inl _ \<Rightarrow> None
      | Inr e \<Rightarrow>
          if e = ''/''
          then Some (''sandbox profile: filesystem.allow contains '' @ go_quote entry @
                     '': blanket root grant is not permitted'')
          else None)"

definition enum_error :: "string \<Rightarrow> string \<Rightarrow> string list \<Rightarrow> string \<Rightarrow> string option" where
  "enum_error field want allowed x =
     (if x = [] \<or> x \<in> set allowed then None
      else Some (''sandbox profile: invalid '' @ field @ '' '' @ go_quote x @ '' (want '' @ want @ '')''))"

definition prompt_error :: "network_prompt option \<Rightarrow> string option" where
  "prompt_error np =
     (case np of None \<Rightarrow> None | Some p \<Rightarrow>
        case enum_error ''network.network_prompt.on_unavailable'' ''deny|allow'' [''deny'', ''allow'']
               (np_on_unavailable p) of
          Some e \<Rightarrow> Some e
        | None \<Rightarrow>
            if np_timeout p < 0
            then Some (''sandbox profile: network.network_prompt.prompt_timeout_secs must be >= 0'') else None)"

text \<open>\<open>parse_url\<close> is \<open>url.Parse\<close>: the scheme and host, \<open>None\<close> on an error.\<close>

definition upstream_error :: "(string \<Rightarrow> (string \<times> string) option) \<Rightarrow> string \<Rightarrow> string option" where
  "upstream_error parse_url u =
     (if u = [] then None
      else if (case parse_url u of None \<Rightarrow> True
               | Some (scheme, host) \<Rightarrow> (scheme \<noteq> ''http'' \<and> scheme \<noteq> ''https'') \<or> host = [])
      then Some (''sandbox profile: invalid network.upstream_proxy '' @ go_quote u @
                 '' (want http:// or https:// URL with host)'')
      else None)"

definition denial_error :: "denial option \<Rightarrow> string option" where
  "denial_error dn =
     (case dn of None \<Rightarrow> None | Some d \<Rightarrow>
        let m = dn_marker_dir_name d in
        if m \<noteq> [] \<and> (slash \<in> set m \<or> backslash \<in> set m \<or> m = ''..'' \<or> m = ''.'')
        then Some (''sandbox profile: denial.marker_dir_name '' @ go_quote m @ '' must be a single path component'')
        else None)"

text \<open>The checks in their order; the first error is returned.\<close>

definition profile_checks ::
    "host_env \<Rightarrow> (string \<Rightarrow> (string \<times> string) option) \<Rightarrow> profile \<Rightarrow> string option list" where
  "profile_checks env parse_url p =
     [enum_error ''workdir.access'' ''none|read|write|readwrite'' [''none'', ''read'', ''write'', ''readwrite'']
        (pr_workdir_access p),
      enum_error ''network.mode'' ''filtered|blocked|open'' [''filtered'', ''blocked'', ''open''] (pn_mode (pr_net p)),
      enum_error ''network.enforcement'' ''kernel|env-only'' [''kernel'', ''env-only''] (pn_enforcement (pr_net p)),
      prompt_error (pn_prompt (pr_net p)),
      upstream_error parse_url (pn_upstream_proxy (pr_net p)),
      first_error (blank_error ''network.no_proxy'') (pn_no_proxy (pr_net p)),
      first_error (member_error ''network.proxy_injection'' proxy_injection_tools) (pn_proxy_injection (pr_net p)),
      first_error (member_error ''filesystem.registry_config'' registry_config_tools) (pf_registry_config (pr_fs p)),
      first_error (port_error ''listen_port'' False) (pn_listen_port (pr_net p)),
      first_error (port_error ''allow_tcp_connect'' False) (pn_allow_tcp_connect (pr_net p)),
      first_error (port_error ''open_port'' True) (pn_open_port (pr_net p)),
      first_error (blank_error ''environment.allow_vars'') (pr_allow_vars p),
      first_error (blank_error ''environment.deny_vars'') (pr_deny_vars p),
      first_error deny_error (pf_deny (pr_fs p)),
      first_error deny_literal_error (pf_deny_literal (pr_fs p)),
      denial_error (pr_denial p),
      first_error (root_error env) (pf_allow (pr_fs p))]"

definition validate_profile ::
    "host_env \<Rightarrow> (string \<Rightarrow> (string \<times> string) option) \<Rightarrow> profile \<Rightarrow> string option" where
  "validate_profile env parse_url p = first_error id (profile_checks env parse_url p)"

text \<open>What the strict JSON decoder made of a file.\<close>

datatype decoded = DecodeError string | Decoded profile bool

definition parse_profile ::
    "host_env \<Rightarrow> (string \<Rightarrow> (string \<times> string) option) \<Rightarrow> decoded \<Rightarrow> string + profile" where
  "parse_profile env parse_url d =
     (case d of
        DecodeError e \<Rightarrow>
          Inl (if contains_str e ''unknown field''
               then ''parse sandbox profile: '' @ e @
                    '' (if this profile was written for a newer omac, upgrade omac; otherwise remove the '' @
      ''field)''
               else ''parse sandbox profile: '' @ e)
      | Decoded p trailing \<Rightarrow>
          if trailing then Inl (''parse sandbox profile: trailing data after JSON object'')
          else case validate_profile env parse_url p of Some e \<Rightarrow> Inl e | None \<Rightarrow> Inr p)"

section \<open>The default profile\<close>

definition default_profile :: profile where
  "default_profile =
     \<lparr>pr_name = ''default'', pr_workdir_access = ''readwrite'',
      pr_fs =
        \<lparr>pf_allow = [],
         pf_read =
           [''~/.gitconfig'', ''~/.gitignore_global'', ''~/.nvm'', ''~/.bun/bin'', ''~/.cargo/bin'', ''~/.rustup'',
            ''~/go/bin'', ''~/.local/share/pnpm'', ''~/Library/pnpm'', ''~/.config/agents/skills'',
            ''~/.agents/skills''],
         pf_write = [], pf_allow_unix_dir = [], pf_deny = [], pf_deny_literal = [], pf_override_deny = [],
         pf_registry_config = []\<rparr>,
      pr_net =
        \<lparr>pn_mode = ''filtered'', pn_allow_domain = [], pn_deny_domain = [], pn_listen_port = [4097],
         pn_allow_tcp_connect = [22], pn_open_port = [],
         pn_prompt = Some \<lparr>np_enabled = Some True, np_timeout = default_prompt_timeout_secs, np_on_unavailable = ''deny''\<rparr>,
         pn_enforcement = [], pn_upstream_proxy = [], pn_no_proxy = [], pn_proxy_injection = []\<rparr>,
      pr_allow_vars = default_allow_vars, pr_deny_vars = [], pr_denial = None\<rparr>"

section \<open>Resolving a reference\<close>

definition profile_dir :: "host_env \<Rightarrow> string option" where
  "profile_dir env =
     map_option (\<lambda>home. path_join [home, ''.config'', ''omac'', ''sandbox-profiles'']) (user_home_dir env)"

definition profile_path :: "host_env \<Rightarrow> string \<Rightarrow> string option" where
  "profile_path env name = map_option (\<lambda>dir. path_join [dir, name @ ''.json'']) (profile_dir env)"

definition pages_path :: "string \<Rightarrow> string" where
  "pages_path p = (if p = [] then [] else trim_suffix p ''.json'' @ ''.pages.json'')"

text \<open>The files Resolve meets: what decoding the file at a path gives, or why it cannot be read.\<close>

datatype profile_file = Absent | StatFailure string | ReadFailure string | Contents decoded

definition load_file ::
    "host_env \<Rightarrow> (string \<Rightarrow> (string \<times> string) option) \<Rightarrow> (string \<Rightarrow> profile_file) \<Rightarrow> string \<Rightarrow> string + profile" where
  "load_file env parse_url files path =
     (case files path of
        Contents d \<Rightarrow> (case parse_profile env parse_url d of Inl e \<Rightarrow> Inl (path @ '': '' @ e) | Inr p \<Rightarrow> Inr p)
      | ReadFailure e \<Rightarrow> Inl (''read sandbox profile '' @ path @ '': '' @ e)
      | StatFailure e \<Rightarrow> Inl (''read sandbox profile '' @ path @ '': '' @ e)
      | Absent \<Rightarrow> Inl (''read sandbox profile '' @ path @ '': no such file or directory''))"

text \<open>
  \<open>Resolve\<close>: the profile and the path it came from, and the files after it (\<open>WriteProfile\<close> of the
  default profile when scaffolding; \<open>write_error\<close> is the error of that write).  The encoded default
  profile is taken to decode to itself.
\<close>

type_synonym resolved = "(string + profile \<times> string) \<times> (string \<Rightarrow> profile_file)"

definition load_from ::
    "host_env \<Rightarrow> (string \<Rightarrow> (string \<times> string) option) \<Rightarrow> (string \<Rightarrow> profile_file) \<Rightarrow> string \<Rightarrow> resolved" where
  "load_from env parse_url files path =
     ((case load_file env parse_url files path of Inl e \<Rightarrow> Inl e | Inr p \<Rightarrow> Inr (p, path)), files)"

definition resolve_explicit ::
    "host_env \<Rightarrow> (string \<Rightarrow> (string \<times> string) option) \<Rightarrow> (string \<Rightarrow> profile_file) \<Rightarrow>
     bool \<Rightarrow> string \<Rightarrow> resolved" where
  "resolve_explicit env parse_url files any_path ref =
     (case abs_path env ref of
        Inl _ \<Rightarrow> (Inl (''resolve sandbox profile path '' @ go_quote ref), files)
      | Inr apath \<Rightarrow>
          if any_path then load_from env parse_url files apath
          else case profile_dir env of
            None \<Rightarrow> (Inl (''resolve sandbox profile dir''), files)
          | Some dir \<Rightarrow>
              if \<not> has_prefix (clean apath @ ''/'') (clean dir @ ''/'')
              then (Inl (''sandbox profile path '' @ go_quote ref @ '' is outside the trusted directory '' @ dir), files)
              else load_from env parse_url files apath)"

definition resolve_named ::
    "host_env \<Rightarrow> (string \<Rightarrow> (string \<times> string) option) \<Rightarrow> string option \<Rightarrow> (string \<Rightarrow> profile_file) \<Rightarrow>
     bool \<Rightarrow> string \<Rightarrow> resolved" where
  "resolve_named env parse_url write_error files scaffold ref =
     (case profile_path env ref of
        None \<Rightarrow> (Inl (''resolve sandbox profile dir''), files)
      | Some path \<Rightarrow>
          (case files path of
             Absent \<Rightarrow>
               if ref \<noteq> ''default''
               then (Inl (''sandbox profile '' @ go_quote ref @ '' not found (expected '' @ path @ '')''), files)
               else if \<not> scaffold then (Inr (default_profile, []), files)
               else (case write_error of
                       Some e \<Rightarrow> (Inl (''scaffold default sandbox profile: '' @ e), files)
                     | None \<Rightarrow>
                         load_from env parse_url (files(path := Contents (Decoded default_profile False))) path)
           | StatFailure e \<Rightarrow> (Inl (''stat sandbox profile '' @ path @ '': '' @ e), files)
           | _ \<Rightarrow> load_from env parse_url files path))"

definition resolve_profile ::
    "host_env \<Rightarrow> (string \<Rightarrow> (string \<times> string) option) \<Rightarrow> string option \<Rightarrow> (string \<Rightarrow> profile_file) \<Rightarrow>
     bool \<Rightarrow> bool \<Rightarrow> string \<Rightarrow> resolved" where
  "resolve_profile env parse_url write_error files scaffold any_path ref0 =
     (let ref = (if ref0 = [] then ''default'' else ref0) in
      if slash \<in> set ref \<or> has_suffix ref ''.json''
      then resolve_explicit env parse_url files any_path ref
      else resolve_named env parse_url write_error files scaffold ref)"

section \<open>What a valid profile guarantees\<close>

lemma first_error_None: "first_error f xs = None \<longleftrightarrow> (\<forall>x \<in> set xs. f x = None)"
  by (induction xs) (auto split: option.split)

lemma validate_None: "validate_profile env parse_url p = None \<longleftrightarrow> (\<forall>c \<in> set (profile_checks env parse_url p). c = None)"
  by (simp add: validate_profile_def first_error_None)

lemma port_error_None: "port_error name z port = None \<longleftrightarrow> (z \<and> port = 0) \<or> (1 \<le> port \<and> port \<le> 65535)"
  by (auto simp: port_error_def)

lemma if_Some_None: "(if b then Some x else y) = None \<longleftrightarrow> \<not> b \<and> y = None"
  by simp

lemma deny_error_None:
  "deny_error d = None \<longleftrightarrow> trim_space d \<noteq> [] \<and>
     \<not> (slash \<in> set d \<and> (star \<in> set d \<or> question \<in> set d \<or> lbrack \<in> set d)) \<and>
     \<not> (is_basename_glob d \<and> glob_match d ''probe'' = None)"
  unfolding deny_error_def if_Some_None by simp

lemma deny_literal_error_None: "deny_literal_error d = None \<longleftrightarrow> is_abs d"
  unfolding deny_literal_error_def if_Some_None by simp

lemma enum_error_None: "enum_error field want allowed x = None \<longleftrightarrow> x = [] \<or> x \<in> set allowed"
  by (simp add: enum_error_def)

lemma valid_profile_checks:
  assumes "validate_profile env parse_url p = None"
  shows "enum_error ''workdir.access'' ''none|read|write|readwrite'' [''none'', ''read'', ''write'', ''readwrite'']
        (pr_workdir_access p) = None"
    and "enum_error ''network.mode'' ''filtered|blocked|open'' [''filtered'', ''blocked'', ''open''] (pn_mode (pr_net p)) = None"
    and "enum_error ''network.enforcement'' ''kernel|env-only'' [''kernel'', ''env-only''] (pn_enforcement (pr_net p)) = None"
    and "prompt_error (pn_prompt (pr_net p)) = None"
    and "first_error (port_error ''listen_port'' False) (pn_listen_port (pr_net p)) = None"
    and "first_error (port_error ''allow_tcp_connect'' False) (pn_allow_tcp_connect (pr_net p)) = None"
    and "first_error (port_error ''open_port'' True) (pn_open_port (pr_net p)) = None"
    and "first_error (blank_error ''environment.allow_vars'') (pr_allow_vars p) = None"
    and "first_error (blank_error ''environment.deny_vars'') (pr_deny_vars p) = None"
    and "first_error deny_error (pf_deny (pr_fs p)) = None"
    and "first_error deny_literal_error (pf_deny_literal (pr_fs p)) = None"
    and "denial_error (pr_denial p) = None"
    and "first_error (root_error env) (pf_allow (pr_fs p)) = None"
proof -
  have c: "c = None" if "c \<in> set (profile_checks env parse_url p)" for c
    using assms that by (simp add: validate_None)
  show "enum_error ''workdir.access'' ''none|read|write|readwrite'' [''none'', ''read'', ''write'', ''readwrite'']
        (pr_workdir_access p) = None"
    "enum_error ''network.mode'' ''filtered|blocked|open'' [''filtered'', ''blocked'', ''open''] (pn_mode (pr_net p)) = None"
    "enum_error ''network.enforcement'' ''kernel|env-only'' [''kernel'', ''env-only''] (pn_enforcement (pr_net p)) = None"
    "prompt_error (pn_prompt (pr_net p)) = None"
    "first_error (port_error ''listen_port'' False) (pn_listen_port (pr_net p)) = None"
    "first_error (port_error ''allow_tcp_connect'' False) (pn_allow_tcp_connect (pr_net p)) = None"
    "first_error (port_error ''open_port'' True) (pn_open_port (pr_net p)) = None"
    "first_error (blank_error ''environment.allow_vars'') (pr_allow_vars p) = None"
    "first_error (blank_error ''environment.deny_vars'') (pr_deny_vars p) = None"
    "first_error deny_error (pf_deny (pr_fs p)) = None"
    "first_error deny_literal_error (pf_deny_literal (pr_fs p)) = None"
    "denial_error (pr_denial p) = None"
    "first_error (root_error env) (pf_allow (pr_fs p)) = None"
    by (rule c, simp add: profile_checks_def)+
qed

text \<open>
  A valid profile means something definite.  A profile that passes \<open>Validate\<close> has a workdir access
  level, network mode and enforcement level of the documented sets, ports from 1 to 65535 (0 only
  as the open-port sentinel), no blank variable pattern, no \<open>filesystem.deny\<close> entry that is a broken
  glob or mixes a glob with a path, absolute literal denies, a marker name that is one path element, and
  no read-write grant of the root directory.
\<close>

theorem valid_profile_guarantees:
  assumes "validate_profile env parse_url p = None"
  shows "pr_workdir_access p \<in> {[], ''none'', ''read'', ''write'', ''readwrite''} \<and>
    effective_mode (pr_net p) \<in> {''filtered'', ''blocked'', ''open''} \<and>
    effective_enforcement (pr_net p) \<in> {''kernel'', ''env-only''} \<and>
    on_unavailable (pr_net p) \<in> {''deny'', ''allow''} \<and> 0 < prompt_timeout_secs (pr_net p) \<and>
    set (pn_listen_port (pr_net p)) \<union> set (pn_allow_tcp_connect (pr_net p)) \<subseteq> {1 .. 65535} \<and>
    set (pn_open_port (pr_net p)) \<subseteq> {0 .. 65535} \<and>
    (\<forall>v \<in> set (pr_allow_vars p) \<union> set (pr_deny_vars p). trim_space v \<noteq> []) \<and>
    (\<forall>d \<in> set (pf_deny (pr_fs p)). is_basename_glob d \<longrightarrow> glob_match d ''probe'' \<noteq> None) \<and>
    (\<forall>d \<in> set (pf_deny (pr_fs p)). slash \<in> set d \<longrightarrow> star \<notin> set d \<and> question \<notin> set d \<and> lbrack \<notin> set d) \<and>
    (\<forall>d \<in> set (pf_deny_literal (pr_fs p)). is_abs d) \<and>
    (\<forall>d. pr_denial p = Some d \<longrightarrow> slash \<notin> set (dn_marker_dir_name d) \<and> dn_marker_dir_name d \<notin> {''.'', ''..''}) \<and>
    (\<forall>entry \<in> set (pf_allow (pr_fs p)). expand_path env entry \<noteq> Inr ''/'')"
proof -
  note e = valid_profile_checks [OF assms]
  have "pr_workdir_access p \<in> {[], ''none'', ''read'', ''write'', ''readwrite''}"
    using e(1) by (auto simp: enum_error_None)
  moreover have "effective_mode (pr_net p) \<in> {''filtered'', ''blocked'', ''open''}"
    using e(2) by (auto simp: enum_error_None effective_mode_def)
  moreover have "effective_enforcement (pr_net p) \<in> {''kernel'', ''env-only''}"
    using e(3) by (auto simp: enum_error_None effective_enforcement_def)
  moreover have "on_unavailable (pr_net p) \<in> {''deny'', ''allow''}"
    using e(4) by (auto simp: prompt_error_def enum_error_None on_unavailable_def split: option.splits)
  moreover have "0 < prompt_timeout_secs (pr_net p)"
    by (simp add: prompt_timeout_secs_def default_prompt_timeout_secs_def split: option.split)
  moreover have "set (pn_listen_port (pr_net p)) \<union> set (pn_allow_tcp_connect (pr_net p)) \<subseteq> {1 .. 65535}"
    using e(5,6) by (auto simp: first_error_None port_error_None)
  moreover have "set (pn_open_port (pr_net p)) \<subseteq> {0 .. 65535}"
    using e(7) by (force simp: first_error_None port_error_None)
  moreover have "\<forall>v \<in> set (pr_allow_vars p) \<union> set (pr_deny_vars p). trim_space v \<noteq> []"
    using e(8,9) by (auto simp: first_error_None blank_error_def split: if_splits)
  moreover have "\<forall>d \<in> set (pf_deny (pr_fs p)). is_basename_glob d \<longrightarrow> glob_match d ''probe'' \<noteq> None"
    using e(10) unfolding first_error_None deny_error_None by simp
  moreover have
    "\<forall>d \<in> set (pf_deny (pr_fs p)). slash \<in> set d \<longrightarrow> star \<notin> set d \<and> question \<notin> set d \<and> lbrack \<notin> set d"
    using e(10) unfolding first_error_None deny_error_None by simp
  moreover have "\<forall>d \<in> set (pf_deny_literal (pr_fs p)). is_abs d"
    using e(11) unfolding first_error_None deny_literal_error_None .
  moreover have "\<forall>d. pr_denial p = Some d \<longrightarrow> slash \<notin> set (dn_marker_dir_name d) \<and> dn_marker_dir_name d \<notin> {''.'', ''..''}"
    using e(12) by (auto simp: denial_error_def Let_def split: if_splits option.splits)
  moreover have "\<forall>entry \<in> set (pf_allow (pr_fs p)). expand_path env entry \<noteq> Inr ''/''"
    using e(13) by (auto simp: first_error_None root_error_def)
  ultimately show ?thesis by (intro conjI)
qed

lemma default_profile_valid: "validate_profile env parse_url default_profile = None"
  by (simp add: validate_profile_def profile_checks_def default_profile_def enum_error_def prompt_error_def
      upstream_error_def port_error_def blank_error_def denial_error_def default_allow_vars_def
      base_allow_vars_def convenience_allow_vars_def default_prompt_timeout_secs_def gostr)

theorem valid_profile_guarantees_witness:
  "effective_mode (pr_net default_profile) \<in> {''filtered'', ''blocked'', ''open''}"
  using valid_profile_guarantees [OF default_profile_valid] by blast

section \<open>What Resolve reads\<close>

lemma default_profile_valid_in [simp]: "parse_profile env parse_url (Decoded default_profile False) = Inr default_profile"
  by (simp add: parse_profile_def default_profile_valid)

lemma parse_profile_valid: "parse_profile env parse_url d = Inr p \<Longrightarrow> validate_profile env parse_url p = None"
  by (auto simp: parse_profile_def split: decoded.splits if_splits option.splits)

lemma load_from_valid:
  "load_from env parse_url files path0 = (Inr (p, path), files') \<Longrightarrow>
   validate_profile env parse_url p = None \<and> path = path0 \<and> files' = files"
  by (auto simp: load_from_def load_file_def parse_profile_valid split: sum.splits profile_file.splits)

lemma profile_dir_parts:
  assumes "profile_dir env = Some dir"
  shows "clean dir = dir \<and> clean_parts dir \<noteq> []"
proof -
  obtain home where home: "user_home_dir env = Some home" "home \<noteq> []"
    and dir: "dir = path_join [home, ''.config'', ''omac'', ''sandbox-profiles'']"
    using assms by (auto simp: profile_dir_def user_home_dir_def Let_def split: if_splits)
  have j: "dir = clean (((home @ ''/.config'') @ ''/omac'') @ slash # ''sandbox-profiles'')"
    using dir home(2) by (simp add: path_join_def)
  have n: "clean_parts (((home @ ''/.config'') @ ''/omac'') @ slash # ''sandbox-profiles'') \<noteq> []"
    by (subst clean_parts_child) (simp_all add: plain_def home(2))
  show ?thesis using j n by (simp add: clean_parts_clean)
qed

lemma profile_path_under:
  assumes "profile_path env ref = Some path" "slash \<notin> set ref"
  shows "\<exists>dir. profile_dir env = Some dir \<and> has_prefix (clean path @ ''/'') (clean dir @ ''/'')"
proof -
  obtain dir where dir: "profile_dir env = Some dir" and path: "path = path_join [dir, ref @ ''.json'']"
    using assms(1) by (auto simp: profile_path_def)
  have d: "clean dir = dir" "clean_parts dir \<noteq> []" using profile_dir_parts [OF dir] by simp_all
  then have "dir \<noteq> []" by (auto simp: clean_def split: if_splits)
  then have "path = clean (dir @ slash # (ref @ ''.json''))" using path by (simp add: path_join_def)
  moreover have "plain (ref @ ''.json'')" using assms(2) by (auto simp: plain_def append_eq_Cons_conv)
  ultimately have "clean path = dir @ slash # (ref @ ''.json'')"
    using clean_child [of dir "ref @ ''.json''"] d \<open>dir \<noteq> []\<close> by simp
  then show ?thesis using dir d(1) by (auto simp: has_prefix_def)
qed

lemma resolve_explicit_trusted:
  assumes "resolve_explicit env parse_url files False ref = (Inr (p, path), files')"
  shows "validate_profile env parse_url p = None \<and> files' = files \<and>
    (\<exists>dir. profile_dir env = Some dir \<and> has_prefix (clean path @ ''/'') (clean dir @ ''/''))"
proof -
  obtain apath where a: "abs_path env ref = Inr apath"
    using assms unfolding resolve_explicit_def by (cases "abs_path env ref") simp_all
  obtain dir where d: "profile_dir env = Some dir"
    using assms a unfolding resolve_explicit_def by (cases "profile_dir env") simp_all
  have p: "has_prefix (clean apath @ ''/'') (clean dir @ ''/'')"
    using assms a d unfolding resolve_explicit_def by (simp split: if_splits)
  have l: "load_from env parse_url files apath = (Inr (p, path), files')"
    using assms a d p unfolding resolve_explicit_def by simp
  show ?thesis using load_from_valid [OF l] d p by blast
qed

lemma resolve_named_trusted:
  assumes r: "resolve_named env parse_url werr files scaffold ref = (Inr (p, path), files')" and s: "slash \<notin> set ref"
  shows "validate_profile env parse_url p = None \<and>
    (path = [] \<and> p = default_profile \<or>
     (\<exists>dir. profile_dir env = Some dir \<and> has_prefix (clean path @ ''/'') (clean dir @ ''/''))) \<and>
    (\<forall>q. files' q \<noteq> files q \<longrightarrow> scaffold \<and> profile_path env ''default'' = Some q \<and> files q = Absent)"
proof -
  obtain q where q: "profile_path env ref = Some q"
    using r unfolding resolve_named_def by (cases "profile_path env ref") simp_all
  note u = profile_path_under [OF q s]
  have loaded: ?thesis if "load_from env parse_url files q = (Inr (p, path), files')"
    using load_from_valid [OF that] u by blast
  show ?thesis
  proof (cases "files q")
    case Absent
    then have d: "ref = ''default''"
      using r q unfolding resolve_named_def by (simp only: option.case profile_file.case split: if_splits) simp_all
    show ?thesis
    proof (cases scaffold)
      case False
      then show ?thesis using r q d Absent unfolding resolve_named_def by (simp add: default_profile_valid)
    next
      case True
      then have "load_from env parse_url (files(q := Contents (Decoded default_profile False))) q = (Inr (p, path), files')"
        using r q d Absent unfolding resolve_named_def by (cases werr) simp_all
      from load_from_valid [OF this] show ?thesis using u q d True Absent by simp
    qed
  next
    case (StatFailure e)
    then show ?thesis using r q unfolding resolve_named_def by simp
  next
    case (ReadFailure e)
    then show ?thesis using r q loaded unfolding resolve_named_def by simp
  next
    case (Contents d)
    then show ?thesis using r q loaded unfolding resolve_named_def by simp
  qed
qed

text \<open>
  C36: Only trusted profiles are launched.  Without the inspection option, a profile \<open>Resolve\<close> returns
  is valid, and comes from no file (it is the compiled-in default) or from a path inside
  \<open>~/.config/omac/sandbox-profiles\<close>; a successful \<open>Resolve\<close> changes no file but an absent
  \<open>default.json\<close>, and that one only when asked to scaffold.
\<close>

theorem resolve_trusted:
  assumes "resolve_profile env parse_url werr files scaffold False ref0 = (Inr (p, path), files')"
  shows "validate_profile env parse_url p = None \<and>
    (path = [] \<and> p = default_profile \<or>
     (\<exists>dir. profile_dir env = Some dir \<and> has_prefix (clean path @ ''/'') (clean dir @ ''/''))) \<and>
    (\<forall>q. files' q \<noteq> files q \<longrightarrow> scaffold \<and> profile_path env ''default'' = Some q \<and> files q = Absent)"
proof (cases "slash \<in> set (if ref0 = [] then ''default'' else ref0) \<or> has_suffix (if ref0 = [] then ''default'' else ref0) ''.json''")
  case True
  then have "resolve_explicit env parse_url files False (if ref0 = [] then ''default'' else ref0) = (Inr (p, path), files')"
    using assms unfolding resolve_profile_def Let_def by simp
  from resolve_explicit_trusted [OF this] show ?thesis by blast
next
  case False
  then have "resolve_named env parse_url werr files scaffold (if ref0 = [] then ''default'' else ref0) = (Inr (p, path), files')"
    using assms unfolding resolve_profile_def Let_def by simp
  from resolve_named_trusted [OF this] False show ?thesis by blast
qed

lemma demo_profile_path: "profile_path demo_host_env ''work'' = Some ''/home/u/.config/omac/sandbox-profiles/work.json''"
  by (simp add: profile_path_def profile_dir_def user_home_dir_def demo_host_env_def gostr)

definition demo_files :: "string \<Rightarrow> profile_file" where
  "demo_files = (\<lambda>q. Contents (Decoded default_profile False))"

lemma demo_resolve:
  "resolve_profile demo_host_env (\<lambda>u. None) None demo_files False False ''work''
     = (Inr (default_profile, ''/home/u/.config/omac/sandbox-profiles/work.json''), demo_files)"
  unfolding resolve_profile_def resolve_named_def Let_def
  by (simp add: load_from_def load_file_def demo_profile_path has_suffix_def demo_files_def)

theorem resolve_trusted_witness:
  "fst (resolve_profile demo_host_env (\<lambda>u. None) None demo_files False False ''work'') =
     Inr (default_profile, ''/home/u/.config/omac/sandbox-profiles/work.json'') \<and>
   validate_profile demo_host_env (\<lambda>u. None) default_profile = None"
  using resolve_trusted [OF demo_resolve] by (simp only: demo_resolve fst_conv)

end
