(* ===== verification/Flags.thy ===== *)
theory Flags
  imports Profile
begin

text \<open>
  The command line of \<open>omac sandbox run\<close> (\<open>internal/sandboxprofile/flags.go\<close>): parsing it, and
  merging it into the loaded profile.
\<close>

section \<open>Flags\<close>

record flags =
  fl_profile :: string
  fl_allow :: "string list"
  fl_read :: "string list"
  fl_write :: "string list"
  fl_deny :: "string list"
  fl_deny_literal :: "string list"
  fl_allow_file :: "string list"
  fl_allow_unix_dir :: "string list"
  fl_open_port :: "int list"
  fl_listen_port :: "int list"
  fl_allow_tcp :: "int list"
  fl_allow_domain :: "string list"
  fl_deny_domain :: "string list"
  fl_allow_env :: "string list"
  fl_block_net :: bool
  fl_learn :: bool
  fl_workdir_access :: string
  fl_audit_log :: string
  fl_audit_run_id :: string
  fl_audit_mode :: string
  fl_inner :: "string list"

definition no_flags :: flags where
  "no_flags =
     \<lparr>fl_profile = [], fl_allow = [], fl_read = [], fl_write = [], fl_deny = [], fl_deny_literal = [],
      fl_allow_file = [], fl_allow_unix_dir = [], fl_open_port = [], fl_listen_port = [], fl_allow_tcp = [],
      fl_allow_domain = [], fl_deny_domain = [], fl_allow_env = [], fl_block_net = False, fl_learn = False,
      fl_workdir_access = [], fl_audit_log = [], fl_audit_run_id = [], fl_audit_mode = [], fl_inner = []\<rparr>"

section \<open>Parsing\<close>

text \<open>What the cases of the switch store: those that take a string, and those that take a port.\<close>

definition value_flags :: "(string \<times> (string \<Rightarrow> flags \<Rightarrow> flags)) list" where
  "value_flags =
     [(''--profile'', \<lambda>v f. f\<lparr>fl_profile := v\<rparr>),
      (''--allow'', \<lambda>v f. f\<lparr>fl_allow := fl_allow f @ [v]\<rparr>),
      (''--read'', \<lambda>v f. f\<lparr>fl_read := fl_read f @ [v]\<rparr>),
      (''--write'', \<lambda>v f. f\<lparr>fl_write := fl_write f @ [v]\<rparr>),
      (''--deny'', \<lambda>v f. f\<lparr>fl_deny := fl_deny f @ [v]\<rparr>),
      (''--deny-literal'', \<lambda>v f. f\<lparr>fl_deny_literal := fl_deny_literal f @ [v]\<rparr>),
      (''--allow-file'', \<lambda>v f. f\<lparr>fl_allow_file := fl_allow_file f @ [v]\<rparr>),
      (''--allow-unix-dir'', \<lambda>v f. f\<lparr>fl_allow_unix_dir := fl_allow_unix_dir f @ [v]\<rparr>),
      (''--allow-domain'', \<lambda>v f. f\<lparr>fl_allow_domain := fl_allow_domain f @ [v]\<rparr>),
      (''--deny-domain'', \<lambda>v f. f\<lparr>fl_deny_domain := fl_deny_domain f @ [v]\<rparr>),
      (''--allow-env'', \<lambda>v f. f\<lparr>fl_allow_env := fl_allow_env f @ [v]\<rparr>),
      (''--audit-log'', \<lambda>v f. f\<lparr>fl_audit_log := v\<rparr>),
      (''--audit-run-id'', \<lambda>v f. f\<lparr>fl_audit_run_id := v\<rparr>),
      (''--audit-mode'', \<lambda>v f. f\<lparr>fl_audit_mode := v\<rparr>)]"

definition port_flags :: "(string \<times> (int \<Rightarrow> flags \<Rightarrow> flags)) list" where
  "port_flags =
     [(''--open-port'', \<lambda>p f. f\<lparr>fl_open_port := fl_open_port f @ [p]\<rparr>),
      (''--listen-port'', \<lambda>p f. f\<lparr>fl_listen_port := fl_listen_port f @ [p]\<rparr>),
      (''--allow-tcp-connect'', \<lambda>p f. f\<lparr>fl_allow_tcp := fl_allow_tcp f @ [p]\<rparr>)]"

definition access_levels :: "string list" where
  "access_levels = [''none'', ''read'', ''write'', ''readwrite'']"

text \<open>\<open>--flag=value\<close>: the name, and the value when it is written that way.\<close>

definition split_inline :: "string \<Rightarrow> string \<times> string option" where
  "split_inline a =
     (case index_of (CHR ''='') a of
        None \<Rightarrow> (a, None)
      | Some idx \<Rightarrow> if idx > 0 \<and> has_prefix a ''--'' then (take idx a, Some (drop (idx + 1) a)) else (a, None))"

text \<open>A flag's value, inline or the next argument, with the arguments that remain.\<close>

definition take_value :: "string \<Rightarrow> string option \<Rightarrow> string list \<Rightarrow> string + string \<times> string list" where
  "take_value flag inline rest =
     (case inline of
        Some v \<Rightarrow> Inr (v, rest)
      | None \<Rightarrow> (case rest of [] \<Rightarrow> Inl (flag @ '' requires a value'') | v # rest' \<Rightarrow> Inr (v, rest')))"

definition take_port :: "string \<Rightarrow> string option \<Rightarrow> string list \<Rightarrow> string + int \<times> string list" where
  "take_port flag inline rest =
     (case take_value flag inline rest of
        Inl e \<Rightarrow> Inl e
      | Inr (v, rest') \<Rightarrow>
          (case atoi v of
             None \<Rightarrow> Inl (flag @ '': invalid port '' @ go_quote v)
           | Some port \<Rightarrow>
               if port < 1 \<or> port > 65535 then Inl (flag @ '': invalid port '' @ go_quote v) else Inr (port, rest')))"

lemma take_value_shorter: "take_value flag inline rest = Inr (v, rest') \<Longrightarrow> length rest' \<le> length rest"
  by (auto simp: take_value_def split: option.splits list.splits)

lemma take_port_shorter: "take_port flag inline rest = Inr (v, rest') \<Longrightarrow> length rest' \<le> length rest"
  by (auto simp: take_port_def split: sum.splits option.splits if_splits dest: take_value_shorter)

function parse_args :: "flags \<Rightarrow> string list \<Rightarrow> string + flags" where
  "parse_args f [] = Inl ''missing -- separator and inner command''"
| "parse_args f (arg # rest) =
     (let (a, inline) = split_inline arg in
      if a = ''--'' then
        (if inline \<noteq> None then Inl (''malformed argument '' @ go_quote arg)
         else if rest = [] then Inl ''no command after --''
         else Inr (f\<lparr>fl_inner := rest\<rparr>))
      else case map_of value_flags a of
        Some store \<Rightarrow>
          (case take_value a inline rest of Inl e \<Rightarrow> Inl e | Inr (v, rest') \<Rightarrow> parse_args (store v f) rest')
      | None \<Rightarrow>
      case map_of port_flags a of
        Some store \<Rightarrow>
          (case take_port a inline rest of Inl e \<Rightarrow> Inl e | Inr (p, rest') \<Rightarrow> parse_args (store p f) rest')
      | None \<Rightarrow>
      if a = ''--block-net'' then
        (if inline \<noteq> None then Inl ''--block-net takes no value'' else parse_args (f\<lparr>fl_block_net := True\<rparr>) rest)
      else if a = ''--learn'' then
        (if inline \<noteq> None then Inl ''--learn takes no value'' else parse_args (f\<lparr>fl_learn := True\<rparr>) rest)
      else if a = ''--workdir-access'' then
        (case take_value a inline rest of
           Inl e \<Rightarrow> Inl e
         | Inr (v, rest') \<Rightarrow>
             if v \<notin> set access_levels
             then Inl (''--workdir-access: invalid level '' @ go_quote v @ '' (want none|read|write|readwrite)'')
             else parse_args (f\<lparr>fl_workdir_access := v\<rparr>) rest')
      else Inl (''unknown flag '' @ go_quote arg @ '' (inner command goes after --)''))"
  by pat_completeness auto
termination
  by (relation "measure (\<lambda>(_, args). length args)") (auto dest!: take_value_shorter take_port_shorter)

declare parse_args.simps(2) [simp del]

definition parse_flags :: "string list \<Rightarrow> string + flags" where
  "parse_flags args = parse_args no_flags args"

section \<open>Merging\<close>

definition block_net_warning :: string where
  "block_net_warning = ''--block-net overrides the profile'' @ [CHR 0x27] @
      ''s network settings; network remains fully blocked''"

definition merge_flags :: "profile \<Rightarrow> flags \<Rightarrow> profile \<times> string list" where
  "merge_flags p f =
     (let fs = pr_fs p;
          fs1 = fs\<lparr>pf_allow := pf_allow fs @ fl_allow f @ fl_allow_file f,
                   pf_read := pf_read fs @ fl_read f,
                   pf_write := pf_write fs @ fl_write f,
                   pf_allow_unix_dir := pf_allow_unix_dir fs @ fl_allow_unix_dir f,
                   pf_deny := pf_deny fs @ fl_deny f,
                   pf_deny_literal := pf_deny_literal fs @ fl_deny_literal f\<rparr>;
          n = pr_net p;
          n1 = n\<lparr>pn_open_port := pn_open_port n @ fl_open_port f,
                 pn_listen_port := pn_listen_port n @ fl_listen_port f,
                 pn_allow_tcp_connect := pn_allow_tcp_connect n @ fl_allow_tcp f,
                 pn_allow_domain := pn_allow_domain n @ fl_allow_domain f,
                 pn_deny_domain := pn_deny_domain n @ fl_deny_domain f\<rparr>;
          overridden = (effective_mode n1 \<noteq> ''blocked'' \<and>
            (pn_allow_domain n1 \<noteq> [] \<or> pn_deny_domain n1 \<noteq> [] \<or> net_prompt_enabled n1))
      in (p\<lparr>pr_fs := fs1,
            pr_net := (if fl_block_net f then n1\<lparr>pn_mode := ''blocked''\<rparr> else n1),
            pr_allow_vars := pr_allow_vars p @ fl_allow_env f,
            pr_workdir_access := (if fl_workdir_access f \<noteq> [] then fl_workdir_access f else pr_workdir_access p)\<rparr>,
          if fl_block_net f \<and> overridden then [block_net_warning] else []))"

section \<open>Properties\<close>

text \<open>What a successful parse guarantees of the flags.\<close>

definition flags_ok :: "flags \<Rightarrow> bool" where
  "flags_ok f \<longleftrightarrow> set (fl_open_port f) \<union> set (fl_listen_port f) \<union> set (fl_allow_tcp f) \<subseteq> {1 .. 65535} \<and>
     (fl_workdir_access f = [] \<or> fl_workdir_access f \<in> set access_levels)"

lemma take_port_range: "take_port flag inline rest = Inr (p, rest') \<Longrightarrow> p \<in> {1 .. 65535}"
  by (auto simp: take_port_def split: sum.splits option.splits if_splits)

lemma value_flags_ok: "map_of value_flags a = Some store \<Longrightarrow> flags_ok f \<Longrightarrow> flags_ok (store v f)"
  by (drule map_of_SomeD) (auto simp: value_flags_def flags_ok_def)

lemma port_flags_ok: "map_of port_flags a = Some store \<Longrightarrow> p \<in> {1 .. 65535} \<Longrightarrow> flags_ok f \<Longrightarrow> flags_ok (store p f)"
  by (drule map_of_SomeD) (auto simp: port_flags_def flags_ok_def)

lemma value_names: "map fst value_flags =
    [''--profile'', ''--allow'', ''--read'', ''--write'', ''--deny'', ''--deny-literal'', ''--allow-file'',
     ''--allow-unix-dir'', ''--allow-domain'', ''--deny-domain'', ''--allow-env'', ''--audit-log'',
     ''--audit-run-id'', ''--audit-mode'']"
  by (simp add: value_flags_def)

lemma port_names: "map fst port_flags = [''--open-port'', ''--listen-port'', ''--allow-tcp-connect'']"
  by (simp add: port_flags_def)

definition plain_flag :: "string \<Rightarrow> bool" where
  "plain_flag a \<longleftrightarrow> a \<noteq> [] \<and> a \<noteq> ''--'' \<and> CHR ''='' \<notin> set a \<and> has_prefix a ''--''"

lemma names_plain: "list_all plain_flag (map fst value_flags @ map fst port_flags)"
  unfolding value_names port_names by (simp add: plain_flag_def has_prefix_def)

lemma names_disjoint: "list_all (\<lambda>a. a \<notin> set (map fst value_flags)) (map fst port_flags)"
  unfolding value_names port_names by simp

lemma map_of_name: "map_of xs a = Some s \<Longrightarrow> a \<in> set (map fst xs)"
  by (induction xs) (auto split: if_splits)

lemma value_flags_plain:
  assumes "map_of value_flags a = Some store"
  shows "plain_flag a"
proof -
  have "a \<in> set (map fst value_flags @ map fst port_flags)" using map_of_name [OF assms] by simp
  then show ?thesis using names_plain unfolding list_all_iff by blast
qed

lemma port_flags_plain:
  assumes "map_of port_flags a = Some store"
  shows "plain_flag a \<and> map_of value_flags a = None"
proof -
  have a: "a \<in> set (map fst port_flags)" by (rule map_of_name [OF assms])
  then have "a \<in> set (map fst value_flags @ map fst port_flags)" by simp
  then have "plain_flag a" using names_plain unfolding list_all_iff by blast
  moreover have "a \<notin> set (map fst value_flags)" using a names_disjoint unfolding list_all_iff by blast
  ultimately show ?thesis by (simp add: map_of_eq_None_iff)
qed

lemma split_inline_plain:
  assumes "CHR ''='' \<notin> set a"
  shows "split_inline a = (a, None)"
proof -
  have "index_of (CHR ''='') a = None" using assms by simp
  then show ?thesis unfolding split_inline_def by (simp only: option.case)
qed

lemma split_inline_value:
  assumes "plain_flag a"
  shows "split_inline (a @ CHR ''='' # v) = (a, Some v)"
proof -
  have "has_prefix (a @ CHR ''='' # v) ''--''"
    using assms by (cases a rule: remdups_adj.cases) (auto simp: plain_flag_def has_prefix_def)
  then show ?thesis using assms by (simp add: split_inline_def index_of_append plain_flag_def)
qed

text \<open>One option in either spelling, and a list of them.\<close>

definition opt :: "bool \<Rightarrow> string \<Rightarrow> string \<Rightarrow> string list" where
  "opt joined a v = (if joined then [a @ CHR ''='' # v] else [a, v])"

definition opts :: "bool \<Rightarrow> string \<Rightarrow> string list \<Rightarrow> string list" where
  "opts joined a vs = concat (map (opt joined a) vs)"

lemma parse_value:
  assumes "map_of value_flags a = Some store"
  shows "parse_args f (opt joined a v @ rest) = parse_args (store v f) rest"
proof -
  have a: "plain_flag a" by (rule value_flags_plain [OF assms])
  then have "a \<noteq> ''--''" "CHR ''='' \<notin> set a" by (simp_all add: plain_flag_def)
  then show ?thesis
    using assms a by (simp add: opt_def parse_args.simps(2) split_inline_plain split_inline_value take_value_def)
qed

lemma parse_values:
  "map_of value_flags a = Some store \<Longrightarrow>
   parse_args f (opts joined a vs @ rest) = parse_args (fold store vs f) rest"
  by (induction vs arbitrary: f) (simp_all add: opts_def parse_value)

lemma atoi_show_int: "0 \<le> p \<Longrightarrow> p \<le> 65535 \<Longrightarrow> atoi (show_int p) = Some p"
proof -
  assume p: "0 \<le> p" "p \<le> 65535"
  obtain c r where s: "show_nat (nat p) = c # r" by (cases "show_nat (nat p)") auto
  then have "c \<noteq> CHR ''-''" "c \<noteq> CHR ''+''"
    using show_nat_not_mem [of "CHR ''-''" "nat p"] show_nat_not_mem [of "CHR ''+''" "nat p"]
    by (auto simp: is_digit_def code_def)
  moreover have "parse_digits (c # r) = Some (nat p)" using parse_show_nat [of "nat p"] s by simp
  ultimately show ?thesis using p s by (simp add: atoi_def show_int_def)
qed

lemma parse_port:
  assumes "map_of port_flags a = Some store" "1 \<le> p" "p \<le> 65535"
  shows "parse_args f (opt joined a (show_int p) @ rest) = parse_args (store p f) rest"
proof -
  have a: "plain_flag a" "map_of value_flags a = None" using port_flags_plain [OF assms(1)] by simp_all
  then have "a \<noteq> ''--''" "CHR ''='' \<notin> set a" by (simp_all add: plain_flag_def)
  then show ?thesis
    using assms a
    by (simp add: opt_def parse_args.simps(2) split_inline_plain split_inline_value take_port_def take_value_def
        atoi_show_int)
qed

lemma parse_ports:
  "map_of port_flags a = Some store \<Longrightarrow> set ps \<subseteq> {1 .. 65535} \<Longrightarrow>
   parse_args f (opts joined a (map show_int ps) @ rest) = parse_args (fold store ps f) rest"
  by (induction ps arbitrary: f) (simp_all add: opts_def parse_port)

lemma stored:
  "map_of value_flags ''--allow'' = Some (\<lambda>v f. f\<lparr>fl_allow := fl_allow f @ [v]\<rparr>)"
  "map_of value_flags ''--read'' = Some (\<lambda>v f. f\<lparr>fl_read := fl_read f @ [v]\<rparr>)"
  "map_of value_flags ''--write'' = Some (\<lambda>v f. f\<lparr>fl_write := fl_write f @ [v]\<rparr>)"
  "map_of value_flags ''--deny'' = Some (\<lambda>v f. f\<lparr>fl_deny := fl_deny f @ [v]\<rparr>)"
  "map_of value_flags ''--deny-literal'' = Some (\<lambda>v f. f\<lparr>fl_deny_literal := fl_deny_literal f @ [v]\<rparr>)"
  "map_of value_flags ''--allow-file'' = Some (\<lambda>v f. f\<lparr>fl_allow_file := fl_allow_file f @ [v]\<rparr>)"
  "map_of value_flags ''--allow-unix-dir'' = Some (\<lambda>v f. f\<lparr>fl_allow_unix_dir := fl_allow_unix_dir f @ [v]\<rparr>)"
  "map_of value_flags ''--allow-domain'' = Some (\<lambda>v f. f\<lparr>fl_allow_domain := fl_allow_domain f @ [v]\<rparr>)"
  "map_of value_flags ''--deny-domain'' = Some (\<lambda>v f. f\<lparr>fl_deny_domain := fl_deny_domain f @ [v]\<rparr>)"
  "map_of value_flags ''--allow-env'' = Some (\<lambda>v f. f\<lparr>fl_allow_env := fl_allow_env f @ [v]\<rparr>)"
  "map_of value_flags ''--profile'' = Some (\<lambda>v f. f\<lparr>fl_profile := v\<rparr>)"
  "map_of value_flags ''--audit-log'' = Some (\<lambda>v f. f\<lparr>fl_audit_log := v\<rparr>)"
  "map_of value_flags ''--audit-run-id'' = Some (\<lambda>v f. f\<lparr>fl_audit_run_id := v\<rparr>)"
  "map_of value_flags ''--audit-mode'' = Some (\<lambda>v f. f\<lparr>fl_audit_mode := v\<rparr>)"
  "map_of port_flags ''--open-port'' = Some (\<lambda>v f. f\<lparr>fl_open_port := fl_open_port f @ [v]\<rparr>)"
  "map_of port_flags ''--listen-port'' = Some (\<lambda>v f. f\<lparr>fl_listen_port := fl_listen_port f @ [v]\<rparr>)"
  "map_of port_flags ''--allow-tcp-connect'' = Some (\<lambda>v f. f\<lparr>fl_allow_tcp := fl_allow_tcp f @ [v]\<rparr>)"
  by (simp_all add: value_flags_def port_flags_def)

lemma fold_stored:
  "fold (\<lambda>v f. f\<lparr>fl_allow := fl_allow f @ [v]\<rparr>) xs f = fl_allow_update (\<lambda>ys. ys @ xs) f"
  "fold (\<lambda>v f. f\<lparr>fl_read := fl_read f @ [v]\<rparr>) xs f = fl_read_update (\<lambda>ys. ys @ xs) f"
  "fold (\<lambda>v f. f\<lparr>fl_write := fl_write f @ [v]\<rparr>) xs f = fl_write_update (\<lambda>ys. ys @ xs) f"
  "fold (\<lambda>v f. f\<lparr>fl_deny := fl_deny f @ [v]\<rparr>) xs f = fl_deny_update (\<lambda>ys. ys @ xs) f"
  "fold (\<lambda>v f. f\<lparr>fl_deny_literal := fl_deny_literal f @ [v]\<rparr>) xs f = fl_deny_literal_update (\<lambda>ys. ys @ xs) f"
  "fold (\<lambda>v f. f\<lparr>fl_allow_file := fl_allow_file f @ [v]\<rparr>) xs f = fl_allow_file_update (\<lambda>ys. ys @ xs) f"
  "fold (\<lambda>v f. f\<lparr>fl_allow_unix_dir := fl_allow_unix_dir f @ [v]\<rparr>) xs f = fl_allow_unix_dir_update (\<lambda>ys. ys @ xs) f"
  "fold (\<lambda>v f. f\<lparr>fl_allow_domain := fl_allow_domain f @ [v]\<rparr>) xs f = fl_allow_domain_update (\<lambda>ys. ys @ xs) f"
  "fold (\<lambda>v f. f\<lparr>fl_deny_domain := fl_deny_domain f @ [v]\<rparr>) xs f = fl_deny_domain_update (\<lambda>ys. ys @ xs) f"
  "fold (\<lambda>v f. f\<lparr>fl_allow_env := fl_allow_env f @ [v]\<rparr>) xs f = fl_allow_env_update (\<lambda>ys. ys @ xs) f"
  "fold (\<lambda>v f. f\<lparr>fl_open_port := fl_open_port f @ [v]\<rparr>) ps f = fl_open_port_update (\<lambda>ys. ys @ ps) f"
  "fold (\<lambda>v f. f\<lparr>fl_listen_port := fl_listen_port f @ [v]\<rparr>) ps f = fl_listen_port_update (\<lambda>ys. ys @ ps) f"
  "fold (\<lambda>v f. f\<lparr>fl_allow_tcp := fl_allow_tcp f @ [v]\<rparr>) ps f = fl_allow_tcp_update (\<lambda>ys. ys @ ps) f"
  subgoal by (induction xs arbitrary: f) simp_all
  subgoal by (induction xs arbitrary: f) simp_all
  subgoal by (induction xs arbitrary: f) simp_all
  subgoal by (induction xs arbitrary: f) simp_all
  subgoal by (induction xs arbitrary: f) simp_all
  subgoal by (induction xs arbitrary: f) simp_all
  subgoal by (induction xs arbitrary: f) simp_all
  subgoal by (induction xs arbitrary: f) simp_all
  subgoal by (induction xs arbitrary: f) simp_all
  subgoal by (induction xs arbitrary: f) simp_all
  subgoal by (induction ps arbitrary: f) simp_all
  subgoal by (induction ps arbitrary: f) simp_all
  subgoal by (induction ps arbitrary: f) simp_all
  done

text \<open>A command line for given flags, with every option joined to its value or written before it.\<close>

definition single :: "bool \<Rightarrow> string \<Rightarrow> string \<Rightarrow> string list" where
  "single joined a v = (if v = [] then [] else opt joined a v)"

definition switch :: "bool \<Rightarrow> string \<Rightarrow> string list" where
  "switch on a = (if on then [a] else [])"

definition render_flags :: "bool \<Rightarrow> flags \<Rightarrow> string list" where
  "render_flags j f =
     single j ''--profile'' (fl_profile f) @
     opts j ''--allow'' (fl_allow f) @ opts j ''--read'' (fl_read f) @ opts j ''--write'' (fl_write f) @
     opts j ''--deny'' (fl_deny f) @ opts j ''--deny-literal'' (fl_deny_literal f) @
     opts j ''--allow-file'' (fl_allow_file f) @ opts j ''--allow-unix-dir'' (fl_allow_unix_dir f) @
     opts j ''--open-port'' (map show_int (fl_open_port f)) @
     opts j ''--listen-port'' (map show_int (fl_listen_port f)) @
     opts j ''--allow-tcp-connect'' (map show_int (fl_allow_tcp f)) @
     opts j ''--allow-domain'' (fl_allow_domain f) @ opts j ''--deny-domain'' (fl_deny_domain f) @
     opts j ''--allow-env'' (fl_allow_env f) @ switch (fl_block_net f) ''--block-net'' @
     switch (fl_learn f) ''--learn'' @ single j ''--audit-log'' (fl_audit_log f) @
     single j ''--audit-run-id'' (fl_audit_run_id f) @ single j ''--audit-mode'' (fl_audit_mode f) @
     single j ''--workdir-access'' (fl_workdir_access f) @ ''--'' # fl_inner f"

lemma parse_single:
  "map_of value_flags a = Some store \<Longrightarrow>
   parse_args f (single joined a v @ rest) = parse_args (if v = [] then f else store v f) rest"
  by (simp add: single_def parse_value)

lemma update_id [simp]:
  "fl_profile_update (\<lambda>y. y) f = f"
  "fl_audit_log_update (\<lambda>y. y) f = f"
  "fl_audit_run_id_update (\<lambda>y. y) f = f"
  "fl_audit_mode_update (\<lambda>y. y) f = f"
  "fl_block_net_update (\<lambda>y. y) f = f"
  "fl_learn_update (\<lambda>y. y) f = f"
  "fl_workdir_access_update (\<lambda>y. y) f = f"
  by simp_all

lemma parse_singles:
  "parse_args f (single joined ''--profile'' v @ rest) = parse_args (fl_profile_update (\<lambda>y. if v = [] then y else v) f) rest"
  "parse_args f (single joined ''--audit-log'' v @ rest) = parse_args (fl_audit_log_update (\<lambda>y. if v = [] then y else v) f) rest"
  "parse_args f (single joined ''--audit-run-id'' v @ rest) = parse_args (fl_audit_run_id_update (\<lambda>y. if v = [] then y else v) f) rest"
  "parse_args f (single joined ''--audit-mode'' v @ rest) = parse_args (fl_audit_mode_update (\<lambda>y. if v = [] then y else v) f) rest"
  by (simp_all only: parse_single [OF stored(11)] parse_single [OF stored(12)] parse_single [OF stored(13)]
      parse_single [OF stored(14)]) simp_all

lemma not_value_flags:
  "map_of value_flags ''--block-net'' = None" "map_of value_flags ''--learn'' = None"
  "map_of value_flags ''--workdir-access'' = None" "map_of port_flags ''--block-net'' = None"
  "map_of port_flags ''--learn'' = None" "map_of port_flags ''--workdir-access'' = None"
  by (simp_all add: value_flags_def port_flags_def)

lemma parse_switches:
  "parse_args f (switch on ''--block-net'' @ rest) = parse_args (fl_block_net_update (\<lambda>y. on \<or> y) f) rest"
  "parse_args f (switch on ''--learn'' @ rest) = parse_args (fl_learn_update (\<lambda>y. on \<or> y) f) rest"
  by (simp_all add: switch_def parse_args.simps(2) split_inline_plain not_value_flags)

lemma parse_access:
  assumes "v = [] \<or> v \<in> set access_levels"
  shows "parse_args f (single joined ''--workdir-access'' v @ rest) =
    parse_args (fl_workdir_access_update (\<lambda>y. if v = [] then y else v) f) rest"
proof -
  have "split_inline (''--workdir-access'' @ CHR ''='' # v) = (''--workdir-access'', Some v)"
    by (rule split_inline_value) (simp add: plain_flag_def has_prefix_def)
  then show ?thesis
    using assms
    by (cases "v = []") (simp_all add: single_def opt_def parse_args.simps(2) split_inline_plain not_value_flags take_value_def)
qed

lemma parse_inner: "inner \<noteq> [] \<Longrightarrow> parse_args f (''--'' # inner) = Inr (f\<lparr>fl_inner := inner\<rparr>)"
  by (simp add: parse_args.simps(2) split_inline_plain)

lemma parse_render:
  assumes "flags_ok f" "fl_inner f \<noteq> []"
  shows "parse_flags (render_flags j f) = Inr f"
proof -
  have ports: "set (fl_open_port f) \<subseteq> {1 .. 65535}" "set (fl_listen_port f) \<subseteq> {1 .. 65535}"
    "set (fl_allow_tcp f) \<subseteq> {1 .. 65535}" and acc: "fl_workdir_access f = [] \<or> fl_workdir_access f \<in> set access_levels"
    using assms(1) by (auto simp: flags_ok_def)


  show ?thesis
    unfolding parse_flags_def render_flags_def append_assoc
      parse_singles parse_values [OF stored(1)] parse_values [OF stored(2)] parse_values [OF stored(3)] parse_values [OF stored(4)] parse_values [OF stored(5)] parse_values [OF stored(6)] parse_values [OF stored(7)] parse_values [OF stored(8)] parse_values [OF stored(9)] parse_values [OF stored(10)]
      parse_ports [OF stored(15) ports(1)] parse_ports [OF stored(16) ports(2)] parse_ports [OF stored(17) ports(3)]
      parse_switches parse_access [OF acc] parse_inner [OF assms(2)] fold_stored
    by (rule arg_cong [where f = Inr], rule flags.equality) (simp_all add: no_flags_def)
qed

lemma parse_args_ok: "parse_args f args = Inr g \<Longrightarrow> flags_ok f \<Longrightarrow> flags_ok g \<and> fl_inner g \<noteq> []"
proof (induction f args rule: parse_args.induct)
  case (2 f arg rest)
  obtain a inline where ai: "split_inline arg = (a, inline)" by (cases "split_inline arg")
  note step = 2(6) [unfolded parse_args.simps(2) ai Let_def prod.case]
  note IH = 2(1-5) [OF ai [symmetric] refl]
  show ?case
  proof (cases "a = ''--''")
    case True
    have "inline = None" using step True by (cases inline) simp_all
    moreover have "rest \<noteq> []" using step True calculation by (cases rest) simp_all
    ultimately have "g = f\<lparr>fl_inner := rest\<rparr>" using step True by simp
    then show ?thesis using 2(7) \<open>rest \<noteq> []\<close> by (simp add: flags_ok_def)
  next
    case nd: False
    show ?thesis
    proof (cases "map_of value_flags a")
      case (Some store)
      obtain v rest' where v: "take_value a inline rest = Inr (v, rest')"
        using step nd Some by (cases "take_value a inline rest") auto
      then have "parse_args (store v f) rest' = Inr g" using step nd Some by simp
      then show ?thesis using IH(5) [OF nd Some v refl] value_flags_ok [OF Some 2(7)] by blast
    next
      case nv: None
      show ?thesis
      proof (cases "map_of port_flags a")
        case (Some store)
        obtain v rest' where v: "take_port a inline rest = Inr (v, rest')"
          using step nd nv Some by (cases "take_port a inline rest") auto
        then have "parse_args (store v f) rest' = Inr g" using step nd nv Some by simp
        then show ?thesis
          using IH(4) [OF nd nv Some v refl] port_flags_ok [OF Some take_port_range [OF v] 2(7)] by blast
      next
        case np: None
        note step' = step [unfolded nv np option.case if_not_P [OF nd]]
        note IH' = IH(1-3) [OF nd nv np]
        show ?thesis
        proof (cases "a = ''--block-net''")
          case True
          then have "inline = None" using step' by (cases inline) simp_all
          then have "parse_args (f\<lparr>fl_block_net := True\<rparr>) rest = Inr g" using step' True by simp
          then show ?thesis using IH'(1) True \<open>inline = None\<close> 2(7) by (simp add: flags_ok_def)
        next
          case nb: False
          show ?thesis
          proof (cases "a = ''--learn''")
            case True
            then have "inline = None" using step' nb by (cases inline) simp_all
            then have "parse_args (f\<lparr>fl_learn := True\<rparr>) rest = Inr g" using step' nb True by simp
            then show ?thesis using IH'(2) nb True \<open>inline = None\<close> 2(7) by (simp add: flags_ok_def)
          next
            case nl: False
            have acc: "a = ''--workdir-access''"
              using step' unfolding if_not_P [OF nb] if_not_P [OF nl] by (rule contrapos_pp) simp
            obtain v rest' where v: "take_value a inline rest = Inr (v, rest')"
              using step' unfolding if_not_P [OF nb] if_not_P [OF nl] if_P [OF acc]
              by (cases "take_value a inline rest") auto
            note st = step' [unfolded if_not_P [OF nb] if_not_P [OF nl] if_P [OF acc] v sum.case prod.case]
            have lv: "v \<in> set access_levels" using st by (rule contrapos_pp) simp
            then have "parse_args (f\<lparr>fl_workdir_access := v\<rparr>) rest' = Inr g" using st by simp
            then show ?thesis using IH'(3) [OF nb nl acc v refl] lv 2(7) by (simp add: flags_ok_def)
          qed
        qed
      qed
    qed
  qed
qed simp

text \<open>
  C37: The command line carries flags faithfully.  Any flags with ports from 1 to 65535, a known
  access level and an inner command, written out with every value joined by \<open>=\<close> or as the next
  argument (values may be anything, \<open>--\<close> or other flags included), are parsed back as they were, and
  every successful parse yields flags of that kind.
\<close>

theorem flags_round_trip:
  "(parse_flags (render_flags j f) = Inr f) = (flags_ok f \<and> fl_inner f \<noteq> []) \<and>
   (\<exists>args. parse_flags args = Inr f) = (flags_ok f \<and> fl_inner f \<noteq> [])"
proof -
  have "flags_ok no_flags" by (simp add: flags_ok_def no_flags_def)
  then have ok: "flags_ok f \<and> fl_inner f \<noteq> []" if "parse_flags args = Inr f" for args
    using parse_args_ok [of no_flags args f] that by (simp add: parse_flags_def)
  then show ?thesis using parse_render [of f j] by blast
qed

lemma first_error_append: "first_error f (xs @ ys) = None \<longleftrightarrow> first_error f xs = None \<and> first_error f ys = None"
  by (auto simp: first_error_None)

lemma validate_merged:
  assumes p: "validate_profile env parse_url p = None" and f: "flags_ok f"
  shows "validate_profile env parse_url (fst (merge_flags p f)) = None \<longleftrightarrow>
    first_error (blank_error ''environment.allow_vars'') (fl_allow_env f) = None \<and>
    first_error deny_error (fl_deny f) = None \<and> first_error deny_literal_error (fl_deny_literal f) = None \<and>
    first_error (root_error env) (fl_allow f @ fl_allow_file f) = None"
proof -
  have ports: "first_error (port_error name z) ps = None" if "set ps \<subseteq> {1 .. 65535}" for name z ps
    using that by (auto simp: first_error_None port_error_None)
  have fp: "first_error (port_error name z) (fl_open_port f) = None"
    "first_error (port_error name z) (fl_listen_port f) = None"
    "first_error (port_error name z) (fl_allow_tcp f) = None" for name z
    using f by (simp_all add: flags_ok_def ports)
  have acc: "enum_error n w access_levels (if fl_workdir_access f \<noteq> [] then fl_workdir_access f else x) = None"
    if "enum_error n w access_levels x = None" for n w x
    using f that by (auto simp: flags_ok_def enum_error_None)
  have md: "enum_error n w [''filtered'', ''blocked'', ''open''] ''blocked'' = None" for n w
    by (simp add: enum_error_None)
  note c = p [unfolded validate_None profile_checks_def, folded access_levels_def, simplified list.set ball_simps]
  show ?thesis
    unfolding validate_None profile_checks_def merge_flags_def Let_def fst_conv list.set ball_simps
    using c acc md fp
    by (simp add: first_error_append access_levels_def)
qed

text \<open>
  Which flags can spoil a profile.  Merging parsed flags into a valid profile gives a valid
  profile unless a flag itself is at fault: a blank environment pattern, a deny entry that is a
  broken glob or mixes a glob with a path, a literal deny that is not absolute, or a read-write grant
  that expands to the root directory.
\<close>

theorem merge_validity:
  assumes "validate_profile env parse_url p = None" and "parse_flags args = Inr f"
  shows "validate_profile env parse_url (fst (merge_flags p f)) = None \<longleftrightarrow>
    (\<forall>v \<in> set (fl_allow_env f). trim_space v \<noteq> []) \<and>
    (\<forall>d \<in> set (fl_deny f). deny_error d = None) \<and> (\<forall>d \<in> set (fl_deny_literal f). is_abs d) \<and>
    (\<forall>a \<in> set (fl_allow f) \<union> set (fl_allow_file f). expand_path env a \<noteq> Inr ''/'')"
proof -
  have "flags_ok f"
    using parse_args_ok [of no_flags args f] assms(2) by (simp add: parse_flags_def flags_ok_def no_flags_def)
  moreover have "root_error env a = None \<longleftrightarrow> expand_path env a \<noteq> Inr ''/''" for a
    unfolding root_error_def by (cases "expand_path env a") simp_all
  moreover have "blank_error n v = None \<longleftrightarrow> trim_space v \<noteq> []" for n v
    unfolding blank_error_def if_Some_None by simp
  ultimately show ?thesis
    using validate_merged [OF assms(1)] unfolding first_error_None deny_literal_error_None by simp
qed

definition demo_flags :: flags where
  "demo_flags = no_flags\<lparr>fl_deny := [''.env''], fl_allow := [''/srv''], fl_inner := [''sh'']\<rparr>"

lemma demo_parse: "parse_flags [''--deny=.env'', ''--allow'', ''/srv'', ''--'', ''sh''] = Inr demo_flags"
proof -
  have "split_inline ''--deny=.env'' = (''--deny'', Some ''.env'')"
    using split_inline_value [of "''--deny''" "''.env''"] by (simp add: plain_flag_def has_prefix_def)
  then show ?thesis
    by (simp add: parse_flags_def parse_args.simps(2) stored take_value_def split_inline_plain demo_flags_def no_flags_def)
qed

theorem merge_validity_witness:
  "validate_profile demo_host_env (\<lambda>u. None) (fst (merge_flags default_profile demo_flags)) = None"
proof -
  have "expand_path demo_host_env ''/srv'' \<noteq> Inr ''/''" by (simp add: expand_eval gostr)
  moreover have "deny_error ''.env'' = None"
    by (simp add: deny_error_None is_basename_glob_def glob_match_literal no_meta_def gostr)
  ultimately show ?thesis
    using merge_validity [OF default_profile_valid demo_parse, of demo_host_env "\<lambda>u. None"]
    by (simp add: demo_flags_def no_flags_def)
qed

end
