(* ===== verification/DenyScan.thy ===== *)
theory DenyScan
  imports Expand Glob
begin

text \<open>
  The walk that finds the files a \<open>filesystem.deny\<close> glob hides (\<open>walkOneDenyRoot\<close> in
  \<open>internal/sandboxrun/grants.go\<close>, without a cache, as at launch): a fixed number of workers take
  folders from a shared stack and count every entry against a cap.  The workers are a step relation;
  the run of one worker is also an executable function.
\<close>

section \<open>Folders\<close>

text \<open>
  What the walk of one root reads and is given: the entries of a folder with their being folders
  (those of an unreadable one as far as it was read), the globs, the paths already denied, the cap,
  the granted spelling of the root and its resolved one.
\<close>

record scan =
  sc_entries :: "string \<Rightarrow> (string \<times> bool) list"
  sc_globs :: "string list"
  sc_protected :: "string set"
  sc_limit :: nat
  sc_root :: string
  sc_resolved :: string

definition deny_scan_skip_dir_names :: "string list" where
  "deny_scan_skip_dir_names =
     [''node_modules'', ''.git'', ''.hg'', ''.svn'', ''vendor'', ''.venv'', ''venv'', ''__pycache__'', ''target'',
      ''.gradle'', ''.m2'', ''.cargo'', ''.rustup'', ''.nvm'', ''.npm'', ''.yarn'', ''.pnpm-store'', ''dist'',
      ''build'', ''out'', ''.cache'', ''Library'']"

definition matches_glob :: "string list \<Rightarrow> string \<Rightarrow> bool" where
  "matches_glob globs name \<longleftrightarrow> list_ex (\<lambda>g. glob_match g name = Some True) globs"

text \<open>What one entry of a folder contributes: a match, in the granted spelling, or a folder to read.\<close>

definition entry_found :: "scan \<Rightarrow> string \<Rightarrow> string \<times> bool \<Rightarrow> string list" where
  "entry_found sc dir e =
     (let path = path_join [dir, fst e]
      in if snd e \<and> path \<in> sc_protected sc then []
         else if matches_glob (sc_globs sc) (fst e)
         then [path_join [sc_root sc, trim_prefix path (sc_resolved sc @ ''/'')]]
         else [])"

definition entry_subdirs :: "scan \<Rightarrow> string \<Rightarrow> string \<times> bool \<Rightarrow> string list" where
  "entry_subdirs sc dir e =
     (let path = path_join [dir, fst e]
      in if snd e \<and> path \<in> sc_protected sc then []
         else if matches_glob (sc_globs sc) (fst e) then []
         else if snd e \<and> fst e \<notin> set deny_scan_skip_dir_names then [path] else [])"

section \<open>The workers\<close>

text \<open>
  A job is a folder being read: the entries still to count, the sub-folders and matches so far.
  \<open>wk_read\<close> collects the folders read to the end; the program does not keep it.
\<close>

record job =
  jb_dir :: string
  jb_rest :: "(string \<times> bool) list"
  jb_subdirs :: "string list"
  jb_found :: "string list"

record walk =
  wk_stack :: "string list"
  wk_jobs :: "job list"
  wk_count :: nat
  wk_matches :: "string list"
  wk_hit :: bool
  wk_read :: "string set"

definition walk_init :: "scan \<Rightarrow> walk" where
  "walk_init sc = \<lparr>wk_stack = [sc_resolved sc], wk_jobs = [], wk_count = 1, wk_matches = [], wk_hit = False, wk_read = {}\<rparr>"

text \<open>A free worker pops the stack and lists the folder.\<close>

definition take_folder :: "scan \<Rightarrow> walk \<Rightarrow> walk" where
  "take_folder sc w =
     w\<lparr>wk_stack := butlast (wk_stack w),
       wk_jobs := wk_jobs w @ [\<lparr>jb_dir = last (wk_stack w), jb_rest = sc_entries sc (last (wk_stack w)),
                                 jb_subdirs = [], jb_found = []\<rparr>]\<rparr>"

text \<open>A worker counts its next entry, within the cap.\<close>

definition advance :: "scan \<Rightarrow> job \<Rightarrow> job" where
  "advance sc j =
     j\<lparr>jb_rest := tl (jb_rest j),
       jb_subdirs := jb_subdirs j @ entry_subdirs sc (jb_dir j) (hd (jb_rest j)),
       jb_found := jb_found j @ entry_found sc (jb_dir j) (hd (jb_rest j))\<rparr>"

definition count_entry :: "scan \<Rightarrow> nat \<Rightarrow> walk \<Rightarrow> walk" where
  "count_entry sc i w =
     w\<lparr>wk_count := wk_count w + 1, wk_jobs := (wk_jobs w)[i := advance sc (wk_jobs w ! i)]\<rparr>"

text \<open>A worker returns from a folder, with the cap reached or not, and merges what it found.\<close>

definition drop_nth :: "nat \<Rightarrow> 'a list \<Rightarrow> 'a list" where
  "drop_nth i xs = take i xs @ drop (Suc i) xs"

definition merge_job :: "nat \<Rightarrow> bool \<Rightarrow> walk \<Rightarrow> walk" where
  "merge_job i full w =
     (let j = wk_jobs w ! i in
      w\<lparr>wk_jobs := drop_nth i (wk_jobs w),
        wk_stack := wk_stack w @ jb_subdirs j,
        wk_matches := wk_matches w @ jb_found j,
        wk_hit := (wk_hit w \<or> full),
        wk_count := (if full then wk_count w + 1 else wk_count w),
        wk_read := (if full then wk_read w else insert (jb_dir j) (wk_read w))\<rparr>)"

inductive walk_step :: "scan \<Rightarrow> nat \<Rightarrow> walk \<Rightarrow> walk \<Rightarrow> bool" for sc workers where
  Take: "wk_stack w \<noteq> [] \<Longrightarrow> \<not> wk_hit w \<Longrightarrow> length (wk_jobs w) < workers \<Longrightarrow>
    walk_step sc workers w (take_folder sc w)"
| Count: "i < length (wk_jobs w) \<Longrightarrow> jb_rest (wk_jobs w ! i) \<noteq> [] \<Longrightarrow> wk_count w + 1 \<le> sc_limit sc \<Longrightarrow>
    walk_step sc workers w (count_entry sc i w)"
| Full: "i < length (wk_jobs w) \<Longrightarrow> jb_rest (wk_jobs w ! i) \<noteq> [] \<Longrightarrow> wk_count w + 1 > sc_limit sc \<Longrightarrow>
    walk_step sc workers w (merge_job i True w)"
| Done: "i < length (wk_jobs w) \<Longrightarrow> jb_rest (wk_jobs w ! i) = [] \<Longrightarrow>
    walk_step sc workers w (merge_job i False w)"

inductive walk_reach :: "scan \<Rightarrow> nat \<Rightarrow> walk \<Rightarrow> bool" for sc workers where
  Init: "walk_reach sc workers (walk_init sc)"
| Step: "walk_reach sc workers w \<Longrightarrow> walk_step sc workers w w' \<Longrightarrow> walk_reach sc workers w'"

inductive_cases walk_stepE: "walk_step sc workers w w'"

text \<open>All workers have returned: nobody reads, and there is nothing to take.\<close>

definition walk_over :: "walk \<Rightarrow> bool" where
  "walk_over w \<longleftrightarrow> wk_jobs w = [] \<and> (wk_stack w = [] \<or> wk_hit w)"

section \<open>What must be found\<close>

text \<open>
  The folders the walk is to read: the resolved root, and the sub-folders that are neither denied, nor
  matched, nor on the list of names it skips.  What it must find are the matches in them.
\<close>

inductive_set scanned :: "scan \<Rightarrow> string set" for sc where
  Root: "sc_resolved sc \<in> scanned sc"
| Sub: "d \<in> scanned sc \<Longrightarrow> e \<in> set (sc_entries sc d) \<Longrightarrow> p \<in> set (entry_subdirs sc d e) \<Longrightarrow> p \<in> scanned sc"

definition to_hide :: "scan \<Rightarrow> string set" where
  "to_hide sc = {p. \<exists>d \<in> scanned sc. \<exists>e \<in> set (sc_entries sc d). p \<in> set (entry_found sc d e)}"

section \<open>The invariant\<close>

text \<open>
  A job has read a prefix of its folder.  Everything on the stack is to be read; while the cap is not
  reached, every folder read has its sub-folders read, in work or on the stack, and its matches merged.
\<close>

definition job_ok :: "scan \<Rightarrow> job \<Rightarrow> bool" where
  "job_ok sc j \<longleftrightarrow> jb_dir j \<in> scanned sc \<and>
     (\<exists>pre. sc_entries sc (jb_dir j) = pre @ jb_rest j \<and>
        jb_subdirs j = concat (map (entry_subdirs sc (jb_dir j)) pre) \<and>
        jb_found j = concat (map (entry_found sc (jb_dir j)) pre))"

definition pending_dirs :: "walk \<Rightarrow> string set" where
  "pending_dirs w = wk_read w \<union> jb_dir ` set (wk_jobs w) \<union> set (wk_stack w)"

definition walk_inv :: "scan \<Rightarrow> walk \<Rightarrow> bool" where
  "walk_inv sc w \<longleftrightarrow>
     (\<forall>j \<in> set (wk_jobs w). job_ok sc j) \<and> set (wk_stack w) \<subseteq> scanned sc \<and> set (wk_matches w) \<subseteq> to_hide sc \<and>
     (\<not> wk_hit w \<longrightarrow> sc_resolved sc \<in> pending_dirs w \<and>
        (\<forall>d \<in> wk_read w. \<forall>e \<in> set (sc_entries sc d).
           set (entry_subdirs sc d e) \<subseteq> pending_dirs w \<and> set (entry_found sc d e) \<subseteq> set (wk_matches w)))"

lemma walk_inv_init: "walk_inv sc (walk_init sc)"
  by (simp add: walk_inv_def walk_init_def pending_dirs_def scanned.Root)

lemma job_okD:
  assumes "job_ok sc j"
  shows "set (jb_subdirs j) \<subseteq> scanned sc" "set (jb_found j) \<subseteq> to_hide sc"
proof -
  obtain pre where p: "sc_entries sc (jb_dir j) = pre @ jb_rest j"
      "jb_subdirs j = concat (map (entry_subdirs sc (jb_dir j)) pre)"
      "jb_found j = concat (map (entry_found sc (jb_dir j)) pre)"
    using assms unfolding job_ok_def by blast
  then have pre: "set pre \<subseteq> set (sc_entries sc (jb_dir j))"
      "set (jb_subdirs j) = (\<Union>e \<in> set pre. set (entry_subdirs sc (jb_dir j) e))"
      "set (jb_found j) = (\<Union>e \<in> set pre. set (entry_found sc (jb_dir j) e))"
    by simp_all
  have d: "jb_dir j \<in> scanned sc" using assms by (simp add: job_ok_def)
  show "set (jb_subdirs j) \<subseteq> scanned sc" using pre(1,2) scanned.Sub [OF d] by blast
  show "set (jb_found j) \<subseteq> to_hide sc" using pre(1,3) d unfolding to_hide_def by blast
qed

lemma job_ok_new: "d \<in> scanned sc \<Longrightarrow> job_ok sc \<lparr>jb_dir = d, jb_rest = sc_entries sc d, jb_subdirs = [], jb_found = []\<rparr>"
  by (simp add: job_ok_def)

lemma job_ok_advance:
  assumes "job_ok sc j" "jb_rest j \<noteq> []"
  shows "job_ok sc (advance sc j)"
proof -
  obtain pre where pre: "sc_entries sc (jb_dir j) = pre @ jb_rest j"
      "jb_subdirs j = concat (map (entry_subdirs sc (jb_dir j)) pre)"
      "jb_found j = concat (map (entry_found sc (jb_dir j)) pre)"
    using assms(1) by (auto simp: job_ok_def)
  then have "sc_entries sc (jb_dir j) = (pre @ [hd (jb_rest j)]) @ tl (jb_rest j)"
    using assms(2) by simp
  then show ?thesis
    using assms(1) pre(2,3) unfolding job_ok_def advance_def
    by (intro conjI exI [of _ "pre @ [hd (jb_rest j)]"]) simp_all
qed

lemma set_drop_nth: "i < length xs \<Longrightarrow> set xs = insert (xs ! i) (set (drop_nth i xs))"
  by (subst (1) id_take_nth_drop [of i xs]) (auto simp: drop_nth_def)

lemma butlast_last: "xs \<noteq> [] \<Longrightarrow> set xs = insert (last xs) (set (butlast xs))"
  by (subst (1) append_butlast_last_id [symmetric]) (auto simp del: append_butlast_last_id)

lemma inv_take:
  assumes "walk_inv sc w" "wk_stack w \<noteq> []"
  shows "walk_inv sc (take_folder sc w)"
proof -
  have s: "last (wk_stack w) \<in> scanned sc" "set (butlast (wk_stack w)) \<subseteq> scanned sc"
    using assms butlast_last [OF assms(2)] by (auto simp: walk_inv_def)
  have "pending_dirs (take_folder sc w) = pending_dirs w"
    using butlast_last [OF assms(2)] by (auto simp: pending_dirs_def take_folder_def)
  then show ?thesis
    using assms s by (auto simp: walk_inv_def take_folder_def job_ok_new)
qed

lemma inv_count:
  assumes "walk_inv sc w" "i < length (wk_jobs w)" "jb_rest (wk_jobs w ! i) \<noteq> []"
  shows "walk_inv sc (count_entry sc i w)"
proof -
  have j: "job_ok sc (wk_jobs w ! i)" using assms(1,2) by (auto simp: walk_inv_def)
  have "jb_dir ` set ((wk_jobs w)[i := advance sc (wk_jobs w ! i)]) = jb_dir ` set (wk_jobs w)"
  proof -
    have "map jb_dir ((wk_jobs w)[i := advance sc (wk_jobs w ! i)]) = map jb_dir (wk_jobs w)"
      using assms(2) by (simp add: map_update advance_def list_update_same_conv)
    then show ?thesis by (metis set_map)
  qed
  then have "pending_dirs (count_entry sc i w) = pending_dirs w"
    by (simp add: pending_dirs_def count_entry_def)
  moreover have "job_ok sc x" if "x \<in> set ((wk_jobs w)[i := advance sc (wk_jobs w ! i)])" for x
    using that assms(1,3) j set_update_subset_insert [of "wk_jobs w" i] job_ok_advance [OF j]
    by (auto simp: walk_inv_def)
  ultimately show ?thesis
    using assms(1) by (simp add: walk_inv_def count_entry_def)
qed

lemma inv_merge:
  assumes inv: "walk_inv sc w" and i: "i < length (wk_jobs w)" and f: "full \<or> jb_rest (wk_jobs w ! i) = []"
  shows "walk_inv sc (merge_job i full w)"
proof -
  let ?j = "wk_jobs w ! i"
  have j: "job_ok sc ?j" using inv i by (auto simp: walk_inv_def)
  have s: "set (wk_jobs w) = insert ?j (set (drop_nth i (wk_jobs w)))" by (rule set_drop_nth [OF i])
  have base: "\<forall>x \<in> set (drop_nth i (wk_jobs w)). job_ok sc x" "set (wk_stack w @ jb_subdirs ?j) \<subseteq> scanned sc"
    "set (wk_matches w @ jb_found ?j) \<subseteq> to_hide sc"
    using inv job_okD [OF j] s by (auto simp: walk_inv_def)
  show ?thesis
  proof (cases "full \<or> wk_hit w")
    case True
    then show ?thesis using base by (auto simp: walk_inv_def merge_job_def Let_def)
  next
    case False
    then have r: "jb_rest ?j = []" using f by simp
    then have all: "set (entry_subdirs sc (jb_dir ?j) e) \<subseteq> set (jb_subdirs ?j)"
      "set (entry_found sc (jb_dir ?j) e) \<subseteq> set (jb_found ?j)" if "e \<in> set (sc_entries sc (jb_dir ?j))" for e
      using j that by (auto simp: job_ok_def)
    have p: "pending_dirs (merge_job i full w) = pending_dirs w \<union> set (jb_subdirs ?j)"
      using False s by (auto simp: pending_dirs_def merge_job_def Let_def)
    have "set (entry_subdirs sc d e) \<subseteq> pending_dirs w \<union> set (jb_subdirs ?j) \<and>
        set (entry_found sc d e) \<subseteq> set (wk_matches w @ jb_found ?j)"
      if "d \<in> insert (jb_dir ?j) (wk_read w)" "e \<in> set (sc_entries sc d)" for d e
    proof (cases "d = jb_dir ?j")
      case True
      then show ?thesis using all [of e] that(2) by auto
    next
      case other: False
      then have "d \<in> wk_read w" using that(1) by simp
      moreover have "\<forall>d \<in> wk_read w. \<forall>e \<in> set (sc_entries sc d).
          set (entry_subdirs sc d e) \<subseteq> pending_dirs w \<and> set (entry_found sc d e) \<subseteq> set (wk_matches w)"
        using inv False by (simp add: walk_inv_def)
      ultimately show ?thesis using that(2) by fastforce
    qed
    then show ?thesis
      using inv base False unfolding walk_inv_def p by (simp add: merge_job_def Let_def)
  qed
qed

lemma walk_inv_reach: "walk_reach sc workers w \<Longrightarrow> walk_inv sc w"
proof (induction rule: walk_reach.induct)
  case (Step w w')
  from Step.hyps(2) Step.IH show ?case
    by (cases rule: walk_step.cases) (simp_all add: inv_take inv_count inv_merge)
qed (rule walk_inv_init)

section \<open>One worker\<close>

text \<open>The run of a single worker, executable: reading one folder, and the loop over the stack.\<close>

fun read_folder ::
    "scan \<Rightarrow> string \<Rightarrow> (string \<times> bool) list \<Rightarrow> nat \<Rightarrow> string list \<Rightarrow> string list \<Rightarrow>
     nat \<times> string list \<times> string list \<times> bool" where
  "read_folder sc dir [] count subdirs found = (count, subdirs, found, False)"
| "read_folder sc dir (e # es) count subdirs found =
     (if count + 1 > sc_limit sc then (count + 1, subdirs, found, True)
      else read_folder sc dir es (count + 1) (subdirs @ entry_subdirs sc dir e) (found @ entry_found sc dir e))"

fun walk_loop :: "nat \<Rightarrow> scan \<Rightarrow> string list \<Rightarrow> nat \<Rightarrow> string list \<Rightarrow> (string list \<times> bool) option" where
  "walk_loop 0 sc stack count found = None"
| "walk_loop (Suc fuel) sc stack count found =
     (if stack = [] then Some (found, False)
      else let (c, subdirs, new, full) = read_folder sc (last stack) (sc_entries sc (last stack)) count [] []
           in if full then Some (found @ new, True)
              else walk_loop fuel sc (butlast stack @ subdirs) c (found @ new))"

text \<open>Every folder on the stack but the root was counted, so the cap bounds the loop.\<close>

definition walk_one_deny_root :: "scan \<Rightarrow> (string list \<times> bool) option" where
  "walk_one_deny_root sc = walk_loop (sc_limit sc + 2) sc [sc_resolved sc] 1 []"

lemma entry_subdirs_short: "length (entry_subdirs sc dir e) \<le> 1"
  by (simp add: entry_subdirs_def Let_def)

lemma read_folder_bound:
  "read_folder sc dir es c subs fnd = (c', subs', fnd', False) \<Longrightarrow>
   length subs' + (sc_limit sc - c') \<le> length subs + (sc_limit sc - c)"
proof (induction es arbitrary: c subs fnd)
  case (Cons e es)
  then have c: "c + 1 \<le> sc_limit sc"
    and r: "read_folder sc dir es (c + 1) (subs @ entry_subdirs sc dir e) (fnd @ entry_found sc dir e) = (c', subs', fnd', False)"
    by (simp_all split: if_splits)
  show ?case using Cons.IH [OF r] c entry_subdirs_short [of sc dir e] by simp
qed simp

lemma walk_loop_total:
  "length stack + (sc_limit sc - c) < fuel \<Longrightarrow> \<exists>r. walk_loop fuel sc stack c fnd = Some r"
proof (induction fuel arbitrary: stack c fnd)
  case (Suc fuel)
  show ?case
  proof (cases "stack = []")
    case ne: False
    obtain c' subs new full where r:
      "read_folder sc (last stack) (sc_entries sc (last stack)) c [] [] = (c', subs, new, full)"
      by (metis prod_cases4)
    show ?thesis
    proof (cases full)
      case False
      obtain n where n: "length stack = Suc n" using ne by (cases stack) simp_all
      have "length (butlast stack @ subs) + (sc_limit sc - c') < fuel"
        using read_folder_bound [of sc "last stack" "sc_entries sc (last stack)" c "[]" "[]" c' subs new] r False Suc.prems n
        by simp
      from Suc.IH [OF this] show ?thesis using ne r False by simp
    qed (auto simp: ne r)
  qed auto
qed simp

text \<open>A folder read by the single worker is a run of steps of the relation.\<close>

lemma single_read:
  assumes "walk_reach sc workers w" "wk_jobs w = [\<lparr>jb_dir = dir, jb_rest = es, jb_subdirs = subs, jb_found = fnd\<rparr>]"
    and "read_folder sc dir es (wk_count w) subs fnd = (c', subs', fnd', full)"
  shows "\<exists>w'. walk_reach sc workers w' \<and> wk_jobs w' = [] \<and> wk_stack w' = wk_stack w @ subs' \<and>
    wk_matches w' = wk_matches w @ fnd' \<and> wk_count w' = c' \<and> wk_hit w' = (wk_hit w \<or> full)"
  using assms
proof (induction es arbitrary: w subs fnd)
  case Nil
  have "walk_step sc workers w (merge_job 0 False w)" by (rule walk_step.Done) (simp_all add: Nil)
  with Nil show ?case
    by (intro exI [of _ "merge_job 0 False w"] conjI walk_reach.Step [OF Nil(1)])
       (simp_all add: merge_job_def drop_nth_def)
next
  case (Cons e es)
  show ?case
  proof (cases "wk_count w + 1 > sc_limit sc")
    case True
    have "walk_step sc workers w (merge_job 0 True w)"
      by (rule walk_step.Full) (use Cons.prems True in simp_all)
    with Cons.prems True show ?thesis
      by (intro exI [of _ "merge_job 0 True w"] conjI walk_reach.Step [OF Cons.prems(1)])
         (simp_all add: merge_job_def drop_nth_def)
  next
    case False
    have st: "walk_step sc workers w (count_entry sc 0 w)"
      by (rule walk_step.Count) (use Cons.prems False in simp_all)
    have j: "wk_jobs (count_entry sc 0 w) =
        [\<lparr>jb_dir = dir, jb_rest = es, jb_subdirs = subs @ entry_subdirs sc dir e, jb_found = fnd @ entry_found sc dir e\<rparr>]"
      using Cons.prems(2) by (simp add: count_entry_def advance_def)
    have r: "read_folder sc dir es (wk_count (count_entry sc 0 w)) (subs @ entry_subdirs sc dir e)
        (fnd @ entry_found sc dir e) = (c', subs', fnd', full)"
      using Cons.prems(3) False by (simp add: count_entry_def)
    show ?thesis
      using Cons.IH [OF walk_reach.Step [OF Cons.prems(1) st] j r] by (simp add: count_entry_def)
  qed
qed

lemma walk_loop_reach:
  assumes "walk_reach sc workers w" "wk_jobs w = []" "\<not> wk_hit w" "0 < workers"
    and "walk_loop fuel sc (wk_stack w) (wk_count w) (wk_matches w) = Some (fnd, hit)"
  shows "\<exists>w'. walk_reach sc workers w' \<and> walk_over w' \<and> wk_matches w' = fnd \<and> wk_hit w' = hit"
  using assms
proof (induction fuel arbitrary: w)
  case (Suc fuel)
  show ?case
  proof (cases "wk_stack w = []")
    case True
    then show ?thesis using Suc.prems by (intro exI [of _ w]) (simp add: walk_over_def)
  next
    case ne: False
    obtain c' subs new full where r:
      "read_folder sc (last (wk_stack w)) (sc_entries sc (last (wk_stack w))) (wk_count w) [] [] = (c', subs, new, full)"
      by (metis prod_cases4)
    let ?t = "take_folder sc w"
    have t: "walk_reach sc workers ?t"
      by (rule walk_reach.Step [OF Suc.prems(1)], rule walk_step.Take) (use Suc.prems ne in simp_all)
    have tj: "wk_jobs ?t = [\<lparr>jb_dir = last (wk_stack w), jb_rest = sc_entries sc (last (wk_stack w)), jb_subdirs = [], jb_found = []\<rparr>]"
      using Suc.prems(2) by (simp add: take_folder_def)
    have tc: "wk_count ?t = wk_count w" by (simp add: take_folder_def)
    obtain w' where w': "walk_reach sc workers w'" "wk_jobs w' = []" "wk_stack w' = butlast (wk_stack w) @ subs"
        "wk_matches w' = wk_matches w @ new" "wk_count w' = c'" "wk_hit w' = full"
      using single_read [OF t tj r [folded tc]] Suc.prems(3) by (auto simp: take_folder_def)
    show ?thesis
    proof (cases full)
      case True
      then show ?thesis using w' Suc.prems(5) ne r by (intro exI [of _ w']) (simp add: walk_over_def)
    next
      case False
      show ?thesis
        by (rule Suc.IH [OF w'(1,2)]) (use w' Suc.prems(4,5) ne r False in simp_all)
    qed
  qed
qed simp

section \<open>Properties\<close>

lemma scanned_read:
  assumes "walk_inv sc w" "walk_over w" "\<not> wk_hit w"
  shows "scanned sc \<subseteq> wk_read w"
proof
  fix d assume "d \<in> scanned sc"
  then show "d \<in> wk_read w"
    using assms by induction (auto simp: walk_inv_def walk_over_def pending_dirs_def)
qed

lemma walk_complete:
  assumes "walk_reach sc workers w" "walk_over w" "\<not> wk_hit w"
  shows "set (wk_matches w) = to_hide sc"
proof -
  have inv: "walk_inv sc w" by (rule walk_inv_reach [OF assms(1)])
  then have "to_hide sc \<subseteq> set (wk_matches w)"
    using scanned_read [OF inv assms(2,3)] assms(3) unfolding walk_inv_def to_hide_def by blast
  then show ?thesis using inv unfolding walk_inv_def by blast
qed

lemma walk_returns:
  "\<exists>found hit v. walk_one_deny_root sc = Some (found, hit) \<and> walk_reach sc (Suc k) v \<and> walk_over v \<and>
     wk_matches v = found \<and> wk_hit v = hit"
proof -
  have "\<exists>r. walk_one_deny_root sc = Some r"
    unfolding walk_one_deny_root_def by (rule walk_loop_total) simp
  then obtain found hit where r: "walk_one_deny_root sc = Some (found, hit)" by auto
  then have "walk_loop (sc_limit sc + 2) sc (wk_stack (walk_init sc)) (wk_count (walk_init sc))
      (wk_matches (walk_init sc)) = Some (found, hit)"
    by (simp add: walk_one_deny_root_def walk_init_def)
  from walk_loop_reach [OF walk_reach.Init _ _ _ this, of "Suc k"]
  show ?thesis using r by (auto simp: walk_init_def)
qed

lemma walk_one_complete: "walk_one_deny_root sc = Some (found, False) \<Longrightarrow> set found = to_hide sc"
  using walk_returns [of sc 0] walk_complete by auto

text \<open>
  C29: The scan is complete or says so.  In every interleaving of the workers, what has been found is
  to be hidden; and once they have all returned without reaching the cap, every match in a folder that
  can be reached through folders neither denied, matched nor skipped by name has been found.
\<close>

theorem deny_scan_complete:
  assumes "walk_reach sc workers w"
  shows "set (wk_matches w) \<subseteq> to_hide sc \<and> (walk_over w \<and> \<not> wk_hit w \<longrightarrow> set (wk_matches w) = to_hide sc)"
proof -
  have "set (wk_matches w) \<subseteq> to_hide sc" using walk_inv_reach [OF assms] by (simp add: walk_inv_def)
  then show ?thesis using walk_complete [OF assms] by blast
qed

definition demo_scan :: scan where
  "demo_scan =
     \<lparr>sc_entries = (\<lambda>d. if d = ''/p'' then [(''.env'', False), (''s'', True), (''dist'', True)]
                       else if d = ''/p/s'' then [(''.env'', True)] else [(''.env'', False)]),
      sc_globs = [''.env''], sc_protected = {}, sc_limit = 9, sc_root = ''/p'', sc_resolved = ''/p''\<rparr>"

lemma demo_matches: "matches_glob [''.env''] name \<longleftrightarrow> name = ''.env''"
  by (auto simp: matches_glob_def glob_match_literal no_meta_def)

lemma demo_walk: "walk_one_deny_root demo_scan = Some ([''/p/.env'', ''/p/s/.env''], False)"
  by (simp add: walk_one_deny_root_def demo_scan_def entry_found_def entry_subdirs_def demo_matches
      deny_scan_skip_dir_names_def numeral_eq_Suc gostr)

theorem deny_scan_complete_witness:
  "\<exists>w. walk_reach demo_scan 4 w \<and> walk_over w \<and> to_hide demo_scan = {''/p/.env'', ''/p/s/.env''}"
proof -
  have "walk_loop (sc_limit demo_scan + 2) demo_scan (wk_stack (walk_init demo_scan)) (wk_count (walk_init demo_scan))
      (wk_matches (walk_init demo_scan)) = Some ([''/p/.env'', ''/p/s/.env''], False)"
    using demo_walk by (simp add: walk_one_deny_root_def walk_init_def)
  from walk_loop_reach [OF walk_reach.Init _ _ _ this, of 4]
  obtain w where w: "walk_reach demo_scan 4 w" "walk_over w" "\<not> wk_hit w"
      "wk_matches w = [''/p/.env'', ''/p/s/.env'']"
    by (auto simp: walk_init_def)
  then show ?thesis using deny_scan_complete [OF w(1)] by auto
qed

text \<open>A measure every step decreases: entries left, folders left, jobs.\<close>

definition walk_measure :: "scan \<Rightarrow> walk \<Rightarrow> nat" where
  "walk_measure sc w =
     4 * (sc_limit sc - wk_count w) + 2 * (length (wk_stack w) + (\<Sum>j \<leftarrow> wk_jobs w. length (jb_subdirs j))) +
     length (wk_jobs w)"

lemma sum_list_drop_nth:
  "i < length xs \<Longrightarrow> (\<Sum>j \<leftarrow> xs. f j) = f (xs ! i) + (\<Sum>j \<leftarrow> drop_nth i xs. f j :: nat)"
  by (subst (1) id_take_nth_drop [of i xs]) (simp_all add: drop_nth_def)

lemma walk_step_decreases:
  assumes "walk_step sc workers w w'"
  shows "walk_measure sc w' < walk_measure sc w"
  using assms
proof (cases rule: walk_step.cases)
  case Take
  then obtain n where "length (wk_stack w) = Suc n" by (cases "wk_stack w") simp_all
  then show ?thesis using Take by (simp add: walk_measure_def take_folder_def)
next
  case (Count i)
  let ?j = "wk_jobs w ! i"
  have "(\<Sum>j \<leftarrow> (wk_jobs w)[i := advance sc ?j]. length (jb_subdirs j)) \<le>
      Suc (\<Sum>j \<leftarrow> wk_jobs w. length (jb_subdirs j))"
  proof -
    have "drop_nth i ((wk_jobs w)[i := advance sc ?j]) = drop_nth i (wk_jobs w)"
      by (simp add: drop_nth_def)
    then show ?thesis
      using sum_list_drop_nth [of i "wk_jobs w" "\<lambda>j. length (jb_subdirs j)"]
        sum_list_drop_nth [of i "(wk_jobs w)[i := advance sc ?j]" "\<lambda>j. length (jb_subdirs j)"]
        Count entry_subdirs_short [of sc "jb_dir ?j" "hd (jb_rest ?j)"]
      by (simp add: advance_def)
  qed
  moreover have "sc_limit sc - (wk_count w + 1) < sc_limit sc - wk_count w" using Count by simp
  ultimately show ?thesis using Count by (simp add: walk_measure_def count_entry_def)
next
  case (Full i)
  have "length (wk_jobs w) = Suc (length (drop_nth i (wk_jobs w)))" using Full by (simp add: drop_nth_def)
  then show ?thesis
    using Full sum_list_drop_nth [of i "wk_jobs w" "\<lambda>j. length (jb_subdirs j)"]
    by (simp add: walk_measure_def merge_job_def Let_def)
next
  case (Done i)
  have "length (wk_jobs w) = Suc (length (drop_nth i (wk_jobs w)))" using Done by (simp add: drop_nth_def)
  then show ?thesis
    using Done sum_list_drop_nth [of i "wk_jobs w" "\<lambda>j. length (jb_subdirs j)"]
    by (simp add: walk_measure_def merge_job_def Let_def)
qed

lemma walk_progress:
  assumes "0 < workers" "\<not> walk_over w"
  shows "\<exists>w'. walk_step sc workers w w'"
proof (cases "wk_jobs w")
  case Nil
  then have "walk_step sc workers w (take_folder sc w)"
    using assms by (intro walk_step.Take) (simp_all add: walk_over_def)
  then show ?thesis by blast
next
  case (Cons j js)
  show ?thesis
  proof (cases "jb_rest j = []")
    case True
    then show ?thesis using walk_step.Done [of 0 w sc workers] Cons by auto
  next
    case False
    then show ?thesis
      using walk_step.Count [of 0 w sc workers] walk_step.Full [of 0 w sc workers] Cons
      by (cases "wk_count w + 1 \<le> sc_limit sc") auto
  qed
qed

lemma walk_run_bound:
  "(walk_step sc workers ^^ n) w w' \<Longrightarrow> n + walk_measure sc w' \<le> walk_measure sc w"
proof (induction n arbitrary: w')
  case (Suc n)
  then obtain v where v: "(walk_step sc workers ^^ n) w v" "walk_step sc workers v w'" by (auto elim: relpowp_Suc_E)
  then show ?case using Suc.IH [OF v(1)] walk_step_decreases [OF v(2)] by simp
qed simp

text \<open>
  C30: The scan always ends, within the cap.  No run of the workers is longer than four times the cap plus
  two steps, whatever they interleave and however deep the tree; a walk that is not over can go on; and
  the run of one worker returns, with what a finished run of the relation has found.
\<close>

theorem deny_scan_terminates:
  "{n. \<exists>w. (walk_step sc (Suc k) ^^ n) (walk_init sc) w} \<subseteq> {.. 4 * sc_limit sc + 2} \<and>
   (walk_over w \<or> (\<exists>w'. walk_step sc (Suc k) w w')) \<and>
   (\<exists>found hit v. walk_one_deny_root sc = Some (found, hit) \<and>
      walk_reach sc (Suc k) v \<and> walk_over v \<and> wk_matches v = found \<and> wk_hit v = hit)"
proof (intro conjI)
  have "n \<le> 4 * sc_limit sc + 2" if "(walk_step sc (Suc k) ^^ n) (walk_init sc) w" for n w
    using walk_run_bound [OF that] by (simp add: walk_measure_def walk_init_def)
  then show "{n. \<exists>w. (walk_step sc (Suc k) ^^ n) (walk_init sc) w} \<subseteq> {.. 4 * sc_limit sc + 2}" by auto
next
  show "walk_over w \<or> (\<exists>w'. walk_step sc (Suc k) w w')" using walk_progress [of "Suc k" w] by blast
next
  show "\<exists>found hit v. walk_one_deny_root sc = Some (found, hit) \<and> walk_reach sc (Suc k) v \<and> walk_over v \<and>
      wk_matches v = found \<and> wk_hit v = hit"
    by (rule walk_returns)
qed

end
