(* ===== verification/Grants.thy ===== *)
theory Grants
  imports Flags DenyScan "HOL-Library.List_Lexorder" "HOL-Library.Char_ord"
begin

text \<open>
  From a profile to the grants of one launch (\<open>internal/sandboxrun/grants.go\<close>, and the path forms of
  \<open>sbpl.go\<close>): the paths to read, write and deny, the extra grants of a linked git worktree, and the
  resolution of \<open>filesystem.deny\<close>.  The file system is a record of what the program asks it.
\<close>

section \<open>The file system\<close>

text \<open>
  \<open>os.Lstat\<close> with the kind of file, \<open>os.ReadFile\<close>, \<open>filepath.EvalSymlinks\<close> (\<open>None\<close> on an error)
  and \<open>os.ReadDir\<close>.
\<close>

record fs_env =
  fe_stat :: "string \<Rightarrow> lstat"
  fe_is_dir :: "string \<Rightarrow> bool"
  fe_is_socket :: "string \<Rightarrow> bool"
  fe_read :: "string \<Rightarrow> string option"
  fe_resolve :: "string \<Rightarrow> string option"
  fe_entries :: "string \<Rightarrow> (string \<times> bool) list"

text \<open>The loop of \<open>canonicalPath\<close>: the deepest ancestor that resolves, with the tail put back.\<close>

function canonical_loop :: "fs_env \<Rightarrow> string \<Rightarrow> string \<Rightarrow> string" where
  "canonical_loop fe dir tail =
     (if dir = ''/'' \<or> dir = ''.'' then []
      else case fe_resolve fe dir of
        Some r \<Rightarrow> path_join [r, tail]
      | None \<Rightarrow> canonical_loop fe (path_dir dir) (path_join [path_base dir, tail]))"
  by pat_completeness auto

termination
proof (relation "measure (\<lambda>(_, dir, _). if dir = ''.'' then 0 else length dir + 1)")
  fix fe dir tail assume "\<not> (dir = ''/'' \<or> dir = ''.'')" "fe_resolve fe dir = None"
  then show "((fe, path_dir dir, path_join [path_base dir, tail]), fe, dir, tail)
      \<in> measure (\<lambda>(_, dir, _). if dir = ''.'' then 0 else length dir + 1)"
    using path_dir_shorter [of dir] by auto
qed simp

declare canonical_loop.simps [simp del]

text \<open>\<open>canonicalPath\<close> gives the empty string when no ancestor resolves.\<close>

definition canonical_path :: "fs_env \<Rightarrow> string \<Rightarrow> string" where
  "canonical_path fe p =
     (case fe_resolve fe p of Some r \<Rightarrow> r | None \<Rightarrow> canonical_loop fe (path_dir p) (path_base p))"

definition path_forms :: "fs_env \<Rightarrow> string \<Rightarrow> string list" where
  "path_forms fe p =
     (let r = canonical_path fe p in if r \<noteq> [] \<and> r \<noteq> p then [p, r] else [p])"

section \<open>Linked git worktrees\<close>

definition path_within_root :: "fs_env \<Rightarrow> string \<Rightarrow> string \<Rightarrow> bool" where
  "path_within_root fe path root =
     (case fe_resolve fe path of None \<Rightarrow> False | Some rp \<Rightarrow> rp = root \<or> is_under rp root)"

definition read_gitdir_pointer :: "fs_env \<Rightarrow> string \<Rightarrow> string option" where
  "read_gitdir_pointer fe dotgit =
     (case fe_read fe dotgit of
        None \<Rightarrow> None
      | Some data \<Rightarrow>
          (let line = trim_space data; p = trim_space (trim_prefix line ''gitdir:'')
           in if \<not> has_prefix line ''gitdir:'' then None
              else if p = [] then None
              else Some (clean (if is_abs p then p else path_join [path_dir dotgit, p]))))"

definition worktree_back_pointer_valid :: "fs_env \<Rightarrow> string \<Rightarrow> string \<Rightarrow> bool" where
  "worktree_back_pointer_valid fe admin dotgit =
     (case fe_read fe (path_join [admin, ''gitdir'']) of
        None \<Rightarrow> False
      | Some data \<Rightarrow>
          (let ptr = trim_space data;
               apath = clean (if is_abs ptr then ptr else path_join [admin, ptr]);
               canonical = (\<lambda>p. case fe_resolve fe p of Some r \<Rightarrow> r | None \<Rightarrow> p)
           in ptr \<noteq> [] \<and> canonical apath = canonical dotgit))"

definition resolve_worktree_common_dir :: "fs_env \<Rightarrow> string \<Rightarrow> (string \<times> string) option" where
  "resolve_worktree_common_dir fe workdir =
     (let dotgit = path_join [workdir, ''.git''] in
      if fe_stat fe dotgit \<noteq> Exists \<or> fe_is_dir fe dotgit then None
      else case read_gitdir_pointer fe dotgit of
        None \<Rightarrow> None
      | Some admin \<Rightarrow>
          if \<not> worktree_back_pointer_valid fe admin dotgit then None
          else case fe_read fe (path_join [admin, ''commondir'']) of
            None \<Rightarrow> None
          | Some data \<Rightarrow>
              (let rel = trim_space data;
                   common = clean (if is_abs rel then rel else path_join [admin, rel])
               in if rel = [] then None
                  else if path_base (path_dir admin) \<noteq> ''worktrees'' \<or> path_dir (path_dir admin) \<noteq> common then None
                  else Some (common, admin)))"

text \<open>The read-only and the read-write additions (the list of denials is always empty).\<close>

definition git_worktree_grants :: "fs_env \<Rightarrow> string \<Rightarrow> string \<Rightarrow> (string list \<times> string list) option" where
  "git_worktree_grants fe workdir access =
     (case resolve_worktree_common_dir fe workdir of
        None \<Rightarrow> None
      | Some (common, admin) \<Rightarrow>
          (case fe_resolve fe common of
             None \<Rightarrow> None
           | Some root \<Rightarrow>
               (let contained = filter (\<lambda>p. path_within_root fe p root);
                    write_subdirs = contained [path_join [common, ''objects''], path_join [common, ''refs''],
                                               path_join [common, ''logs''], admin];
                    read_only = contained [path_join [common, ''config''], path_join [common, ''info''],
                                           path_join [common, ''packed-refs''], path_join [common, ''hooks'']]
                in if access = ''readwrite'' \<or> access = ''write'' then Some (read_only, write_subdirs)
                   else if access = ''read'' then Some (write_subdirs @ read_only, [])
                   else None)))"

section \<open>Which folders are scanned\<close>

definition deny_scan_skip_paths :: "string list" where
  "deny_scan_skip_paths = [''/nix/store'']"

definition in_deny_scan_skip_path :: "fs_env \<Rightarrow> string \<Rightarrow> bool" where
  "in_deny_scan_skip_path fe p =
     list_ex (\<lambda>fp. list_ex (\<lambda>s. fp = s \<or> is_under fp s) deny_scan_skip_paths) (path_forms fe p)"

definition dedupe :: "string list \<Rightarrow> string list" where
  "dedupe xs = sort (remdups (filter (\<lambda>s. s \<noteq> []) xs))"

definition dedupe_ints :: "int list \<Rightarrow> int list" where
  "dedupe_ints xs = sort (remdups xs)"

definition deny_scan_roots :: "host_env \<Rightarrow> fs_env \<Rightarrow> profile \<Rightarrow> string \<Rightarrow> grant_error + string list" where
  "deny_scan_roots env fe p workdir =
     (let fs = pr_fs p in
      case expand_existing env (fe_stat fe) (pf_read fs @ pf_write fs @ pf_allow fs) of
        Inl e \<Rightarrow> Inl e
      | Inr roots \<Rightarrow>
          (let access = pr_workdir_access p;
               all = (if access \<noteq> [] \<and> access \<noteq> ''none'' then roots @ [workdir] else roots)
           in Inr (dedupe (filter (\<lambda>r. \<not> in_deny_scan_skip_path fe r) all))))"

section \<open>Resolving the denied paths\<close>

definition literal_denies :: "profile \<Rightarrow> string list" where
  "literal_denies p = map clean (pf_deny_literal (pr_fs p))"

definition path_form_denies :: "host_env \<Rightarrow> string list \<Rightarrow> string list" where
  "path_form_denies env deny =
     List.map_filter
       (\<lambda>d. if is_basename_glob d then None
            else case expand_path env d of Inl _ \<Rightarrow> None | Inr p \<Rightarrow> Some p) deny"

text \<open>The first occurrence of each match is kept, in root order.\<close>

definition dedup_first :: "'a list \<Rightarrow> 'a list" where
  "dedup_first xs = rev (remdups (rev xs))"

definition scan_of :: "fs_env \<Rightarrow> nat \<Rightarrow> string list \<Rightarrow> string set \<Rightarrow> string \<Rightarrow> scan" where
  "scan_of fe limit globs protected root =
     \<lparr>sc_entries = fe_entries fe, sc_globs = globs, sc_protected = protected, sc_limit = limit, sc_root = root,
      sc_resolved = (case fe_resolve fe root of Some r \<Rightarrow> r | None \<Rightarrow> root)\<rparr>"

definition walk_protected :: "fs_env \<Rightarrow> string list \<Rightarrow> string set" where
  "walk_protected fe protected_dirs = set (concat (map (path_forms fe) (protected_dirs @ deny_scan_skip_paths)))"

text \<open>The walk of each root always returns (\<open>deny_scan_terminates\<close>).\<close>

definition root_result :: "scan \<Rightarrow> string list \<times> bool" where
  "root_result sc = (case walk_one_deny_root sc of Some r \<Rightarrow> r | None \<Rightarrow> ([], True))"

definition walk_glob_matches ::
    "fs_env \<Rightarrow> nat \<Rightarrow> string list \<Rightarrow> string list \<Rightarrow> string list \<Rightarrow> string list \<times> string list" where
  "walk_glob_matches fe limit roots globs protected_dirs =
     (if globs = [] \<or> roots = [] then ([], [])
      else let result = (\<lambda>root. root_result (scan_of fe limit globs (walk_protected fe protected_dirs) root))
           in (dedup_first (concat (map (\<lambda>r. fst (result r)) roots)), filter (\<lambda>r. snd (result r)) roots))"

text \<open>
  The regular expressions of a name rule (\<open>sbplNameRegex\<close>), \<open>None\<close> for a path or pattern that cannot
  be spelled; letter case by ASCII.
\<close>

definition regex_quote :: "string \<Rightarrow> string" where
  "regex_quote s = concat (map (\<lambda>c. if c \<in> set ([backslash] @ ''.+*?()|[]{}^$'') then [backslash, c] else [c]) s)"

definition upper_char :: "char \<Rightarrow> char" where
  "upper_char c = (if is_lower_alpha c then char_of (code c - 32) else c)"

definition name_regex_char :: "char \<Rightarrow> string" where
  "name_regex_char c =
     (if c = star then ''[^/]*''
      else if c = question then ''[^/]''
      else if lower_char c \<noteq> upper_char c then [lbrack, lower_char c, upper_char c, rbrack]
      else regex_quote [c])"

definition unspellable :: "char list" where
  "unspellable = [dquote, backslash, CHR 0x00, lf, cr]"

definition sbpl_name_regex :: "string \<Rightarrow> string list \<Rightarrow> string list option" where
  "sbpl_name_regex root globs =
     (if list_ex (\<lambda>c. c \<in> set unspellable) root then None
      else if list_ex (\<lambda>g. g = [] \<or> list_ex (\<lambda>c. c \<in> set (lbrack # slash # unspellable)) g) globs then None
      else let prefix = ''^'' @ regex_quote (trim_suffix root ''/'') @ ''/(.*/)?''
           in Some (map (\<lambda>g. prefix @ concat (map name_regex_char g) @ ''(/.*)?$'') globs))"

definition inside_folder :: "fs_env \<Rightarrow> string \<Rightarrow> string \<Rightarrow> bool" where
  "inside_folder fe p root =
     list_ex (\<lambda>pf. list_ex (\<lambda>rf. has_prefix pf (trim_suffix rf ''/'' @ ''/'')) (path_forms fe root)) (path_forms fe p)"

definition can_deny_by_name :: "host_env \<Rightarrow> fs_env \<Rightarrow> bool \<Rightarrow> string \<Rightarrow> string list \<Rightarrow> string list \<Rightarrow> bool" where
  "can_deny_by_name env fe darwin root globs override_deny =
     (darwin \<and>
      \<not> list_ex (\<lambda>o1. case expand_path env o1 of
                        Inl _ \<Rightarrow> False
                      | Inr e \<Rightarrow> is_abs e \<and> inside_folder fe e root \<and> matches_glob globs (path_base e)) override_deny \<and>
      list_all (\<lambda>fp. sbpl_name_regex fp globs \<noteq> None) (path_forms fe root))"

record name_deny =
  nd_roots :: "string list"
  nd_globs :: "string list"

datatype resolve_error = BadPath grant_error | BadUnixDir string expand_error | IncompleteScan string

definition resolve_deny_paths ::
    "host_env \<Rightarrow> fs_env \<Rightarrow> bool \<Rightarrow> nat \<Rightarrow> string list \<Rightarrow> string list \<Rightarrow> string list \<Rightarrow> string list \<Rightarrow> string list \<Rightarrow>
     resolve_error + string list \<times> name_deny" where
  "resolve_deny_paths env fe darwin limit user_deny baseline_names override_deny scan_roots protected_dirs =
     (if user_deny = [] \<and> baseline_names = [] then Inr ([], \<lparr>nd_roots = [], nd_globs = []\<rparr>)
      else
        let explicit = path_form_denies env user_deny;
            overrides = override_lookup env override_deny;
            globs = filter is_basename_glob user_deny @ filter (\<lambda>b. b \<notin> overrides) baseline_names
        in if globs = [] then Inr (explicit, \<lparr>nd_roots = [], nd_globs = []\<rparr>)
           else let (matches, incomplete) = walk_glob_matches fe limit scan_roots globs protected_dirs
                in case find (\<lambda>r. \<not> can_deny_by_name env fe darwin r globs override_deny) incomplete of
                     Some root \<Rightarrow> Inl (IncompleteScan root)
                   | None \<Rightarrow>
                       Inr (explicit @ filter (\<lambda>m. m \<notin> overrides) matches,
                            if incomplete \<noteq> [] then \<lparr>nd_roots = incomplete, nd_globs = globs\<rparr>
                            else \<lparr>nd_roots = [], nd_globs = []\<rparr>))"

section \<open>The grants\<close>

record grants =
  gr_workdir :: string
  gr_read :: "string list"
  gr_write :: "string list"
  gr_allow :: "string list"
  gr_protected :: "string list"
  gr_name_roots :: "string list"
  gr_name_globs :: "string list"
  gr_mode :: string
  gr_proxy_port :: int
  gr_listen_ports :: "int list"
  gr_tcp_connect :: "int list"
  gr_open_ports :: "int list"
  gr_unix_sockets :: "string list"
  gr_unix_dirs :: "string list"
  gr_enforcement :: string
  gr_denial_text :: string
  gr_denial_dir_name :: string

fun unix_dirs :: "host_env \<Rightarrow> string list \<Rightarrow> resolve_error + string list" where
  "unix_dirs env [] = Inr []"
| "unix_dirs env (raw # rest) =
     (case expand_path env raw of
        Inl e \<Rightarrow> if e = EmptyExpansion then unix_dirs env rest else Inl (BadUnixDir raw e)
      | Inr p \<Rightarrow> (case unix_dirs env rest of Inl e \<Rightarrow> Inl e | Inr ps \<Rightarrow> Inr (p # ps)))"

text \<open>Sequencing of the steps that may fail.\<close>

definition bind_sum :: "('e + 'a) \<Rightarrow> ('a \<Rightarrow> 'e + 'b) \<Rightarrow> 'e + 'b" where
  "bind_sum x f = (case x of Inl e \<Rightarrow> Inl e | Inr a \<Rightarrow> f a)"

definition existing :: "host_env \<Rightarrow> fs_env \<Rightarrow> string list \<Rightarrow> resolve_error + string list" where
  "existing env fe paths = (case expand_existing env (fe_stat fe) paths of Inl e \<Rightarrow> Inl (BadPath e) | Inr ps \<Rightarrow> Inr ps)"

text \<open>The grants of a linked worktree that exist, when the workdir is granted at all.\<close>

definition worktree_additions :: "host_env \<Rightarrow> fs_env \<Rightarrow> profile \<Rightarrow> string \<Rightarrow> resolve_error + string list \<times> string list" where
  "worktree_additions env fe p workdir =
     (if pr_workdir_access p = [] \<or> pr_workdir_access p = ''none'' then Inr ([], [])
      else case git_worktree_grants fe workdir (pr_workdir_access p) of
        None \<Rightarrow> Inr ([], [])
      | Some (wr, wa) \<Rightarrow>
          bind_sum (existing env fe wr) (\<lambda>wr'. bind_sum (existing env fe wa) (\<lambda>wa'. Inr (wr', wa'))))"

definition resolve_grants ::
    "host_env \<Rightarrow> fs_env \<Rightarrow> bool \<Rightarrow> nat \<Rightarrow> profile \<Rightarrow> string \<Rightarrow> resolve_error + grants" where
  "resolve_grants env fe darwin limit p workdir =
     (let base = platform_baseline darwin; fs = pr_fs p; access = pr_workdir_access p; n = pr_net p in
      bind_sum (existing env fe (bl_read base @ pf_read fs)) (\<lambda>read.
      bind_sum (existing env fe (bl_write base @ pf_write fs)) (\<lambda>writ.
      bind_sum (existing env fe (pf_allow fs)) (\<lambda>allow.
      bind_sum (unix_dirs env (pf_allow_unix_dir fs)) (\<lambda>udirs.
      bind_sum (case deny_scan_roots env fe p workdir of Inl e \<Rightarrow> Inl (BadPath e) | Inr rs \<Rightarrow> Inr rs) (\<lambda>roots.
      bind_sum (worktree_additions env fe p workdir) (\<lambda>(wr, wa).
      let read1 = read @ (if access = ''read'' then [workdir] else []) @ wr;
          writ1 = writ @ (if access = ''write'' then [workdir] else []);
          allow1 = allow @ udirs @ (if access = ''readwrite'' then [workdir] else []) @ wa;
          protected = effective_protected_paths env base (pf_override_deny fs) @ literal_denies p
      in bind_sum (resolve_deny_paths env fe darwin limit (pf_deny fs) (bl_workdir_protected base)
                     (pf_override_deny fs) (dedupe roots) protected) (\<lambda>(denied, by_name).
         Inr \<lparr>gr_workdir = workdir, gr_read = dedupe read1, gr_write = dedupe writ1, gr_allow = dedupe allow1,
              gr_protected = dedupe (protected @ denied), gr_name_roots = nd_roots by_name,
              gr_name_globs = nd_globs by_name, gr_mode = effective_mode n, gr_proxy_port = 0,
              gr_listen_ports = dedupe_ints (pn_listen_port n), gr_tcp_connect = dedupe_ints (pn_allow_tcp_connect n),
              gr_open_ports = dedupe_ints (pn_open_port n),
              gr_unix_sockets = filter (fe_is_socket fe) (dedupe allow1), gr_unix_dirs = dedupe udirs,
              gr_enforcement = effective_enforcement n, gr_denial_text = [], gr_denial_dir_name = []\<rparr>))))))))"

definition unrestricted_filesystem :: "grants \<Rightarrow> grants" where
  "unrestricted_filesystem g =
     g\<lparr>gr_allow := gr_allow g @ [''/''], gr_protected := [], gr_name_roots := [], gr_name_globs := []\<rparr>"

definition validate_grants :: "grants \<Rightarrow> string option" where
  "validate_grants g =
     (if gr_workdir g = [] then Some ''sandbox grants: empty workdir''
      else if gr_mode g \<notin> {''filtered'', ''blocked'', ''open''}
      then Some (''sandbox grants: invalid network mode '' @ go_quote (gr_mode g))
      else None)"

section \<open>Properties\<close>

lemma set_dedup_first [simp]: "set (dedup_first xs) = set xs"
  by (simp add: dedup_first_def)

lemma set_dedupe [simp]: "set (dedupe xs) = set xs - {[]}"
  by (auto simp: dedupe_def)

lemma dedupe_ordered: "sorted (dedupe xs)" "distinct (dedupe xs)"
  by (simp_all add: dedupe_def)

lemma find_None: "find P xs = None \<longleftrightarrow> (\<forall>x \<in> set xs. \<not> P x)"
  by (auto simp: find_None_iff)

lemma root_result_complete: "\<not> snd (root_result sc) \<Longrightarrow> set (fst (root_result sc)) = to_hide sc"
  using walk_returns [of sc 0] walk_one_complete [of sc] by (auto simp: root_result_def)

lemma no_globs_nothing_to_hide: "sc_globs sc = [] \<Longrightarrow> to_hide sc = {}"
  by (simp add: to_hide_def entry_found_def matches_glob_def Let_def)

text \<open>The globs the walk looks for: those of the user and the baseline names not lifted.\<close>

definition deny_globs :: "host_env \<Rightarrow> string list \<Rightarrow> string list \<Rightarrow> string list \<Rightarrow> string list" where
  "deny_globs env user_deny baseline_names override_deny =
     filter is_basename_glob user_deny @ filter (\<lambda>b. b \<notin> override_lookup env override_deny) baseline_names"

lemma resolve_deny_walked:
  assumes "resolve_deny_paths env fe darwin limit user_deny names override_deny roots prot = Inr (out, nd)"
    and "globs = deny_globs env user_deny names override_deny" "globs \<noteq> []"
  shows "out = path_form_denies env user_deny @
      filter (\<lambda>m. m \<notin> override_lookup env override_deny) (fst (walk_glob_matches fe limit roots globs prot)) \<and>
    nd_roots nd = snd (walk_glob_matches fe limit roots globs prot) \<and> (nd_roots nd \<noteq> [] \<longrightarrow> nd_globs nd = globs) \<and>
    (\<forall>r \<in> set (nd_roots nd). can_deny_by_name env fe darwin r globs override_deny)"
proof -
  have ne: "\<not> (user_deny = [] \<and> names = [])" using assms(2,3) by (auto simp: deny_globs_def)
  obtain matches incomplete where w: "walk_glob_matches fe limit roots globs prot = (matches, incomplete)"
    by fastforce
  note r = assms(1) [unfolded resolve_deny_paths_def Let_def if_not_P [OF ne], folded deny_globs_def, folded assms(2),
      unfolded if_not_P [OF assms(3)] w prod.case]
  have f: "find (\<lambda>r. \<not> can_deny_by_name env fe darwin r globs override_deny) incomplete = None"
    using r by (cases "find (\<lambda>r. \<not> can_deny_by_name env fe darwin r globs override_deny) incomplete") simp_all
  then show ?thesis using r [unfolded f option.case] w by (auto simp: find_None split: if_splits)
qed

lemma resolve_deny_explicit:
  assumes "resolve_deny_paths env fe darwin limit user_deny names override_deny roots prot = Inr (out, nd)"
  shows "set (path_form_denies env user_deny) \<subseteq> set out"
proof (cases "deny_globs env user_deny names override_deny = []")
  case True
  then show ?thesis
    using assms unfolding resolve_deny_paths_def Let_def deny_globs_def
    by (auto simp: path_form_denies_def List.map_filter_simps split: if_splits)
next
  case False
  then show ?thesis using resolve_deny_walked [OF assms refl False] by simp
qed

lemma in_path_form_denies:
  "d \<in> set deny \<Longrightarrow> \<not> is_basename_glob d \<Longrightarrow> expand_path env d = Inr q \<Longrightarrow> q \<in> set (path_form_denies env deny)"
  by (force simp: path_form_denies_def set_map_filter)

lemma resolve_deny_roots:
  assumes "resolve_deny_paths env fe darwin limit user_deny names override_deny roots prot = Inr (out, nd)"
    and "root \<in> set roots" "globs = deny_globs env user_deny names override_deny"
  shows "(root \<in> set (nd_roots nd) \<and> nd_globs nd = globs \<and> can_deny_by_name env fe darwin root globs override_deny) \<or>
    to_hide (scan_of fe limit globs (walk_protected fe prot) root) \<subseteq> set out \<union> override_lookup env override_deny"
proof (cases "globs = []")
  case True
  then show ?thesis by (simp add: no_globs_nothing_to_hide scan_of_def)
next
  case False
  let ?sc = "scan_of fe limit globs (walk_protected fe prot)"
  note w = resolve_deny_walked [OF assms(1,3) False]
  have roots: "roots \<noteq> []" using assms(2) by auto
  have m: "set (fst (walk_glob_matches fe limit roots globs prot)) = (\<Union>r \<in> set roots. set (fst (root_result (?sc r))))"
    "snd (walk_glob_matches fe limit roots globs prot) = filter (\<lambda>r. snd (root_result (?sc r))) roots"
    using False roots by (simp_all add: walk_glob_matches_def Let_def)
  show ?thesis
  proof (cases "snd (root_result (?sc root))")
    case True
    then have "root \<in> set (nd_roots nd)" using w m(2) assms(2) by simp
    then show ?thesis using w by auto
  next
    case False
    then have "to_hide (?sc root) \<subseteq> set (fst (walk_glob_matches fe limit roots globs prot))"
      using root_result_complete [of "?sc root"] m(1) assms(2) by auto
    then show ?thesis using w by auto
  qed
qed

text \<open>
  C32: The deny list fails closed.  When \<open>resolveDenyPaths\<close> succeeds, every path-form entry that expands
  is denied under its expansion, and for every scanned root either each match below it (in the folders
  the scan does not skip) is denied, unless lifted by name or path, or the root is one that the sandbox
  covers by a name rule with all the globs; on Linux, where there is no such rule, no root is left over.
\<close>

theorem deny_list_fails_closed:
  assumes "resolve_deny_paths env fe darwin limit user_deny names override_deny roots prot = Inr (out, nd)"
  shows "(\<forall>d \<in> set user_deny. \<forall>q. \<not> is_basename_glob d \<and> expand_path env d = Inr q \<longrightarrow> q \<in> set out) \<and>
    (\<forall>root \<in> set roots. (darwin \<and> root \<in> set (nd_roots nd) \<and> nd_globs nd = deny_globs env user_deny names override_deny) \<or>
       to_hide (scan_of fe limit (deny_globs env user_deny names override_deny) (walk_protected fe prot) root)
         \<subseteq> set out \<union> override_lookup env override_deny)"
proof (intro conjI ballI allI impI)
  fix d q assume "d \<in> set user_deny" "\<not> is_basename_glob d \<and> expand_path env d = Inr q"
  then show "q \<in> set out" using in_path_form_denies resolve_deny_explicit [OF assms] by blast
next
  fix root assume "root \<in> set roots"
  from resolve_deny_roots [OF assms this refl]
  show "(darwin \<and> root \<in> set (nd_roots nd) \<and> nd_globs nd = deny_globs env user_deny names override_deny) \<or>
       to_hide (scan_of fe limit (deny_globs env user_deny names override_deny) (walk_protected fe prot) root)
         \<subseteq> set out \<union> override_lookup env override_deny"
    by (auto simp: can_deny_by_name_def)
qed

definition demo_fs :: fs_env where
  "demo_fs =
     \<lparr>fe_stat = (\<lambda>p. Exists), fe_is_dir = (\<lambda>p. p \<noteq> ''/w/.git''), fe_is_socket = (\<lambda>p. False),
      fe_read = (\<lambda>p. if p = ''/w/.git'' then Some (''gitdir: /r/.git/worktrees/w'' @ [lf])
                      else if p = ''/r/.git/worktrees/w/gitdir'' then Some ''/w/.git''
                      else if p = ''/r/.git/worktrees/w/commondir'' then Some ''../..'' else None),
      fe_resolve = (\<lambda>p. if p = ''/r/.git/objects'' then Some ''/r/.git/hooks'' else Some p),
      fe_entries = sc_entries demo_scan\<rparr>"

lemma demo_fs_simps:
  "fe_resolve demo_fs p = (if p = ''/r/.git/objects'' then Some ''/r/.git/hooks'' else Some p)"
  "fe_entries demo_fs = sc_entries demo_scan" "fe_stat demo_fs p = Exists" "fe_is_dir demo_fs p = (p \<noteq> ''/w/.git'')"
  by (simp_all add: demo_fs_def)

lemma demo_forms: "path_forms demo_fs p = (if p = ''/r/.git/objects'' then [p, ''/r/.git/hooks''] else [p])"
  by (simp add: path_forms_def canonical_path_def demo_fs_simps)

lemma demo_deny:
  "resolve_deny_paths demo_host_env demo_fs False 9 [''.env'', ''/etc/x''] [] [] [''/p''] [] =
     Inr ([''/etc/x'', ''/p/.env'', ''/p/s/.env''], \<lparr>nd_roots = [], nd_globs = []\<rparr>)"
proof -
  have s: "scan_of demo_fs 9 [''.env''] (walk_protected demo_fs []) ''/p'' = demo_scan\<lparr>sc_protected := {''/nix/store''}\<rparr>"
    by (simp add: scan_of_def walk_protected_def demo_forms deny_scan_skip_paths_def demo_fs_simps) (simp add: demo_scan_def)
  have w: "root_result (demo_scan\<lparr>sc_protected := {''/nix/store''}\<rparr>) = ([''/p/.env'', ''/p/s/.env''], False)"
    by (simp add: root_result_def walk_one_deny_root_def demo_scan_def entry_found_def entry_subdirs_def demo_matches
        deny_scan_skip_dir_names_def numeral_eq_Suc gostr)
  have g: "walk_glob_matches demo_fs 9 [''/p''] [''.env''] [] = ([''/p/.env'', ''/p/s/.env''], [])"
    by (simp add: walk_glob_matches_def s w dedup_first_def)
  have e: "path_form_denies demo_host_env [''.env'', ''/etc/x''] = [''/etc/x'']"
    by (simp add: path_form_denies_def List.map_filter_simps is_basename_glob_def expand_eval gostr)
  show ?thesis
    by (simp add: resolve_deny_paths_def g e is_basename_glob_def override_lookup_def List.map_filter_simps has_prefix_def)
qed

theorem deny_list_fails_closed_witness:
  "to_hide (scan_of demo_fs 9 (deny_globs demo_host_env [''.env'', ''/etc/x''] [] []) (walk_protected demo_fs []) ''/p'')
     \<subseteq> {''/etc/x'', ''/p/.env'', ''/p/s/.env''}"
  using deny_list_fails_closed [OF demo_deny] by (simp add: override_lookup_def List.map_filter_simps)

lemma resolve_worktree_shape:
  assumes "resolve_worktree_common_dir fe workdir = Some (common, admin)"
  shows "worktree_back_pointer_valid fe admin (path_join [workdir, ''.git'']) \<and> path_dir (path_dir admin) = common \<and>
    path_base (path_dir admin) = ''worktrees''"
  using assms unfolding resolve_worktree_common_dir_def Let_def
  by (simp split: option.splits if_splits)

text \<open>
  What a linked worktree opens up.  \<open>gitWorktreeGrants\<close> grants something only if the admin directory
  points back at the workdir's own \<open>.git\<close> file and lies at \<open><common>/worktrees/<name>\<close>; every path it
  grants resolves inside the resolved common directory; it grants for writing at most the objects, refs,
  logs and the admin directory, and nothing for writing to a read-only workdir.
\<close>

theorem worktree_grants_contained:
  assumes "git_worktree_grants fe workdir access = Some (ro, rw)"
  shows "\<exists>common admin root. resolve_worktree_common_dir fe workdir = Some (common, admin) \<and>
    fe_resolve fe common = Some root \<and> worktree_back_pointer_valid fe admin (path_join [workdir, ''.git'']) \<and>
    path_dir (path_dir admin) = common \<and>
    (\<forall>p \<in> set ro \<union> set rw. \<exists>rp. fe_resolve fe p = Some rp \<and> (rp = root \<or> is_under rp root)) \<and>
    set rw \<subseteq> {path_join [common, ''objects''], path_join [common, ''refs''], path_join [common, ''logs''], admin} \<and>
    (access = ''read'' \<longrightarrow> rw = [])"
proof -
  obtain common admin where ca: "resolve_worktree_common_dir fe workdir = Some (common, admin)"
    using assms unfolding git_worktree_grants_def by (auto split: option.splits)
  obtain root where root: "fe_resolve fe common = Some root"
    using assms ca unfolding git_worktree_grants_def by (auto split: option.splits)
  have within: "path_within_root fe p root \<longleftrightarrow> (\<exists>rp. fe_resolve fe p = Some rp \<and> (rp = root \<or> is_under rp root))" for p
    by (simp add: path_within_root_def split: option.split)
  note g = assms [unfolded git_worktree_grants_def ca option.case prod.case root Let_def]
  define ws where "ws = [path_join [common, ''objects''], path_join [common, ''refs''], path_join [common, ''logs''], admin]"
  define rs where "rs = [path_join [common, ''config''], path_join [common, ''info''],
    path_join [common, ''packed-refs''], path_join [common, ''hooks'']]"
  let ?c = "filter (\<lambda>p. path_within_root fe p root)"
  consider (rw) "ro = ?c rs" "rw = ?c ws" "access \<noteq> ''read''" | (ro) "ro = ?c ws @ ?c rs" "rw = []"
  proof (cases "access = ''readwrite'' \<or> access = ''write''")
    case True
    have "access \<noteq> ''read''" using True by (elim disjE) simp_all
    moreover have "ro = ?c rs" "rw = ?c ws" using g [folded ws_def rs_def, unfolded if_P [OF True]] by simp_all
    ultimately show ?thesis using rw by blast
  next
    case False
    note g' = g [folded ws_def rs_def, unfolded if_not_P [OF False]]
    have "access = ''read''" using g' by (rule contrapos_pp) simp
    then have "ro = ?c ws @ ?c rs" "rw = []" using g' by simp_all
    then show ?thesis using ro by blast
  qed
  note cases = this
  have p: "\<forall>p \<in> set ro \<union> set rw. path_within_root fe p root"
    by (rule cases) auto
  moreover have "set rw \<subseteq> set ws" by (rule cases) auto
  then have "set rw \<subseteq> {path_join [common, ''objects''], path_join [common, ''refs''], path_join [common, ''logs''], admin}"
    unfolding ws_def list.set .
  moreover have "access = ''read'' \<longrightarrow> rw = []" by (rule cases) simp_all
  ultimately show ?thesis
    using ca root resolve_worktree_shape [OF ca] within by blast
qed

lemma demo_common: "resolve_worktree_common_dir demo_fs ''/w'' = Some (''/r/.git'', ''/r/.git/worktrees/w'')"
proof -
  have p: "path_join [''/w'', ''.git''] = ''/w/.git''" by (simp add: gostr)
  have r: "read_gitdir_pointer demo_fs ''/w/.git'' = Some ''/r/.git/worktrees/w''"
    by (simp add: read_gitdir_pointer_def demo_fs_def gostr)
  have b: "worktree_back_pointer_valid demo_fs ''/r/.git/worktrees/w'' ''/w/.git''"
    by (simp add: worktree_back_pointer_valid_def demo_fs_def gostr)
  have f: "fe_read demo_fs (path_join [''/r/.git/worktrees/w'', ''commondir'']) = Some ''../..''"
    by (simp add: demo_fs_def gostr)
  show ?thesis
    unfolding resolve_worktree_common_dir_def p r Let_def option.case f
    by (simp add: b demo_fs_simps) (simp add: gostr)
qed

lemma demo_worktree:
  "git_worktree_grants demo_fs ''/w'' ''readwrite'' =
     Some ([''/r/.git/config'', ''/r/.git/info'', ''/r/.git/packed-refs'', ''/r/.git/hooks''],
           [''/r/.git/objects'', ''/r/.git/refs'', ''/r/.git/logs'', ''/r/.git/worktrees/w''])"
  unfolding git_worktree_grants_def demo_common
  by (simp add: path_within_root_def demo_fs_simps gostr)

text \<open>
  Containment in the common directory is all that is checked: with \<open>objects\<close> a link to \<open>hooks\<close>, the
  grant for the objects is a grant to write the hooks.
\<close>

lemma worktree_link_opens_hooks:
  "\<exists>ro rw. git_worktree_grants demo_fs ''/w'' ''readwrite'' = Some (ro, rw) \<and> ''/r/.git/objects'' \<in> set rw \<and>
     fe_resolve demo_fs ''/r/.git/objects'' = Some ''/r/.git/hooks''"
  using demo_worktree by (simp add: demo_fs_def)

theorem worktree_grants_contained_witness:
  "\<exists>rp. fe_resolve demo_fs ''/r/.git/worktrees/w'' = Some rp \<and> (rp = ''/r/.git'' \<or> is_under rp ''/r/.git'')"
proof -
  have "fe_resolve demo_fs ''/r/.git'' = Some ''/r/.git''" by (simp add: demo_fs_simps)
  then show ?thesis using worktree_grants_contained [OF demo_worktree] unfolding demo_common by (elim exE conjE) simp
qed

lemma bind_sum_Inr: "bind_sum x f = Inr b \<longleftrightarrow> (\<exists>a. x = Inr a \<and> f a = Inr b)"
  by (cases x) (simp_all add: bind_sum_def)

text \<open>The paths denied before the scan.\<close>

definition static_denies :: "host_env \<Rightarrow> bool \<Rightarrow> profile \<Rightarrow> string list" where
  "static_denies env darwin p =
     effective_protected_paths env (platform_baseline darwin) (pf_override_deny (pr_fs p)) @ literal_denies p"

lemma resolve_grants_parts:
  assumes "resolve_grants env fe darwin limit p workdir = Inr g"
  shows "\<exists>roots denied nd. deny_scan_roots env fe p workdir = Inr roots \<and>
    resolve_deny_paths env fe darwin limit (pf_deny (pr_fs p)) workdir_protected_common (pf_override_deny (pr_fs p))
      (dedupe roots) (static_denies env darwin p) = Inr (denied, nd) \<and>
    set (gr_protected g) = set (static_denies env darwin p) \<union> set denied - {[]} \<and>
    gr_name_roots g = nd_roots nd \<and> gr_name_globs g = nd_globs nd \<and>
    gr_mode g = effective_mode (pr_net p) \<and> gr_enforcement g = effective_enforcement (pr_net p)"
proof -
  have b: "bl_workdir_protected (platform_baseline darwin) = workdir_protected_common"
    by (simp add: platform_baseline_def darwin_baseline_def linux_baseline_def)
  have r: "(case x of Inl e \<Rightarrow> Inl (BadPath e) | Inr rs \<Rightarrow> Inr rs) = Inr roots \<longleftrightarrow> x = Inr roots"
    for x :: "grant_error + string list" and roots
    by (cases x) simp_all
  show ?thesis
    using assms unfolding resolve_grants_def Let_def bind_sum_Inr b static_denies_def [symmetric] r
    by (auto simp: bind_sum_Inr)
qed

text \<open>
  What a launch denies.  When \<open>ResolveGrants\<close> succeeds, the protected paths contain every baseline path
  that \<open>override_deny\<close> does not lift, every literal deny and every path-form deny that expands; and every
  match of a deny glob or baseline name below a granted folder is either among them, or lifted, or in a
  folder the sandbox covers by the name rule with all the globs.  Network mode and enforcement are the
  profile's.
\<close>

theorem resolve_grants_protects:
  assumes "resolve_grants env fe darwin limit p workdir = Inr g"
    and "globs = deny_globs env (pf_deny (pr_fs p)) workdir_protected_common (pf_override_deny (pr_fs p))"
  shows "(\<forall>b \<in> set (bl_protected (platform_baseline darwin)). \<forall>q. expand_path env b = Inr q \<and> q \<noteq> [] \<and>
        q \<notin> override_lookup env (pf_override_deny (pr_fs p)) \<longrightarrow> q \<in> set (gr_protected g)) \<and>
    (\<forall>d \<in> set (pf_deny_literal (pr_fs p)). clean d \<in> set (gr_protected g)) \<and>
    (\<forall>d \<in> set (pf_deny (pr_fs p)). \<forall>q. \<not> is_basename_glob d \<and> expand_path env d = Inr q \<and> q \<noteq> [] \<longrightarrow>
        q \<in> set (gr_protected g)) \<and>
    (\<exists>roots. deny_scan_roots env fe p workdir = Inr roots \<and>
       (\<forall>root \<in> set roots - {[]}. (darwin \<and> root \<in> set (gr_name_roots g) \<and> gr_name_globs g = globs) \<or>
          to_hide (scan_of fe limit globs (walk_protected fe (static_denies env darwin p)) root) - {[]}
            \<subseteq> set (gr_protected g) \<union> override_lookup env (pf_override_deny (pr_fs p)))) \<and>
    gr_mode g = effective_mode (pr_net p) \<and> gr_enforcement g = effective_enforcement (pr_net p)"
proof -
  obtain roots denied nd where parts: "deny_scan_roots env fe p workdir = Inr roots"
      "resolve_deny_paths env fe darwin limit (pf_deny (pr_fs p)) workdir_protected_common (pf_override_deny (pr_fs p))
        (dedupe roots) (static_denies env darwin p) = Inr (denied, nd)"
      "set (gr_protected g) = set (static_denies env darwin p) \<union> set denied - {[]}"
      "gr_name_roots g = nd_roots nd" "gr_name_globs g = nd_globs nd"
      "gr_mode g = effective_mode (pr_net p)" "gr_enforcement g = effective_enforcement (pr_net p)"
    using resolve_grants_parts [OF assms(1)] by blast
  have "q \<in> set (static_denies env darwin p)"
    if "b \<in> set (bl_protected (platform_baseline darwin))" "expand_path env b = Inr q"
      "q \<notin> override_lookup env (pf_override_deny (pr_fs p))" for b q
    using that by (force simp: static_denies_def effective_protected_paths_def protected_loop_set)
  moreover have "clean d \<in> set (static_denies env darwin p)" if "d \<in> set (pf_deny_literal (pr_fs p))" for d
    using that by (simp add: static_denies_def literal_denies_def)
  moreover have "q \<in> set denied" if "d \<in> set (pf_deny (pr_fs p))" "\<not> is_basename_glob d" "expand_path env d = Inr q" for d q
    using in_path_form_denies [OF that] resolve_deny_explicit [OF parts(2)] by blast
  moreover have "(darwin \<and> root \<in> set (gr_name_roots g) \<and> gr_name_globs g = globs) \<or>
      to_hide (scan_of fe limit globs (walk_protected fe (static_denies env darwin p)) root) - {[]}
        \<subseteq> set (gr_protected g) \<union> override_lookup env (pf_override_deny (pr_fs p))" if "root \<in> set roots - {[]}" for root
    using resolve_deny_roots [OF parts(2) _ assms(2), of root] that parts(3-5) by (auto simp: can_deny_by_name_def)
  ultimately show ?thesis using parts(1,3,6,7) by simp
qed

definition demo_launch_fs :: fs_env where
  "demo_launch_fs = demo_fs\<lparr>fe_entries := (\<lambda>d. [])\<rparr>"

definition demo_launch :: profile where
  "demo_launch = default_profile\<lparr>pr_fs := (pr_fs default_profile)\<lparr>pf_read := []\<rparr>\<rparr>"

lemma demo_launch_simps:
  "pf_read (pr_fs demo_launch) = []" "pf_write (pr_fs demo_launch) = []" "pf_allow (pr_fs demo_launch) = []"
  "pf_allow_unix_dir (pr_fs demo_launch) = []" "pf_deny (pr_fs demo_launch) = []"
  "pf_override_deny (pr_fs demo_launch) = []" "pr_workdir_access demo_launch = ''readwrite''"
  by (simp_all add: demo_launch_def default_profile_def)

lemma demo_launch_fs_simps:
  "fe_stat demo_launch_fs p = Exists" "fe_is_dir demo_launch_fs p = (p \<noteq> ''/w/.git'')" "fe_entries demo_launch_fs d = []"
  "fe_resolve demo_launch_fs p = (if p = ''/r/.git/objects'' then Some ''/r/.git/hooks'' else Some p)"
  by (simp_all add: demo_launch_fs_def demo_fs_simps)

lemma demo_existing: "\<exists>ps. existing demo_host_env demo_launch_fs (bl_read linux_baseline) = Inr ps"
  by (simp add: existing_def linux_baseline_def demo_launch_fs_simps expand_eval gostr)

lemma demo_scan_roots: "deny_scan_roots demo_host_env demo_launch_fs demo_launch ''/p'' = Inr [''/p'']"
  by (simp add: deny_scan_roots_def demo_launch_simps dedupe_def in_deny_scan_skip_path_def path_forms_def
      canonical_path_def demo_launch_fs_simps deny_scan_skip_paths_def is_under_def has_prefix_def)

lemma empty_walk: "sc_entries sc = (\<lambda>d. []) \<Longrightarrow> root_result sc = ([], False)"
  by (simp add: root_result_def walk_one_deny_root_def numeral_eq_Suc)

lemma demo_denied:
  "\<exists>r. resolve_deny_paths demo_host_env demo_launch_fs False 9 [] workdir_protected_common [] [''/p''] prot = Inr r"
proof -
  have "root_result (scan_of demo_launch_fs 9 globs pr root) = ([], False)" for globs pr root
    by (rule empty_walk) (simp add: scan_of_def demo_launch_fs_def)
  then show ?thesis
    by (simp add: resolve_deny_paths_def walk_glob_matches_def override_lookup_def List.map_filter_simps Let_def)
qed

lemma demo_grants: "\<exists>g. resolve_grants demo_host_env demo_launch_fs False 9 demo_launch ''/p'' = Inr g"
proof -
  obtain ps where ps: "existing demo_host_env demo_launch_fs (bl_read linux_baseline) = Inr ps" using demo_existing by blast
  have e: "existing demo_host_env demo_launch_fs [] = Inr []" by (simp add: existing_def)
  have w: "worktree_additions demo_host_env demo_launch_fs demo_launch ''/p'' = Inr ([], [])"
    by (simp add: worktree_additions_def demo_launch_simps git_worktree_grants_def resolve_worktree_common_dir_def
        demo_launch_fs_simps gostr)
  have d: "dedupe [''/p''] = [''/p'']" by (simp add: dedupe_def)
  obtain r where r: "resolve_deny_paths demo_host_env demo_launch_fs False 9 [] workdir_protected_common [] [''/p'']
      (static_denies demo_host_env False demo_launch) = Inr r"
    using demo_denied by blast
  have b: "platform_baseline False = linux_baseline" "bl_write linux_baseline = []"
    "bl_workdir_protected linux_baseline = workdir_protected_common"
    by (simp_all add: platform_baseline_def linux_baseline_def)
  obtain denied nd where rd: "r = (denied, nd)" by fastforce
  have s: "effective_protected_paths demo_host_env linux_baseline [] @ literal_denies demo_launch =
      static_denies demo_host_env False demo_launch"
    by (simp add: static_denies_def b demo_launch_simps)
  show ?thesis
    unfolding resolve_grants_def Let_def b demo_launch_simps append_Nil2 s
    by (simp add: ps e w d r rd demo_scan_roots bind_sum_def)
qed

theorem resolve_grants_protects_witness:
  "\<exists>g. resolve_grants demo_host_env demo_launch_fs False 9 demo_launch ''/p'' = Inr g \<and>
     ''/home/u/.ssh'' \<in> set (gr_protected g)"
proof -
  obtain g where g: "resolve_grants demo_host_env demo_launch_fs False 9 demo_launch ''/p'' = Inr g"
    using demo_grants by blast
  have "''~/.ssh'' \<in> set (bl_protected (platform_baseline False))"
    by (simp add: platform_baseline_def linux_baseline_def protected_common_def)
  moreover have "expand_path demo_host_env ''~/.ssh'' = Inr ''/home/u/.ssh''" by (simp add: expand_eval gostr)
  moreover have "override_lookup demo_host_env (pf_override_deny (pr_fs demo_launch)) = {}"
    by (simp add: demo_launch_simps override_lookup_def List.map_filter_simps)
  ultimately have "''/home/u/.ssh'' \<in> set (gr_protected g)"
    using resolve_grants_protects [OF g refl, THEN conjunct1] by blast
  then show ?thesis using g by blast
qed

end
