(* ===== verification/Sbpl.thy ===== *)
theory Sbpl
  imports Grants
begin

text \<open>
  The Seatbelt profile for macOS (\<open>internal/sandboxrun/sbpl.go\<close>): the rules \<open>GenerateSBPL\<close> writes, in
  order, their text, and what they decide.  The last rule that matches an operation decides it.
\<close>

section \<open>Rules\<close>

text \<open>A rule has operations and filters; it applies when some operation and some filter match.\<close>

datatype sbpl_filter = Literal string | Subpath string | Regex string | GlobalName string | Target string | RemoteTcp string

datatype sbpl_rule = Rule bool "string list" "sbpl_filter list"

datatype sbpl_item = Item sbpl_rule | Break

definition sbpl_quote :: "string \<Rightarrow> string" where
  "sbpl_quote s =
     dquote # concat (map (\<lambda>c. if c = backslash then [backslash, backslash]
                              else if c = dquote then [backslash, dquote] else [c]) s) @ [dquote]"

fun filter_text :: "sbpl_filter \<Rightarrow> string" where
  "filter_text (Literal s) = ''(literal '' @ sbpl_quote s @ '')''"
| "filter_text (Subpath s) = ''(subpath '' @ sbpl_quote s @ '')''"
| "filter_text (Regex s) = ''(regex #'' @ [dquote] @ s @ [dquote] @ '')''"
| "filter_text (GlobalName s) = ''(global-name '' @ sbpl_quote s @ '')''"
| "filter_text (Target s) = ''(target '' @ s @ '')''"
| "filter_text (RemoteTcp s) = ''(remote tcp '' @ [dquote] @ s @ [dquote] @ '')''"

fun rule_text :: "sbpl_rule \<Rightarrow> string" where
  "rule_text (Rule allow ops filters) =
     ''('' @ (if allow then ''allow'' else ''deny'') @ concat (map (\<lambda>w. '' '' @ w) (ops @ map filter_text filters)) @ '')''"

fun item_text :: "sbpl_item \<Rightarrow> string" where
  "item_text (Item r) = rule_text r @ [lf]"
| "item_text Break = [lf]"

section \<open>The profile\<close>

definition keychain_regex :: string where
  "keychain_regex = [backslash] @ ''.[kK][eE][yY][cC][hH][aA][iI][nN](-[dD][bB])?$''"

text \<open>The ancestors of a form, up to one already listed.\<close>

function ancestors_loop :: "string \<Rightarrow> string list \<Rightarrow> string list" where
  "ancestors_loop dir out =
     (if dir = ''/'' \<or> dir = ''.'' \<or> dir \<in> set out then out else ancestors_loop (path_dir dir) (out @ [dir]))"
  by pat_completeness auto
termination
proof (relation "measure (\<lambda>(dir, _). if dir = ''.'' then 0 else length dir + 1)")
  fix dir :: string and out assume "\<not> (dir = ''/'' \<or> dir = ''.'' \<or> dir \<in> set out)"
  then show "((path_dir dir, out @ [dir]), dir, out) \<in> measure (\<lambda>(dir, _). if dir = ''.'' then 0 else length dir + 1)"
    using path_dir_shorter [of dir] by auto
qed simp

declare ancestors_loop.simps [simp del]

definition ancestor_dirs :: "fs_env \<Rightarrow> string list \<Rightarrow> string list" where
  "ancestor_dirs fe paths =
     (let out = fold (\<lambda>f out. ancestors_loop (path_dir f) out) (concat (map (path_forms fe) paths)) []
      in out @ [''/''])"

definition on_forms :: "fs_env \<Rightarrow> (string \<Rightarrow> sbpl_rule list) \<Rightarrow> string list \<Rightarrow> sbpl_rule list" where
  "on_forms fe f paths = concat (map f (concat (map (path_forms fe) paths)))"

definition deny_both :: "sbpl_filter \<Rightarrow> sbpl_rule list" where
  "deny_both f = [Rule False [''file-read*''] [f], Rule False [''file-write*''] [f]]"

definition process_rules :: "sbpl_rule list" where
  "process_rules =
     [Rule True [''process-exec*''] [], Rule True [''process-fork''] [],
      Rule True [''process-info*''] [Target ''self''], Rule True [''process-info*''] [Target ''same-sandbox''],
      Rule True [''signal''] [Target ''self''], Rule True [''signal''] [Target ''same-sandbox'']]"

definition mach_rules :: "sbpl_rule list" where
  "mach_rules =
     Rule True [''mach-lookup''] [] #
     map (\<lambda>svc. Rule False [''mach-lookup''] [GlobalName svc])
       [''com.apple.securityd'', ''com.apple.security.keychaind'', ''com.apple.secd'', ''com.apple.security.agent'']"

definition system_rules :: "sbpl_rule list" where
  "system_rules = [Rule True [''sysctl-read''] [], Rule True [''ipc-posix-shm''] [], Rule True [''system-socket''] []]"

definition read_rules :: "fs_env \<Rightarrow> string \<Rightarrow> grants \<Rightarrow> sbpl_rule list" where
  "read_rules fe home g =
     (let readable = gr_read g @ gr_allow g;
          ancestors = ancestor_dirs fe ([gr_workdir g] @ gr_read g @ gr_write g @ gr_allow g);
          resolvable = (if home \<noteq> [] then ancestors @ filter (\<lambda>p. p \<notin> set ancestors) (path_forms fe home) else ancestors)
      in Rule True [''file-read*''] [Literal ''/''] #
         on_forms fe (\<lambda>fp. [Rule True [''file-read*''] [Subpath fp]]) readable @
         map (\<lambda>p. Rule True [''file-read-metadata''] [Literal p]) resolvable @
         on_forms fe (\<lambda>fp. [Rule True [''file-map-executable''] [Subpath fp]]) readable)"

definition write_rules :: "fs_env \<Rightarrow> grants \<Rightarrow> sbpl_rule list" where
  "write_rules fe g = on_forms fe (\<lambda>fp. [Rule True [''file-write*''] [Subpath fp]]) (gr_write g @ gr_allow g)"

definition name_denies :: "fs_env \<Rightarrow> grants \<Rightarrow> sbpl_rule list" where
  "name_denies fe g =
     on_forms fe (\<lambda>fp. case sbpl_name_regex fp (gr_name_globs g) of
                         None \<Rightarrow> [] | Some res \<Rightarrow> concat (map (\<lambda>re. deny_both (Regex re)) res)) (gr_name_roots g)"

definition protect_rules :: "fs_env \<Rightarrow> grants \<Rightarrow> sbpl_rule list" where
  "protect_rules fe g =
     on_forms fe (\<lambda>fp. deny_both (Subpath fp)) (gr_protected g) @ name_denies fe g @ deny_both (Regex keychain_regex)"

definition keychain_reallow :: "sbpl_rule list" where
  "keychain_reallow = [Rule True [''file-read*''] [Subpath ''/System/Library/Keychains'']]"

definition device_rules :: "sbpl_rule list" where
  "device_rules =
     map (\<lambda>dev. Rule True [''file-read*'', ''file-write-data''] [Literal dev])
       [''/dev/null'', ''/dev/zero'', ''/dev/random'', ''/dev/urandom'', ''/dev/dtracehelper''] @
     [Rule True [''file-read*'', ''file-write-data''] [Regex ''^/dev/tty''],
      Rule True [''file-ioctl'']
        [Regex ''^/dev/tty'', Literal ''/dev/ptmx'', Literal ''/dev/null'', Literal ''/dev/zero'', Literal ''/dev/random'',
         Literal ''/dev/urandom''],
      Rule True [''pseudo-tty''] []]"

definition outbound :: "string \<Rightarrow> sbpl_rule" where
  "outbound remote = Rule True [''network-outbound''] [RemoteTcp remote]"

definition network_rules :: "fs_env \<Rightarrow> grants \<Rightarrow> sbpl_rule list" where
  "network_rules fe g =
     (if gr_mode g = ''filtered'' \<and> gr_enforcement g = ''env-only'' then [Rule True [''network*''] []]
      else if gr_mode g = ''open'' then [Rule True [''network*''] []]
      else
        Rule False [''network*''] [] #
        (if gr_mode g = ''blocked'' then []
         else (if gr_proxy_port g > 0 then [outbound (''localhost:'' @ show_int (gr_proxy_port g))] else []) @
              map (\<lambda>p. outbound (''*:'' @ show_int p)) (gr_tcp_connect g) @
              map (\<lambda>p. outbound (''localhost:'' @ show_int p)) (filter (\<lambda>p. p \<noteq> 0) (gr_open_ports g)) @
              (if 0 \<in> set (gr_open_ports g) then [outbound ''localhost:*''] else []) @
              (if gr_listen_ports g \<noteq> [] \<or> gr_open_ports g \<noteq> []
               then [Rule True [''network-bind''] [], Rule True [''network-inbound''] []] else [])) @
        on_forms fe (\<lambda>fp. [Rule True [''network-outbound''] [Literal fp]]) (gr_unix_sockets g) @
        on_forms fe (\<lambda>fp. [Rule True [''network-outbound''] [Subpath fp]]) (gr_unix_dirs g) @
        [Rule True [''network-outbound''] [Literal ''/private/var/run/mDNSResponder'']])"

definition sbpl_items :: "fs_env \<Rightarrow> string \<Rightarrow> grants \<Rightarrow> sbpl_item list" where
  "sbpl_items fe home g =
     map Item [Rule False [''default''] []] @ [Break] @ map Item process_rules @ [Break] @ map Item mach_rules @ [Break] @
     map Item system_rules @ [Break] @ map Item (read_rules fe home g) @ [Break] @ map Item (write_rules fe g) @ [Break] @
     map Item (protect_rules fe g @ keychain_reallow) @ [Break] @ map Item device_rules @ [Break] @
     map Item (network_rules fe g)"

text \<open>\<open>home\<close> is the grants' home directory, empty when it is not set.\<close>

definition generate_sbpl :: "fs_env \<Rightarrow> string \<Rightarrow> grants \<Rightarrow> string" where
  "generate_sbpl fe home g = ''(version 1)'' @ [lf] @ concat (map item_text (sbpl_items fe home g))"

definition sbpl_rules :: "fs_env \<Rightarrow> string \<Rightarrow> grants \<Rightarrow> sbpl_rule list" where
  "sbpl_rules fe home g = List.map_filter (\<lambda>i. case i of Item r \<Rightarrow> Some r | Break \<Rightarrow> None) (sbpl_items fe home g)"

section \<open>What the rules decide\<close>

text \<open>
  An operation on a path or a remote address.  A starred operation covers all it is a prefix of, and
  \<open>default\<close> everything; the regular expressions are matched by the parameter \<open>rx\<close>.
\<close>

definition op_matches :: "string \<Rightarrow> string \<Rightarrow> bool" where
  "op_matches pat p \<longleftrightarrow> pat = ''default'' \<or> (if has_suffix pat ''*'' then has_prefix p (trim_suffix pat ''*'') else p = pat)"

fun filter_matches :: "(string \<Rightarrow> string \<Rightarrow> bool) \<Rightarrow> string \<Rightarrow> sbpl_filter \<Rightarrow> bool" where
  "filter_matches rx x (Literal s) = (x = s)"
| "filter_matches rx x (Subpath s) = (x = s \<or> s = ''/'' \<or> is_under x s)"
| "filter_matches rx x (Regex s) = rx s x"
| "filter_matches rx x (GlobalName s) = (x = s)"
| "filter_matches rx x (Target s) = (x = s)"
| "filter_matches rx x (RemoteTcp s) =
     (x = s \<or> (has_prefix s ''*:'' \<and> has_suffix x (drop 1 s)) \<or> (has_suffix s '':*'' \<and> has_prefix x (trim_suffix s ''*'')))"

fun rule_matches :: "(string \<Rightarrow> string \<Rightarrow> bool) \<Rightarrow> string \<Rightarrow> string \<Rightarrow> sbpl_rule \<Rightarrow> bool" where
  "rule_matches rx op x (Rule allow ops fs) \<longleftrightarrow>
     list_ex (\<lambda>pat. op_matches pat op) ops \<and> (fs = [] \<or> list_ex (filter_matches rx x) fs)"

fun rule_allows :: "sbpl_rule \<Rightarrow> bool" where
  "rule_allows (Rule allow ops fs) = allow"

text \<open>The decision of the last matching rule, if any.\<close>

fun last_match :: "(string \<Rightarrow> string \<Rightarrow> bool) \<Rightarrow> string \<Rightarrow> string \<Rightarrow> sbpl_rule list \<Rightarrow> bool option" where
  "last_match rx op x [] = None"
| "last_match rx op x (r # rs) =
     (case last_match rx op x rs of
        Some d \<Rightarrow> Some d
      | None \<Rightarrow> if rule_matches rx op x r then Some (rule_allows r) else None)"

definition sbpl_allows :: "(string \<Rightarrow> string \<Rightarrow> bool) \<Rightarrow> sbpl_rule list \<Rightarrow> string \<Rightarrow> string \<Rightarrow> bool" where
  "sbpl_allows rx rules op x \<longleftrightarrow> last_match rx op x rules = Some True"

section \<open>Deciding block by block\<close>

lemma last_match_append:
  "last_match rx op x (xs @ ys) = (case last_match rx op x ys of Some d \<Rightarrow> Some d | None \<Rightarrow> last_match rx op x xs)"
  by (induction xs) (auto split: option.split)

lemma last_match_uniform:
  "list_all (\<lambda>r. rule_allows r = a) rs \<Longrightarrow>
   last_match rx op x rs = (if list_ex (rule_matches rx op x) rs then Some a else None)"
  by (induction rs) auto

lemma last_match_None: "\<not> list_ex (rule_matches rx op x) rs \<Longrightarrow> last_match rx op x rs = None"
  by (induction rs) auto

lemma list_ex_on_forms:
  "list_ex P (on_forms fe f paths) \<longleftrightarrow> (\<exists>p \<in> set paths. \<exists>fp \<in> set (path_forms fe p). list_ex P (f fp))"
  by (auto simp: on_forms_def list_ex_iff)

lemma list_all_on_forms:
  "list_all P (on_forms fe f paths) \<longleftrightarrow> (\<forall>p \<in> set paths. \<forall>fp \<in> set (path_forms fe p). list_all P (f fp))"
  by (auto simp: on_forms_def list_all_iff)

lemma map_filter_append: "List.map_filter f (xs @ ys) = List.map_filter f xs @ List.map_filter f ys"
  by (simp add: List.map_filter_def)

lemma items_rules: "List.map_filter (\<lambda>i. case i of Item r \<Rightarrow> Some r | Break \<Rightarrow> None) (map Item rs) = rs"
  by (induction rs) (simp_all add: List.map_filter_simps)

lemma sbpl_rules_eq:
  "sbpl_rules fe home g =
     [Rule False [''default''] []] @ process_rules @ mach_rules @ system_rules @ read_rules fe home g @ write_rules fe g @
     protect_rules fe g @ keychain_reallow @ device_rules @ network_rules fe g"
  unfolding sbpl_rules_def sbpl_items_def by (simp only: map_filter_append items_rules) (simp add: List.map_filter_simps)

text \<open>Where a path lies and what hides it.\<close>

definition covered :: "fs_env \<Rightarrow> string \<Rightarrow> string list \<Rightarrow> bool" where
  "covered fe x paths \<longleftrightarrow>
     (\<exists>p \<in> set paths. \<exists>fp \<in> set (path_forms fe p). x = fp \<or> fp = ''/'' \<or> is_under x fp)"

definition name_hidden :: "(string \<Rightarrow> string \<Rightarrow> bool) \<Rightarrow> fs_env \<Rightarrow> grants \<Rightarrow> string \<Rightarrow> bool" where
  "name_hidden rx fe g x \<longleftrightarrow>
     (\<exists>root \<in> set (gr_name_roots g). \<exists>fp \<in> set (path_forms fe root).
        \<exists>res. sbpl_name_regex fp (gr_name_globs g) = Some res \<and> (\<exists>re \<in> set res. rx re x))"

definition hidden :: "(string \<Rightarrow> string \<Rightarrow> bool) \<Rightarrow> fs_env \<Rightarrow> grants \<Rightarrow> string \<Rightarrow> bool" where
  "hidden rx fe g x \<longleftrightarrow> covered fe x (gr_protected g) \<or> name_hidden rx fe g x \<or> rx keychain_regex x"

definition device :: "(string \<Rightarrow> string \<Rightarrow> bool) \<Rightarrow> string \<Rightarrow> bool" where
  "device rx x \<longleftrightarrow> x \<in> {''/dev/null'', ''/dev/zero'', ''/dev/random'', ''/dev/urandom'', ''/dev/dtracehelper''} \<or> rx ''^/dev/tty'' x"

text \<open>The two operations on file data, and creation as a write that is not one of data.\<close>

definition file_ops :: "string list" where
  "file_ops = [''file-read-data'', ''file-write-data'', ''file-write-create'']"

lemma op_eval:
  "op_matches ''default'' op"
  "op \<in> set file_ops \<Longrightarrow> op_matches ''file-read*'' op \<longleftrightarrow> op = ''file-read-data''"
  "op \<in> set file_ops \<Longrightarrow> op_matches ''file-write*'' op \<longleftrightarrow> op \<noteq> ''file-read-data''"
  "op \<in> set file_ops \<Longrightarrow> op_matches ''file-write-data'' op \<longleftrightarrow> op = ''file-write-data''"
  by (auto simp: op_matches_def file_ops_def has_suffix_def has_prefix_def trim_suffix_def)

definition other_ops :: "string list" where
  "other_ops =
     [''process-exec*'', ''process-fork'', ''process-info*'', ''signal'', ''mach-lookup'', ''sysctl-read'',
      ''ipc-posix-shm'', ''system-socket'', ''file-read-metadata'', ''file-map-executable'', ''file-ioctl'',
      ''pseudo-tty'', ''network*'', ''network-outbound'', ''network-bind'', ''network-inbound'']"

lemma others_do_not_match: "list_all (\<lambda>pat. list_all (\<lambda>op. \<not> op_matches pat op) file_ops) other_ops"
  by (simp add: other_ops_def file_ops_def op_matches_def has_suffix_def has_prefix_def trim_suffix_def)

lemma other_no_match: "op \<in> set file_ops \<Longrightarrow> pat \<in> set other_ops \<Longrightarrow> \<not> op_matches pat op"
  using others_do_not_match unfolding list_all_iff by blast

fun rule_ops :: "sbpl_rule \<Rightarrow> string list" where
  "rule_ops (Rule allow ops fs) = ops"

lemma other_rules_None:
  assumes "op \<in> set file_ops" "list_all (\<lambda>r. set (rule_ops r) \<subseteq> set other_ops) rs"
  shows "last_match rx op x rs = None"
proof (rule last_match_None)
  have "\<not> rule_matches rx op x r" if "r \<in> set rs" for r
  proof (cases r)
    case (Rule allow ops fs)
    have "set (rule_ops r) \<subseteq> set other_ops" using assms(2) that unfolding list_all_iff by blast
    then have "set ops \<subseteq> set other_ops" using Rule by simp
    then have "\<not> list_ex (\<lambda>pat. op_matches pat op) ops"
      using others_do_not_match assms(1) unfolding list_all_iff list_ex_iff by blast
    then show ?thesis using Rule by simp
  qed
  then show "\<not> list_ex (rule_matches rx op x) rs" by (auto simp: list_ex_iff)
qed

lemma other_blocks:
  "list_all (\<lambda>r. set (rule_ops r) \<subseteq> set other_ops) process_rules"
  "list_all (\<lambda>r. set (rule_ops r) \<subseteq> set other_ops) mach_rules"
  "list_all (\<lambda>r. set (rule_ops r) \<subseteq> set other_ops) system_rules"
  by (simp_all add: process_rules_def mach_rules_def system_rules_def other_ops_def)

lemma network_block: "list_all (\<lambda>r. set (rule_ops r) \<subseteq> set other_ops) (network_rules fe g)"
proof -
  have "set (rule_ops r) \<subseteq> {''network*'', ''network-outbound'', ''network-bind'', ''network-inbound''}"
    if "r \<in> set (network_rules fe g)" for r
    using that by (auto simp: network_rules_def outbound_def on_forms_def split: if_splits)
  moreover have "{''network*'', ''network-outbound'', ''network-bind'', ''network-inbound''} \<subseteq> set other_ops"
    unfolding other_ops_def by simp
  ultimately show ?thesis unfolding list_all_iff by blast
qed

text \<open>Which rules of each shape match.\<close>

lemma matches_literals:
  "list_ex (rule_matches rx op x) (map (\<lambda>p. Rule a ops [Literal p]) ps) \<longleftrightarrow>
   list_ex (\<lambda>pat. op_matches pat op) ops \<and> x \<in> set ps"
  by (auto simp: list_ex_iff)

lemma matches_subpaths:
  "list_ex (rule_matches rx op x) (on_forms fe (\<lambda>fp. [Rule a [pat] [Subpath fp]]) ps) \<longleftrightarrow>
   op_matches pat op \<and> covered fe x ps"
  by (auto simp: list_ex_on_forms covered_def)

lemma read_block:
  assumes "op \<in> set file_ops"
  shows "last_match rx op x (read_rules fe home g) =
    (if op = ''file-read-data'' \<and> (x = ''/'' \<or> covered fe x (gr_read g @ gr_allow g)) then Some True else None)"
proof -
  have o: "\<not> op_matches ''file-read-metadata'' op" "\<not> op_matches ''file-map-executable'' op"
    by (simp_all add: other_no_match [OF assms] other_ops_def)
  have "list_all (\<lambda>r. rule_allows r = True) (read_rules fe home g)"
    unfolding read_rules_def Let_def by (simp add: list_all_on_forms list.pred_map comp_def list_all_iff [of "\<lambda>x. True"])
  moreover have "list_ex (rule_matches rx op x) (read_rules fe home g) \<longleftrightarrow>
      op = ''file-read-data'' \<and> (x = ''/'' \<or> covered fe x (gr_read g @ gr_allow g))"
    by (simp only: read_rules_def Let_def list_ex_Nil_iff list_ex_Cons_iff list_ex_append matches_literals matches_subpaths
      rule_matches.simps filter_matches.simps op_eval(2) [OF assms] o simp_thms list.distinct conj_disj_distribL)
  ultimately show ?thesis using last_match_uniform [of True "read_rules fe home g"] by simp
qed

lemma write_block:
  assumes "op \<in> set file_ops"
  shows "last_match rx op x (write_rules fe g) =
    (if op \<noteq> ''file-read-data'' \<and> covered fe x (gr_write g @ gr_allow g) then Some True else None)"
proof -
  have "list_all (\<lambda>r. rule_allows r = True) (write_rules fe g)"
    by (simp add: write_rules_def list_all_on_forms)
  moreover have "list_ex (rule_matches rx op x) (write_rules fe g) \<longleftrightarrow>
      op \<noteq> ''file-read-data'' \<and> covered fe x (gr_write g @ gr_allow g)"
    unfolding write_rules_def matches_subpaths op_eval(3) [OF assms] ..
  ultimately show ?thesis using last_match_uniform [of True "write_rules fe g"] by simp
qed

lemma deny_both_matches:
  "op \<in> set file_ops \<Longrightarrow> list_ex (rule_matches rx op x) (deny_both f) = filter_matches rx x f"
  using op_eval(2,3) [of op] by (auto simp: deny_both_def)

lemma list_ex_concat: "list_ex P (concat xss) = list_ex (list_ex P) xss"
  by (auto simp: list_ex_iff)

lemma name_denies_matches:
  assumes "op \<in> set file_ops"
  shows "list_ex (rule_matches rx op x) (name_denies fe g) = name_hidden rx fe g x"
proof -
  have "list_ex (rule_matches rx op x)
      (case sbpl_name_regex fp globs of None \<Rightarrow> [] | Some res \<Rightarrow> concat (map (\<lambda>re. deny_both (Regex re)) res)) \<longleftrightarrow>
      (\<exists>res. sbpl_name_regex fp globs = Some res \<and> (\<exists>re \<in> set res. rx re x))" for fp globs
    by (cases "sbpl_name_regex fp globs")
       (simp_all add: list_ex_concat list_ex_iff [of _ "map _ _"] deny_both_matches [OF assms])
  then show ?thesis by (simp add: name_denies_def list_ex_on_forms name_hidden_def)
qed

lemma protect_block:
  assumes "op \<in> set file_ops"
  shows "last_match rx op x (protect_rules fe g) = (if hidden rx fe g x then Some False else None)"
proof -
  have d: "list_all (\<lambda>r. rule_allows r = False) (deny_both f)" for f by (simp add: deny_both_def)
  have "list_all (\<lambda>r. rule_allows r = False)
      (case sbpl_name_regex fp globs of None \<Rightarrow> [] | Some res \<Rightarrow> concat (map (\<lambda>re. deny_both (Regex re)) res))" for fp globs
    using d by (cases "sbpl_name_regex fp globs") (auto simp: list_all_iff)
  then have "list_all (\<lambda>r. rule_allows r = False) (protect_rules fe g)"
    using d by (simp add: protect_rules_def name_denies_def list_all_on_forms)
  moreover have "list_ex (rule_matches rx op x) (protect_rules fe g) = hidden rx fe g x"
    using deny_both_matches [OF assms] name_denies_matches [OF assms]
    by (simp add: protect_rules_def list_ex_on_forms hidden_def covered_def)
  ultimately show ?thesis using last_match_uniform [of False "protect_rules fe g"] by simp
qed

lemma reallow_block:
  "op \<in> set file_ops \<Longrightarrow> last_match rx op x keychain_reallow =
     (if op = ''file-read-data'' \<and> (x = ''/System/Library/Keychains'' \<or> is_under x ''/System/Library/Keychains'')
      then Some True else None)"
  using op_eval(2) [of op] by (simp add: keychain_reallow_def)

lemma device_block:
  assumes "op \<in> set file_ops"
  shows "last_match rx op x device_rules = (if op \<noteq> ''file-write-create'' \<and> device rx x then Some True else None)"
proof -
  have o: "\<not> op_matches ''file-ioctl'' op" "\<not> op_matches ''pseudo-tty'' op"
    by (simp_all add: other_no_match [OF assms] other_ops_def)
  have e: "op_matches ''file-read*'' op \<or> op_matches ''file-write-data'' op \<longleftrightarrow> op \<noteq> ''file-write-create''"
    using op_eval(2,4) [OF assms] assms by (auto simp: file_ops_def)
  have "list_all (\<lambda>r. rule_allows r = True) device_rules" by (simp add: device_rules_def)
  moreover have "list_ex (rule_matches rx op x) device_rules \<longleftrightarrow> op \<noteq> ''file-write-create'' \<and> device rx x"
    by (simp only: device_rules_def device_def list_ex_append matches_literals list_ex_Nil_iff list_ex_Cons_iff rule_matches.simps
      filter_matches.simps list.set o e simp_thms list.distinct conj_disj_distribL)
  ultimately show ?thesis using last_match_uniform [of True device_rules] by simp
qed

lemma file_decision:
  assumes "op \<in> set file_ops"
  shows "sbpl_allows rx (sbpl_rules fe home g) op x \<longleftrightarrow>
    (op \<noteq> ''file-write-create'' \<and> device rx x) \<or>
    (op = ''file-read-data'' \<and> (x = ''/System/Library/Keychains'' \<or> is_under x ''/System/Library/Keychains'')) \<or>
    (\<not> hidden rx fe g x \<and>
     (if op = ''file-read-data'' then x = ''/'' \<or> covered fe x (gr_read g @ gr_allow g)
      else covered fe x (gr_write g @ gr_allow g)))"
proof -
  note others = other_rules_None [OF assms network_block] other_rules_None [OF assms other_blocks(1)]
    other_rules_None [OF assms other_blocks(2)] other_rules_None [OF assms other_blocks(3)]
  have d: "last_match rx op x [Rule False [''default''] []] = Some False" using op_eval(1) by simp
  define E D K H R W where
    "E \<longleftrightarrow> op = ''file-read-data''" and "D \<longleftrightarrow> op \<noteq> ''file-write-create'' \<and> device rx x" and
    "K \<longleftrightarrow> x = ''/System/Library/Keychains'' \<or> is_under x ''/System/Library/Keychains''" and
    "H \<longleftrightarrow> hidden rx fe g x" and "R \<longleftrightarrow> x = ''/'' \<or> covered fe x (gr_read g @ gr_allow g)" and
    "W \<longleftrightarrow> covered fe x (gr_write g @ gr_allow g)"
  note folds = E_def [symmetric] D_def [symmetric] K_def [symmetric] H_def [symmetric] R_def [symmetric] W_def [symmetric]
  have "last_match rx op x (sbpl_rules fe home g) = Some (D \<or> (E \<and> K) \<or> (\<not> H \<and> (if E then R else W)))"
    unfolding sbpl_rules_eq last_match_append others read_block [OF assms] write_block [OF assms]
      protect_block [OF assms] reallow_block [OF assms] device_block [OF assms] d folds
    by (cases D; cases E; cases K; cases H; cases R; cases W; simp)
  then show ?thesis unfolding sbpl_allows_def folds by simp
qed

section \<open>What the profile allows\<close>

text \<open>
  C33: File access under the generated profile.  Data is read exactly on the granted paths that nothing
  hides, on the devices, and in the system keychain folder; it is written, or a file created, exactly on
  the paths granted for writing that nothing hides, and written on the devices.  A protected path, a
  path a name rule covers and a keychain file are hidden, and no grant outranks that.
\<close>

theorem sbpl_file_access:
  "(sbpl_allows rx (sbpl_rules fe home g) ''file-read-data'' x \<longleftrightarrow>
      device rx x \<or> x = ''/System/Library/Keychains'' \<or> is_under x ''/System/Library/Keychains'' \<or>
      ((x = ''/'' \<or> covered fe x (gr_read g @ gr_allow g)) \<and> \<not> hidden rx fe g x)) \<and>
   (sbpl_allows rx (sbpl_rules fe home g) ''file-write-data'' x \<longleftrightarrow>
      device rx x \<or> (covered fe x (gr_write g @ gr_allow g) \<and> \<not> hidden rx fe g x)) \<and>
   (sbpl_allows rx (sbpl_rules fe home g) ''file-write-create'' x \<longleftrightarrow>
      covered fe x (gr_write g @ gr_allow g) \<and> \<not> hidden rx fe g x)"
proof -
  have ops: "''file-read-data'' \<in> set file_ops" "''file-write-data'' \<in> set file_ops" "''file-write-create'' \<in> set file_ops"
    by (simp_all add: file_ops_def)
  have ne: "''file-read-data'' \<noteq> ''file-write-create''" "''file-write-data'' \<noteq> ''file-write-create''"
    "''file-write-data'' \<noteq> ''file-read-data''" "''file-write-create'' \<noteq> ''file-read-data''"
    by simp_all
  show ?thesis unfolding ops [THEN file_decision] using ne by (intro conjI) argo+
qed

text \<open>Where outbound traffic goes once \<open>network*\<close> is denied: an address or a socket.\<close>

definition socket_open :: "fs_env \<Rightarrow> grants \<Rightarrow> string \<Rightarrow> bool" where
  "socket_open fe g x \<longleftrightarrow>
     (\<exists>p \<in> set (gr_unix_sockets g). x \<in> set (path_forms fe p)) \<or> covered fe x (gr_unix_dirs g) \<or>
     x = ''/private/var/run/mDNSResponder''"

definition remote_open :: "grants \<Rightarrow> string \<Rightarrow> bool" where
  "remote_open g x \<longleftrightarrow>
     (gr_proxy_port g > 0 \<and> x = ''localhost:'' @ show_int (gr_proxy_port g)) \<or>
     (\<exists>p \<in> set (gr_tcp_connect g). has_suffix x ('':'' @ show_int p)) \<or>
     (\<exists>p \<in> set (gr_open_ports g). p \<noteq> 0 \<and> x = ''localhost:'' @ show_int p) \<or>
     (0 \<in> set (gr_open_ports g) \<and> has_prefix x ''localhost:'')"

definition unrestricted_network :: "grants \<Rightarrow> bool" where
  "unrestricted_network g \<longleftrightarrow> gr_mode g = ''open'' \<or> (gr_mode g = ''filtered'' \<and> gr_enforcement g = ''env-only'')"

lemma show_int_chars: "c \<in> set (show_int i) \<Longrightarrow> is_digit c \<or> c = CHR ''-''"
  using show_nat_digits unfolding show_int_def list_all_iff by (auto split: if_splits)

lemma show_int_no_star: "star \<notin> set (show_int i)" "show_int i \<noteq> []"
  using show_int_chars [of star i] by (auto simp: is_digit_def code_def show_int_def)

lemma remote_filters:
  "filter_matches rx x (RemoteTcp (''localhost:'' @ show_int p)) \<longleftrightarrow> x = ''localhost:'' @ show_int p"
  "filter_matches rx x (RemoteTcp (''*:'' @ show_int p)) \<longleftrightarrow> has_suffix x ('':'' @ show_int p)"
  "filter_matches rx x (RemoteTcp ''localhost:*'') \<longleftrightarrow> has_prefix x ''localhost:''"
proof -
  have n: "\<not> has_suffix (s @ show_int p) '':*''" for s
  proof
    assume "has_suffix (s @ show_int p) '':*''"
    then obtain t where "s @ show_int p = t @ '':*''" by (auto simp: has_suffix_iff)
    then have "last (s @ show_int p) = star" by (metis append_is_Nil_conv last_appendR last_ConsR last_ConsL list.distinct(1))
    then show False using show_int_no_star [of p] by (metis last_appendR last_in_set)
  qed
  show "filter_matches rx x (RemoteTcp (''localhost:'' @ show_int p)) \<longleftrightarrow> x = ''localhost:'' @ show_int p"
    using n [of "''localhost:''"] by (simp add: has_prefix_def)
  show "filter_matches rx x (RemoteTcp (''*:'' @ show_int p)) \<longleftrightarrow> has_suffix x ('':'' @ show_int p)"
    using n [of "''*:''"] by (auto simp: has_prefix_def has_suffix_iff)
  show "filter_matches rx x (RemoteTcp ''localhost:*'') \<longleftrightarrow> has_prefix x ''localhost:''"
    by (auto simp: has_prefix_def has_suffix_def trim_suffix_def)
qed

lemma outbound_ops:
  "op_matches ''network*'' ''network-outbound''" "op_matches ''network-outbound'' ''network-outbound''"
  "\<not> op_matches ''network-bind'' ''network-outbound''" "\<not> op_matches ''network-inbound'' ''network-outbound''"
  by (simp_all add: op_matches_def has_suffix_def has_prefix_def trim_suffix_def)

lemma outbound_matches:
  "rule_matches rx ''network-outbound'' x (outbound remote) = filter_matches rx x (RemoteTcp remote)"
  by (simp add: outbound_def outbound_ops)

lemma list_ex_when:
  "list_ex P (if c then [a] else []) \<longleftrightarrow> c \<and> P a" "list_ex P (if c then [a, b] else []) \<longleftrightarrow> c \<and> (P a \<or> P b)"
  by simp_all

lemma list_ex_mapped: "list_ex P (map f xs) \<longleftrightarrow> (\<exists>p \<in> set xs. P (f p))"
  by (auto simp: list_ex_iff)

lemma network_last:
  "last_match rx ''network-outbound'' x (network_rules fe g) =
     Some (unrestricted_network g \<or> socket_open fe g x \<or> (gr_mode g \<noteq> ''blocked'' \<and> remote_open g x))"
proof (cases "unrestricted_network g")
  case True
  then have "network_rules fe g = [Rule True [''network*''] []]"
    unfolding unrestricted_network_def network_rules_def by (cases "gr_mode g = ''open''") simp_all
  then show ?thesis using True by (simp add: outbound_ops)
next
  case False
  define tcp where "tcp =
    (if gr_mode g = ''blocked'' then []
     else (if gr_proxy_port g > 0 then [outbound (''localhost:'' @ show_int (gr_proxy_port g))] else []) @
          map (\<lambda>p. outbound (''*:'' @ show_int p)) (gr_tcp_connect g) @
          map (\<lambda>p. outbound (''localhost:'' @ show_int p)) (filter (\<lambda>p. p \<noteq> 0) (gr_open_ports g)) @
          (if 0 \<in> set (gr_open_ports g) then [outbound ''localhost:*''] else []) @
          (if gr_listen_ports g \<noteq> [] \<or> gr_open_ports g \<noteq> []
           then [Rule True [''network-bind''] [], Rule True [''network-inbound''] []] else []))"
  define rest where "rest = tcp @
    on_forms fe (\<lambda>fp. [Rule True [''network-outbound''] [Literal fp]]) (gr_unix_sockets g) @
    on_forms fe (\<lambda>fp. [Rule True [''network-outbound''] [Subpath fp]]) (gr_unix_dirs g) @
    [Rule True [''network-outbound''] [Literal ''/private/var/run/mDNSResponder'']]"
  have rules: "network_rules fe g = Rule False [''network*''] [] # rest"
    using False unfolding unrestricted_network_def network_rules_def rest_def tcp_def by simp
  have "list_all (\<lambda>r. rule_allows r = True) tcp"
    unfolding tcp_def by (simp add: outbound_def list.pred_map comp_def list_all_iff [of "\<lambda>x. True"])
  then have allow: "list_all (\<lambda>r. rule_allows r = True) rest" unfolding rest_def by (simp add: list_all_on_forms)
  have "list_ex (rule_matches rx ''network-outbound'' x) tcp \<longleftrightarrow> gr_mode g \<noteq> ''blocked'' \<and> remote_open g x"
  proof (cases "gr_mode g = ''blocked''")
    case False
    have binds: "\<not> rule_matches rx ''network-outbound'' x (Rule True [''network-bind''] [])"
      "\<not> rule_matches rx ''network-outbound'' x (Rule True [''network-inbound''] [])"
      by (simp_all add: outbound_ops)
    show ?thesis
      unfolding tcp_def remote_open_def if_not_P [OF False] list_ex_append list_ex_when list_ex_mapped outbound_matches
        remote_filters set_filter
      using False binds by blast
  qed (simp add: tcp_def)
  then have "list_ex (rule_matches rx ''network-outbound'' x) rest \<longleftrightarrow>
      socket_open fe g x \<or> (gr_mode g \<noteq> ''blocked'' \<and> remote_open g x)"
    unfolding rest_def list_ex_append matches_subpaths socket_open_def
    by (auto simp: list_ex_on_forms outbound_ops)
  then show ?thesis
    using last_match_uniform [OF allow] False by (simp add: rules outbound_ops)
qed

text \<open>
  Outbound traffic under the generated profile, to an address \<open>host:port\<close> or a socket path.  It goes
  anywhere in \<open>open\<close> mode and in \<open>filtered\<close> mode with \<open>env-only\<close> enforcement; otherwise exactly to the
  granted sockets and the resolver, and, unless the mode is \<open>blocked\<close>, to the proxy's port and the
  granted local ports on this machine, and to the granted ports of any host.
\<close>

theorem sbpl_outbound_exact:
  "sbpl_allows rx (sbpl_rules fe home g) ''network-outbound'' x \<longleftrightarrow>
     unrestricted_network g \<or> socket_open fe g x \<or> (gr_mode g \<noteq> ''blocked'' \<and> remote_open g x)"
  unfolding sbpl_allows_def sbpl_rules_eq append_assoc [symmetric]
  by (simp only: last_match_append network_last option.case option.inject eq_True)

end
