(* ===== verification/NameRule.thy ===== *)
theory NameRule
  imports Sbpl
begin

text \<open>
  What a name rule hides (\<open>sbplNameRegex\<close>, \<open>canDenyByName\<close>): the regular expressions are read back and
  matched, and shown to cover every match of the scan they replace.
\<close>

section \<open>Regular expressions\<close>

text \<open>
  The extended regular expressions the profile uses: literals, escapes, classes without ranges, the
  star of one of them, optional groups, and the anchors.
\<close>

datatype atom = One char | Any | Class bool "char list"

datatype rx_item = Single atom | Many atom | Optional "rx_item list" | End

fun atom_ok :: "atom \<Rightarrow> char \<Rightarrow> bool" where
  "atom_ok (One d) c \<longleftrightarrow> c = d"
| "atom_ok Any c \<longleftrightarrow> True"
| "atom_ok (Class negated cs) c \<longleftrightarrow> (c \<in> set cs) \<noteq> negated"

text \<open>What is left of a text after a match at its start, in every way to match.\<close>

fun many_rest :: "atom \<Rightarrow> string \<Rightarrow> string list" where
  "many_rest a [] = [[]]"
| "many_rest a (c # s) = (c # s) # (if atom_ok a c then many_rest a s else [])"

fun item_rest :: "rx_item \<Rightarrow> string \<Rightarrow> string list" and items_rest :: "rx_item list \<Rightarrow> string \<Rightarrow> string list" where
  "item_rest (Single a) s = (case s of [] \<Rightarrow> [] | c # t \<Rightarrow> if atom_ok a c then [t] else [])"
| "item_rest (Many a) s = many_rest a s"
| "item_rest (Optional is) s = s # items_rest is s"
| "item_rest End s = (if s = [] then [[]] else [])"
| "items_rest [] s = [s]"
| "items_rest (i # is) s = concat (map (items_rest is) (item_rest i s))"

definition rx_meta :: "char list" where
  "rx_meta = backslash # ''.+*?()|[]{}^$''"

fun parse_atom :: "string \<Rightarrow> (atom \<times> string) option" where
  "parse_atom [] = None"
| "parse_atom (c # s) =
     (if c = backslash then (case s of [] \<Rightarrow> None | d # r \<Rightarrow> Some (One d, r))
      else if c = dot then Some (Any, s)
      else if c = lbrack then
        (let (negated, body) = negation s; cs = takeWhile (\<lambda>d. d \<noteq> rbrack) body
         in if cs = [] \<or> cs = body \<or> CHR ''-'' \<in> set cs then None
            else Some (Class negated cs, drop (length cs + 1) body))
      else if c \<in> set rx_meta then None
      else Some (One c, s))"

lemma parse_atom_shorter: "parse_atom s = Some (a, r) \<Longrightarrow> length r < length s"
  by (cases s) (auto simp: negation_def Let_def split: if_splits list.splits)

function parse_rx :: "rx_item list option \<Rightarrow> rx_item list \<Rightarrow> string \<Rightarrow> rx_item list option" where
  "parse_rx outer acc s =
     (if s = [] then (if outer = None then Some (rev acc) else None)
      else if s = ''$'' then (if outer = None then Some (rev (End # acc)) else None)
      else if hd s = CHR ''('' then (if outer = None then parse_rx (Some acc) [] (tl s) else None)
      else if hd s = CHR '')'' then
        (case outer of
           None \<Rightarrow> None
         | Some before \<Rightarrow>
             if has_prefix (tl s) ''?'' then parse_rx None (Optional (rev acc) # before) (tl (tl s)) else None)
      else
        (case parse_atom s of
           None \<Rightarrow> None
         | Some (a, r) \<Rightarrow>
             if has_prefix r ''*'' then parse_rx outer (Many a # acc) (tl r) else parse_rx outer (Single a # acc) r))"
  by pat_completeness auto
termination
  by (relation "measure (\<lambda>(_, _, s). length s)") (auto dest: parse_atom_shorter simp: less_diff_conv)

declare parse_rx.simps [simp del]

definition regex_search :: "string \<Rightarrow> string \<Rightarrow> bool" where
  "regex_search text x =
     (let anchored = has_prefix text ''^'' in
      case parse_rx None [] (if anchored then tl text else text) of
        None \<Rightarrow> False
      | Some is \<Rightarrow> items_rest (if anchored then is else Many Any # is) x \<noteq> [])"

lemma in_many_rest: "t \<in> set (many_rest a s) \<longleftrightarrow> (\<exists>u. s = u @ t \<and> list_all (atom_ok a) u)"
proof (induction s)
  case (Cons c s)
  show ?case
  proof
    assume "t \<in> set (many_rest a (c # s))"
    then consider "t = c # s" | "atom_ok a c" "\<exists>u. s = u @ t \<and> list_all (atom_ok a) u" using Cons.IH by (auto split: if_splits)
    then show "\<exists>u. c # s = u @ t \<and> list_all (atom_ok a) u"
    proof cases
      case 2
      then obtain u where "s = u @ t" "list_all (atom_ok a) u" by blast
      then show ?thesis using 2 by (intro exI [of _ "c # u"]) simp
    qed (intro exI [of _ "[]"], simp)
  next
    assume "\<exists>u. c # s = u @ t \<and> list_all (atom_ok a) u"
    then obtain u where u: "c # s = u @ t" "list_all (atom_ok a) u" by blast
    then show "t \<in> set (many_rest a (c # s))" using Cons.IH by (cases u) auto
  qed
qed auto

lemma items_rest_append: "items_rest (is @ js) s = concat (map (items_rest js) (items_rest is s))"
proof (induction "is" arbitrary: s)
  case (Cons i "is")
  have "concat (map (\<lambda>t. concat (map (items_rest js) (items_rest is t))) ts) =
      concat (map (items_rest js) (concat (map (items_rest is) ts)))" for ts
    by (induction ts) simp_all
  moreover have "items_rest (is @ js) = (\<lambda>t. concat (map (items_rest js) (items_rest is t)))"
    by (rule ext) (rule Cons.IH)
  ultimately show ?case by simp
qed simp

lemma items_rest_text: "items_rest (map (\<lambda>c. Single (One c)) l) s = (if has_prefix s l then [drop (length l) s] else [])"
proof (induction l arbitrary: s)
  case (Cons c l)
  then show ?case by (cases s) (auto simp: has_prefix_def)
qed (simp add: has_prefix_def)

section \<open>Reading a name rule back\<close>

lemma parse_rx_single:
  assumes "parse_atom s = Some (a, r)" "\<not> has_prefix r ''*''" "s \<noteq> ''$''" "hd s \<noteq> CHR ''(''" "hd s \<noteq> CHR '')''"
  shows "parse_rx outer acc s = parse_rx outer (Single a # acc) r"
  using assms by (subst parse_rx.simps) auto

lemma parse_many:
  assumes "parse_atom s = Some (a, CHR ''*'' # r)" "s \<noteq> ''$''" "hd s \<noteq> CHR ''(''" "hd s \<noteq> CHR '')''"
  shows "parse_rx outer acc s = parse_rx outer (Many a # acc) r"
  using assms by (subst parse_rx.simps) (auto simp: has_prefix_def)

lemma regex_quote_simps:
  "regex_quote [] = []" "regex_quote (c # l) = (if c \<in> set rx_meta then [backslash, c] else [c]) @ regex_quote l"
  by (simp_all add: regex_quote_def rx_meta_def)

lemma quote_no_star: "\<not> has_prefix r ''*'' \<Longrightarrow> \<not> has_prefix (regex_quote l @ r) ''*''"
  by (cases l) (auto simp: regex_quote_simps has_prefix_def rx_meta_def)

lemma parse_quoted:
  "\<not> has_prefix r ''*'' \<Longrightarrow>
   parse_rx outer acc (regex_quote l @ r) = parse_rx outer (rev (map (\<lambda>c. Single (One c)) l) @ acc) r"
proof (induction l arbitrary: acc)
  case (Cons c l)
  have "parse_rx outer acc (regex_quote (c # l) @ r) = parse_rx outer (Single (One c) # acc) (regex_quote l @ r)"
  proof (rule parse_rx_single)
    show "\<not> has_prefix (regex_quote l @ r) ''*''" by (rule quote_no_star [OF Cons.prems])
    show "parse_atom (regex_quote (c # l) @ r) = Some (One c, regex_quote l @ r)"
      by (auto simp: regex_quote_simps rx_meta_def)
    show "regex_quote (c # l) @ r \<noteq> ''$''" "hd (regex_quote (c # l) @ r) \<noteq> CHR ''(''"
      "hd (regex_quote (c # l) @ r) \<noteq> CHR '')''"
      by (auto simp: regex_quote_simps rx_meta_def)
  qed
  then show ?case using Cons by simp
qed (simp add: regex_quote_simps)

definition name_item :: "char \<Rightarrow> rx_item" where
  "name_item c =
     (if c = star then Many (Class True ''/'')
      else if c = question then Single (Class True ''/'')
      else if lower_char c \<noteq> upper_char c then Single (Class False [lower_char c, upper_char c])
      else Single (One c))"

lemma name_char_no_star: "\<not> has_prefix r ''*'' \<Longrightarrow> \<not> has_prefix (name_regex_char c @ r) ''*''"
  using quote_no_star [of r "[c]"] by (auto simp: name_regex_char_def has_prefix_def)

lemma letter_cases:
  "lower_char c \<noteq> upper_char c \<Longrightarrow> is_lower_alpha (lower_char c) \<and> is_upper_alpha (upper_char c)"
  by (auto simp: lower_char_def upper_char_def is_lower_alpha_def is_upper_alpha_def split: if_splits)

lemma letter_not_meta:
  assumes "lower_char c \<noteq> upper_char c"
  shows "lower_char c \<notin> {rbrack, CHR ''^'', CHR ''-''} \<and> upper_char c \<notin> {rbrack, CHR ''^'', CHR ''-''}"
proof -
  have "\<forall>d \<in> {rbrack, CHR ''^'', CHR ''-''}. \<not> is_lower_alpha d \<and> \<not> is_upper_alpha d"
    by (simp add: is_lower_alpha_def is_upper_alpha_def code_def)
  then show ?thesis using letter_cases [OF assms] by blast
qed

lemma parse_name_char:
  assumes "\<not> has_prefix r ''*''"
  shows "parse_rx outer acc (name_regex_char c @ r) = parse_rx outer (name_item c # acc) r"
proof -
  consider "c = star" | "c = question" | (letter) "c \<noteq> star" "c \<noteq> question" "lower_char c \<noteq> upper_char c"
    | (other) "c \<noteq> star" "c \<noteq> question" "lower_char c = upper_char c"
    by blast
  then show ?thesis
  proof cases
    case 1
    then have "name_regex_char c = ''[^/]*''" "name_item c = Many (Class True ''/'')"
      by (simp_all add: name_regex_char_def name_item_def)
    moreover have "parse_atom (''[^/]*'' @ r) = Some (Class True ''/'', CHR ''*'' # r)" by (simp add: negation_def)
    ultimately show ?thesis by (simp add: parse_many)
  next
    case 2
    then have "name_regex_char c = ''[^/]''" "name_item c = Single (Class True ''/'')"
      by (simp_all add: name_regex_char_def name_item_def)
    moreover have "parse_atom (''[^/]'' @ r) = Some (Class True ''/'', r)" by (simp add: negation_def)
    ultimately show ?thesis using assms by (simp add: parse_rx_single)
  next
    case letter
    note m = letter_not_meta [OF letter(3)]
    have "name_regex_char c = [lbrack, lower_char c, upper_char c, rbrack]"
      "name_item c = Single (Class False [lower_char c, upper_char c])"
      using letter by (simp_all add: name_regex_char_def name_item_def)
    moreover have "parse_atom ([lbrack, lower_char c, upper_char c, rbrack] @ r) = Some (Class False [lower_char c, upper_char c], r)"
      using m by (simp add: negation_def eq_commute [of "CHR ''-''"])
    ultimately show ?thesis using assms by (simp add: parse_rx_single)
  next
    case other
    then have "name_regex_char c = regex_quote [c]" "name_item c = Single (One c)"
      by (simp_all add: name_regex_char_def name_item_def)
    then show ?thesis using parse_quoted [OF assms, of outer acc "[c]"] by simp
  qed
qed

lemma names_no_star: "\<not> has_prefix r ''*'' \<Longrightarrow> \<not> has_prefix (concat (map name_regex_char g) @ r) ''*''"
  by (induction g) (simp_all add: name_char_no_star)

lemma parse_name:
  "\<not> has_prefix r ''*'' \<Longrightarrow>
   parse_rx outer acc (concat (map name_regex_char g) @ r) = parse_rx outer (rev (map name_item g) @ acc) r"
proof (induction g arbitrary: acc)
  case (Cons c g)
  then show ?case using parse_name_char [OF names_no_star [OF Cons.prems]] by simp
qed simp

definition below_items :: "rx_item list" where
  "below_items = [Single (One slash), Optional [Many Any, Single (One slash)]]"

definition within_items :: "rx_item list" where
  "within_items = [Optional [Single (One slash), Many Any], End]"

lemma parse_open: "parse_rx None acc (CHR ''('' # s) = parse_rx (Some acc) [] s"
  by (subst parse_rx.simps) simp

lemma parse_close: "parse_rx (Some before) acc (CHR '')'' # CHR ''?'' # s) = parse_rx None (Optional (rev acc) # before) s"
  by (subst parse_rx.simps) (simp add: has_prefix_def)

lemma parse_slash: "\<not> has_prefix s ''*'' \<Longrightarrow> parse_rx outer acc (slash # s) = parse_rx outer (Single (One slash) # acc) s"
  by (rule parse_rx_single) (simp_all add: rx_meta_def)

lemma parse_anything: "parse_rx outer acc (dot # star # s) = parse_rx outer (Many Any # acc) s"
  by (rule parse_many) simp_all

lemma parse_end: "parse_rx None acc ''$'' = Some (rev acc @ [End])"
  by (subst parse_rx.simps) simp

lemma parse_below: "parse_rx None acc (''/(.*/)?'' @ s) = parse_rx None (rev below_items @ acc) s"
  by (simp add: parse_slash parse_open parse_anything parse_close has_prefix_def below_items_def)

lemma parse_within: "parse_rx None acc ''(/.*)?$'' = Some (rev acc @ within_items)"
  by (simp add: parse_slash parse_open parse_anything parse_close parse_end has_prefix_def within_items_def)

lemma parse_name_rule:
  "parse_rx None [] (regex_quote root @ ''/(.*/)?'' @ concat (map name_regex_char g) @ ''(/.*)?$'') =
     Some (map (\<lambda>c. Single (One c)) root @ below_items @ map name_item g @ within_items)"
proof -
  have "\<not> has_prefix (''/(.*/)?'' @ s) ''*''" for s by (simp add: has_prefix_def)
  note q = parse_quoted [OF this]
  have "\<not> has_prefix ''(/.*)?$'' ''*''" by (simp add: has_prefix_def)
  note n = parse_name [OF this]
  show ?thesis unfolding q parse_below n parse_within by simp
qed

section \<open>What a name rule matches\<close>

lemma lower_char_slash [simp]: "lower_char c = slash \<longleftrightarrow> c = slash"
  by (rule lower_char_eq_iff) (simp_all add: is_upper_alpha_def is_lower_alpha_def code_def)

lemma slash_in_lower [simp]: "slash \<in> set (to_lower s) \<longleftrightarrow> slash \<in> set s"
  by (induction s) (simp_all add: to_lower_def eq_commute [of slash])

lemma to_lower_eq_append: "to_lower n = a @ b \<Longrightarrow> \<exists>u v. n = u @ v \<and> to_lower u = a \<and> to_lower v = b"
  unfolding to_lower_def by (metis map_eq_append_conv)

lemma code_cases:
  "code (lower_char c) = (if 65 \<le> code c \<and> code c \<le> 90 then code c + 32 else code c)"
  "code (upper_char c) = (if 97 \<le> code c \<and> code c \<le> 122 then code c - 32 else code c)"
  using code_less [of c]
  by (simp_all add: lower_char_def upper_char_def is_lower_alpha_def is_upper_alpha_def less_imp_diff_less)

lemma lower_upper_letter:
  "lower_char c \<noteq> upper_char c \<Longrightarrow> d = lower_char c \<or> d = upper_char c \<longleftrightarrow> lower_char d = lower_char c"
  unfolding code_inject [symmetric] code_cases by (auto split: if_splits)

lemma lower_other: "lower_char c = upper_char c \<Longrightarrow> d = c \<longleftrightarrow> lower_char d = lower_char c"
  unfolding code_inject [symmetric] code_cases by (auto split: if_splits)

lemma lower_wild_char:
  "lower_char c = star \<longleftrightarrow> c = star" "lower_char c = question \<longleftrightarrow> c = question"
  by (rule lower_char_eq_iff; simp add: is_upper_alpha_def is_lower_alpha_def code_def)+

lemma to_lower_star: "to_lower (star # g) = star # to_lower g"
  using lower_wild_char(1) [of star] by (simp add: to_lower_def)

lemma name_item_rest:
  "c \<noteq> star \<Longrightarrow> item_rest (name_item c) s =
     (case s of [] \<Rightarrow> []
      | d # r \<Rightarrow> if (if c = question then d \<noteq> slash else lower_char d = lower_char c) then [r] else [])"
  using lower_upper_letter [of c] lower_other [of c]
  by (cases s; cases "lower_char c = upper_char c") (simp_all add: name_item_def)

lemma name_items_rest:
  "t \<in> set (items_rest (map name_item g) s) \<longleftrightarrow> (\<exists>n. s = n @ t \<and> wild (to_lower g) (to_lower n))"
proof (induction g arbitrary: s)
  case Nil
  then show ?case by (auto simp: to_lower_def)
next
  case (Cons c g)
  show ?case
  proof (cases "c = star")
    case True
    have "t \<in> set (items_rest (map name_item (c # g)) s) \<longleftrightarrow>
        (\<exists>u m. s = u @ m \<and> slash \<notin> set u \<and> (\<exists>n. m = n @ t \<and> wild (to_lower g) (to_lower n)))"
    proof -
      have sl: "list_all (atom_ok (Class True ''/'')) u \<longleftrightarrow> slash \<notin> set u" for u by (auto simp: list_all_iff)
      have "name_item c = Many (Class True ''/'')" using True by (simp add: name_item_def)
      then have "t \<in> set (items_rest (map name_item (c # g)) s) \<longleftrightarrow>
          (\<exists>m. m \<in> set (many_rest (Class True ''/'') s) \<and> t \<in> set (items_rest (map name_item g) m))"
        by auto
      then show ?thesis unfolding in_many_rest Cons.IH sl by (simp only: ex_simps) (metis (no_types))
    qed
    also have "\<dots> \<longleftrightarrow> (\<exists>n. s = n @ t \<and> wild (to_lower (c # g)) (to_lower n))"
    proof
      assume "\<exists>u m. s = u @ m \<and> slash \<notin> set u \<and> (\<exists>n. m = n @ t \<and> wild (to_lower g) (to_lower n))"
      then obtain u n where "s = u @ n @ t" "slash \<notin> set u" "wild (to_lower g) (to_lower n)" by blast
      then show "\<exists>n. s = n @ t \<and> wild (to_lower (c # g)) (to_lower n)"
        unfolding True to_lower_star wild_star by (intro exI [of _ "u @ n"] conjI exI [of _ "to_lower u"] exI) simp_all
    next
      assume "\<exists>n. s = n @ t \<and> wild (to_lower (c # g)) (to_lower n)"
      then obtain n a b where n: "s = n @ t" "to_lower n = a @ b" "slash \<notin> set a" "wild (to_lower g) b"
        unfolding True to_lower_star wild_star by blast
      obtain u v where "n = u @ v" "to_lower u = a" "to_lower v = b" using to_lower_eq_append [OF n(2)] by blast
      then show "\<exists>u m. s = u @ m \<and> slash \<notin> set u \<and> (\<exists>n. m = n @ t \<and> wild (to_lower g) (to_lower n))"
        using n by (intro exI [of _ u] exI [of _ "v @ t"]) auto
    qed
    finally show ?thesis .
  next
    case False
    have w: "wild (to_lower (c # g)) (to_lower n) \<longleftrightarrow>
        (\<exists>d r. n = d # r \<and> (if c = question then d \<noteq> slash else lower_char d = lower_char c) \<and> wild (to_lower g) (to_lower r))" for n
      using False by (cases n) (simp_all add: to_lower_def wild_char lower_wild_char)
    show ?thesis
    proof (cases s)
      case Nil
      then show ?thesis using False by (simp add: name_item_rest w)
    next
      case (Cons d r)
      then show ?thesis using False Cons.IH
        by (auto simp: name_item_rest w Cons_eq_append_conv split: if_splits)
    qed
  qed
qed

lemma in_items_append: "t \<in> set (items_rest (is @ js) s) \<longleftrightarrow> (\<exists>m. m \<in> set (items_rest is s) \<and> t \<in> set (items_rest js m))"
  by (auto simp: items_rest_append)

lemma below_rest: "m \<in> set (items_rest below_items s) \<longleftrightarrow> (\<exists>pre. s = slash # pre @ m \<and> (pre = [] \<or> last pre = slash))"
proof (cases s)
  case (Cons c r)
  have "m \<in> set (items_rest below_items s) \<longleftrightarrow> c = slash \<and> (m = r \<or> (\<exists>u. r = u @ slash # m))"
    using Cons by (auto simp: below_items_def in_many_rest list_all_iff split: list.splits)
  also have "\<dots> \<longleftrightarrow> (\<exists>pre. s = slash # pre @ m \<and> (pre = [] \<or> last pre = slash))"
  proof
    assume "c = slash \<and> (m = r \<or> (\<exists>u. r = u @ slash # m))"
    then consider "c = slash" "m = r" | u where "c = slash" "r = u @ slash # m" by blast
    then show "\<exists>pre. s = slash # pre @ m \<and> (pre = [] \<or> last pre = slash)"
    proof cases
      case 1
      then show ?thesis using Cons by (intro exI [of _ "[]"]) simp
    next
      case 2
      then show ?thesis using Cons by (intro exI [of _ "u @ [slash]"]) simp
    qed
  next
    assume "\<exists>pre. s = slash # pre @ m \<and> (pre = [] \<or> last pre = slash)"
    then obtain pre where "s = slash # pre @ m" "pre = [] \<or> last pre = slash" by blast
    then show "c = slash \<and> (m = r \<or> (\<exists>u. r = u @ slash # m))"
      using Cons by (cases pre rule: rev_cases) auto
  qed
  finally show ?thesis .
qed (simp add: below_items_def)

lemma within_rest: "items_rest within_items s \<noteq> [] \<longleftrightarrow> s = [] \<or> hd s = slash"
proof (cases s)
  case (Cons c r)
  have "[] \<in> set (many_rest Any r)" by (simp add: in_many_rest list_all_iff)
  then show ?thesis using Cons by (auto simp: within_items_def split: if_splits)
qed (simp add: within_items_def)

definition below_named :: "string \<Rightarrow> string \<Rightarrow> string \<Rightarrow> bool" where
  "below_named dir g x \<longleftrightarrow>
     (\<exists>pre name post. x = dir @ slash # pre @ name @ post \<and> (pre = [] \<or> last pre = slash) \<and>
        (post = [] \<or> hd post = slash) \<and> wild (to_lower g) (to_lower name))"

lemma name_rule_matches:
  "regex_search (''^'' @ regex_quote dir @ ''/(.*/)?'' @ concat (map name_regex_char g) @ ''(/.*)?$'') x \<longleftrightarrow>
   below_named dir g x"
proof -
  have "regex_search (''^'' @ regex_quote dir @ ''/(.*/)?'' @ concat (map name_regex_char g) @ ''(/.*)?$'') x \<longleftrightarrow>
      items_rest (map (\<lambda>c. Single (One c)) dir @ below_items @ map name_item g @ within_items) x \<noteq> []"
    using parse_name_rule [of dir g] by (simp add: regex_search_def has_prefix_def Let_def)
  also have "\<dots> \<longleftrightarrow> (\<exists>m1. x = dir @ m1 \<and> (\<exists>m2. m2 \<in> set (items_rest below_items m1) \<and>
      (\<exists>post. post \<in> set (items_rest (map name_item g) m2) \<and> items_rest within_items post \<noteq> [])))"
  proof -
    have ne: "items_rest (is @ js) s \<noteq> [] \<longleftrightarrow> (\<exists>m. m \<in> set (items_rest is s) \<and> items_rest js m \<noteq> [])" for "is" js s
      by (auto simp: items_rest_append)
    have d: "m \<in> set (items_rest (map (\<lambda>c. Single (One c)) dir) x) \<longleftrightarrow> x = dir @ m" for m
      unfolding items_rest_text using has_prefix_iff [of x dir] by (cases "has_prefix x dir") auto
    show ?thesis unfolding ne d by blast
  qed
  also have "\<dots> \<longleftrightarrow> below_named dir g x"
  proof
    assume "\<exists>m1. x = dir @ m1 \<and> (\<exists>m2. m2 \<in> set (items_rest below_items m1) \<and>
      (\<exists>post. post \<in> set (items_rest (map name_item g) m2) \<and> items_rest within_items post \<noteq> []))"
    then obtain m2 pre post name where m: "x = dir @ slash # pre @ m2" "pre = [] \<or> last pre = slash" "m2 = name @ post"
        "wild (to_lower g) (to_lower name)" "post = [] \<or> hd post = slash"
      unfolding below_rest name_items_rest within_rest by blast
    show "below_named dir g x"
      unfolding below_named_def using m by (intro exI [of _ pre] exI [of _ name] exI [of _ post]) simp
  next
    assume "below_named dir g x"
    then obtain pre name post where m: "x = dir @ slash # pre @ name @ post" "pre = [] \<or> last pre = slash"
        "post = [] \<or> hd post = slash" "wild (to_lower g) (to_lower name)"
      unfolding below_named_def by blast
    from m(2,4) have f: "\<exists>pre'. slash # pre @ name @ post = slash # pre' @ name @ post \<and> (pre' = [] \<or> last pre' = slash)"
      "\<exists>n. name @ post = n @ post \<and> wild (to_lower g) (to_lower n)"
      by auto
    show "\<exists>m1. x = dir @ m1 \<and> (\<exists>m2. m2 \<in> set (items_rest below_items m1) \<and>
      (\<exists>post. post \<in> set (items_rest (map name_item g) m2) \<and> items_rest within_items post \<noteq> []))"
      unfolding below_rest name_items_rest within_rest
      by (rule exI [of _ "slash # pre @ name @ post"], rule conjI, rule m(1), rule exI [of _ "name @ post"], rule conjI,
          rule f(1), rule exI [of _ post], rule conjI, rule f(2), rule m(3))
  qed
  finally show ?thesis .
qed

lemma name_rule_globs: "sbpl_name_regex root globs = Some res \<Longrightarrow> g \<in> set globs \<Longrightarrow> wild_glob g"
  by (auto simp: sbpl_name_regex_def list_ex_iff wild_glob_def unspellable_def split: if_splits)

lemma name_rule_lemma:
  assumes "sbpl_name_regex root globs = Some res"
  shows "list_ex (\<lambda>re. regex_search re x) res \<longleftrightarrow> (\<exists>g \<in> set globs. below_named (trim_suffix root ''/'') g x)"
proof -
  have "res = map (\<lambda>g. ''^'' @ regex_quote (trim_suffix root ''/'') @ ''/(.*/)?'' @
      concat (map name_regex_char g) @ ''(/.*)?$'') globs"
    using assms by (auto simp: sbpl_name_regex_def Let_def split: if_splits)
  then show ?thesis by (simp only: list_ex_mapped name_rule_matches)
qed

text \<open>
  C24: The name rule of a folder matches exactly the paths below it that have, at the end or on the way, a
  name that a glob matches without regard to letter case.
\<close>

theorem name_rule_exact:
  assumes "sbpl_name_regex root globs = Some res"
  shows "list_ex (\<lambda>re. regex_search re x) res \<longleftrightarrow> (\<exists>g \<in> set globs. below_named (trim_suffix root ''/'') g x)"
  using assms by (rule name_rule_lemma)

section \<open>The paths of the scan\<close>

text \<open>Where the scan is, and the spelling of what it finds.\<close>

lemma scanned_below:
  assumes "d \<in> scanned sc" "\<forall>d. \<forall>e \<in> set (sc_entries sc d). plain (fst e)" "sc_resolved sc = rooted rs" "list_all plain rs"
  shows "\<exists>ps. list_all plain ps \<and> d = rooted (rs @ ps)"
  using assms(1)
proof induction
  case Root
  show ?case using assms(3) by (intro exI [of _ "[]"]) simp
next
  case (Sub d e p)
  then obtain ps where ps: "list_all plain ps" "d = rooted (rs @ ps)" by blast
  have n: "plain (fst e)" using Sub.hyps(2) assms(2) by blast
  have "p = path_join [d, fst e]" using Sub.hyps(3) by (auto simp: entry_subdirs_def Let_def split: if_splits)
  then have "p = rooted (rs @ ps @ [fst e])" using join_rooted(1) [of "rs @ ps" "[fst e]"] ps n assms(4) by simp
  then show ?case using ps(1) n by (intro exI [of _ "ps @ [fst e]"]) simp
qed

lemma rejoin:
  assumes "list_all plain rs" "list_all plain gs" "list_all plain ps" "ps \<noteq> []"
  shows "path_join [rooted gs, trim_prefix (rooted (rs @ ps)) (rooted rs @ ''/'')] = rooted (gs @ ps)"
proof (cases "rs = []")
  case True
  obtain c n where "hd ps = c # n" "c \<noteq> slash" using assms(3,4) by (cases ps; cases "hd ps") (auto simp: plain_def)
  then have "\<not> has_prefix (join_with ''/'' ps) ''/''" using assms(4) by (cases ps; cases "tl ps") (auto simp: has_prefix_def)
  then have "trim_prefix (rooted ps) (rooted [] @ ''/'') = slash # join_with ''/'' ps"
    by (simp add: trim_prefix_def rooted_def path_of_def has_prefix_def)
  then show ?thesis using True join_rooted(2) [OF assms(2-4)] by simp
next
  case False
  have "trim_prefix (rooted (rs @ ps)) (rooted rs @ ''/'') = join_with ''/'' ps"
    unfolding rooted_append [OF False assms(4)] by (simp add: trim_prefix_def has_prefix_def)
  then show ?thesis using join_rooted(1) [OF assms(2-4)] by simp
qed

lemma to_hide_below:
  assumes "x \<in> to_hide sc" "\<forall>d. \<forall>e \<in> set (sc_entries sc d). plain (fst e)" "sc_resolved sc = rooted rs" "list_all plain rs"
    and "sc_root sc = rooted gs" "list_all plain gs"
  shows "\<exists>ps n. list_all plain (ps @ [n]) \<and> x = rooted (gs @ ps @ [n]) \<and> matches_glob (sc_globs sc) n"
proof -
  obtain d e where d: "d \<in> scanned sc" "e \<in> set (sc_entries sc d)" "x \<in> set (entry_found sc d e)"
    using assms(1) by (auto simp: to_hide_def)
  obtain ps where ps: "list_all plain ps" "d = rooted (rs @ ps)" using scanned_below [OF d(1) assms(2-4)] by blast
  have n: "plain (fst e)" using d(2) assms(2) by blast
  have "path_join [d, fst e] = rooted (rs @ ps @ [fst e])" using join_rooted(1) [of "rs @ ps" "[fst e]"] ps n assms(4) by simp
  then have "x = path_join [rooted gs, trim_prefix (rooted (rs @ ps @ [fst e])) (rooted rs @ ''/'')]"
    "matches_glob (sc_globs sc) (fst e)"
    using d(3) assms(3,5) by (auto simp: entry_found_def Let_def split: if_splits)
  then show ?thesis using rejoin [OF assms(4,6), of "ps @ [fst e]"] ps(1) n by (intro exI [of _ ps] exI [of _ "fst e"]) simp
qed

lemma wild_lower: "wild g n \<Longrightarrow> wild (to_lower g) (to_lower n)"
proof (induction g arbitrary: n)
  case (Cons c g)
  show ?case
  proof (cases "c = star")
    case True
    then obtain u v where "n = u @ v" "slash \<notin> set u" "wild g v" using Cons.prems by (auto simp: wild_star)
    then show ?thesis unfolding True to_lower_star wild_star using Cons.IH
      by (intro exI [of _ "to_lower u"] exI [of _ "to_lower v"]) simp
  next
    case False
    then show ?thesis using Cons by (cases n) (auto simp: to_lower_def wild_char lower_wild_char split: if_splits)
  qed
qed (simp add: to_lower_def)

text \<open>A match of the scan is below its root under a name the rule matches.\<close>

lemma match_below_named:
  assumes "list_all plain gs" "list_all plain (ps @ [n])" "matches_glob globs n" "\<forall>g \<in> set globs. wild_glob g"
  shows "\<exists>g \<in> set globs. below_named (trim_suffix (rooted gs) ''/'') g (rooted (gs @ ps @ [n]))"
proof -
  obtain g where g: "g \<in> set globs" "glob_match g n = Some True" using assms(3) by (auto simp: matches_glob_def list_ex_iff)
  then have w: "wild (to_lower g) (to_lower n)" using assms(4) glob_match_wild [of g n] wild_lower by simp
  define pre where "pre = (if ps = [] then [] else join_with ''/'' ps @ [slash])"
  have "join_with ''/'' (xs @ [n]) = (if xs = [] then [] else join_with ''/'' xs @ [slash]) @ n" for xs
    by (induction xs rule: induct_list012) simp_all
  then have "rooted (gs @ ps @ [n]) = trim_suffix (rooted gs) ''/'' @ slash # pre @ n @ []"
    using trim_rooted [OF assms(1), of "ps @ [n]"] by (simp add: pre_def)
  moreover have "pre = [] \<or> last pre = slash" by (simp add: pre_def)
  ultimately show ?thesis using g(1) w unfolding below_named_def by blast
qed

lemma root_hidden:
  assumes g: "resolve_grants env fe True limit p workdir = Inr g"
    and root: "deny_scan_roots env fe p workdir = Inr roots" "root \<in> set roots" "clean root = root" "is_abs root"
    and fs: "\<forall>q r. fe_resolve fe q = Some r \<longrightarrow> clean r = r \<and> is_abs r" "\<forall>d. \<forall>e \<in> set (fe_entries fe d). plain (fst e)"
    and globs: "globs = deny_globs env (pf_deny (pr_fs p)) workdir_protected_common (pf_override_deny (pr_fs p))"
    and x: "x \<in> to_hide (scan_of fe limit globs (walk_protected fe (static_denies env True p)) root)"
      "x \<notin> override_lookup env (pf_override_deny (pr_fs p))"
  shows "hidden regex_search fe g x"
proof -
  let ?sc = "scan_of fe limit globs (walk_protected fe (static_denies env True p)) root"
  obtain denied nd where parts: "resolve_deny_paths env fe True limit (pf_deny (pr_fs p)) workdir_protected_common
      (pf_override_deny (pr_fs p)) (dedupe roots) (static_denies env True p) = Inr (denied, nd)"
    "set (gr_protected g) = set (static_denies env True p) \<union> set denied - {[]}"
    "gr_name_roots g = nd_roots nd" "gr_name_globs g = nd_globs nd"
    using resolve_grants_parts [OF g] root(1) by auto
  have ne: "root \<noteq> []" using root(4) by (auto simp: is_abs_def has_prefix_def)
  have "clean (sc_resolved ?sc) = sc_resolved ?sc" "is_abs (sc_resolved ?sc)"
    using fs(1) root(3,4) by (cases "fe_resolve fe root"; simp add: scan_of_def)+
  then obtain rs where rs: "sc_resolved ?sc = rooted rs" "list_all plain rs" using rooted_of_clean by blast
  define gs where "gs = clean_parts root"
  have gs: "root = rooted gs" "list_all plain gs" unfolding gs_def using rooted_of_clean [OF root(3,4)] by simp_all
  have "\<exists>ps n. list_all plain (ps @ [n]) \<and> x = rooted (gs @ ps @ [n]) \<and> matches_glob (sc_globs ?sc) n"
    by (rule to_hide_below [OF x(1) _ rs _ gs(2)]) (use fs(2) gs(1) in \<open>simp_all add: scan_of_def\<close>)
  then obtain ps n where m: "list_all plain (ps @ [n])" "x = rooted (gs @ ps @ [n])" "matches_glob globs n"
    by (auto simp: scan_of_def)
  have "root \<in> set (dedupe roots)" using root(2) ne by (simp add: dedupe_def)
  from resolve_deny_roots [OF parts(1) this globs]
  consider (name) "root \<in> set (nd_roots nd)" "nd_globs nd = globs" "can_deny_by_name env fe True root globs (pf_override_deny (pr_fs p))"
    | (list) "to_hide ?sc \<subseteq> set denied \<union> override_lookup env (pf_override_deny (pr_fs p))"
    by blast
  then show ?thesis
  proof cases
    case name
    have form: "root \<in> set (path_forms fe root)" by (simp add: path_forms_def Let_def)
    then obtain res where res: "sbpl_name_regex root globs = Some res"
      using name(3) by (auto simp: can_deny_by_name_def list_all_iff)
    have "\<forall>g \<in> set globs. wild_glob g" using name_rule_globs [OF res] by blast
    then have "list_ex (\<lambda>re. regex_search re x) res"
      using match_below_named [OF gs(2) m(1,3)] m(2) gs(1) name_rule_lemma [OF res] by simp
    then show ?thesis using name(1,2) parts(3,4) form res unfolding hidden_def name_hidden_def list_ex_iff by metis
  next
    case list
    have "x \<noteq> []" using m(2) by (simp add: rooted_def path_of_def)
    then have "x \<in> set (gr_protected g)" using list x parts(2) by auto
    moreover have "x \<in> set (path_forms fe x)" by (simp add: path_forms_def Let_def)
    ultimately show ?thesis unfolding hidden_def covered_def by blast
  qed
qed

text \<open>
  C19: A launch on macOS hides every match of the deny list below a granted folder, whether the scan listed
  it or gave the folder up to a name rule: under the profile generated from the resolved grants such a
  file cannot be created or replaced, and unless it is a device or a system keychain, its data can be
  neither read nor written.  The file system is taken to list plain names and to resolve to cleaned
  absolute paths.
\<close>

theorem mac_launch_hides:
  assumes "resolve_grants env fe True limit p workdir = Inr g"
    and "deny_scan_roots env fe p workdir = Inr roots" "root \<in> set roots" "clean root = root" "is_abs root"
    and "\<forall>q r. fe_resolve fe q = Some r \<longrightarrow> clean r = r \<and> is_abs r" "\<forall>d. \<forall>e \<in> set (fe_entries fe d). plain (fst e)"
    and "globs = deny_globs env (pf_deny (pr_fs p)) workdir_protected_common (pf_override_deny (pr_fs p))"
    and "x \<in> to_hide (scan_of fe limit globs (walk_protected fe (static_denies env True p)) root)"
      "x \<notin> override_lookup env (pf_override_deny (pr_fs p))"
  shows "\<not> sbpl_allows regex_search (sbpl_rules fe home g) ''file-write-create'' x \<and>
    (device regex_search x \<or> \<not> sbpl_allows regex_search (sbpl_rules fe home g) ''file-write-data'' x) \<and>
    (device regex_search x \<or> x = ''/System/Library/Keychains'' \<or> is_under x ''/System/Library/Keychains'' \<or>
     \<not> sbpl_allows regex_search (sbpl_rules fe home g) ''file-read-data'' x)"
proof -
  have h: "hidden regex_search fe g x" using assms by (rule root_hidden)
  have ops: "''file-read-data'' \<in> set file_ops" "''file-write-data'' \<in> set file_ops" "''file-write-create'' \<in> set file_ops"
    by (simp_all add: file_ops_def)
  have ne: "''file-write-data'' \<noteq> ''file-read-data''" "''file-write-create'' \<noteq> ''file-read-data''" by simp_all
  show ?thesis unfolding ops [THEN file_decision] using h ne by argo
qed

definition demo_mac_fs :: fs_env where
  "demo_mac_fs =
     \<lparr>fe_stat = (\<lambda>p. Exists), fe_is_dir = (\<lambda>p. True), fe_is_socket = (\<lambda>p. False), fe_read = (\<lambda>p. None),
      fe_resolve = (\<lambda>p. if is_abs p then Some (clean p) else None),
      fe_entries = (\<lambda>d. if d = ''/p'' then [(''.env'', False)] else [])\<rparr>"

lemma demo_mac_simps:
  "fe_stat demo_mac_fs q = Exists" "fe_is_dir demo_mac_fs q" "fe_resolve demo_mac_fs ''/p'' = Some ''/p''"
  "fe_entries demo_mac_fs = (\<lambda>d. if d = ''/p'' then [(''.env'', False)] else [])"
  by (simp_all add: demo_mac_fs_def gostr)

lemma demo_mac_forms: "path_forms demo_mac_fs ''/p'' = [''/p'']" "path_forms demo_mac_fs ''/nix/store'' = [''/nix/store'']"
  by (simp_all add: path_forms_def canonical_path_def demo_mac_fs_def gostr)

definition demo_globs :: "string list" where
  "demo_globs = deny_globs demo_host_env [] workdir_protected_common []"

lemma demo_globs_eq: "demo_globs = workdir_protected_common"
  by (simp add: demo_globs_def deny_globs_def override_lookup_def List.map_filter_simps)

lemma demo_mac_scan:
  "root_result (scan_of demo_mac_fs (Suc 0) globs prot ''/p'') = ([], True)"
  by (simp add: root_result_def walk_one_deny_root_def scan_of_def demo_mac_simps numeral_eq_Suc)

lemma demo_mac_rule: "can_deny_by_name demo_host_env demo_mac_fs True ''/p'' workdir_protected_common []"
  by (simp add: can_deny_by_name_def demo_mac_forms sbpl_name_regex_def unspellable_def workdir_protected_common_def)

lemma demo_mac_denied:
  "resolve_deny_paths demo_host_env demo_mac_fs True (Suc 0) [] workdir_protected_common [] [''/p''] prot =
     Inr ([], \<lparr>nd_roots = [''/p''], nd_globs = workdir_protected_common\<rparr>)"
proof -
  have ne: "workdir_protected_common \<noteq> []" by (simp add: workdir_protected_common_def)
  have "walk_glob_matches demo_mac_fs (Suc 0) [''/p''] workdir_protected_common prot = ([], [''/p''])"
    using ne by (simp add: walk_glob_matches_def demo_mac_scan dedup_first_def)
  then show ?thesis
    using ne demo_mac_rule by (simp add: resolve_deny_paths_def override_lookup_def List.map_filter_simps path_form_denies_def)
qed

lemma demo_mac_roots: "deny_scan_roots demo_host_env demo_mac_fs demo_launch ''/p'' = Inr [''/p'']"
  by (simp add: deny_scan_roots_def demo_launch_simps dedupe_def in_deny_scan_skip_path_def demo_mac_forms
      deny_scan_skip_paths_def is_under_def has_prefix_def)

lemma demo_mac_existing:
  "\<exists>ps. existing demo_host_env demo_mac_fs (bl_read darwin_baseline) = Inr ps"
  "\<exists>ps. existing demo_host_env demo_mac_fs (bl_write darwin_baseline) = Inr ps"
  by (simp_all add: existing_def darwin_baseline_def demo_mac_simps expand_eval gostr)

lemma demo_mac_grants: "\<exists>g. resolve_grants demo_host_env demo_mac_fs True (Suc 0) demo_launch ''/p'' = Inr g"
proof -
  obtain rs where rs: "existing demo_host_env demo_mac_fs (bl_read darwin_baseline) = Inr rs" using demo_mac_existing by blast
  obtain ws where ws: "existing demo_host_env demo_mac_fs (bl_write darwin_baseline) = Inr ws" using demo_mac_existing by blast
  have e: "existing demo_host_env demo_mac_fs [] = Inr []" by (simp add: existing_def)
  have w: "worktree_additions demo_host_env demo_mac_fs demo_launch ''/p'' = Inr ([], [])"
    by (simp add: worktree_additions_def demo_launch_simps git_worktree_grants_def resolve_worktree_common_dir_def demo_mac_simps gostr)
  have d: "dedupe [''/p''] = [''/p'']" by (simp add: dedupe_def)
  have b: "platform_baseline True = darwin_baseline" "bl_workdir_protected darwin_baseline = workdir_protected_common"
    by (simp_all add: platform_baseline_def darwin_baseline_def)
  show ?thesis
    unfolding resolve_grants_def Let_def b demo_launch_simps append_Nil2
    by (simp add: rs ws e w d demo_mac_denied demo_mac_roots bind_sum_def)
qed

lemma demo_mac_found:
  "''/p/.env'' \<in> to_hide (scan_of demo_mac_fs (Suc 0) workdir_protected_common
     (walk_protected demo_mac_fs (static_denies demo_host_env True demo_launch)) ''/p'')" (is "_ \<in> to_hide ?sc")
proof -
  have "sc_resolved ?sc \<in> scanned ?sc" by (rule scanned.Root)
  then have r: "''/p'' \<in> scanned ?sc" by (simp add: scan_of_def demo_mac_simps)
  have e: "(''.env'', False) \<in> set (sc_entries ?sc ''/p'')" by (simp add: scan_of_def demo_mac_simps)
  have "matches_glob workdir_protected_common ''.env''"
    by (simp add: matches_glob_def workdir_protected_common_def glob_match_literal no_meta_def)
  then have "''/p/.env'' \<in> set (entry_found ?sc ''/p'' (''.env'', False))"
    by (simp add: entry_found_def scan_of_def demo_mac_simps gostr)
  then show ?thesis using r e unfolding to_hide_def by blast
qed

theorem mac_launch_hides_witness:
  "\<exists>g. resolve_grants demo_host_env demo_mac_fs True (Suc 0) demo_launch ''/p'' = Inr g \<and>
     \<not> sbpl_allows regex_search (sbpl_rules demo_mac_fs [] g) ''file-read-data'' ''/p/.env''"
proof -
  obtain g where g: "resolve_grants demo_host_env demo_mac_fs True (Suc 0) demo_launch ''/p'' = Inr g" using demo_mac_grants by blast
  have fs: "\<forall>q r. fe_resolve demo_mac_fs q = Some r \<longrightarrow> clean r = r \<and> is_abs r"
    "\<forall>d. \<forall>e \<in> set (fe_entries demo_mac_fs d). plain (fst e)"
    by (simp_all add: demo_mac_fs_def plain_def)
  have c: "clean ''/p'' = ''/p''" "is_abs ''/p''" by (simp_all add: gostr)
  have globs: "workdir_protected_common = deny_globs demo_host_env (pf_deny (pr_fs demo_launch)) workdir_protected_common
      (pf_override_deny (pr_fs demo_launch))"
    using demo_globs_eq by (simp add: demo_globs_def demo_launch_simps)
  have o: "''/p/.env'' \<notin> override_lookup demo_host_env (pf_override_deny (pr_fs demo_launch))"
    by (simp add: demo_launch_simps override_lookup_def List.map_filter_simps)
  have "\<not> device regex_search ''/p/.env''"
    by (simp add: device_def regex_search_def has_prefix_def Let_def parse_rx.simps rx_meta_def)
  moreover have "\<not> is_under ''/p/.env'' ''/System/Library/Keychains''" by (simp add: is_under_def has_prefix_def)
  ultimately have "\<not> sbpl_allows regex_search (sbpl_rules demo_mac_fs [] g) ''file-read-data'' ''/p/.env''"
    using mac_launch_hides [OF g demo_mac_roots _ c fs globs demo_mac_found o] by simp
  then show ?thesis using g by blast
qed

theorem name_rule_exact_witness:
  "\<exists>res. sbpl_name_regex ''/p/'' [''.env'', ''*.pem''] = Some res \<and> list_ex (\<lambda>re. regex_search re ''/p/a/KEY.PEM/x'') res"
proof -
  obtain res where res: "sbpl_name_regex ''/p/'' [''.env'', ''*.pem''] = Some res"
    by (simp add: sbpl_name_regex_def unspellable_def Let_def)
  have "to_lower ''*.pem'' = ''*.pem''" "to_lower ''KEY.PEM'' = ''key.pem''" by (simp_all add: gostr)
  moreover have "wild ''*.pem'' ''key.pem''"
    unfolding wild_star by (intro exI [of _ "''key''"] exI [of _ "''.pem''"]) (simp add: wild_char)
  ultimately have "wild (to_lower ''*.pem'') (to_lower ''KEY.PEM'')" by simp
  then have "below_named ''/p'' ''*.pem'' ''/p/a/KEY.PEM/x''"
    unfolding below_named_def by (intro exI [of _ "''a/''"] exI [of _ "''KEY.PEM''"] exI [of _ "''/x''"]) simp
  moreover have "trim_suffix ''/p/'' ''/'' = ''/p''" by (simp add: trim_suffix_def has_suffix_def)
  ultimately show ?thesis using name_rule_exact [OF res, of "''/p/a/KEY.PEM/x''"] res by auto
qed

end
