(* ===== verification/Bwrap.thy ===== *)
theory Bwrap
  imports Grants
begin

text \<open>
  The bubblewrap invocation on Linux (\<open>internal/sandboxrun/bwrap.go\<close>): the mounts of the grants, the
  masks of the protected paths, the arguments of the second stage, and what a process sees where.
\<close>

section \<open>Mounts\<close>

text \<open>Whether a path is a symbolic link, and where it leads (\<open>None\<close> when reading it fails).\<close>

record link_env =
  le_is_link :: "string \<Rightarrow> bool"
  le_readlink :: "string \<Rightarrow> string option"

record mount =
  mt_path :: string
  mt_rw :: bool
  mt_try :: bool

definition under_or_at :: "string \<Rightarrow> string \<Rightarrow> bool" where
  "under_or_at path root \<longleftrightarrow> path = root \<or> root = ''/'' \<or> has_prefix path (root @ ''/'')"

definition exists_path :: "fs_env \<Rightarrow> string \<Rightarrow> bool" where
  "exists_path fe p \<longleftrightarrow> fe_stat fe p = Exists"

definition covered_by_any :: "string \<Rightarrow> mount list \<Rightarrow> bool" where
  "covered_by_any path ms \<longleftrightarrow> list_ex (\<lambda>m. under_or_at path (mt_path m)) ms"

definition above_any_mount :: "string \<Rightarrow> mount list \<Rightarrow> bool" where
  "above_any_mount path ms \<longleftrightarrow> list_ex (\<lambda>m. mt_path m \<noteq> path \<and> under_or_at (mt_path m) path) ms"

fun innermost_loop :: "string \<Rightarrow> mount option \<Rightarrow> mount list \<Rightarrow> mount option" where
  "innermost_loop path best [] = best"
| "innermost_loop path best (m # ms) =
     innermost_loop path
       (if under_or_at path (mt_path m) \<and>
           (case best of None \<Rightarrow> True | Some b \<Rightarrow> length (mt_path m) > length (mt_path b))
        then Some m else best) ms"

definition innermost_mount :: "string \<Rightarrow> mount list \<Rightarrow> mount option" where
  "innermost_mount path ms = innermost_loop path None ms"

text \<open>
  The grants merged by path: write access wins, and the folders of sockets are bound only if there.
  The program keeps a map, whose order does not matter: it is sorted by path.
\<close>

fun add_mount :: "string \<Rightarrow> bool \<Rightarrow> mount list \<Rightarrow> mount list" where
  "add_mount p rw [] = [\<lparr>mt_path = p, mt_rw = rw, mt_try = False\<rparr>]"
| "add_mount p rw (m # ms) = (if mt_path m = p then m\<lparr>mt_rw := mt_rw m \<or> rw\<rparr> # ms else m # add_mount p rw ms)"

definition add_grant :: "bool \<Rightarrow> string \<Rightarrow> mount list \<Rightarrow> mount list" where
  "add_grant rw p ms = (if p = ''/proc'' \<or> p = ''/dev'' \<or> p = ''/'' then ms else add_mount p rw ms)"

definition ordered_mounts :: "grants \<Rightarrow> mount list" where
  "ordered_mounts g =
     (let ms = fold (add_grant True) (gr_allow g) (fold (add_grant True) (gr_write g) (fold (add_grant False) (gr_read g) []))
      in sort_key mt_path
           (map (\<lambda>m. if mt_path m \<in> set (gr_unix_dirs g) then m\<lparr>mt_try := True\<rparr> else m) ms))"

section \<open>Links inside the sandbox\<close>

definition max_symlink_hops :: nat where
  "max_symlink_hops = 32"

text \<open>The loop of \<open>sandboxResolve\<close>; it ends because links are counted and other steps shorten the rest.\<close>

function resolve_loop :: "fs_env \<Rightarrow> link_env \<Rightarrow> mount list \<Rightarrow> string \<Rightarrow> nat \<Rightarrow> string list \<Rightarrow> string option" where
  "resolve_loop fe le ms cur hops [] = Some cur"
| "resolve_loop fe le ms cur hops (name # rest) =
     (if name = [] \<or> name = ''.'' then resolve_loop fe le ms cur hops rest
      else if name = ''..'' then resolve_loop fe le ms (path_dir cur) hops rest
      else
        let next = path_join [cur, name] in
        case innermost_mount next ms of
          None \<Rightarrow> if \<not> above_any_mount next ms then None else resolve_loop fe le ms next hops rest
        | Some m \<Rightarrow>
            if mt_path m = next then resolve_loop fe le ms next hops rest
            else if fe_stat fe next \<noteq> Exists then None
            else if \<not> le_is_link le next then resolve_loop fe le ms next hops rest
            else if hops + 1 > max_symlink_hops then None
            else
              (case le_readlink le next of
                 None \<Rightarrow> None
               | Some target \<Rightarrow>
                   resolve_loop fe le ms (if is_abs target then ''/'' else cur) (hops + 1)
                     (split_on slash target @ rest)))"
  by pat_completeness auto
termination
  by (relation "(\<lambda>(_, _, _, _, hops, _). max_symlink_hops - hops) <*mlex*> measure (\<lambda>(_, _, _, _, _, rest). length rest)")
     (auto simp: mlex_iff wf_mlex)

definition sandbox_resolve :: "fs_env \<Rightarrow> link_env \<Rightarrow> string \<Rightarrow> mount list \<Rightarrow> string option" where
  "sandbox_resolve fe le p ms = resolve_loop fe le ms ''/'' 0 (split_on slash (clean p))"

definition same_real_path :: "fs_env \<Rightarrow> string \<Rightarrow> string \<Rightarrow> bool" where
  "same_real_path fe a b \<longleftrightarrow> fe_resolve fe a \<noteq> None \<and> fe_resolve fe a = fe_resolve fe b"

definition redundant_link_mount :: "fs_env \<Rightarrow> link_env \<Rightarrow> mount list \<Rightarrow> mount \<Rightarrow> bool" where
  "redundant_link_mount fe le ms m =
     (let others = filter (\<lambda>x. x \<noteq> m) ms in
      innermost_mount (path_dir (mt_path m)) others \<noteq> None \<and>
      (case sandbox_resolve fe le (mt_path m) others of
         None \<Rightarrow> False
       | Some target \<Rightarrow>
           target \<noteq> mt_path m \<and> same_real_path fe target (mt_path m) \<and>
           (case innermost_mount target others of None \<Rightarrow> False | Some c \<Rightarrow> mt_rw c = mt_rw m)))"

definition kept_mounts :: "fs_env \<Rightarrow> link_env \<Rightarrow> grants \<Rightarrow> mount list" where
  "kept_mounts fe le g = filter (\<lambda>m. \<not> redundant_link_mount fe le (ordered_mounts g) m) (ordered_mounts g)"

section \<open>The invocation\<close>

datatype bop = Bind string string bool bool | Tmpfs string | ProcFs | DevFs

fun bop_args :: "bop \<Rightarrow> string list" where
  "bop_args (Bind src dest rw try) =
     [(if rw then ''--bind'' else ''--ro-bind'') @ (if try then ''-try'' else []), src, dest]"
| "bop_args (Tmpfs dest) = [''--tmpfs'', dest]"
| "bop_args ProcFs = [''--proc'', ''/proc'']"
| "bop_args DevFs = [''--dev'', ''/dev'']"

definition mount_op :: "mount \<Rightarrow> bop" where
  "mount_op m = Bind (mt_path m) (mt_path m) (mt_rw m) (mt_try m)"

text \<open>The marker file and folder prepared to explain a denial, empty when there are none.\<close>

record markers =
  mk_file :: string
  mk_dir :: string

definition mask_op :: "fs_env \<Rightarrow> markers \<Rightarrow> string \<Rightarrow> bop" where
  "mask_op fe mk prot =
     (if fe_is_dir fe prot then (if mk_dir mk \<noteq> [] then Bind (mk_dir mk) prot False False else Tmpfs prot)
      else Bind (if mk_file mk \<noteq> [] then mk_file mk else ''/dev/null'') prot False False)"

definition root_granted :: "grants \<Rightarrow> bool" where
  "root_granted g \<longleftrightarrow> ''/'' \<in> set (gr_allow g)"

definition tmp_granted :: "fs_env \<Rightarrow> link_env \<Rightarrow> grants \<Rightarrow> bool" where
  "tmp_granted fe le g \<longleftrightarrow>
     root_granted g \<or> list_ex (\<lambda>m. mt_path m = ''/tmp'' \<and> (\<not> mt_try m \<or> exists_path fe (mt_path m))) (kept_mounts fe le g)"

definition bind_ops :: "fs_env \<Rightarrow> link_env \<Rightarrow> grants \<Rightarrow> bop list" where
  "bind_ops fe le g =
     (let ms = (if root_granted g then [] else kept_mounts fe le g) in
      (if root_granted g then [Bind ''/'' ''/'' True False] else []) @ [ProcFs, DevFs] @
      map mount_op (filter (\<lambda>m. \<not> has_prefix (mt_path m) ''/tmp/'') ms) @
      (if tmp_granted fe le g then [] else [Tmpfs ''/tmp'']) @
      map mount_op (filter (\<lambda>m. has_prefix (mt_path m) ''/tmp/'') ms))"

definition mask_ops :: "fs_env \<Rightarrow> link_env \<Rightarrow> markers \<Rightarrow> grants \<Rightarrow> bop list" where
  "mask_ops fe le mk g =
     map (mask_op fe mk)
       (filter (\<lambda>prot. (root_granted g \<or> covered_by_any prot (kept_mounts fe le g)) \<and> exists_path fe prot) (gr_protected g))"

definition bwrap_chdir :: "fs_env \<Rightarrow> link_env \<Rightarrow> grants \<Rightarrow> string" where
  "bwrap_chdir fe le g =
     (if \<not> root_granted g \<and> \<not> covered_by_any (gr_workdir g) (kept_mounts fe le g) \<and> gr_workdir g \<noteq> ''/'' then ''/''
      else gr_workdir g)"

definition bwrap_ops :: "fs_env \<Rightarrow> link_env \<Rightarrow> markers \<Rightarrow> grants \<Rightarrow> bop list" where
  "bwrap_ops fe le mk g = bind_ops fe le g @ mask_ops fe le mk g"

text \<open>\<open>None\<close> is the error for an empty second stage.\<close>

definition build_bwrap_argv :: "fs_env \<Rightarrow> link_env \<Rightarrow> markers \<Rightarrow> grants \<Rightarrow> string list \<Rightarrow> string list option" where
  "build_bwrap_argv fe le mk g stage2 =
     (if stage2 = [] then None
      else Some ([''bwrap'', ''--die-with-parent'', ''--new-session'', ''--unshare-pid'', ''--unshare-ipc'', ''--unshare-uts''] @
                 concat (map bop_args (bwrap_ops fe le mk g)) @ [''--chdir'', bwrap_chdir fe le g, ''--''] @ stage2))"

section \<open>Destinations that are links\<close>

text \<open>
  \<open>symlinkMountDests\<close> reads the invocation back.  A destination is recorded with its being a grant.
\<close>

fun top_bind :: "string \<Rightarrow> (string \<times> bool) option \<Rightarrow> (string \<times> bool) list \<Rightarrow> (string \<times> bool) option" where
  "top_bind dest best [] = best"
| "top_bind dest best (b # bs) =
     top_bind dest
       (if under_or_at dest (fst b) \<and> (case best of None \<Rightarrow> True | Some t \<Rightarrow> length (fst b) \<ge> length (fst t)) then Some b
        else best) bs"

definition link_dest :: "fs_env \<Rightarrow> link_env \<Rightarrow> (string \<times> bool) list \<Rightarrow> string \<Rightarrow> string list" where
  "link_dest fe le earlier dest =
     (case top_bind dest None earlier of
        None \<Rightarrow> []
      | Some (path, grant) \<Rightarrow>
          if grant \<and> path \<noteq> dest \<and> fe_stat fe dest = Exists \<and> le_is_link le dest then [dest] else [])"

definition bind_flags :: "string list" where
  "bind_flags = [''--bind'', ''--ro-bind'', ''--bind-try'', ''--ro-bind-try'']"

fun link_dests_loop :: "fs_env \<Rightarrow> link_env \<Rightarrow> (string \<times> bool) list \<Rightarrow> string list \<Rightarrow> string list" where
  "link_dests_loop fe le earlier [] = []"
| "link_dests_loop fe le earlier (flag # rest) =
     (if flag = ''--'' then []
      else if flag \<in> set bind_flags then
        (case rest of
           src # dest # rest' \<Rightarrow> link_dest fe le earlier dest @ link_dests_loop fe le (earlier @ [(dest, src = dest)]) rest'
         | _ \<Rightarrow> [])
      else if flag = ''--tmpfs'' then
        (case rest of
           dest # rest' \<Rightarrow> link_dest fe le earlier dest @ link_dests_loop fe le (earlier @ [(dest, dest = [])]) rest'
         | [] \<Rightarrow> [])
      else link_dests_loop fe le earlier rest)"

definition symlink_mount_dests :: "fs_env \<Rightarrow> link_env \<Rightarrow> string list \<Rightarrow> string list" where
  "symlink_mount_dests fe le argv = link_dests_loop fe le [] argv"

section \<open>What a process sees\<close>

text \<open>
  Mounts are made in order, and one hides what lies at and below its destination: a path shows the last
  that covers it.  A \<open>-try\<close> bind of a missing source does nothing.
\<close>

fun op_dest :: "bop \<Rightarrow> string" where
  "op_dest (Bind src dest rw try) = dest"
| "op_dest (Tmpfs dest) = dest"
| "op_dest ProcFs = ''/proc''"
| "op_dest DevFs = ''/dev''"

fun takes_effect :: "fs_env \<Rightarrow> bop \<Rightarrow> bool" where
  "takes_effect fe (Bind src dest rw try) \<longleftrightarrow> \<not> try \<or> exists_path fe src"
| "takes_effect fe _ \<longleftrightarrow> True"

definition seen :: "fs_env \<Rightarrow> bop list \<Rightarrow> string \<Rightarrow> bop option" where
  "seen fe ops x = find (\<lambda>op1. takes_effect fe op1 \<and> under_or_at x (op_dest op1)) (rev ops)"

lemma seen_append: "seen fe (xs @ ys) x = (case seen fe ys x of Some b \<Rightarrow> Some b | None \<Rightarrow> seen fe xs x)"
proof -
  have "find P (as @ bs) = (case find P as of Some b \<Rightarrow> Some b | None \<Rightarrow> find P bs)" for P :: "bop \<Rightarrow> bool" and as bs
    by (induction as) simp_all
  then show ?thesis by (simp add: seen_def split: option.split)
qed

lemma seen_Nil: "seen fe [] x = None"
  by (simp add: seen_def)

lemma seen_Cons:
  "seen fe (b # bs) x =
     (case seen fe bs x of
        Some r \<Rightarrow> Some r | None \<Rightarrow> if takes_effect fe b \<and> under_or_at x (op_dest b) then Some b else None)"
proof -
  have "seen fe [b] x = (if takes_effect fe b \<and> under_or_at x (op_dest b) then Some b else None)" by (simp add: seen_def)
  then show ?thesis using seen_append [of fe "[b]" bs x] by (simp split: option.split)
qed

lemma seen_None: "seen fe ops x = None \<longleftrightarrow> (\<forall>b \<in> set ops. takes_effect fe b \<longrightarrow> \<not> under_or_at x (op_dest b))"
  by (auto simp: seen_def find_None_iff)

lemma seen_Some: "seen fe ops x = Some b \<Longrightarrow> b \<in> set ops \<and> takes_effect fe b \<and> under_or_at x (op_dest b)"
  by (auto simp: seen_def find_Some_iff) (metis nth_mem set_rev length_rev)+

lemma mask_op_simps [simp]: "takes_effect fe (mask_op fe mk prot)" "op_dest (mask_op fe mk prot) = prot"
  by (simp_all add: mask_op_def)


section \<open>The mounts of the grants\<close>

text \<open>The destinations the sandbox mounts itself, which no grant replaces.\<close>

definition own_mounts :: "string set" where
  "own_mounts = {''/proc'', ''/dev'', ''/''}"

lemma add_grant_eq: "add_grant rw p ms = (if p \<in> own_mounts then ms else add_mount p rw ms)"
  by (simp add: add_grant_def own_mounts_def)

definition granted_paths :: "grants \<Rightarrow> string set" where
  "granted_paths g = set (gr_read g) \<union> set (gr_write g) \<union> set (gr_allow g) - own_mounts"

definition written_paths :: "grants \<Rightarrow> string set" where
  "written_paths g = set (gr_write g) \<union> set (gr_allow g)"

text \<open>What a list of mounts stands for: the paths, and those with write access.\<close>

definition stands_for :: "mount list \<Rightarrow> string set \<Rightarrow> string set \<Rightarrow> bool" where
  "stands_for ms S W \<longleftrightarrow> distinct (map mt_path ms) \<and> mt_path ` set ms = S \<and> (\<forall>m \<in> set ms. (mt_rw m \<longleftrightarrow> mt_path m \<in> W) \<and> \<not> mt_try m)"

lemma add_mount_paths: "mt_path ` set (add_mount p rw ms) = insert p (mt_path ` set ms)"
  by (induction ms) auto

lemma stands_for_add:
  "stands_for ms S W \<Longrightarrow> W \<subseteq> S \<Longrightarrow> stands_for (add_mount p rw ms) (insert p S) (if rw then insert p W else W)"
proof (induction ms arbitrary: S W)
  case (Cons m ms)
  have tail: "stands_for ms (mt_path ` set ms) (W \<inter> mt_path ` set ms)" "mt_path m \<notin> mt_path ` set ms"
    using Cons.prems(1) by (auto simp: stands_for_def)
  have S: "S = insert (mt_path m) (mt_path ` set ms)" "mt_rw m \<longleftrightarrow> mt_path m \<in> W" "\<not> mt_try m" using Cons.prems(1) by (auto simp: stands_for_def)
  show ?case
  proof (cases "mt_path m = p")
    case True
    have "\<forall>x \<in> set ms. mt_path x \<noteq> mt_path m" using tail(2) by (metis imageI)
    then show ?thesis using True Cons.prems(1) by (auto simp: stands_for_def)
  next
    case False
    from Cons.IH [OF tail(1)] have "stands_for (add_mount p rw ms) (insert p (mt_path ` set ms))
        (if rw then insert p (W \<inter> mt_path ` set ms) else W \<inter> mt_path ` set ms)"
      by simp
    moreover have "x \<in> (if rw then insert p (W \<inter> mt_path ` set ms) else W \<inter> mt_path ` set ms) \<longleftrightarrow>
        x \<in> (if rw then insert p W else W)" if "x \<in> insert p (mt_path ` set ms)" for x
      using that False S(1) Cons.prems(2) by auto
    ultimately have "distinct (map mt_path (add_mount p rw ms))"
      "\<forall>x \<in> set (add_mount p rw ms). (mt_rw x \<longleftrightarrow> mt_path x \<in> (if rw then insert p W else W)) \<and> \<not> mt_try x"
      unfolding stands_for_def by blast+
    then show ?thesis using False tail(2) S by (auto simp: stands_for_def add_mount_paths)
  qed
qed (simp add: stands_for_def)

lemma stands_for_grants:
  "stands_for ms S W \<Longrightarrow> W \<subseteq> S \<Longrightarrow> S \<inter> own_mounts = {} \<Longrightarrow>
   stands_for (fold (add_grant rw) ps ms) (S \<union> (set ps - own_mounts))
     (if rw then W \<union> (set ps - own_mounts) else W)"
proof (induction ps arbitrary: ms S W)
  case (Cons p ps)
  show ?case
  proof (cases "p \<in> own_mounts")
    case True
    then have "add_grant rw p ms = ms" by (simp add: add_grant_eq)
    moreover have "set (p # ps) - own_mounts = set ps - own_mounts" using True by auto
    ultimately show ?thesis using Cons.IH [OF Cons.prems] by (cases rw) simp_all
  next
    case False
    then have a: "add_grant rw p ms = add_mount p rw ms" by (simp add: add_grant_eq)
    have s: "set (p # ps) - own_mounts = insert p (set ps - own_mounts)"
      using False by auto
    have "stands_for (add_mount p rw ms) (insert p S) (if rw then insert p W else W)"
      by (rule stands_for_add [OF Cons.prems(1,2)])
    moreover have "(if rw then insert p W else W) \<subseteq> insert p S" using Cons.prems(2) by auto
    moreover have "insert p S \<inter> own_mounts = {}" using False Cons.prems(3) by blast
    ultimately have "stands_for (fold (add_grant rw) ps (add_mount p rw ms)) (insert p S \<union> (set ps - own_mounts))
        (if rw then (if rw then insert p W else W) \<union> (set ps - own_mounts) else (if rw then insert p W else W))"
      by (rule Cons.IH)
    then show ?thesis unfolding s fold_simps a by (cases rw) simp_all
  qed
qed simp

lemma ordered_mounts_facts:
  "distinct (map mt_path (ordered_mounts g))" "sorted (map mt_path (ordered_mounts g))"
  "mt_path ` set (ordered_mounts g) = granted_paths g"
  "m \<in> set (ordered_mounts g) \<Longrightarrow>
     (mt_rw m \<longleftrightarrow> mt_path m \<in> written_paths g) \<and> (mt_try m \<longleftrightarrow> mt_path m \<in> set (gr_unix_dirs g))"
proof -
  let ?X = "own_mounts"
  let ?ms = "fold (add_grant True) (gr_allow g) (fold (add_grant True) (gr_write g) (fold (add_grant False) (gr_read g) []))"
  let ?f = "\<lambda>m. if mt_path m \<in> set (gr_unix_dirs g) then m\<lparr>mt_try := True\<rparr> else m"
  have o: "ordered_mounts g = sort_key mt_path (map ?f ?ms)" by (simp add: ordered_mounts_def Let_def)
  have p: "mt_path (?f m) = mt_path m" "mt_rw (?f m) = mt_rw m" for m by simp_all
  have 0: "stands_for [] {} {}" by (simp add: stands_for_def)
  have 1: "stands_for (fold (add_grant False) (gr_read g) []) (set (gr_read g) - ?X) {}"
    using stands_for_grants [OF 0, of False "gr_read g"] by simp
  have 2: "stands_for (fold (add_grant True) (gr_write g) (fold (add_grant False) (gr_read g) []))
      ((set (gr_read g) - ?X) \<union> (set (gr_write g) - ?X)) (set (gr_write g) - ?X)"
    using stands_for_grants [OF 1, of True "gr_write g"] by auto
  have "stands_for ?ms ((set (gr_read g) - ?X) \<union> (set (gr_write g) - ?X) \<union> (set (gr_allow g) - ?X))
      ((set (gr_write g) - ?X) \<union> (set (gr_allow g) - ?X))"
    using stands_for_grants [OF 2, of True "gr_allow g"] by auto
  then have ms: "distinct (map mt_path ?ms)" "mt_path ` set ?ms = granted_paths g"
    "\<forall>m \<in> set ?ms. (mt_rw m \<longleftrightarrow> mt_path m \<in> written_paths g - ?X) \<and> \<not> mt_try m"
    by (auto simp: stands_for_def granted_paths_def written_paths_def)
  have mp: "map mt_path (map ?f ?ms) = map mt_path ?ms" by (simp add: p comp_def)
  show "sorted (map mt_path (ordered_mounts g))" unfolding o by (rule sorted_sort_key)
  have dk: "distinct (map mt_path (sort_key mt_path xs)) \<longleftrightarrow> distinct (map mt_path xs)" for xs :: "mount list"
    by (simp add: distinct_map)
  then show "distinct (map mt_path (ordered_mounts g))" by (simp only: o dk mp ms(1))
  show paths: "mt_path ` set (ordered_mounts g) = granted_paths g"
    unfolding o set_sort using mp ms(2) by (metis list.set_map)
  show "m \<in> set (ordered_mounts g) \<Longrightarrow>
     (mt_rw m \<longleftrightarrow> mt_path m \<in> written_paths g) \<and> (mt_try m \<longleftrightarrow> mt_path m \<in> set (gr_unix_dirs g))"
  proof
    assume "m \<in> set (ordered_mounts g)"
    then obtain m' where m': "m' \<in> set ?ms" "m = ?f m'" unfolding o by auto
    have e: "mt_path m' = mt_path m" "mt_rw m' = mt_rw m" using m'(2) by simp_all
    have "mt_path m \<in> mt_path ` set (ordered_mounts g)" using \<open>m \<in> set (ordered_mounts g)\<close> by (rule imageI)
    then have "mt_path m \<notin> own_mounts" unfolding paths granted_paths_def by simp
    then show "mt_rw m \<longleftrightarrow> mt_path m \<in> written_paths g" using ms(3) [rule_format, OF m'(1)] e by simp
    show "mt_try m \<longleftrightarrow> mt_path m \<in> set (gr_unix_dirs g)"
      using ms(3) m' by (cases "mt_path m' \<in> set (gr_unix_dirs g)") simp_all
  qed
qed

section \<open>The last mount is the innermost\<close>

text \<open>Of two directories above a path, other than the root, the shorter is above the longer and sorts before it.\<close>

lemma shorter_first:
  assumes "under_or_at x p" "under_or_at x q" "p \<noteq> ''/''" "q \<noteq> ''/''" "length p \<le> length q"
  shows "under_or_at q p" "p \<le> q"
proof -
  obtain s where s: "x = p @ s" using assms(1,3) by (auto simp: under_or_at_def has_prefix_iff)
  obtain u where u: "x = q @ u" using assms(2,4) by (auto simp: under_or_at_def has_prefix_iff)
  have "take (length p) q = p" using s u assms(5) by (metis append_eq_append_conv_if append_eq_conv_conj take_append)
  then obtain v where v: "q = p @ v" by (metis append_take_drop_id)
  have "v = [] \<or> hd v = slash"
    using assms(1,3) s u v by (cases v) (auto simp: under_or_at_def has_prefix_iff)
  then show "under_or_at q p" using v by (cases v) (auto simp: under_or_at_def has_prefix_iff)
  have "p \<le> p @ v" by (simp add: list_le_def list_less_def lexord_append_rightI) (cases v; simp add: lexord_append_rightI)
  then show "p \<le> q" using v by simp
qed

lemma seen_mounts:
  assumes ms: "sorted (map mt_path ms)" "distinct (map mt_path ms)" "''/'' \<notin> mt_path ` set ms"
    and m: "m \<in> set ms" "takes_effect fe (mount_op m)" "under_or_at x (mt_path m)"
    and long: "\<forall>m' \<in> set ms. takes_effect fe (mount_op m') \<and> under_or_at x (mt_path m') \<longrightarrow> length (mt_path m') \<le> length (mt_path m)"
  shows "seen fe (map mount_op ms) x = Some (mount_op m)"
proof -
  obtain as bs where s: "ms = as @ m # bs" using m(1) by (meson split_list)
  have "\<not> (takes_effect fe (mount_op b) \<and> under_or_at x (mt_path b))" if b: "b \<in> set bs" for b
  proof
    assume e: "takes_effect fe (mount_op b) \<and> under_or_at x (mt_path b)"
    have "length (mt_path b) \<le> length (mt_path m)" using long e b s by auto
    then have "mt_path b \<le> mt_path m"
      using shorter_first(2) [of x "mt_path b" "mt_path m"] e m(1,3) ms(3) b s by force
    moreover have "mt_path m \<le> mt_path b" "mt_path m \<noteq> mt_path b" using ms(1,2) b s by (auto simp: sorted_append)
    ultimately show False by simp
  qed
  then have "seen fe (map mount_op bs) x = None" by (auto simp: seen_None mount_op_def)
  then show ?thesis using m(2,3) by (simp add: s seen_append seen_Cons mount_op_def)
qed

section \<open>Dropped binds\<close>

text \<open>Without a link on the way a path leads to itself, so only binds of links are dropped.\<close>

lemma resolve_without_links:
  assumes "list_all plain ds" "list_all plain ns"
    and "\<forall>as bs. ns = as @ bs \<longrightarrow> \<not> le_is_link le (rooted (ds @ as))"
  shows "resolve_loop fe le ms (rooted ds) hops ns \<in> {None, Some (rooted (ds @ ns))}"
  using assms
proof (induction ns arbitrary: ds)
  case (Cons n ns)
  have p: "plain n" "list_all plain ns" using Cons.prems(2) by simp_all
  then have n: "n \<noteq> []" "n \<noteq> ''.''" "n \<noteq> ''..''" "plain n" "list_all plain ns" by (simp_all add: plain_def [of n])
  have next_step: "path_join [rooted ds, n] = rooted (ds @ [n])"
    using join_rooted(1) [of ds "[n]"] Cons.prems(1) n(4) by simp
  have link: "\<not> le_is_link le (rooted (ds @ [n]))" using Cons.prems(3) by (metis append_Cons append_Nil)
  have "\<forall>as bs. ns = as @ bs \<longrightarrow> \<not> le_is_link le (rooted ((ds @ [n]) @ as))"
    using Cons.prems(3) by (metis append.assoc append_Cons append_Nil)
  then have IH: "resolve_loop fe le ms (rooted (ds @ [n])) hops ns \<in> {None, Some (rooted (ds @ n # ns))}"
    using Cons.IH [of "ds @ [n]"] Cons.prems(1) n(4,5) by simp
  show ?case using IH n(1-3) by (simp add: next_step link Let_def split: option.split)
qed simp

lemma split_rooted: "list_all plain ps \<Longrightarrow> ps \<noteq> [] \<Longrightarrow> split_on slash (rooted ps) = [] # ps"
  using split_on_append [of slash "[]" "join_with ''/'' ps"] split_join_plain [of ps] by (simp add: rooted_def path_of_def)

lemma under_or_at_rooted:
  assumes "list_all plain (as @ bs)"
  shows "under_or_at (rooted (as @ bs)) (rooted as)"
proof (cases "as = [] \<or> bs = []")
  case True
  then show ?thesis by (auto simp: under_or_at_def rooted_def path_of_def)
next
  case False
  then show ?thesis using rooted_append [of as bs] by (simp add: under_or_at_def has_prefix_iff)
qed

lemma under_or_at_trans:
  assumes "under_or_at a b" "under_or_at b c" "c \<noteq> []"
  shows "under_or_at a c"
proof -
  consider "a = b" | "b = ''/''" | u where "a = b @ slash # u" using assms(1) by (auto simp: under_or_at_def has_prefix_iff)
  then show ?thesis
  proof cases
    case 2
    then have "c = ''/''" using assms(2,3) by (cases c) (auto simp: under_or_at_def has_prefix_iff)
    then show ?thesis by (simp add: under_or_at_def)
  qed (use assms(2) in \<open>auto simp: under_or_at_def has_prefix_iff\<close>)
qed

lemma real_mount_kept:
  assumes "clean (mt_path m) = mt_path m" "is_abs (mt_path m)" "mt_path m \<noteq> ''/''" "under_or_at x (mt_path m)"
    and "\<forall>q. under_or_at x q \<longrightarrow> \<not> le_is_link le q"
  shows "\<not> redundant_link_mount fe le ms m"
proof -
  define ps where "ps = clean_parts (mt_path m)"
  have ps: "mt_path m = rooted ps" "list_all plain ps" unfolding ps_def using rooted_of_clean [OF assms(1,2)] by simp_all
  have ne: "ps \<noteq> []" using assms(3) ps(1) by (auto simp: rooted_def path_of_def)
  have root: "rooted [] = ''/''" by (simp add: rooted_def path_of_def)
  have "\<not> le_is_link le (rooted ([] @ as))" if "ps = as @ bs" for as bs
  proof -
    have "under_or_at (mt_path m) (rooted as)" unfolding ps(1) that by (rule under_or_at_rooted) (use ps(2) that in simp)
    moreover have "rooted as \<noteq> []" by (simp add: rooted_def path_of_def)
    ultimately have "under_or_at x (rooted as)" using under_or_at_trans assms(4) by blast
    then show ?thesis using assms(5) by simp
  qed
  then have "resolve_loop fe le ms' ''/'' 0 ps \<in> {None, Some (rooted ps)}" for ms'
    using resolve_without_links [of "[]" ps le fe ms' 0] ps(2) root by simp
  then have "sandbox_resolve fe le (mt_path m) ms' \<in> {None, Some (mt_path m)}" for ms'
    unfolding sandbox_resolve_def assms(1) unfolding ps(1) split_rooted [OF ps(2) ne] by simp
  then have "\<forall>ms'. sandbox_resolve fe le (mt_path m) ms' = None \<or> sandbox_resolve fe le (mt_path m) ms' = Some (mt_path m)"
    by blast
  then show ?thesis 
    unfolding redundant_link_mount_def Let_def by (auto dest: spec [of _ "filter (\<lambda>x. x \<noteq> m) ms"] split: option.splits)
qed

section \<open>Access\<close>

definition grants_at :: "fs_env \<Rightarrow> grants \<Rightarrow> string \<Rightarrow> string set" where
  "grants_at fe g x = {p \<in> granted_paths g. under_or_at x p \<and> (p \<in> set (gr_unix_dirs g) \<longrightarrow> exists_path fe p)}"

definition unmasked :: "fs_env \<Rightarrow> link_env \<Rightarrow> grants \<Rightarrow> string \<Rightarrow> bool" where
  "unmasked fe le g x \<longleftrightarrow>
     (\<forall>prot \<in> set (gr_protected g). under_or_at x prot \<longrightarrow> \<not> (exists_path fe prot \<and> covered_by_any prot (kept_mounts fe le g)))"

text \<open>A path none of whose ancestors is a link, under grants that are cleaned and absolute.\<close>

definition real_path :: "link_env \<Rightarrow> string \<Rightarrow> bool" where
  "real_path le x \<longleftrightarrow> (\<forall>q. under_or_at x q \<longrightarrow> \<not> le_is_link le q)"

definition clean_grants :: "grants \<Rightarrow> bool" where
  "clean_grants g \<longleftrightarrow> (\<forall>p \<in> granted_paths g. clean p = p \<and> is_abs p)"

lemma grants_at_mounts:
  "p \<in> grants_at fe g x \<longleftrightarrow>
   (\<exists>m \<in> set (ordered_mounts g). mt_path m = p \<and> takes_effect fe (mount_op m) \<and> under_or_at x p)"
proof -
  have "p \<in> granted_paths g \<longleftrightarrow> (\<exists>m \<in> set (ordered_mounts g). mt_path m = p)" unfolding ordered_mounts_facts(3) [symmetric] by blast
  then show ?thesis using ordered_mounts_facts(4) [of _ g] by (auto simp: grants_at_def mount_op_def)
qed

lemma no_root_mount: "''/'' \<notin> mt_path ` set (ordered_mounts g)"
  unfolding ordered_mounts_facts(3) by (simp add: granted_paths_def own_mounts_def)

lemma kept_real:
  assumes "clean_grants g" "real_path le x" "m \<in> set (ordered_mounts g)" "under_or_at x (mt_path m)"
  shows "m \<in> set (kept_mounts fe le g)"
proof -
  have "mt_path m \<in> granted_paths g" using assms(3) ordered_mounts_facts(3) [of g] by blast
  then have "clean (mt_path m) = mt_path m" "is_abs (mt_path m)" "mt_path m \<noteq> ''/''"
    using assms(1) by (auto simp: clean_grants_def granted_paths_def own_mounts_def)
  then show ?thesis using real_mount_kept assms(2-4) by (auto simp: kept_mounts_def real_path_def)
qed

text \<open>The segment of binds that a filter of the kept mounts makes.\<close>

lemma seen_segment:
  assumes g: "clean_grants g" "real_path le x"
    and p: "p \<in> grants_at fe g x" "\<forall>q \<in> grants_at fe g x. length q \<le> length p"
    and P: "\<And>m. mt_path m = p \<Longrightarrow> P m"
  shows "seen fe (map mount_op (filter P (kept_mounts fe le g))) x = Some (Bind p p (p \<in> written_paths g) (p \<in> set (gr_unix_dirs g)))"
proof -
  obtain m where m: "m \<in> set (ordered_mounts g)" "mt_path m = p" "takes_effect fe (mount_op m)" "under_or_at x (mt_path m)"
    using p(1) unfolding grants_at_mounts by blast
  let ?ms = "filter P (kept_mounts fe le g)"
  have sub: "?ms = filter (\<lambda>m. P m \<and> \<not> redundant_link_mount fe le (ordered_mounts g) m) (ordered_mounts g)"
    by (simp add: kept_mounts_def conj_commute)
  have "seen fe (map mount_op ?ms) x = Some (mount_op m)"
  proof (rule seen_mounts)
    show "sorted (map mt_path ?ms)" unfolding sub by (rule sorted_filter) (rule ordered_mounts_facts(2))
    show "distinct (map mt_path ?ms)" unfolding sub by (rule distinct_map_filter) (rule ordered_mounts_facts(1))
    show "''/'' \<notin> mt_path ` set ?ms" using no_root_mount [of g] unfolding sub by auto
    show "m \<in> set ?ms" using kept_real [OF g m(1,4)] P [OF m(2)] by simp
    show "\<forall>m' \<in> set ?ms. takes_effect fe (mount_op m') \<and> under_or_at x (mt_path m') \<longrightarrow> length (mt_path m') \<le> length (mt_path m)"
      using p(2) m(2) grants_at_mounts [of _ fe g x] unfolding sub by auto
  qed (use m in simp_all)
  then show ?thesis using m(2) ordered_mounts_facts(4) [OF m(1)] by (simp add: mount_op_def)
qed

lemma seen_no_grant:
  assumes "\<forall>q \<in> grants_at fe g x. \<forall>m. mt_path m = q \<longrightarrow> \<not> P m"
  shows "seen fe (map mount_op (filter P (kept_mounts fe le g))) x = None"
proof -
  have "\<not> (takes_effect fe (mount_op m) \<and> under_or_at x (mt_path m))" if "m \<in> set (kept_mounts fe le g)" "P m" for m
    using that assms grants_at_mounts [of "mt_path m" fe g x] by (auto simp: kept_mounts_def)
  then show ?thesis by (auto simp: seen_None mount_op_def)
qed

lemma tmp_granted_at:
  assumes "clean_grants g" "real_path le x" "under_or_at x ''/tmp''" "\<not> root_granted g"
  shows "tmp_granted fe le g \<longleftrightarrow> ''/tmp'' \<in> grants_at fe g x"
proof
  assume "tmp_granted fe le g"
  then show "''/tmp'' \<in> grants_at fe g x"
    using assms(3,4) by (auto simp: tmp_granted_def list_ex_iff kept_mounts_def grants_at_mounts mount_op_def)
next
  assume "''/tmp'' \<in> grants_at fe g x"
  then obtain m where "m \<in> set (ordered_mounts g)" "mt_path m = ''/tmp''" "takes_effect fe (mount_op m)"
    unfolding grants_at_mounts by blast
  then show "tmp_granted fe le g"
    using kept_real [OF assms(1,2)] assms(3) unfolding tmp_granted_def list_ex_iff by (auto simp: mount_op_def)
qed

text \<open>A grant above a path under \<open>/tmp\<close> is \<open>/tmp\<close> or below it.\<close>

lemma grant_near_tmp:
  assumes "clean_grants g" "p \<in> grants_at fe g x" "under_or_at x ''/tmp''"
  shows "p = ''/tmp'' \<or> has_prefix p ''/tmp/''"
proof -
  have p: "under_or_at x p" "p \<noteq> ''/''" "is_abs p"
    using assms(1,2) by (auto simp: grants_at_def granted_paths_def own_mounts_def clean_grants_def)
  show ?thesis
  proof (cases "length p \<le> length ''/tmp''")
    case True
    then have "under_or_at ''/tmp'' p" using shorter_first(1) [OF p(1) assms(3) p(2)] by simp
    then have "''/tmp'' = p \<or> has_prefix ''/tmp'' (p @ ''/'')" using p(2) by (auto simp: under_or_at_def)
    moreover have "\<not> has_prefix ''/tmp'' (p @ ''/'')"
    proof
      assume "has_prefix ''/tmp'' (p @ ''/'')"
      then obtain s where s: "''/tmp'' = p @ slash # s" by (auto simp: has_prefix_iff)
      obtain q where "p = slash # q" using p(3) by (auto simp: is_abs_def has_prefix_iff)
      then have "''tmp'' = q @ slash # s" using s by simp
      then have "slash \<in> set ''tmp''" by (metis in_set_conv_decomp)
      then show False by simp
    qed
    ultimately show ?thesis by simp
  next
    case False
    then have "under_or_at p ''/tmp''" using shorter_first(1) [OF assms(3) p(1) _ p(2)] by simp
    then show ?thesis by (simp add: under_or_at_def)
  qed
qed

lemma bwrap_access:
  assumes "\<not> root_granted g" "clean_grants g" "real_path le x" "unmasked fe le g x"
  shows "(\<forall>p. p \<in> grants_at fe g x \<and> (\<forall>q \<in> grants_at fe g x. length q \<le> length p) \<longrightarrow>
      seen fe (bwrap_ops fe le mk g) x = Some (Bind p p (p \<in> written_paths g) (p \<in> set (gr_unix_dirs g)))) \<and>
    (grants_at fe g x = {} \<longrightarrow>
      seen fe (bwrap_ops fe le mk g) x =
        (if under_or_at x ''/tmp'' then Some (Tmpfs ''/tmp'') else if under_or_at x ''/dev'' then Some DevFs
         else if under_or_at x ''/proc'' then Some ProcFs else None))"
proof -
  let ?A = "map mount_op (filter (\<lambda>m. \<not> has_prefix (mt_path m) ''/tmp/'') (kept_mounts fe le g))"
  let ?B = "map mount_op (filter (\<lambda>m. has_prefix (mt_path m) ''/tmp/'') (kept_mounts fe le g))"
  let ?T = "if tmp_granted fe le g then [] else [Tmpfs ''/tmp'']"
  have masks: "seen fe (mask_ops fe le mk g) x = None"
    using assms(4) assms(1) unfolding seen_None by (auto simp: mask_ops_def unmasked_def)
  have ops: "seen fe (bwrap_ops fe le mk g) x = seen fe ([ProcFs, DevFs] @ ?A @ ?T @ ?B) x"
  proof -
    have "bind_ops fe le g = [ProcFs, DevFs] @ ?A @ ?T @ ?B" using assms(1) by (simp add: bind_ops_def Let_def)
    then show ?thesis unfolding bwrap_ops_def seen_append [of fe "bind_ops fe le g"] masks by simp
  qed
  have T: "seen fe ?T x = (if under_or_at x ''/tmp'' \<and> ''/tmp'' \<notin> grants_at fe g x then Some (Tmpfs ''/tmp'') else None)"
  proof (cases "under_or_at x ''/tmp''")
    case True
    then show ?thesis using tmp_granted_at [OF assms(2,3) True assms(1), of fe] by (simp add: seen_Cons seen_Nil)
  next
    case False
    then show ?thesis by (simp add: seen_Cons seen_Nil)
  qed
  have "seen fe (bwrap_ops fe le mk g) x = Some (Bind p p (p \<in> written_paths g) (p \<in> set (gr_unix_dirs g)))"
    if p: "p \<in> grants_at fe g x" "\<forall>q \<in> grants_at fe g x. length q \<le> length p" for p
  proof (cases "has_prefix p ''/tmp/''")
    case True
    have "seen fe ?B x = Some (Bind p p (p \<in> written_paths g) (p \<in> set (gr_unix_dirs g)))"
      by (rule seen_segment [OF assms(2,3) p]) (simp add: True)
    then show ?thesis unfolding ops seen_append by simp
  next
    case False
    have A: "seen fe ?A x = Some (Bind p p (p \<in> written_paths g) (p \<in> set (gr_unix_dirs g)))"
      by (rule seen_segment [OF assms(2,3) p]) (simp add: False)
    have "\<not> has_prefix q ''/tmp/''" if q: "q \<in> grants_at fe g x" for q
    proof
      assume t: "has_prefix q ''/tmp/''"
      have "under_or_at x q" "under_or_at x p" "q \<noteq> ''/''" "p \<noteq> ''/''" "length q \<le> length p"
        using p q by (auto simp: grants_at_def granted_paths_def own_mounts_def)
      then have "under_or_at p q" by (rule shorter_first(1))
      then show False using t False \<open>q \<noteq> ''/''\<close> by (auto simp: under_or_at_def dest: has_prefix_trans) (metis append_assoc has_prefix_iff)
    qed
    then have B: "seen fe ?B x = None" by (intro seen_no_grant) blast
    have T0: "seen fe ?T x = None"
      using T grant_near_tmp [OF assms(2) p(1)] False p(1) by auto
    show ?thesis unfolding ops seen_append A B T0 by simp
  qed
  moreover have "seen fe (bwrap_ops fe le mk g) x =
        (if under_or_at x ''/tmp'' then Some (Tmpfs ''/tmp'') else if under_or_at x ''/dev'' then Some DevFs
         else if under_or_at x ''/proc'' then Some ProcFs else None)" if none: "grants_at fe g x = {}"
  proof -
    have AB: "seen fe ?A x = None" "seen fe ?B x = None" by (rule seen_no_grant; use none in simp)+
    show ?thesis unfolding ops seen_append AB T using none by (simp add: seen_Cons seen_Nil)
  qed
  ultimately show ?thesis by blast
qed

text \<open>
  C20: What is seen on Linux.  Unless the whole tree is granted, a real path that no mask covers shows the
  host through the innermost grant above it, for writing exactly if that grant is for writing; without
  a grant above it, it shows the private \<open>/tmp\<close>, the fresh \<open>/dev\<close> and \<open>/proc\<close>, or nothing.  Neither the
  order of the mounts nor the binds dropped for links change that.
\<close>

theorem bwrap_access_exact:
  assumes "\<not> root_granted g" "clean_grants g" "real_path le x" "unmasked fe le g x"
  shows "(\<forall>p. p \<in> grants_at fe g x \<and> (\<forall>q \<in> grants_at fe g x. length q \<le> length p) \<longrightarrow>
      seen fe (bwrap_ops fe le mk g) x = Some (Bind p p (p \<in> written_paths g) (p \<in> set (gr_unix_dirs g)))) \<and>
    (grants_at fe g x = {} \<longrightarrow>
      seen fe (bwrap_ops fe le mk g) x =
        (if under_or_at x ''/tmp'' then Some (Tmpfs ''/tmp'') else if under_or_at x ''/dev'' then Some DevFs
         else if under_or_at x ''/proc'' then Some ProcFs else None))"
  using assms by (rule bwrap_access)

definition demo_net_free :: grants where
  "demo_net_free =
     \<lparr>gr_workdir = ''/w'', gr_read = [], gr_write = [], gr_allow = [], gr_protected = [], gr_name_roots = [],
      gr_name_globs = [], gr_mode = ''open'', gr_proxy_port = 0, gr_listen_ports = [], gr_tcp_connect = [],
      gr_open_ports = [], gr_unix_sockets = [], gr_unix_dirs = [], gr_enforcement = ''kernel'', gr_denial_text = [],
      gr_denial_dir_name = []\<rparr>"

definition demo_bwrap_grants :: grants where
  "demo_bwrap_grants = demo_net_free\<lparr>gr_read := [''/usr''], gr_allow := [''/h/w''], gr_protected := [''/h/w/.env'']\<rparr>"

definition demo_links :: link_env where
  "demo_links = \<lparr>le_is_link = (\<lambda>p. False), le_readlink = (\<lambda>p. None)\<rparr>"

lemma demo_bwrap_simps:
  "gr_read demo_bwrap_grants = [''/usr'']" "gr_write demo_bwrap_grants = []" "gr_allow demo_bwrap_grants = [''/h/w'']"
  "gr_protected demo_bwrap_grants = [''/h/w/.env'']" "gr_unix_dirs demo_bwrap_grants = []"
  by (simp_all add: demo_bwrap_grants_def demo_net_free_def)

lemma demo_bwrap_facts:
  "granted_paths demo_bwrap_grants = {''/usr'', ''/h/w''}" "clean_grants demo_bwrap_grants" "\<not> root_granted demo_bwrap_grants"
  "real_path demo_links x"
proof -
  show p: "granted_paths demo_bwrap_grants = {''/usr'', ''/h/w''}"
    by (auto simp: granted_paths_def own_mounts_def demo_bwrap_simps)
  show "clean_grants demo_bwrap_grants" by (simp add: clean_grants_def p gostr)
  show "\<not> root_granted demo_bwrap_grants" by (simp add: root_granted_def demo_bwrap_simps)
  show "real_path demo_links x" by (simp add: real_path_def demo_links_def)
qed

lemma demo_covered: "covered_by_any ''/h/w/.env'' (kept_mounts demo_fs demo_links demo_bwrap_grants)"
proof -
  have "''/h/w'' \<in> mt_path ` set (ordered_mounts demo_bwrap_grants)"
    unfolding ordered_mounts_facts(3) demo_bwrap_facts(1) by simp
  then obtain m where m: "m \<in> set (ordered_mounts demo_bwrap_grants)" "mt_path m = ''/h/w''" by auto
  have u: "under_or_at ''/h/w/.env'' ''/h/w''" by (simp add: under_or_at_def has_prefix_def)
  have "m \<in> set (kept_mounts demo_fs demo_links demo_bwrap_grants)"
    using kept_real [OF demo_bwrap_facts(2,4) m(1)] u m(2) by metis
  then show ?thesis using u m(2) unfolding covered_by_any_def list_ex_iff by metis
qed


theorem bwrap_access_exact_witness:
  "seen demo_fs (bwrap_ops demo_fs demo_links \<lparr>mk_file = [], mk_dir = []\<rparr> demo_bwrap_grants) ''/usr/bin'' = Some (Bind ''/usr'' ''/usr'' False False)"
proof -
  have u: "unmasked demo_fs demo_links demo_bwrap_grants ''/usr/bin''"
    by (simp add: unmasked_def demo_bwrap_simps under_or_at_def has_prefix_def)
  have "grants_at demo_fs demo_bwrap_grants ''/usr/bin'' = {''/usr''}"
    by (auto simp: grants_at_def demo_bwrap_facts(1) demo_bwrap_simps under_or_at_def has_prefix_def)
  moreover have "''/usr'' \<notin> written_paths demo_bwrap_grants" by (simp add: written_paths_def demo_bwrap_simps)
  ultimately show ?thesis
    using bwrap_access_exact [OF demo_bwrap_facts(3,2,4) u, of "\<lparr>mk_file = [], mk_dir = []\<rparr>"] by (simp add: demo_bwrap_simps)
qed

text \<open>
  A grant inside a protected folder opens it on Linux, without \<open>override_deny\<close>, when nothing above the
  folder is granted: the folder is not masked then.
\<close>

lemma grant_inside_protected_shows:
  assumes "g = demo_net_free\<lparr>gr_read := [''/h/.ssh/id''], gr_protected := [''/h/.ssh'']\<rparr>"
  shows "seen demo_fs (bwrap_ops demo_fs demo_links mk g) ''/h/.ssh/id'' = Some (Bind ''/h/.ssh/id'' ''/h/.ssh/id'' False False)"
proof -
  have s: "gr_read g = [''/h/.ssh/id'']" "gr_write g = []" "gr_allow g = []" "gr_protected g = [''/h/.ssh'']" "gr_unix_dirs g = []"
    by (simp_all add: assms demo_net_free_def)
  have p: "granted_paths g = {''/h/.ssh/id''}" by (simp add: granted_paths_def own_mounts_def s)
  have c: "clean_grants g" by (simp add: clean_grants_def p gostr)
  have r: "\<not> root_granted g" by (simp add: root_granted_def s)
  have "mt_path m = ''/h/.ssh/id''" if "m \<in> set (kept_mounts demo_fs demo_links g)" for m
    using that p ordered_mounts_facts(3) [of g] by (auto simp: kept_mounts_def)
  then have "\<not> covered_by_any ''/h/.ssh'' (kept_mounts demo_fs demo_links g)"
    unfolding covered_by_any_def list_ex_iff by (auto simp: under_or_at_def has_prefix_def)
  then have u: "unmasked demo_fs demo_links g ''/h/.ssh/id''" by (simp add: unmasked_def s)
  have "grants_at demo_fs g ''/h/.ssh/id'' = {''/h/.ssh/id''}" by (auto simp: grants_at_def p s under_or_at_def)
  moreover have "''/h/.ssh/id'' \<notin> written_paths g" by (simp add: written_paths_def s)
  ultimately show ?thesis using bwrap_access [OF r c demo_bwrap_facts(4) u, of mk] by (simp add: s)
qed

end
