(* ===== verification/Stage2.thy ===== *)
theory Stage2
  imports Grants "HOL-Library.Word"
begin

unbundle bit_operations_syntax

text \<open>
  The second stage on Linux: the network rules written for it (\<open>Stage2Args\<close> in
  \<open>internal/sandboxrun/bwrap.go\<close>), their reading (\<open>RunStage2\<close> in \<open>stage2_linux.go\<close>) and the seccomp
  program that keeps sockets to TCP (\<open>seccomp_linux.go\<close>).
\<close>

section \<open>The arguments\<close>

definition sorted_keys :: "int list \<Rightarrow> int list" where
  "sorted_keys ports = sort (remdups ports)"

definition kernel_filtered :: "grants \<Rightarrow> bool" where
  "kernel_filtered g \<longleftrightarrow> gr_mode g = ''filtered'' \<and> gr_enforcement g = ''kernel''"

definition connect_ports :: "grants \<Rightarrow> int list" where
  "connect_ports g = sorted_keys ((if gr_proxy_port g > 0 then [gr_proxy_port g] else []) @ gr_tcp_connect g @ gr_open_ports g)"

definition bind_ports :: "grants \<Rightarrow> int list" where
  "bind_ports g = sorted_keys (gr_open_ports g @ gr_listen_ports g)"

definition port_args :: "string \<Rightarrow> int list \<Rightarrow> string list" where
  "port_args flag ports = concat (map (\<lambda>p. [flag, show_int p]) ports)"

definition stage2_args :: "grants \<Rightarrow> string list" where
  "stage2_args g =
     (if kernel_filtered g
      then port_args ''--connect-tcp'' (connect_ports g) @ port_args ''--bind-tcp'' (bind_ports g) @ [''--enforce'']
      else if gr_mode g = ''blocked'' then [''--enforce''] else [])"

record stage2 =
  s2_connect :: "int list"
  s2_bind :: "int list"
  s2_enforce :: bool
  s2_inner :: "string list"

datatype stage2_error = NoValue string | InvalidPort string | UnknownFlag string | NoInner

fun parse_stage2 :: "stage2 \<Rightarrow> string list \<Rightarrow> stage2_error + stage2" where
  "parse_stage2 s [] = Inr s"
| "parse_stage2 s (a # rest) =
     (if a = ''--connect-tcp'' \<or> a = ''--bind-tcp'' then
        (case rest of
           [] \<Rightarrow> Inl (NoValue a)
         | v # rest' \<Rightarrow>
             (case atoi v of
                None \<Rightarrow> Inl (InvalidPort v)
              | Some port \<Rightarrow>
                  if port < 1 \<or> port > 65535 then Inl (InvalidPort v)
                  else parse_stage2
                         (if a = ''--connect-tcp'' then s\<lparr>s2_connect := s2_connect s @ [port]\<rparr>
                          else s\<lparr>s2_bind := s2_bind s @ [port]\<rparr>) rest'))
      else if a = ''--enforce'' then parse_stage2 (s\<lparr>s2_enforce := True\<rparr>) rest
      else if a = ''--'' then Inr (s\<lparr>s2_inner := rest\<rparr>)
      else Inl (UnknownFlag a))"

text \<open>Up to the rules: what is enforced, and the command that is run then.\<close>

definition run_stage2 :: "string list \<Rightarrow> stage2_error + stage2" where
  "run_stage2 args =
     (case parse_stage2 \<lparr>s2_connect = [], s2_bind = [], s2_enforce = False, s2_inner = []\<rparr> args of
        Inl e \<Rightarrow> Inl e
      | Inr s \<Rightarrow> if s2_inner s = [] then Inl NoInner else Inr s)"

section \<open>The arguments read back\<close>

definition port_ok :: "int \<Rightarrow> bool" where
  "port_ok p \<longleftrightarrow> 1 \<le> p \<and> p \<le> 65535"

lemma atoi_own_number: "atoi (show_int p) = Some q \<Longrightarrow> q = p"
proof (cases "p < 0")
  case True
  then show "atoi (show_int p) = Some q \<Longrightarrow> q = p" by (simp add: atoi_def show_int_def split: if_splits)
next
  case False
  then have s: "show_int p = show_nat (nat p)" by (simp add: show_int_def)
  obtain c r where cr: "show_nat (nat p) = c # r" by (cases "show_nat (nat p)") auto
  have "is_digit c" using show_nat_digits [of "nat p"] cr by simp
  then have "c \<noteq> CHR ''-''" "c \<noteq> CHR ''+''" by (auto simp: is_digit_def code_def)
  moreover have "parse_digits (c # r) = Some (nat p)" using parse_show_nat [of "nat p"] cr by simp
  ultimately show "atoi (show_int p) = Some q \<Longrightarrow> q = p" using False by (simp add: atoi_def s cr split: if_splits)
qed

lemma port_value: "(case atoi (show_int p) of None \<Rightarrow> Inl e | Some q \<Rightarrow> if q < 1 \<or> q > 65535 then Inl e else f q) =
    (if port_ok p then f p else Inl e)"
  using atoi_show_int [of p] atoi_own_number [of p]
  by (cases "atoi (show_int p)") (auto simp: port_ok_def)

lemma parse_connects:
  "parse_stage2 s (port_args ''--connect-tcp'' ports @ rest) =
     (case find (\<lambda>p. \<not> port_ok p) ports of
        None \<Rightarrow> parse_stage2 (s\<lparr>s2_connect := s2_connect s @ ports\<rparr>) rest
      | Some p \<Rightarrow> Inl (InvalidPort (show_int p)))"
proof (induction ports arbitrary: s)
  case (Cons p ports)
  then show ?case by (simp add: port_args_def port_value split: option.split)
qed (simp add: port_args_def)

lemma parse_binds:
  "parse_stage2 s (port_args ''--bind-tcp'' ports @ rest) =
     (case find (\<lambda>p. \<not> port_ok p) ports of
        None \<Rightarrow> parse_stage2 (s\<lparr>s2_bind := s2_bind s @ ports\<rparr>) rest
      | Some p \<Rightarrow> Inl (InvalidPort (show_int p)))"
proof (induction ports arbitrary: s)
  case (Cons p ports)
  then show ?case by (simp add: port_args_def port_value split: option.split)
qed (simp add: port_args_def)

definition enforced :: "grants \<Rightarrow> bool" where
  "enforced g \<longleftrightarrow> kernel_filtered g \<or> gr_mode g = ''blocked''"

lemma stage2_reads_back:
  assumes "inner \<noteq> []" "kernel_filtered g \<longrightarrow> list_all port_ok (connect_ports g @ bind_ports g)"
  shows "run_stage2 (stage2_args g @ ''--'' # inner) =
    Inr \<lparr>s2_connect = (if kernel_filtered g then connect_ports g else []),
         s2_bind = (if kernel_filtered g then bind_ports g else []), s2_enforce = enforced g, s2_inner = inner\<rparr>"
proof -
  have none: "list_all port_ok ps \<Longrightarrow> find (\<lambda>p. \<not> port_ok p) ps = None" for ps by (simp add: find_None_iff list_all_iff)
  show ?thesis
  proof (cases "kernel_filtered g")
    case True
    then have f: "find (\<lambda>p. \<not> port_ok p) (connect_ports g) = None" "find (\<lambda>p. \<not> port_ok p) (bind_ports g) = None"
      using assms(2) none by simp_all
    show ?thesis using True assms(1) by (simp add: run_stage2_def stage2_args_def parse_connects parse_binds f enforced_def)
  next
    case False
    then show ?thesis using assms(1) by (simp add: run_stage2_def stage2_args_def enforced_def)
  qed
qed

text \<open>The ports, as sets.\<close>

lemma port_sets:
  "set (connect_ports g) = {p. p = gr_proxy_port g \<and> p > 0} \<union> set (gr_tcp_connect g) \<union> set (gr_open_ports g)"
  "set (bind_ports g) = set (gr_open_ports g) \<union> set (gr_listen_ports g)"
  by (auto simp: connect_ports_def bind_ports_def sorted_keys_def)

text \<open>
  C23: The second stage enforces exactly the network grants.  When every port is one, the arguments are read
  back with a command to run; TCP is restricted in \<open>blocked\<close> mode, to no port, and in \<open>filtered\<close> mode
  with \<open>kernel\<close> enforcement, to connecting to the proxy and the granted ports and to listening on the
  granted ones; otherwise nothing is restricted.
\<close>

theorem stage2_round_trip:
  assumes "inner \<noteq> []" "kernel_filtered g \<longrightarrow> list_all port_ok (connect_ports g @ bind_ports g)"
  shows "\<exists>s. run_stage2 (stage2_args g @ ''--'' # inner) = Inr s \<and> s2_inner s = inner \<and>
    (s2_enforce s \<longleftrightarrow> gr_mode g = ''blocked'' \<or> kernel_filtered g) \<and>
    set (s2_connect s) = {p. kernel_filtered g \<and>
      (p = gr_proxy_port g \<and> p > 0 \<or> p \<in> set (gr_tcp_connect g) \<or> p \<in> set (gr_open_ports g))} \<and>
    set (s2_bind s) = {p. kernel_filtered g \<and> (p \<in> set (gr_open_ports g) \<or> p \<in> set (gr_listen_ports g))}"
  using stage2_reads_back [OF assms] port_sets [of g] by (auto simp: enforced_def)

definition demo_net_grants :: grants where
  "demo_net_grants =
     \<lparr>gr_workdir = ''/w'', gr_read = [], gr_write = [], gr_allow = [], gr_protected = [], gr_name_roots = [],
      gr_name_globs = [], gr_mode = ''filtered'', gr_proxy_port = 4100, gr_listen_ports = [3000],
      gr_tcp_connect = [5432, 22], gr_open_ports = [8080], gr_unix_sockets = [], gr_unix_dirs = [],
      gr_enforcement = ''kernel'', gr_denial_text = [], gr_denial_dir_name = []\<rparr>"

lemma demo_net_ports: "connect_ports demo_net_grants = [22, 4100, 5432, 8080]" "bind_ports demo_net_grants = [3000, 8080]"
  by (simp_all add: connect_ports_def bind_ports_def sorted_keys_def demo_net_grants_def)

theorem stage2_round_trip_witness:
  "\<exists>s. run_stage2 (stage2_args demo_net_grants @ [''--'', ''sh'']) = Inr s \<and> s2_enforce s \<and> 4100 \<in> set (s2_connect s)"
proof -
  have "kernel_filtered demo_net_grants" by (simp add: kernel_filtered_def demo_net_grants_def)
  moreover have "list_all port_ok (connect_ports demo_net_grants @ bind_ports demo_net_grants)"
    by (simp add: demo_net_ports port_ok_def)
  moreover have "gr_proxy_port demo_net_grants = 4100" by (simp add: demo_net_grants_def)
  ultimately show ?thesis using stage2_round_trip [of "[''sh'']" demo_net_grants] by fastforce
qed

text \<open>The port 0 of \<open>open_port\<close>, any local port on macOS, makes the second stage fail.\<close>

lemma stage2_rejects_any_port:
  "run_stage2 (stage2_args (demo_net_grants\<lparr>gr_open_ports := [0]\<rparr>) @ [''--'', ''sh'']) = Inl (InvalidPort ''0'')"
proof -
  have c: "connect_ports (demo_net_grants\<lparr>gr_open_ports := [0]\<rparr>) = [0, 22, 4100, 5432]"
    by (simp add: connect_ports_def sorted_keys_def demo_net_grants_def)
  have z: "char_of (48 :: nat) = CHR ''0''" using code_inject [of "char_of (48 :: nat)" "CHR ''0''"] by (simp add: code_def)
  have "kernel_filtered (demo_net_grants\<lparr>gr_open_ports := [0]\<rparr>)" by (simp add: kernel_filtered_def demo_net_grants_def)
  then show ?thesis
    by (simp add: run_stage2_def stage2_args_def c parse_connects port_ok_def show_int_def show_nat.simps digit_char_def z)
qed

section \<open>The socket filter\<close>

text \<open>
  Classic BPF as seccomp runs it: an accumulator of 32 bits, loads from the system call's data, jumps
  forward.  An argument is read by its low half, as on a little-endian machine.
\<close>

record seccomp_data =
  sd_nr :: "32 word"
  sd_arch :: "32 word"
  sd_args :: "64 word list"

datatype bpf = LoadAbs nat | JumpEq nat nat "32 word" | And "32 word" | Return "32 word"

definition arg_low :: "seccomp_data \<Rightarrow> nat \<Rightarrow> 32 word" where
  "arg_low d i = (if i < length (sd_args d) then ucast (sd_args d ! i) else 0)"

definition bpf_load :: "seccomp_data \<Rightarrow> nat \<Rightarrow> 32 word" where
  "bpf_load d off =
     (if off = 0 then sd_nr d else if off = 4 then sd_arch d
      else if off = 16 then arg_low d 0 else if off = 24 then arg_low d 1 else if off = 32 then arg_low d 2 else 0)"

text \<open>\<open>None\<close> is a program that runs past its end, which the kernel does not load.\<close>

function bpf_run :: "seccomp_data \<Rightarrow> 32 word \<Rightarrow> bpf list \<Rightarrow> 32 word option" where
  "bpf_run d a [] = None"
| "bpf_run d a (LoadAbs off # prog) = bpf_run d (bpf_load d off) prog"
| "bpf_run d a (JumpEq jt jf k # prog) = (if a = k then bpf_run d a (drop jt prog) else bpf_run d a (drop jf prog))"
| "bpf_run d a (And k # prog) = bpf_run d (a AND k) prog"
| "bpf_run d a (Return k # prog) = Some k"
  by pat_completeness auto
termination by (relation "measure (\<lambda>(_, _, prog). length prog)") auto

definition ret_allow :: "32 word" where "ret_allow = 0x7fff0000"
definition ret_eperm :: "32 word" where "ret_eperm = 0x00050001"

text \<open>The program; the number of \<open>socket\<close> depends on the architecture, the others do not.\<close>

definition datagram_seccomp_filter :: "32 word \<Rightarrow> bpf list" where
  "datagram_seccomp_filter sys_socket =
     [LoadAbs 0,
      JumpEq 21 0 425,
      JumpEq 20 0 426,
      JumpEq 19 0 427,
      JumpEq 0 17 sys_socket,
      LoadAbs 16,
      JumpEq 15 0 1,
      JumpEq 2 0 16,
      JumpEq 6 0 2,
      JumpEq 5 13 10,
      LoadAbs 24,
      And 0xf,
      JumpEq 0 10 3,
      LoadAbs 32,
      JumpEq 7 8 0,
      LoadAbs 24,
      And 0xf,
      JumpEq 0 5 1,
      LoadAbs 32,
      JumpEq 2 0 0,
      JumpEq 1 0 6,
      JumpEq 0 1 262,
      Return ret_allow,
      Return ret_eperm]"

text \<open>The sockets allowed, by domain, type and protocol.\<close>

definition socket_allowed :: "32 word \<Rightarrow> 32 word \<Rightarrow> 32 word \<Rightarrow> bool" where
  "socket_allowed family ty proto \<longleftrightarrow>
     family = 1 \<or> (family = 16 \<and> ty AND 0xf = 3 \<and> proto = 0) \<or>
     (family \<in> {2, 10} \<and> ty AND 0xf = 1 \<and> proto \<in> {0, 6, 262})"

lemma filter_run:
  "bpf_run d 0 (datagram_seccomp_filter sys_socket) =
     Some (if sd_nr d \<in> {425, 426, 427} then ret_eperm
           else if sd_nr d \<noteq> sys_socket then ret_allow
           else if socket_allowed (arg_low d 0) (arg_low d 1) (arg_low d 2) then ret_allow else ret_eperm)"
  unfolding datagram_seccomp_filter_def socket_allowed_def
  by (simp add: bpf_load_def)

text \<open>
  C22: The filter decides every system call, and by the number and the low halves of the arguments: the
  calls of io_uring are refused, of the sockets exactly Unix ones, routing queries and TCP over IPv4 or
  IPv6 are allowed (flags in the type aside), and every other call passes.
\<close>

theorem socket_filter_exact:
  "bpf_run d 0 (datagram_seccomp_filter sys_socket) =
     Some (if sd_nr d \<in> {425, 426, 427} then ret_eperm
           else if sd_nr d \<noteq> sys_socket then ret_allow
           else if socket_allowed (arg_low d 0) (arg_low d 1) (arg_low d 2) then ret_allow else ret_eperm)"
  by (rule filter_run)

text \<open>
  The architecture is not looked at: the socket call of the 32-bit interface of an x86-64 kernel, and
  of x32, has another number and passes with any domain and type, UDP included.
\<close>

lemma other_abi_sockets_pass:
  "bpf_run \<lparr>sd_nr = 359, sd_arch = 0x40000003, sd_args = args\<rparr> 0 (datagram_seccomp_filter 41) = Some ret_allow"
  "bpf_run \<lparr>sd_nr = 0x40000029, sd_arch = 0xc000003e, sd_args = args\<rparr> 0 (datagram_seccomp_filter 41) = Some ret_allow"
  by (simp_all add: filter_run)

end
