(* ===== verification/Denial.thy ===== *)
theory Denial
  imports Grants Bwrap
begin

text \<open>
  What an agent is told at a protected path: the texts of a denial and their merge with a profile's
  (\<open>internal/sandboxdeny/deny.go\<close>, \<open>resolvedDenial\<close> in \<open>sandboxrun/run.go\<close>), the marker files bound over
  protected paths (\<open>prepareMarkers\<close> in \<open>sandboxrun/grants.go\<close>), and the set of protected paths the
  launcher answers from (\<open>sandboxrun/protected_paths.go\<close>).
\<close>

section \<open>The texts\<close>

record deny_text =
  dx_marker_file :: string
  dx_marker_dir_name :: string
  dx_facade_note :: string
  dx_not_protected_note :: string
  dx_mid_session_note :: string

definition rule_mid_session :: string where "rule_mid_session = ''mid-session''"

definition em_dash :: string where "em_dash = [CHR 0xE2, CHR 0x80, CHR 0x94]"

definition target_json :: "string \<Rightarrow> string" where
  "target_json target =
     ''{'' @ [dquote] @ ''target'' @ [dquote] @ '':'' @ [dquote] @ target @ [dquote] @ '','' @ [dquote] @ ''reason'' @
     [dquote] @ '':'' @ [dquote] @ ''...'' @ [dquote] @ ''}''"

definition default_deny_text :: deny_text where
  "default_deny_text =
     \<lparr>dx_marker_file = join_with [lf]
        [''X-Omac-Sandbox: denied'',
         ''This path is protected by the omac sandbox policy and is intentionally'',
         ''restricted. It is not missing and not a bug. Do not request access unless'',
         ''the task explicitly requires this path and cannot proceed otherwise.'',
         [],
         ''If you need this path for your task, declare why first:'',
         ''  POST $OMAC_BASE/sandbox/intent  '' @ target_json ''<absolute path>'',
         ''The user will see your reason when reviewing access.'',
         []],
      dx_marker_dir_name = ''.omac-denied'',
      dx_facade_note =
        ''Intentionally restricted by sandbox policy. Not missing, not a bug. '' @
        ''Escalate to the user only if the task cannot proceed without this path. '' @
        ''To declare why you need a path, POST $OMAC_BASE/sandbox/intent '' @
        target_json ''<absolute path>'' @ '' '' @ em_dash @ '' the user sees your reason when reviewing access.'',
      dx_not_protected_note =
        ''Not protected by the sandbox '' @ em_dash @ '' but this does not confirm the path exists. '' @
        ''If it is inside your granted directories it is genuinely missing; if it is outside them it is '' @
        ''simply not mounted into the sandbox and may exist on the host. Do not conclude it is missing. '' @
        ''A running sandbox cannot mount new folders and there is no live approval popup for a path '' @ em_dash @
        '' that popup is network-only. The only way to reach it is for the user to add it to the sandbox '' @
        ''profile (~/.config/omac/sandbox-profiles/default.json) and relaunch. Declaring intent '' @
        ''(POST $OMAC_BASE/sandbox/intent) only records your reason for the session-end review; it does '' @
        ''not grant access and raises no dialog. So tell the user which path you need and why, and ask '' @
        ''them to add it and relaunch '' @ em_dash @ '' do not tell them to approve a popup.'',
      dx_mid_session_note =
        ''This path matches a sandbox-protected pattern, but it was created after this '' @
        ''session started, so the launch-time mask does not cover it: it is currently readable. '' @
        ''Do not read it. The user has been notified; the file stays readable until the session is '' @
        ''restarted (or the user adds the name to filesystem.override_deny).''\<rparr>"

definition pick :: "string \<Rightarrow> string \<Rightarrow> string" where
  "pick override d = (if override \<noteq> [] then override else d)"

definition resolve_text :: "deny_text \<Rightarrow> deny_text" where
  "resolve_text ov =
     (let d = default_deny_text in
      d\<lparr>dx_marker_file := pick (dx_marker_file ov) (dx_marker_file d),
        dx_marker_dir_name := pick (dx_marker_dir_name ov) (dx_marker_dir_name d),
        dx_facade_note := pick (dx_facade_note ov) (dx_facade_note d),
        dx_not_protected_note := pick (dx_not_protected_note ov) (dx_not_protected_note d)\<rparr>)"

definition resolved_denial :: "denial option \<Rightarrow> deny_text" where
  "resolved_denial dn =
     (case dn of None \<Rightarrow> default_deny_text
      | Some d \<Rightarrow> resolve_text \<lparr>dx_marker_file = dn_marker_file d, dx_marker_dir_name = dn_marker_dir_name d,
                              dx_facade_note = dn_facade_note d, dx_not_protected_note = [], dx_mid_session_note = []\<rparr>)"

section \<open>Markers\<close>

text \<open>\<open>Inert\<close>: every line that is not blank becomes a comment.\<close>

abbreviation hash :: char where "hash \<equiv> CHR ''#''"

definition trim_blanks :: "string \<Rightarrow> string" where
  "trim_blanks line = dropWhile (\<lambda>c. c = CHR '' '' \<or> c = CHR 0x09) line"

definition inert_line :: "string \<Rightarrow> string" where
  "inert_line line =
     (if trim_blanks line = [] \<or> has_prefix (trim_blanks line) [hash] then line else [hash, CHR '' ''] @ line)"

definition inert :: "string \<Rightarrow> string" where
  "inert txt = (if txt = [] then [] else join_with [lf] (map inert_line (split_on lf txt)))"

text \<open>
  \<open>prepareMarkers\<close>: the folder \<open>MkdirTemp\<close> made, and whether each write works.  The files it leaves are
  returned with their contents; on an error they are removed again.
\<close>

record marker_io =
  mi_temp :: "string option"
  mi_file_ok :: bool
  mi_mkdir_ok :: bool
  mi_notice_ok :: bool

datatype marker_error = TempFailed | WriteFailed | EscapesMarkerDir string

definition no_markers :: markers where "no_markers = \<lparr>mk_file = [], mk_dir = []\<rparr>"

definition marker_dir_file_name :: "grants \<Rightarrow> string" where
  "marker_dir_file_name g = (if gr_denial_dir_name g = [] then ''.omac-denied'' else gr_denial_dir_name g)"

definition prepare_markers :: "marker_io \<Rightarrow> grants \<Rightarrow> marker_error + markers \<times> (string \<times> string) list" where
  "prepare_markers io g =
     (if trim_space (gr_denial_text g) = [] \<or> gr_protected g = [] then Inr (no_markers, [])
      else case mi_temp io of
        None \<Rightarrow> Inl TempFailed
      | Some dir \<Rightarrow>
          (let txt = inert (gr_denial_text g);
               marker_file = path_join [dir, ''file''];
               marker_dir = path_join [dir, ''dir''];
               notice = path_join [marker_dir, marker_dir_file_name g]
           in if \<not> mi_file_ok io \<or> \<not> mi_mkdir_ok io then Inl WriteFailed
              else if \<not> has_prefix (clean notice) (marker_dir @ ''/'') then Inl (EscapesMarkerDir (marker_dir_file_name g))
              else if \<not> mi_notice_ok io then Inl WriteFailed
              else Inr (\<lparr>mk_file = marker_file, mk_dir = marker_dir\<rparr>, [(marker_file, txt), (notice, txt)])))"

section \<open>The protected set\<close>

text \<open>
  \<open>ProtectedPathSet\<close>: the entries of the launch with the layer each came from, and those the
  mid-session watch adds.  A nil set is \<open>None\<close>.
\<close>

record protected_set =
  ps_entries :: "(string \<times> string) list"
  ps_dyn :: "(string \<times> string) list"

definition new_protected_set :: "host_env \<Rightarrow> bool \<Rightarrow> profile \<Rightarrow> protected_set" where
  "new_protected_set env darwin p =
     (let fs = pr_fs p;
          base = effective_protected_paths env (platform_baseline darwin) (pf_override_deny fs)
      in \<lparr>ps_entries =
           List.map_filter (\<lambda>pp. case expand_path env pp of Inl _ \<Rightarrow> None | Inr e \<Rightarrow> Some (e, ''baseline'')) base @
           map (\<lambda>e. (e, ''profile'')) (path_form_denies env (pf_deny fs)) @
           map (\<lambda>e. (e, ''profile'')) (literal_denies p),
         ps_dyn = []\<rparr>)"

definition unrestricted_protected_set :: protected_set where
  "unrestricted_protected_set = \<lparr>ps_entries = [], ps_dyn = []\<rparr>"

definition protected_add :: "string \<Rightarrow> string \<Rightarrow> protected_set option \<Rightarrow> protected_set option" where
  "protected_add path rule ps =
     (case ps of None \<Rightarrow> None | Some s \<Rightarrow> Some (s\<lparr>ps_dyn := ps_dyn s @ [(clean path, rule)]\<rparr>))"

definition covers :: "string \<Rightarrow> string \<Rightarrow> bool" where
  "covers entry path \<longleftrightarrow> path = clean entry \<or> has_prefix path (clean entry @ ''/'')"

definition first_rule :: "(string \<times> string) list \<Rightarrow> string \<Rightarrow> string option" where
  "first_rule es path = map_option snd (find (\<lambda>e. covers (fst e) path) es)"

definition is_protected :: "protected_set option \<Rightarrow> string \<Rightarrow> string option" where
  "is_protected ps path =
     (case ps of None \<Rightarrow> None
      | Some s \<Rightarrow> (case first_rule (ps_entries s) (clean path) of
                    Some r \<Rightarrow> Some r | None \<Rightarrow> first_rule (ps_dyn s) (clean path)))"

section \<open>Properties\<close>

definition commented :: "string \<Rightarrow> bool" where
  "commented line \<longleftrightarrow> trim_blanks line = [] \<or> has_prefix (trim_blanks line) [hash]"

lemma inert_line_commented: "commented (inert_line line)"
  by (auto simp: commented_def inert_line_def trim_blanks_def has_prefix_def)

lemma inert_line_no_lf: "lf \<notin> set line \<Longrightarrow> lf \<notin> set (inert_line line)"
  by (auto simp: inert_line_def)

lemma inert_line_id: "commented line \<Longrightarrow> inert_line line = line"
  by (auto simp: commented_def inert_line_def)

lemma inert_lines: "txt \<noteq> [] \<Longrightarrow> split_on lf (inert txt) = map inert_line (split_on lf txt)"
proof -
  assume "txt \<noteq> []"
  have "\<forall>w \<in> set (map inert_line (split_on lf txt)). lf \<notin> set w"
    using split_on_no_sep inert_line_no_lf by fastforce
  then show ?thesis using \<open>txt \<noteq> []\<close> split_join [of "map inert_line (split_on lf txt)" lf] by (simp add: inert_def)
qed

lemma inert_commented: "line \<in> set (split_on lf (inert txt)) \<Longrightarrow> commented line"
proof (cases "txt = []")
  case True
  assume "line \<in> set (split_on lf (inert txt))"
  then show ?thesis using True by (simp add: inert_def commented_def trim_blanks_def)
next
  case False
  assume "line \<in> set (split_on lf (inert txt))"
  then show ?thesis using inert_lines [OF False] inert_line_commented by auto
qed

lemma inert_idem: "inert (inert txt) = inert txt"
proof (cases "inert txt = []")
  case True
  then show ?thesis by (simp add: inert_def)
next
  case False
  have "map inert_line (split_on lf (inert txt)) = split_on lf (inert txt)"
    by (rule map_idI) (simp add: inert_line_id inert_commented)
  then show ?thesis using False by (simp add: inert_def [of "inert txt"] join_split_on)
qed

lemma prepare_markers_cases:
  assumes "prepare_markers io g = Inr (mk, files)"
  shows "(mk, files) = (no_markers, []) \<and> (trim_space (gr_denial_text g) = [] \<or> gr_protected g = []) \<or>
    (\<exists>dir notice. mi_temp io = Some dir \<and> trim_space (gr_denial_text g) \<noteq> [] \<and> gr_protected g \<noteq> [] \<and>
       mk = \<lparr>mk_file = path_join [dir, ''file''], mk_dir = path_join [dir, ''dir'']\<rparr> \<and>
       has_prefix (clean notice) (mk_dir mk @ ''/'') \<and>
       files = [(mk_file mk, inert (gr_denial_text g)), (notice, inert (gr_denial_text g))])"
proof (cases "trim_space (gr_denial_text g) = [] \<or> gr_protected g = []")
  case True
  then show ?thesis using assms by (simp add: prepare_markers_def)
next
  case False
  note r = assms [unfolded prepare_markers_def if_not_P [OF False]]
  then obtain dir where "mi_temp io = Some dir" by (cases "mi_temp io") simp_all
  with r False show ?thesis by (auto simp: Let_def split: if_splits)
qed

lemma trim_space_Nil: "trim_space [] = []"
  by (simp add: trim_space_def trim_right_def)

text \<open>
  The marker cannot run.  Whatever text the profile gives, each line of every file prepared for a
  launch is blank or starts, after blanks, with \<open>#\<close>: sourcing the file over a masked shell
  configuration does nothing.  Its lines are those of the text, prefixed or not; neutralizing it again
  changes nothing; both files lie where the masks bind from, and without a text there are none.
\<close>

theorem marker_inert:
  assumes "prepare_markers io g = Inr (mk, files)"
  shows "(\<forall>(path, txt) \<in> set files. (\<forall>line \<in> set (split_on lf txt). commented line) \<and> inert txt = txt \<and>
      split_on lf txt = map inert_line (split_on lf (gr_denial_text g)) \<and>
      (path = mk_file mk \<or> has_prefix (clean path) (mk_dir mk @ ''/''))) \<and>
    (files = [] \<longleftrightarrow> trim_space (gr_denial_text g) = [] \<or> gr_protected g = [])"
proof -
  have ne: "gr_denial_text g \<noteq> []" if "trim_space (gr_denial_text g) \<noteq> []"
    using that trim_space_Nil by auto
  show ?thesis
    using prepare_markers_cases [OF assms]
  proof (elim disjE exE conjE)
    assume "(mk, files) = (no_markers, [])" "trim_space (gr_denial_text g) = []"
    then show ?thesis by simp
  next
    assume "(mk, files) = (no_markers, [])" "gr_protected g = []"
    then show ?thesis by simp
  next
    fix dir notice
    assume a: "trim_space (gr_denial_text g) \<noteq> []" "gr_protected g \<noteq> []" "has_prefix (clean notice) (mk_dir mk @ ''/'')"
      "files = [(mk_file mk, inert (gr_denial_text g)), (notice, inert (gr_denial_text g))]"
    have "(\<forall>line \<in> set (split_on lf (inert (gr_denial_text g))). commented line) \<and>
        inert (inert (gr_denial_text g)) = inert (gr_denial_text g) \<and>
        split_on lf (inert (gr_denial_text g)) = map inert_line (split_on lf (gr_denial_text g))"
      using inert_commented inert_idem inert_lines [OF ne [OF a(1)]] by blast
    then show ?thesis using a by simp
  qed
qed

definition demo_marked :: grants where
  "demo_marked =
     \<lparr>gr_workdir = ''/w'', gr_read = [], gr_write = [], gr_allow = [], gr_protected = [''/h/.profile''],
      gr_name_roots = [], gr_name_globs = [], gr_mode = ''blocked'', gr_proxy_port = 0, gr_listen_ports = [],
      gr_tcp_connect = [], gr_open_ports = [], gr_unix_sockets = [], gr_unix_dirs = [], gr_enforcement = ''kernel'',
      gr_denial_text = ''rm'' @ [lf] @ ''# x'', gr_denial_dir_name = []\<rparr>"

definition demo_io :: marker_io where
  "demo_io = \<lparr>mi_temp = Some ''/t'', mi_file_ok = True, mi_mkdir_ok = True, mi_notice_ok = True\<rparr>"

lemmas inert_eval = inert_def inert_line_def trim_blanks_def has_prefix_def

lemma demo_prepare:
  "prepare_markers demo_io demo_marked =
     Inr (\<lparr>mk_file = ''/t/file'', mk_dir = ''/t/dir''\<rparr>,
       [(''/t/file'', ''# rm'' @ [lf] @ ''# x''), (''/t/dir/.omac-denied'', ''# rm'' @ [lf] @ ''# x'')])"
  by (simp add: prepare_markers_def marker_dir_file_name_def demo_io_def demo_marked_def inert_eval gostr)

theorem marker_inert_witness:
  "\<exists>files. prepare_markers demo_io demo_marked = Inr (\<lparr>mk_file = ''/t/file'', mk_dir = ''/t/dir''\<rparr>, files) \<and>
     length files = 2 \<and> (\<forall>(path, txt) \<in> set files. \<forall>line \<in> set (split_on lf txt). commented line)"
proof -
  have "\<forall>(path, txt) \<in> set [(''/t/file'', ''# rm'' @ [lf] @ ''# x''), (''/t/dir/.omac-denied'', ''# rm'' @ [lf] @ ''# x'')].
      \<forall>line \<in> set (split_on lf txt). commented line"
    using marker_inert [OF demo_prepare, THEN conjunct1] by (simp only: split_def) blast
  then show ?thesis using demo_prepare by simp
qed

lemma first_rule_None: "first_rule es path = None \<longleftrightarrow> (\<forall>e \<in> set es. \<not> covers (fst e) path)"
  by (simp only: first_rule_def option.map_disc_iff find_None_iff) blast

lemma first_rule_Nil: "first_rule [] path = None"
  by (simp add: first_rule_def)

lemma first_rule_Cons:
  "first_rule (e # es) path = (if covers (fst e) path then Some (snd e) else first_rule es path)"
  by (simp add: first_rule_def)

lemma is_protected_None:
  "is_protected (Some s) q = None \<longleftrightarrow> (\<forall>e \<in> set (ps_entries s @ ps_dyn s). \<not> covers (fst e) (clean q))"
proof (cases "first_rule (ps_entries s) (clean q)")
  case None
  moreover have "\<forall>e \<in> set (ps_entries s). \<not> covers (fst e) (clean q)" using None by (simp only: first_rule_None)
  ultimately show ?thesis by (simp add: is_protected_def first_rule_None [of "ps_dyn s"] ball_Un)
next
  case (Some r)
  then have "\<not> (\<forall>e \<in> set (ps_entries s). \<not> covers (fst e) (clean q))" by (simp add: first_rule_None [symmetric])
  then show ?thesis using Some by (auto simp: is_protected_def)
qed

lemma first_rule_Some: "first_rule es path = Some r \<Longrightarrow> \<exists>e. (e, r) \<in> set es \<and> covers e path"
proof -
  assume "first_rule es path = Some r"
  then obtain x where x: "find (\<lambda>e. covers (fst e) path) es = Some x" "snd x = r"
    by (auto simp only: first_rule_def map_option_eq_Some)
  then have "x \<in> set es \<and> covers (fst x) path" by (auto simp: find_Some_iff)
  then show ?thesis using x(2) by (cases x) auto
qed

lemma expand_path_ne: "expand_path env p = Inr q \<Longrightarrow> q \<noteq> []"
proof -
  assume "expand_path env p = Inr q"
  then obtain x where x: "abs_path env x = Inr q" "x \<noteq> []"
    by (auto simp: expand_path_def expand_rest_def Let_def split: if_splits option.splits)
  then show ?thesis by (auto simp: abs_path_def path_join_def Let_def split: if_splits option.splits)
qed

lemma path_form_ne: "e \<in> set (path_form_denies env deny) \<Longrightarrow> e \<noteq> []"
proof -
  assume "e \<in> set (path_form_denies env deny)"
  then obtain d where "(case expand_path env d of Inl _ \<Rightarrow> None | Inr p \<Rightarrow> Some p) = Some e"
    by (auto simp: path_form_denies_def set_map_filter split: if_splits)
  then show ?thesis using expand_path_ne by (cases "expand_path env d") auto
qed

lemma new_protected_entries:
  "(e, r) \<in> set (ps_entries (new_protected_set env darwin p)) \<longleftrightarrow>
     (r = ''baseline'' \<and> (\<exists>b \<in> set (effective_protected_paths env (platform_baseline darwin) (pf_override_deny (pr_fs p))).
        expand_path env b = Inr e)) \<or>
     (r = ''profile'' \<and> (e \<in> set (path_form_denies env (pf_deny (pr_fs p))) \<or> e \<in> set (literal_denies p)))"
proof -
  have m: "(case expand_path env b of Inl _ \<Rightarrow> None | Inr e \<Rightarrow> Some (e, ''baseline'')) = Some (e, r) \<longleftrightarrow>
      r = ''baseline'' \<and> expand_path env b = Inr e" for b
    by (cases "expand_path env b") auto
  show ?thesis by (auto simp: new_protected_set_def Let_def set_map_filter m)
qed

text \<open>
  What the launcher answers agrees with what the sandbox denies.  The set is derived again from the
  profile, without the scan.  When it calls a path protected, the path is at or below an entry that is
  among the protected paths of the grants, and the tag tells the layer; provided that expanding an
  already expanded baseline path changes nothing (no variable in the home directory's name).
\<close>

theorem protected_set_agrees:
  assumes "resolve_grants env fe darwin limit p workdir = Inr g"
    and "\<forall>b \<in> set (effective_protected_paths env (platform_baseline darwin) (pf_override_deny (pr_fs p))).
      \<forall>e. expand_path env b = Inr e \<longrightarrow> e = b"
    and "is_protected (Some (new_protected_set env darwin p)) path = Some rule"
  shows "\<exists>e. covers e (clean path) \<and> e \<in> set (gr_protected g) \<and>
      (rule = ''profile'' \<longrightarrow> e \<in> set (path_form_denies env (pf_deny (pr_fs p))) \<or> e \<in> set (literal_denies p)) \<and>
      rule \<in> {''baseline'', ''profile''}"
proof -
  let ?es = "ps_entries (new_protected_set env darwin p)"
  have "ps_dyn (new_protected_set env darwin p) = []" by (simp add: new_protected_set_def Let_def)
  then have "first_rule ?es (clean path) = Some rule"
    using assms(3) by (cases "first_rule ?es (clean path)") (simp_all add: is_protected_def first_rule_Nil)
  then obtain e where e: "(e, rule) \<in> set ?es" "covers e (clean path)" using first_rule_Some by blast
  obtain roots denied nd where parts:
      "resolve_deny_paths env fe darwin limit (pf_deny (pr_fs p)) workdir_protected_common (pf_override_deny (pr_fs p))
        (dedupe roots) (static_denies env darwin p) = Inr (denied, nd)"
      "set (gr_protected g) = set (static_denies env darwin p) \<union> set denied - {[]}"
    using resolve_grants_parts [OF assms(1)] by blast
  have "e \<in> set (static_denies env darwin p) \<union> set denied"
    using e(1) assms(2) resolve_deny_explicit [OF parts(1)] unfolding new_protected_entries static_denies_def by auto
  moreover have "e \<noteq> []"
    using e(1) unfolding new_protected_entries by (auto simp: literal_denies_def dest: expand_path_ne path_form_ne sym)
  ultimately have "e \<in> set (gr_protected g)" using parts(2) by blast
  then show ?thesis using e unfolding new_protected_entries by auto
qed

lemma demo_effective:
  "\<forall>b \<in> set (effective_protected_paths demo_host_env (platform_baseline False) (pf_override_deny (pr_fs demo_launch))).
     \<forall>e. expand_path demo_host_env b = Inr e \<longrightarrow> e = b"
  by (simp add: demo_launch_simps override_lookup_def List.map_filter_simps effective_protected_paths_def
      platform_baseline_def linux_baseline_def protected_common_def expand_eval gostr)

lemma demo_is_protected:
  "is_protected (Some (new_protected_set demo_host_env False demo_launch)) ''/home/u/.ssh/../.aws/x'' = Some ''baseline''"
  by (simp add: demo_launch_simps override_lookup_def List.map_filter_simps effective_protected_paths_def
      platform_baseline_def linux_baseline_def protected_common_def expand_eval gostr is_protected_def
      new_protected_set_def first_rule_def covers_def)

theorem protected_set_agrees_witness:
  "\<exists>g e. resolve_grants demo_host_env demo_launch_fs False 9 demo_launch ''/p'' = Inr g \<and> e \<in> set (gr_protected g) \<and>
     covers e ''/home/u/.aws/x''"
proof -
  obtain g where g: "resolve_grants demo_host_env demo_launch_fs False 9 demo_launch ''/p'' = Inr g"
    using demo_grants by blast
  have "clean ''/home/u/.ssh/../.aws/x'' = ''/home/u/.aws/x''" by (simp add: gostr)
  then show ?thesis using protected_set_agrees [OF g demo_effective demo_is_protected] g by auto
qed

text \<open>A path the mid-session watch adds is protected from then on, with everything below it.\<close>

lemma protected_add_protects:
  "covers path (clean q) \<Longrightarrow> is_protected (protected_add path rule (Some s)) q \<noteq> None"
  by (auto simp add: protected_add_def is_protected_None covers_def)

end
