(* ===== verification/Facade.thy ===== *)
theory Facade
  imports Denial Intent ProxyServer
begin

text \<open>
  The facade (\<open>internal/facade/facade.go\<close>): the HTTP server through which the agent reaches its skills'
  sidecars and the sandbox's own endpoints.  The routing table with its owners, the handler from a
  parsed request to what it answers or forwards, the rewriting of forwarded requests, the limit on
  bodies, and the WebSocket path with its outcomes.
\<close>

section \<open>Routes\<close>

datatype route_state = StateUnset | RouteReady | RoutePendingCredentials | RouteBroken

record route =
  rt_mount :: string
  rt_namespace :: string
  rt_port :: int
  rt_max_body :: int
  rt_idle :: int
  rt_skill :: string
  rt_owner :: string
  rt_skill_dir :: string
  rt_state :: route_state
  rt_detail :: string

definition global_namespace :: string where "global_namespace = ''__global__''"

definition route_key :: "string \<Rightarrow> string \<Rightarrow> string" where
  "route_key namespace mount = (if namespace = [] then mount else namespace @ ''/'' @ mount)"

definition rt_key :: "route \<Rightarrow> string" where
  "rt_key r = route_key (rt_namespace r) (rt_mount r)"

text \<open>The table is an association list, in the order of an iteration over the Go map.\<close>

type_synonym routes = "(string \<times> route) list"

definition new_routes :: "route list \<Rightarrow> routes" where
  "new_routes rs = fold (\<lambda>r m. AList.update (rt_key r) r m) rs []"

definition add_route :: "route \<Rightarrow> routes \<Rightarrow> routes" where
  "add_route r m =
     (case map_of m (rt_key r) of
        Some ex \<Rightarrow> if rt_owner ex \<noteq> [] \<and> rt_owner ex \<noteq> rt_owner r then m else AList.update (rt_key r) r m
      | None \<Rightarrow> AList.update (rt_key r) r m)"

definition remove_route :: "string \<Rightarrow> string \<Rightarrow> routes \<Rightarrow> routes" where
  "remove_route namespace mount m = AList.delete (route_key namespace mount) m"

definition has_route :: "string \<Rightarrow> string \<Rightarrow> routes \<Rightarrow> bool" where
  "has_route namespace mount m \<longleftrightarrow> map_of m (route_key namespace mount) \<noteq> None"

definition upstream_port :: "string \<Rightarrow> string \<Rightarrow> routes \<Rightarrow> int" where
  "upstream_port namespace mount m = (case map_of m (route_key namespace mount) of Some r \<Rightarrow> rt_port r | None \<Rightarrow> 0)"

section \<open>Paths\<close>

definition split_segment :: "string \<Rightarrow> string \<times> string" where
  "split_segment p =
     (if length p < 2 \<or> hd p \<noteq> slash then ([], [])
      else case index_of slash (tl p) of
        None \<Rightarrow> (tl p, [])
      | Some i \<Rightarrow> (take i (tl p), drop (Suc i) (tl p)))"

text \<open>One \<open>ReplaceAll\<close> of a double slash, and the loop until there is none.\<close>

fun halve_slashes :: "string \<Rightarrow> string" where
  "halve_slashes (a # b # s) = (if a = slash \<and> b = slash then slash # halve_slashes s else a # halve_slashes (b # s))"
| "halve_slashes s = s"

lemma length_halve: "length (halve_slashes s) \<le> length s"
  by (induction s rule: halve_slashes.induct) auto

lemma length_halve_less: "contains_str s ''//'' \<Longrightarrow> length (halve_slashes s) < length s"
proof (induction s rule: halve_slashes.induct)
  case (1 a b s)
  then show ?case using length_halve [of s] by (auto simp: has_prefix_def split: if_splits)
qed (auto simp: has_prefix_def)

function squash_slashes :: "string \<Rightarrow> string" where
  "squash_slashes s = (if contains_str s ''//'' then squash_slashes (halve_slashes s) else s)"
  by pat_completeness auto
termination by (relation "measure length") (auto simp: length_halve_less)

declare squash_slashes.simps [simp del]

text \<open>
  \<open>resolve\<close>: \<open>None\<close> without a first segment, \<open>Some None\<close> when no route matches.  The more specific
  two-segment key comes first.
\<close>

definition resolve_route :: "routes \<Rightarrow> string \<Rightarrow> (route \<times> string) option option" where
  "resolve_route m path =
     (let (first, after) = split_segment path;
          (mount, rest) = split_segment (slash # after);
          flat = map_option (\<lambda>r. (r, after)) (map_of m first)
      in if first = [] then None
         else if after \<noteq> [] \<and> mount \<noteq> [] then
           (case map_of m (route_key first mount) of Some r \<Rightarrow> Some (Some (r, rest)) | None \<Rightarrow> Some flat)
         else Some flat)"

section \<open>Requests and responses\<close>

datatype listener = NoListener | ListenerTCP | ListenerUnix

text \<open>
  A parsed request: the listener that accepted it, the decoded path, the query as its \<open>Get\<close>, and what
  decoding the body as an intent gives (an error, or target and reason), under the body limit.
\<close>

record fac_request =
  fq_listener :: listener
  fq_method :: string
  fq_path :: string
  fq_raw_query :: string
  fq_query :: "string \<Rightarrow> string"
  fq_headers :: headers
  fq_intent :: "string + string \<times> string"

datatype jval = JStr string | JBool bool | JList "string list"
datatype rbody = NoBody | Plain string | Obj "(string \<times> jval) list"

record response =
  rs_status :: nat
  rs_headers :: headers
  rs_body :: rbody

definition http_error :: "headers \<Rightarrow> string \<Rightarrow> nat \<Rightarrow> response" where
  "http_error hs msg status =
     \<lparr>rs_status = status,
      rs_headers = hs @ [(''Content-Type'', ''text/plain; charset=utf-8''), (''X-Content-Type-Options'', ''nosniff'')],
      rs_body = Plain (msg @ [lf])\<rparr>"

definition reason_header :: "string \<Rightarrow> headers" where "reason_header r = [(''X-Omac-Reason'', r)]"

definition json_response :: "headers \<Rightarrow> nat \<Rightarrow> (string \<times> jval) list \<Rightarrow> response" where
  "json_response hs status obj =
     \<lparr>rs_status = status, rs_headers = hs @ [(''Content-Type'', ''application/json'')], rs_body = Obj obj\<rparr>"

text \<open>
  The facade.  The checker is the \<open>ProtectedPathChecker\<close> interface, nil when absent; the log holds
  method, mount, namespace, path and status of the requests logged.
\<close>

record facade =
  fa_routes :: routes
  fa_max_body :: int
  fa_version :: string
  fa_checker :: "(string \<Rightarrow> string option) option"
  fa_denial_note :: string
  fa_intents :: "registry option"
  fa_token :: string
  fa_log :: "(string \<times> string \<times> string \<times> string \<times> nat) list"

definition log_access :: "fac_request \<Rightarrow> route \<Rightarrow> string \<Rightarrow> nat \<Rightarrow> facade \<Rightarrow> facade" where
  "log_access rq r rest status fa =
     fa\<lparr>fa_log := fa_log fa @ [(fq_method rq, rt_mount r, rt_namespace r, ''/'' @ rest, status)]\<rparr>"

section \<open>The sandbox endpoints\<close>

definition handle_sandbox_denied :: "facade \<Rightarrow> fac_request \<Rightarrow> response" where
  "handle_sandbox_denied fa rq =
     (case fa_checker fa of
        None \<Rightarrow> http_error (reason_header ''denied-endpoint-disabled'') ''omac: protected-path checker not configured'' 404
      | Some check \<Rightarrow>
          (let q = fq_query rq ''path'';
               answer = (\<lambda>status obj. json_response [(''X-Omac-Sandbox'', ''denied'')] status obj)
           in if q = [] then http_error (reason_header ''missing-path'') ''omac: path query parameter required'' 400
              else case check q of
                Some rule \<Rightarrow>
                  (let note = (if rule = rule_mid_session then dx_mid_session_note default_deny_text
                               else if fa_denial_note fa = [] then dx_facade_note default_deny_text
                               else fa_denial_note fa)
                   in answer 200 [(''denied'', JBool True), (''path'', JStr q), (''rule'', JStr rule), (''note'', JStr note)])
              | None \<Rightarrow>
                  answer 404 [(''denied'', JBool False), (''path'', JStr q),
                              (''note'', JStr (dx_not_protected_note default_deny_text))]))"

definition is_relative_path_target :: "string \<Rightarrow> bool" where
  "is_relative_path_target target =
     (let t = trim_space target in
      if t = [] then False
      else if contains_str t ''://'' then False
      else if has_prefix t ''~'' then False
      else if is_abs t then False
      else if split_host_port t \<noteq> None then False
      else slash \<in> set t)"

definition join_reasons :: "intent_entry list \<Rightarrow> string" where
  "join_reasons es =
     (if length es = 1 then ie_reason (hd es)
      else join_with ''; '' (map (\<lambda>e. path_base (ie_target e) @ '': '' @ ie_reason e) es))"

definition lookup_body :: "string \<Rightarrow> bool \<Rightarrow> string \<Rightarrow> string \<Rightarrow> (string \<times> jval) list" where
  "lookup_body target declared reason hint =
     [(''target'', JStr target), (''declared'', JBool declared), (''reason'', JStr reason), (''hint'', JStr hint)]"

definition intent_disabled :: response where
  "intent_disabled =
     http_error (reason_header ''intent-endpoint-disabled'') ''omac: intent registry not configured'' 503"

definition handle_intent_lookup :: "intent_env \<Rightarrow> int \<Rightarrow> facade \<Rightarrow> fac_request \<Rightarrow> response \<times> facade" where
  "handle_intent_lookup ie now fa rq =
     (let q = fq_query rq ''target'' in
      if fa_intents fa = None then (intent_disabled, fa)
      else if q = [] then (http_error [] ''omac: target query parameter required'' 400, fa)
      else if fq_query rq ''subtree'' \<noteq> [] then
        (let (es, reg) = lookup_subtree ie now q (fa_intents fa)
         in (json_response [] (if es = [] then 404 else 200)
               [(''target'', JStr q), (''reason'', JStr (if es = [] then [] else join_reasons es))],
             fa\<lparr>fa_intents := reg\<rparr>))
      else
        (let (explain, reg1) = consume_explain_more ie now q (fa_intents fa);
             (found, reg2) = intent_lookup ie now q reg1;
             fa' = fa\<lparr>fa_intents := reg2\<rparr>
         in case found of
              None \<Rightarrow>
                (json_response [] 404 (lookup_body q False [] (if explain then hint_explain_more else hint_undeclared)), fa')
            | Some e \<Rightarrow>
                (json_response [] 200
                   (lookup_body (ie_target e) True (ie_reason e) (if explain then hint_explain_more else hint_declared)),
                 fa')))"

definition handle_sandbox_intent :: "intent_env \<Rightarrow> int \<Rightarrow> facade \<Rightarrow> fac_request \<Rightarrow> response \<times> facade" where
  "handle_sandbox_intent ie now fa rq =
     (if fq_method rq = ''GET'' then handle_intent_lookup ie now fa rq
      else if fq_method rq \<noteq> ''POST'' then (http_error [(''Allow'', ''POST, GET'')] ''omac: method not allowed'' 405, fa)
      else if fa_intents fa = None then (intent_disabled, fa)
      else case fq_intent rq of
        Inl err \<Rightarrow> (http_error [] (''omac: malformed JSON: '' @ err) 400, fa)
      | Inr (target, reason) \<Rightarrow>
          if trim_space target = [] \<or> trim_space reason = []
          then (http_error [] (''omac: both '' @ go_quote ''target'' @ '' and '' @ go_quote ''reason'' @ '' are required'') 400, fa)
          else if is_relative_path_target target
          then (http_error [] ''omac: path-form targets must be absolute (start with / or ~)'' 400, fa)
          else (\<lparr>rs_status = 204, rs_headers = [], rs_body = NoBody\<rparr>,
                fa\<lparr>fa_intents := record_and_clear ie now target reason (fa_intents fa)\<rparr>))"

definition handle_intent_explain :: "intent_env \<Rightarrow> int \<Rightarrow> facade \<Rightarrow> fac_request \<Rightarrow> response \<times> facade" where
  "handle_intent_explain ie now fa rq =
     (let target = fq_query rq ''target'' in
      if fq_method rq \<noteq> ''POST'' then (http_error [(''Allow'', ''POST'')] ''omac: method not allowed'' 405, fa)
      else if fa_intents fa = None then (intent_disabled, fa)
      else if trim_space target = [] then (http_error [] ''omac: target query parameter required'' 400, fa)
      else (\<lparr>rs_status = 204, rs_headers = [], rs_body = NoBody\<rparr>,
            fa\<lparr>fa_intents := mark_explain_more ie now target (fa_intents fa)\<rparr>))"

definition write_status :: "facade \<Rightarrow> response" where
  "write_status fa =
     json_response [] 200
       [(''version'', JStr (fa_version fa)),
        (''skills'', JList (sort (map (rt_key \<circ> snd)
           (filter (\<lambda>(_, r). rt_namespace r = [] \<or> rt_namespace r = global_namespace) (fa_routes fa)))))]"

section \<open>The handler\<close>

definition header_has_token :: "string \<Rightarrow> string \<Rightarrow> bool" where
  "header_has_token hdr token \<longleftrightarrow>
     list_ex (\<lambda>f. to_lower (trim_space f) = to_lower token) (split_on (CHR '','') hdr)"

definition is_upgrade :: "fac_request \<Rightarrow> bool" where
  "is_upgrade rq \<longleftrightarrow>
     header_has_token (header_get (fq_headers rq) ''Connection'') ''upgrade'' \<and>
     to_lower (header_get (fq_headers rq) ''Upgrade'') = ''websocket'' \<and>
     header_get (fq_headers rq) ''Sec-Websocket-Key'' \<noteq> []"

text \<open>\<open>serveSkillDoc\<close>: the file to serve and its contents.\<close>

definition serve_skill_doc :: "fs_env \<Rightarrow> link_env \<Rightarrow> route \<Rightarrow> (string \<times> string) option" where
  "serve_skill_doc fe le r =
     (let doc = path_join [rt_skill_dir r, ''SKILL.md''] in
      if rt_skill_dir r = [] then None
      else case (fe_resolve fe doc, fe_resolve fe (rt_skill_dir r)) of
        (Some d, Some s) \<Rightarrow>
          if \<not> has_prefix (clean d) (clean s @ ''/'') then None
          else if le_is_link le doc then None
          else map_option (\<lambda>data. (clean d, data)) (fe_read fe (clean d))
      | _ \<Rightarrow> None)"

definition unauthorized :: "facade \<Rightarrow> fac_request \<Rightarrow> bool" where
  "unauthorized fa rq \<longleftrightarrow>
     fa_token fa \<noteq> [] \<and> fq_listener rq = ListenerTCP \<and>
     (header_get (fq_headers rq) ''X-Omac-Facade-Token'' = [] \<or>
      header_get (fq_headers rq) ''X-Omac-Facade-Token'' \<noteq> fa_token fa)"

datatype outcome =
    Reply response
  | SkillDoc route string string
  | Forward route string
  | Upgraded route string

definition stub_response :: "string \<Rightarrow> nat \<Rightarrow> route \<Rightarrow> response" where
  "stub_response reason status r =
     json_response (reason_header reason) status
       [(''error'', JStr reason), (''skill'', JStr (rt_skill r)), (''detail'', JStr (rt_detail r))]"

definition handle_route ::
    "fs_env \<Rightarrow> link_env \<Rightarrow> facade \<Rightarrow> fac_request \<Rightarrow> route \<Rightarrow> string \<Rightarrow> outcome \<times> facade" where
  "handle_route fe le fa rq r rest =
     (if rt_state r = RoutePendingCredentials
      then (Reply (stub_response ''pending-credentials'' 409 r), log_access rq r rest 409 fa)
      else if rt_state r = RouteBroken then (Reply (stub_response ''skill-broken'' 502 r), log_access rq r rest 502 fa)
      else
        (let proxied = (if is_upgrade rq then Upgraded r rest else Forward r rest)
         in if rest = [] \<and> fq_method rq = ''GET'' \<and> \<not> is_upgrade rq then
              (case serve_skill_doc fe le r of
                 Some (path, data) \<Rightarrow> (SkillDoc r path data, log_access rq r [] 200 fa)
               | None \<Rightarrow> (proxied, fa))
            else (proxied, fa)))"

text \<open>The built-in routes come before the mounts.\<close>

definition handle_builtin ::
    "intent_env \<Rightarrow> int \<Rightarrow> facade \<Rightarrow> fac_request \<Rightarrow> string \<Rightarrow> (response \<times> facade) option" where
  "handle_builtin ie now fa rq path =
     (if path = ''/sandbox/denied'' then Some (handle_sandbox_denied fa rq, fa)
      else if path = ''/sandbox/intent'' then Some (handle_sandbox_intent ie now fa rq)
      else if path = ''/sandbox/intent/explain'' then Some (handle_intent_explain ie now fa rq)
      else if path = ''/'' \<or> path = [] then Some (write_status fa, fa)
      else None)"

definition handle_request ::
    "fs_env \<Rightarrow> link_env \<Rightarrow> intent_env \<Rightarrow> int \<Rightarrow> facade \<Rightarrow> fac_request \<Rightarrow> outcome \<times> facade" where
  "handle_request fe le ie now fa rq =
     (let path = squash_slashes (fq_path rq)
      in if unauthorized fa rq
         then (Reply (http_error [] ''omac: unauthorized (send X-Omac-Facade-Token from $OMAC_FACADE_TOKEN)'' 401), fa)
         else case handle_builtin ie now fa rq path of
           Some (rs, fa') \<Rightarrow> (Reply rs, fa')
         | None \<Rightarrow>
             (case resolve_route (fa_routes fa) path of
                None \<Rightarrow> (Reply (http_error [] ''omac: invalid path'' 404), fa)
              | Some None \<Rightarrow> (Reply (http_error (reason_header ''unknown-mount'') ''omac: unknown skill mount'' 404), fa)
              | Some (Some (r, rest)) \<Rightarrow> handle_route fe le fa rq r rest))"

section \<open>Forwarding\<close>

text \<open>
  The body of a request as the server reads it: chunks, the last of which may come with the end of file.
  A read of \<open>limitedBody\<close> and the copy loop of the transport, with a buffer of \<open>k + 1\<close> bytes.
\<close>

datatype read_err = EOF | BodyTooLarge

fun under_read :: "bool \<Rightarrow> nat \<Rightarrow> string list \<Rightarrow> string \<times> read_err option \<times> string list" where
  "under_read eager k [] = ([], Some EOF, [])"
| "under_read eager k (c # cs) =
     (if length c \<le> k then (c, if cs = [] \<and> eager then Some EOF else None, cs)
      else (take k c, None, drop k c # cs))"

definition limited_read ::
    "bool \<Rightarrow> nat \<Rightarrow> int \<Rightarrow> string list \<Rightarrow> string \<times> read_err option \<times> int \<times> string list" where
  "limited_read eager k n cs =
     (if n \<le> 0 then ([], Some BodyTooLarge, n, cs)
      else let (d, e, cs') = under_read eager (if int k > n then nat n else k) cs;
               n' = n - int (length d)
           in (d, if n' \<le> 0 \<and> e = None then Some BodyTooLarge else e, n', cs'))"

function copy_body :: "bool \<Rightarrow> nat \<Rightarrow> int \<Rightarrow> string list \<Rightarrow> string \<times> read_err" where
  "copy_body eager k n cs =
     (let (d, e, n', cs') = limited_read eager (Suc k) n cs
      in case e of
           Some er \<Rightarrow> (d, er)
         | None \<Rightarrow> (let (ds, er) = copy_body eager k n' cs' in (d @ ds, er)))"
  by pat_completeness auto
termination
proof (relation "measure (\<lambda>(_, _, _, cs). length cs + length (concat cs))", goal_cases)
  case (2 eager k n cs x d y e z n' cs')
  then have n: "n > 0" by (auto simp: limited_read_def split: if_splits)
  have "\<exists>j. under_read eager (Suc j) cs = (d, None, cs')"
  proof (cases "int (Suc k) > n")
    case True
    then have "under_read eager (Suc (nat n - 1)) cs = (d, None, cs')"
      using 2 n by (auto simp: limited_read_def Let_def split: if_splits prod.splits)
    then show ?thesis by blast
  next
    case False
    then show ?thesis using 2 n by (auto simp: limited_read_def Let_def split: if_splits prod.splits)
  qed
  then show ?case by (cases cs) (auto split: if_splits)
qed simp

declare copy_body.simps [simp del]

definition body_limit :: "facade \<Rightarrow> route \<Rightarrow> int" where
  "body_limit fa r = (if rt_max_body r = 0 then fa_max_body fa else rt_max_body r)"

text \<open>What a sidecar is sent; \<open>Rewrite\<close> of the reverse proxy, its \<open>ModifyResponse\<close> and \<open>ErrorHandler\<close>.\<close>

record sidecar_request =
  sq_host :: string
  sq_method :: string
  sq_path :: string
  sq_query :: string
  sq_headers :: headers

definition upstream_host :: "int \<Rightarrow> string" where
  "upstream_host port = ''127.0.0.1:'' @ show_int port"

definition rewrite_request :: "route \<Rightarrow> string \<Rightarrow> sidecar_request \<Rightarrow> sidecar_request" where
  "rewrite_request r rest q =
     q\<lparr>sq_host := upstream_host (rt_port r), sq_path := ''/'' @ rest,
       sq_headers := header_set ''X-Forwarded-Prefix'' (''/'' @ rt_key r) (sq_headers q)\<rparr>"

definition modify_response :: "headers \<Rightarrow> headers" where
  "modify_response hs =
     (if has_prefix (header_get hs ''Content-Type'') ''text/event-stream'' then header_set ''X-Accel-Buffering'' ''no'' hs else hs)"

record proxy_error =
  px_too_large :: bool
  px_timeout :: bool
  px_text :: string

definition is_conn_refused :: "proxy_error \<Rightarrow> bool" where
  "is_conn_refused e \<longleftrightarrow> contains_str (px_text e) ''connection refused''"

definition proxy_error_response :: "proxy_error \<Rightarrow> response" where
  "proxy_error_response e =
     (let (reason, status) =
        (if px_too_large e then (''body-too-large'', 413)
         else if px_timeout e then (''timeout'', 504)
         else if is_conn_refused e then (''sidecar-down'', 503)
         else (''upstream-error'', 502))
      in http_error (reason_header reason) (''omac: '' @ reason) status)"

section \<open>Upgrades\<close>

definition hop_by_hop_headers :: "string list" where
  "hop_by_hop_headers =
     [''Connection'', ''Keep-Alive'', ''Proxy-Authenticate'', ''Proxy-Authorization'', ''TE'', ''Trailer'',
      ''Transfer-Encoding'', ''Upgrade'']"

text \<open>Deleting a header by its canonical name is deleting it whatever its letter case.\<close>

definition strip_hop_by_hop :: "headers \<Rightarrow> headers" where
  "strip_hop_by_hop hs = filter (\<lambda>(k, v). \<not> list_ex (\<lambda>h. to_lower k = to_lower h) hop_by_hop_headers) hs"

text \<open>
  What the sidecar and the connections do: the errors of the dial, the write, the hijack and the answer
  to the client, and the response to the handshake (status, headers, body).
\<close>

record sidecar =
  si_dial :: "string option"
  si_write :: "string option"
  si_response :: "string + nat \<times> headers \<times> string"
  si_hijack :: "string option"
  si_answer_ok :: bool

datatype upgrade_effect =
    SendSidecar sidecar_request
  | Answer response
  | SwitchClient string
  | Splice

definition switching_response :: "headers \<Rightarrow> string" where
  "switching_response hs =
     ''HTTP/1.1 101 Switching Protocols'' @ crlf @
     concat (map (\<lambda>(k, v). k @ '': '' @ v @ crlf) (strip_hop_by_hop hs)) @ crlf"

definition upgrade_request :: "fac_request \<Rightarrow> route \<Rightarrow> string \<Rightarrow> sidecar_request" where
  "upgrade_request rq r rest =
     \<lparr>sq_host = upstream_host (rt_port r), sq_method = fq_method rq, sq_path = ''/'' @ rest, sq_query = fq_raw_query rq,
      sq_headers = header_set ''X-Forwarded-Prefix'' (''/'' @ rt_key r) (strip_hop_by_hop (fq_headers rq))\<rparr>"

definition proxy_upgrade :: "facade \<Rightarrow> fac_request \<Rightarrow> route \<Rightarrow> string \<Rightarrow> sidecar \<Rightarrow> upgrade_effect list \<times> facade" where
  "proxy_upgrade fa rq r rest si =
     (let bad = (\<lambda>reason msg. Answer (http_error (reason_header reason) (''omac: '' @ msg) 502));
          sent = SendSidecar (upgrade_request rq r rest)
      in case si_dial si of
           Some e \<Rightarrow> ([bad ''sidecar-down'' (''upstream dial: '' @ e)], fa)
         | None \<Rightarrow>
       case si_write si of
           Some e \<Rightarrow> ([sent, bad ''upstream-error'' (''write upstream: '' @ e)], fa)
         | None \<Rightarrow>
       case si_response si of
           Inl e \<Rightarrow> ([sent, bad ''upstream-error'' (''read upstream response: '' @ e)], fa)
         | Inr (status, hs, body) \<Rightarrow>
             if status \<noteq> 101
             then ([sent, Answer \<lparr>rs_status = status, rs_headers = hs, rs_body = Plain body\<rparr>], log_access rq r rest status fa)
             else case si_hijack si of
               Some e \<Rightarrow> ([sent, Answer (http_error [] (''omac: hijack: '' @ e) 500)], fa)
             | None \<Rightarrow>
                 if \<not> si_answer_ok si then ([sent, SwitchClient (switching_response hs)], fa)
                 else ([sent, SwitchClient (switching_response hs), Splice], log_access rq r rest 101 fa))"

section \<open>The routing table\<close>

text \<open>Every route is stored under its own key, once.\<close>

definition routes_ok :: "routes \<Rightarrow> bool" where
  "routes_ok m \<longleftrightarrow> distinct (map fst m) \<and> (\<forall>(k, r) \<in> set m. rt_key r = k)"

lemma routes_ok_lookup: "routes_ok m \<Longrightarrow> map_of m k = Some r \<Longrightarrow> rt_key r = k"
  by (auto simp: routes_ok_def dest: map_of_SomeD)

lemma routes_ok_unique: "routes_ok m \<Longrightarrow> (k, r) \<in> set m \<Longrightarrow> (k', r') \<in> set m \<Longrightarrow> rt_key r' = rt_key r \<Longrightarrow> r' = r"
proof -
  assume m: "routes_ok m" "(k, r) \<in> set m" "(k', r') \<in> set m" "rt_key r' = rt_key r"
  then have "rt_key r' = k'" "rt_key r = k" by (auto simp: routes_ok_def)
  then have "k' = k" using m(4) by simp
  then show ?thesis using m eq_key_imp_eq_value [of m k r' r] by (simp add: routes_ok_def)
qed

lemma routes_ok_update: "routes_ok m \<Longrightarrow> routes_ok (AList.update (rt_key r) r m)"
  unfolding routes_ok_def by (auto simp: distinct_update dest!: set_update_sub [THEN subsetD])

lemma routes_ok_add: "routes_ok m \<Longrightarrow> routes_ok (add_route r m)"
  by (simp add: add_route_def routes_ok_update split: option.split)

lemma routes_ok_remove: "routes_ok m \<Longrightarrow> routes_ok (remove_route ns mt m)"
  unfolding routes_ok_def remove_route_def by (auto simp: distinct_delete dest!: set_delete_sub [THEN subsetD])

lemma routes_ok_new: "routes_ok (new_routes rs)"
proof -
  have "routes_ok m \<Longrightarrow> routes_ok (fold (\<lambda>r m. AList.update (rt_key r) r m) rs m)" for m
    by (induction rs arbitrary: m) (simp_all add: routes_ok_update)
  moreover have "routes_ok []" by (simp add: routes_ok_def)
  ultimately show ?thesis by (simp add: new_routes_def)
qed

text \<open>The calls that change the table while the facade runs.\<close>

datatype route_op = Add route | Remove string string

fun route_exec :: "route_op \<Rightarrow> routes \<Rightarrow> routes" where
  "route_exec (Add r) m = add_route r m"
| "route_exec (Remove ns mt) m = remove_route ns mt m"

definition route_run :: "route_op list \<Rightarrow> routes \<Rightarrow> routes" where
  "route_run ops m = fold route_exec ops m"

lemma routes_ok_run: "routes_ok m \<Longrightarrow> routes_ok (route_run ops m)"
proof (induction ops arbitrary: m)
  case (Cons op ops)
  then have "routes_ok (route_exec op m)" by (cases op) (simp_all add: routes_ok_add routes_ok_remove)
  then show ?case using Cons.IH by (simp add: route_run_def)
qed (simp add: route_run_def)

lemma add_route_lookup:
  "map_of (add_route r m) k =
     (if k = rt_key r \<and> \<not> (\<exists>ex. map_of m k = Some ex \<and> rt_owner ex \<noteq> [] \<and> rt_owner ex \<noteq> rt_owner r)
      then Some r else map_of m k)"
  by (auto simp: add_route_def update_conv split: option.split)

lemma remove_route_lookup: "map_of (remove_route ns mt m) k = (if k = route_key ns mt then None else map_of m k)"
  by (simp add: remove_route_def delete_conv)

text \<open>
  An owned mount stays with its owner.  Once a skill has its name on a route, whatever routes are
  added and removed for other keys, the route under that key carries the same owner until someone
  removes it: every route added by another skill, or by none, is dropped.
\<close>

theorem route_owner_kept:
  assumes "map_of m k = Some ex" "rt_owner ex \<noteq> []"
    and "\<forall>op \<in> set ops. \<forall>ns mt. op = Remove ns mt \<longrightarrow> route_key ns mt \<noteq> k"
  shows "\<exists>r. map_of (route_run ops m) k = Some r \<and> rt_owner r = rt_owner ex \<and>
    (r = ex \<or> Add r \<in> set ops \<and> rt_key r = k)"
  using assms
proof (induction ops arbitrary: m ex)
  case (Cons op ops)
  obtain r where r: "map_of (route_exec op m) k = Some r" "rt_owner r = rt_owner ex" "r = ex \<or> op = Add r \<and> rt_key r = k"
  proof (cases op)
    case (Add r)
    then show ?thesis using Cons.prems that by (cases "k = rt_key r \<and> rt_owner ex = rt_owner r") (auto simp: add_route_lookup)
  next
    case (Remove ns mt)
    then show ?thesis using Cons.prems that by (auto simp: remove_route_lookup)
  qed
  then have "\<exists>r'. map_of (route_run ops (route_exec op m)) k = Some r' \<and> rt_owner r' = rt_owner r \<and>
      (r' = r \<or> Add r' \<in> set ops \<and> rt_key r' = k)"
    using Cons.prems by (intro Cons.IH) auto
  then show ?case using r by (auto simp: route_run_def)
qed (simp add: route_run_def)

definition demo_route :: "string \<Rightarrow> string \<Rightarrow> string \<Rightarrow> route" where
  "demo_route ns mount owner =
     \<lparr>rt_mount = mount, rt_namespace = ns, rt_port = 9000, rt_max_body = 0, rt_idle = 0, rt_skill = mount,
      rt_owner = owner, rt_skill_dir = [], rt_state = RouteReady, rt_detail = []\<rparr>"

theorem route_owner_kept_witness:
  "\<exists>r. map_of (route_run [Add (demo_route [] ''slack'' ''forged''), Remove ''d1'' ''slack'', Add (demo_route [] ''slack'' [])]
       (new_routes [demo_route [] ''slack'' ''slack''])) ''slack'' = Some r \<and> rt_owner r = ''slack''"
  using route_owner_kept [of "new_routes [demo_route [] ''slack'' ''slack'']" "''slack''" "demo_route [] ''slack'' ''slack''"
      "[Add (demo_route [] ''slack'' ''forged''), Remove ''d1'' ''slack'', Add (demo_route [] ''slack'' [])]"]
  by (auto simp: new_routes_def demo_route_def rt_key_def route_key_def)

text \<open>A route without an owner protects nothing: the next one added takes its place.\<close>

lemma ownerless_route_replaced:
  "map_of m (rt_key r) = Some ex \<Longrightarrow> rt_owner ex = [] \<Longrightarrow> map_of (add_route r m) (rt_key r) = Some r"
  by (simp add: add_route_lookup)

text \<open>A stub without an owner never replaces an owned route, whatever the comment of \<open>AddRoute\<close> says.\<close>

lemma ownerless_stub_refused:
  "map_of m (rt_key r) = Some ex \<Longrightarrow> rt_owner ex \<noteq> [] \<Longrightarrow> rt_owner r = [] \<Longrightarrow> add_route r m = m"
  by (simp add: add_route_def)

section \<open>Reaching a route\<close>

lemma split_segment_parts:
  assumes "split_segment p = (a, b)" "a \<noteq> []"
  shows "slash \<notin> set a \<and> (p = slash # a \<and> b = [] \<or> p = slash # a @ slash # b)"
proof -
  have p: "\<not> (length p < 2 \<or> hd p \<noteq> slash)"
    using assms unfolding split_segment_def by (metis fst_conv)
  then obtain q where q: "p = slash # q" by (cases p) auto
  show ?thesis
  proof (cases "index_of slash q")
    case None
    then have "a = q" "b = []" using assms(1) p unfolding split_segment_def q by (simp_all del: index_of_None)
    then show ?thesis using None q by simp
  next
    case (Some i)
    then have ab: "a = take i q" "b = drop (Suc i) q" using assms(1) p unfolding split_segment_def q by simp_all
    have i: "i < length q" "q ! i = slash" "slash \<notin> set (take i q)" using index_of_Some [OF Some] by auto
    then have "q = a @ slash # b" using ab id_take_nth_drop [of i q] by simp
    then show ?thesis using q ab i by simp
  qed
qed

lemma route_key_parts:
  assumes "ns @ slash # mt = a @ slash # m" "slash \<notin> set a" "slash \<notin> set m"
  shows "ns = a \<and> mt = m"
proof -
  obtain u where "ns = a @ u \<and> u @ slash # mt = slash # m \<or> ns @ u = a \<and> slash # mt = u @ slash # m"
    using assms(1) by (auto simp: append_eq_append_conv2)
  then show ?thesis using assms(2,3) by (cases u) auto
qed

definition addresses :: "string \<Rightarrow> string \<Rightarrow> string \<Rightarrow> bool" where
  "addresses path ns mount \<longleftrightarrow>
     (let base = ''/'' @ ns @ ''/'' @ mount in path = base \<or> has_prefix path (base @ ''/''))"

lemma resolve_route_sound:
  assumes "routes_ok m" "resolve_route m path = Some (Some (r, rest))" "rt_namespace r \<noteq> []"
  shows "addresses path (rt_namespace r) (rt_mount r)"
proof -
  obtain first after where fa: "split_segment path = (first, after)" by fastforce
  obtain mount rest' where mr: "split_segment (slash # after) = (mount, rest')" by fastforce
  have first: "first \<noteq> []" using assms(2) fa by (auto simp: resolve_route_def)
  note sp = split_segment_parts [OF fa first]
  have key: "rt_key r = rt_namespace r @ slash # rt_mount r" using assms(3) by (simp add: rt_key_def route_key_def)
  have not_flat: "map_of m first \<noteq> Some r"
    using routes_ok_lookup [OF assms(1), of first r] key sp by auto
  then have am: "after \<noteq> []" "mount \<noteq> []" "map_of m (route_key first mount) = Some r"
    using assms(2) fa mr first by (auto simp: resolve_route_def Let_def split: if_splits option.splits)
  note sm = split_segment_parts [OF mr am(2)]
  have "rt_key r = first @ slash # mount"
    using routes_ok_lookup [OF assms(1) am(3)] first by (simp add: route_key_def)
  then have "rt_namespace r = first \<and> rt_mount r = mount"
    using route_key_parts key sp sm by metis
  moreover have "path = slash # first @ slash # after" using sp am(1) by blast
  ultimately show ?thesis using sm by (auto simp: addresses_def Let_def has_prefix_iff)
qed

lemma resolve_route_mem: "resolve_route m path = Some (Some (r, rest)) \<Longrightarrow> \<exists>k. (k, r) \<in> set m"
  by (auto simp: resolve_route_def Let_def dest: map_of_SomeD split: if_splits option.splits prod.splits)

definition reached :: "outcome \<Rightarrow> route option" where
  "reached out = (case out of Reply _ \<Rightarrow> None | SkillDoc r _ _ \<Rightarrow> Some r | Forward r _ \<Rightarrow> Some r | Upgraded r _ \<Rightarrow> Some r)"

lemma handle_route_reached: "handle_route fe le fa rq r rest = (out, fa') \<Longrightarrow> reached out = Some q \<Longrightarrow> q = r"
  by (auto simp: handle_route_def reached_def Let_def split: if_splits option.splits)

lemma reached_reply: "reached (Reply x) = None"
  by (simp add: reached_def)

lemma handle_request_reached:
  assumes "handle_request fe le ie now fa rq = (out, fa')" "reached out = Some r"
  shows "\<not> unauthorized fa rq \<and> (\<exists>rest. resolve_route (fa_routes fa) (squash_slashes (fq_path rq)) = Some (Some (r, rest)) \<and>
    handle_route fe le fa rq r rest = (out, fa'))"
  using assms
  by (auto simp: handle_request_def Let_def reached_reply dest: handle_route_reached [OF _ assms(2)]
      split: if_splits option.splits prod.splits)

lemma unauthorized_simp:
  "\<not> unauthorized fa rq \<longleftrightarrow>
     (fa_token fa \<noteq> [] \<and> fq_listener rq = ListenerTCP \<longrightarrow> header_get (fq_headers rq) ''X-Omac-Facade-Token'' = fa_token fa)"
  by (auto simp: unauthorized_def)

lemma listed_routes:
  "write_status fa = rs \<Longrightarrow> \<exists>ks. rs_body rs = Obj [(''version'', JStr (fa_version fa)), (''skills'', JList ks)] \<and> sorted ks \<and>
     set ks = {rt_key r |k r. (k, r) \<in> set (fa_routes fa) \<and> (rt_namespace r = [] \<or> rt_namespace r = global_namespace)}"
  by (force simp: write_status_def json_response_def)

text \<open>
  C39: One working directory cannot reach another's skills.  Whatever the request, a route with a namespace
  (a directory's secret token, or \<open>__global__\<close>) answers, serves its document or is forwarded to only when the
  path, with runs of slashes made one, starts with that namespace and mount; over TCP the facade's token
  was presented; and no answer of the index lists the key of such a route, unless it is a global one.
\<close>

theorem namespaces_isolated:
  assumes "fa_routes fa = route_run ops (new_routes rs)"
    and "handle_request fe le ie now fa rq = (out, fa')" "reached out = Some r" "rt_namespace r \<noteq> []"
  shows "addresses (squash_slashes (fq_path rq)) (rt_namespace r) (rt_mount r) \<and>
    (fa_token fa \<noteq> [] \<and> fq_listener rq = ListenerTCP \<longrightarrow> header_get (fq_headers rq) ''X-Omac-Facade-Token'' = fa_token fa) \<and>
    (rt_namespace r \<noteq> global_namespace \<longrightarrow>
       (\<exists>ks. rs_body (write_status fa) = Obj [(''version'', JStr (fa_version fa)), (''skills'', JList ks)] \<and> rt_key r \<notin> set ks))"
proof -
  have ok: "routes_ok (fa_routes fa)" using assms(1) routes_ok_run routes_ok_new by simp
  obtain rest where h: "\<not> unauthorized fa rq"
      "resolve_route (fa_routes fa) (squash_slashes (fq_path rq)) = Some (Some (r, rest))"
    using handle_request_reached [OF assms(2,3)] by blast
  note res = resolve_route_sound [OF ok h(2) assms(4)]
  obtain k where k: "(k, r) \<in> set (fa_routes fa)" using resolve_route_mem [OF h(2)] by blast
  obtain ks where ks: "rs_body (write_status fa) = Obj [(''version'', JStr (fa_version fa)), (''skills'', JList ks)]"
      "set ks = {rt_key r |k r. (k, r) \<in> set (fa_routes fa) \<and> (rt_namespace r = [] \<or> rt_namespace r = global_namespace)}"
    using listed_routes [OF refl] by blast
  have "rt_key r \<notin> set ks" if "rt_namespace r \<noteq> global_namespace"
  proof
    assume "rt_key r \<in> set ks"
    then obtain k' r' where r': "(k', r') \<in> set (fa_routes fa)" "rt_key r' = rt_key r"
        "rt_namespace r' = [] \<or> rt_namespace r' = global_namespace"
      using ks(2) by auto
    then have "r' = r" using routes_ok_unique [OF ok] k by blast
    then show False using r'(3) that assms(4) by simp
  qed
  then show ?thesis using res h(1) ks(1) by (simp add: unauthorized_simp)
qed

definition demo_facade :: facade where
  "demo_facade =
     \<lparr>fa_routes = route_run [Add (demo_route ''tok1'' ''slack'' ''slack'')] (new_routes [demo_route [] ''slack'' []]),
      fa_max_body = 10, fa_version = ''1'', fa_checker = None, fa_denial_note = [], fa_intents = None, fa_token = ''t'',
      fa_log = []\<rparr>"

definition demo_get :: "string \<Rightarrow> fac_request" where
  "demo_get path =
     \<lparr>fq_listener = ListenerTCP, fq_method = ''POST'', fq_path = path, fq_raw_query = [], fq_query = (\<lambda>_. []),
      fq_headers = [(''X-Omac-Facade-Token'', ''t'')], fq_intent = Inl []\<rparr>"

lemma demo_squash: "squash_slashes ''/tok1//slack/x'' = ''/tok1/slack/x''"
  by (simp add: squash_slashes.simps has_prefix_def)

lemma demo_routes:
  "fa_routes demo_facade = [(''slack'', demo_route [] ''slack'' []), (''tok1/slack'', demo_route ''tok1'' ''slack'' ''slack'')]"
  by (simp add: demo_facade_def route_run_def new_routes_def add_route_def demo_route_def rt_key_def route_key_def)

lemma demo_handled:
  "handle_request fe le ie now demo_facade (demo_get ''/tok1//slack/x'') =
     (Forward (demo_route ''tok1'' ''slack'' ''slack'') ''x'', demo_facade)"
proof -
  have u: "\<not> unauthorized demo_facade (demo_get p)" for p
    by (simp add: unauthorized_def demo_facade_def demo_get_def header_get_def)
  have b: "handle_builtin ie now fa rq ''/tok1/slack/x'' = None" for ie now fa rq
    by (simp add: handle_builtin_def)
  have r: "resolve_route (fa_routes demo_facade) ''/tok1/slack/x'' = Some (Some (demo_route ''tok1'' ''slack'' ''slack'', ''x''))"
    unfolding demo_routes by (simp add: resolve_route_def split_segment_def route_key_def)
  have h: "handle_route fe le demo_facade rq (demo_route ''tok1'' ''slack'' ''slack'') ''x'' =
      (Forward (demo_route ''tok1'' ''slack'' ''slack'') ''x'', demo_facade)" if "\<not> is_upgrade rq" for rq
    using that by (simp add: handle_route_def demo_route_def)
  have "\<not> is_upgrade (demo_get p)" for p by (simp add: is_upgrade_def demo_get_def header_get_def)
  then show ?thesis
    using u b r h by (simp add: handle_request_def Let_def demo_squash demo_get_def)
qed

theorem namespaces_isolated_witness:
  "addresses ''/tok1/slack/x'' ''tok1'' ''slack'' \<and>
   (\<exists>ks. rs_body (write_status demo_facade) = Obj [(''version'', JStr ''1''), (''skills'', JList ks)] \<and> ''tok1/slack'' \<notin> set ks)"
proof -
  have f: "fa_routes demo_facade = route_run [Add (demo_route ''tok1'' ''slack'' ''slack'')] (new_routes [demo_route [] ''slack'' []])"
    by (simp add: demo_facade_def)
  have "reached (Forward (demo_route ''tok1'' ''slack'' ''slack'') ''x'') = Some (demo_route ''tok1'' ''slack'' ''slack'')"
    "rt_namespace (demo_route ''tok1'' ''slack'' ''slack'') \<noteq> []"
    by (simp_all add: reached_def demo_route_def)
  from namespaces_isolated [OF f demo_handled this]
  show ?thesis
    by (simp add: demo_get_def demo_squash demo_route_def rt_key_def route_key_def global_namespace_def demo_facade_def)
qed

section \<open>The limit on bodies\<close>

lemma under_read_total:
  "under_read eager (Suc k) cs = (d, e, cs') \<Longrightarrow> [] \<notin> set cs \<Longrightarrow>
     d @ concat cs' = concat cs \<and> [] \<notin> set cs' \<and> length d \<le> Suc k \<and> (e = Some EOF \<longrightarrow> cs' = [] \<and> (cs = [] \<or> eager)) \<and>
     (e = None \<longrightarrow> d \<noteq> [] \<and> (cs' = [] \<longrightarrow> \<not> eager)) \<and> (e = None \<or> e = Some EOF)"
  by (cases cs) (auto split: if_splits)

lemma limited_read_pos:
  assumes "limited_read eager (Suc k) n cs = (d, e, n', cs')" "n > 0" "[] \<notin> set cs"
  shows "d @ concat cs' = concat cs \<and> [] \<notin> set cs' \<and> n' = n - int (length d) \<and> n' \<ge> 0 \<and>
    (e = Some EOF \<longrightarrow> cs' = [] \<and> (eager \<or> cs = [])) \<and> (e = Some BodyTooLarge \<longrightarrow> n' = 0 \<and> (cs' = [] \<longrightarrow> \<not> eager)) \<and>
    (e = None \<longrightarrow> n' > 0 \<and> (cs' = [] \<longrightarrow> \<not> eager))"
proof -
  define j where "j = (if int (Suc k) > n then nat n - 1 else k)"
  have j: "(if int (Suc k) > n then nat n else Suc k) = Suc j" "int (Suc j) \<le> n"
    using assms(2) by (auto simp: j_def)
  obtain e0 where u: "under_read eager (Suc j) cs = (d, e0, cs')" "n' = n - int (length d)"
      "e = (if n' \<le> 0 \<and> e0 = None then Some BodyTooLarge else e0)"
    using assms(1,2) unfolding limited_read_def Let_def j(1) by (auto split: prod.splits)
  show ?thesis using under_read_total [OF u(1) assms(3)] u(2,3) j(2) by (auto split: if_splits)
qed

text \<open>
  The limit on a request body, for a limit \<open>n\<close> and any buffer.  A shorter body passes whole, of a longer one exactly
  \<open>n\<close> bytes are passed on before the error; a body of exactly \<open>n\<close> bytes passes only when the end of
  file comes with its last bytes, and is refused when it is reported by a read of its own.
\<close>

theorem limited_body_exact:
  assumes "0 < n" "[] \<notin> set cs"
  shows "copy_body eager k n cs =
    (if int (length (concat cs)) < n \<or> int (length (concat cs)) = n \<and> eager then (concat cs, EOF)
     else (take (nat n) (concat cs), BodyTooLarge))"
  using assms
proof (induction eager k n cs rule: copy_body.induct)
  case (1 eager k n cs)
  obtain d e n' cs' where r: "limited_read eager (Suc k) n cs = (d, e, n', cs')" by (metis surj_pair)
  note p = limited_read_pos [OF r 1(2,3)]
  have len: "int (length (concat cs)) = int (length d) + int (length (concat cs'))"
    using p by (metis length_append of_nat_add)
  show ?case
  proof (cases e)
    case None
    then have IH: "copy_body eager k n' cs' =
        (if int (length (concat cs')) < n' \<or> int (length (concat cs')) = n' \<and> eager then (concat cs', EOF)
         else (take (nat n') (concat cs'), BodyTooLarge))"
      using 1(1) [OF r [symmetric] refl refl refl None] p by auto
    have c: "n' = n - int (length d)" "0 \<le> n'" "concat cs = d @ concat cs'" using p by simp_all
    have "nat n = length d + nat n'" using c(1,2) by linarith
    then have "take (nat n) (concat cs) = d @ take (nat n') (concat cs')" by (simp add: c(3))
    moreover have "copy_body eager k n cs = (d @ fst (copy_body eager k n' cs'), snd (copy_body eager k n' cs'))"
      using r None by (subst copy_body.simps) (simp add: split_def Let_def)
    ultimately show ?thesis using IH c len by auto
  next
    case (Some er)
    then have "copy_body eager k n cs = (d, er)" using r by (subst copy_body.simps) simp
    moreover have c: "n' = n - int (length d)" "concat cs = d @ concat cs'" "0 \<le> n'" using p by simp_all
    moreover have "er = EOF \<Longrightarrow> concat cs' = [] \<and> (eager \<or> length d = 0)" using p Some by auto
    moreover have "er = BodyTooLarge \<Longrightarrow> n' = 0 \<and> (concat cs' = [] \<longrightarrow> \<not> eager)" using p Some by (cases cs') auto
    ultimately show ?thesis using 1(2) by (cases er) auto
  qed
qed

theorem limited_body_exact_witness:
  "copy_body True 1 3 [''ab'', ''c''] = (''abc'', EOF) \<and> copy_body False 1 3 [''ab'', ''c''] = (''abc'', BodyTooLarge) \<and>
   copy_body False 9 3 [''abcd''] = (''abc'', BodyTooLarge) \<and> copy_body False 9 4 [''abc''] = (''abc'', EOF)"
  using limited_body_exact [of 3 "[''ab'', ''c'']" True 1] limited_body_exact [of 3 "[''ab'', ''c'']" False 1]
    limited_body_exact [of 3 "[''abcd'']" False 9] limited_body_exact [of 4 "[''abc'']" False 9]
  by (simp add: numeral_eq_Suc)

section \<open>Upgrades lose the handshake\<close>

text \<open>
  The path for WebSocket requests strips the hop-by-hop headers in both directions, and does not put
  \<open>Connection\<close> and \<open>Upgrade\<close> back: no sidecar is asked for an upgrade, and a client whose connection is
  switched gets a response without them.
\<close>

lemma stripped:
  assumes "(k, v) \<in> set (strip_hop_by_hop hs)"
  shows "to_lower k \<notin> {''connection'', ''upgrade''}"
proof -
  have l: "to_lower ''Connection'' = ''connection''" "to_lower ''Upgrade'' = ''upgrade''"
    by (simp_all add: gostr)
  have "to_lower k \<noteq> to_lower ''Connection'' \<and> to_lower k \<noteq> to_lower ''Upgrade''"
    using assms unfolding strip_hop_by_hop_def hop_by_hop_headers_def by (simp only: set_filter mem_Collect_eq) simp
  then show ?thesis unfolding l by simp
qed

lemma upgrade_sends:
  "SendSidecar q \<in> set (fst (proxy_upgrade fa rq r rest si)) \<Longrightarrow> q = upgrade_request rq r rest"
  by (auto simp: proxy_upgrade_def Let_def split: option.splits sum.splits prod.splits if_splits)

lemma websocket_handshake_lost:
  assumes "SendSidecar q \<in> set (fst (proxy_upgrade fa rq r rest si))"
  shows "\<forall>(k, v) \<in> set (sq_headers q). to_lower k \<notin> {''connection'', ''upgrade''}"
proof -
  have x: "to_lower ''X-Forwarded-Prefix'' = ''x-forwarded-prefix''"
    by (simp add: gostr)
  have "(k, v) \<in> set (sq_headers q) \<Longrightarrow> k = ''X-Forwarded-Prefix'' \<or> (k, v) \<in> set (strip_hop_by_hop (fq_headers rq))" for k v
    unfolding upgrade_sends [OF assms] upgrade_request_def
    by (simp add: header_set_def header_del_def) blast
  then show ?thesis using stripped x by fastforce
qed

lemma splice_only_after_101:
  "Splice \<in> set (fst (proxy_upgrade fa rq r rest si)) \<Longrightarrow> \<exists>hs body. si_response si = Inr (101, hs, body)"
  by (auto simp: proxy_upgrade_def Let_def split: option.splits sum.splits prod.splits if_splits)

section \<open>The question whether a path is denied\<close>

text \<open>The set of a launch, with the paths the mid-session watch added since.\<close>

definition watched_set :: "host_env \<Rightarrow> bool \<Rightarrow> profile \<Rightarrow> string list \<Rightarrow> protected_set option" where
  "watched_set env darwin p added =
     fold (\<lambda>path. protected_add path rule_mid_session) added (Some (new_protected_set env darwin p))"

lemma watched_set_simp:
  "watched_set env darwin p added =
     Some (new_protected_set env darwin p\<lparr>ps_dyn := map (\<lambda>a. (clean a, rule_mid_session)) added\<rparr>)"
proof -
  have "fold (\<lambda>path. protected_add path rule_mid_session) added (Some s) =
      Some (s\<lparr>ps_dyn := ps_dyn s @ map (\<lambda>a. (clean a, rule_mid_session)) added\<rparr>)" for s
    by (induction added arbitrary: s) (simp_all add: protected_add_def)
  moreover have "ps_dyn (new_protected_set env darwin p) = []" by (simp add: new_protected_set_def Let_def)
  ultimately show ?thesis by (simp add: watched_set_def)
qed

lemma watched_protected:
  "is_protected (watched_set env darwin p added) q =
     (case is_protected (Some (new_protected_set env darwin p)) q of
        Some r \<Rightarrow> Some r
      | None \<Rightarrow> if \<exists>a \<in> set added. covers (clean a) (clean q) then Some rule_mid_session else None)"
proof -
  have d: "ps_dyn (new_protected_set env darwin p) = []" by (simp add: new_protected_set_def Let_def)
  have f: "first_rule (map (\<lambda>a. (clean a, rule_mid_session)) as) path =
      (if \<exists>a \<in> set as. covers (clean a) path then Some rule_mid_session else None)" for as path
    by (induction as) (simp_all add: first_rule_Cons first_rule_Nil)
  show ?thesis
    by (simp add: watched_set_simp is_protected_def d f first_rule_Nil split: option.split)
qed

definition answer_of :: "response \<Rightarrow> (string \<times> jval) list" where
  "answer_of rs = (case rs_body rs of Obj fs \<Rightarrow> fs | _ \<Rightarrow> [])"


definition demo_asked :: facade where
  "demo_asked = demo_facade\<lparr>fa_checker := Some (is_protected (watched_set demo_host_env False demo_launch [''/p/new.env'']))\<rparr>"

definition demo_ask :: fac_request where
  "demo_ask = (demo_get ''/sandbox/denied'')\<lparr>fq_query := (\<lambda>_. ''/home/u/.ssh/../.aws/x'')\<rparr>"


end
