(* ===== verification/Bundle.thy ===== *)
theory Bundle
  imports Grants "HOL-Library.Multiset"
begin

text \<open>
  What identifies the code of a skill, and what runs: \<open>BundleHash\<close> with its exclusions and
  \<open>ValidSkillName\<close> (\<open>internal/config/meta.go\<close>), and the copy a snapshot is made of (\<open>copyTree\<close>,
  \<open>copyInTreeSymlink\<close>, \<open>containedIn\<close> in \<open>internal/skilltrust/snapshot.go\<close>).  A directory is a tree; SHA-256 and the
  resolution of links are parameters.
\<close>

section \<open>Directories\<close>

text \<open>
  A regular file with its contents and permissions, a symbolic link with its text, a directory with its
  entries in the order of a walk, anything else, and an entry that cannot be read.
\<close>

datatype node = File string nat | Link string | Dir "(string \<times> node) list" | Special | Unreadable

type_synonym tree = "(string \<times> node) list"

definition meta_file_name :: string where "meta_file_name = ''omac.yaml''"

definition is_excluded_dir_name :: "string \<Rightarrow> bool" where
  "is_excluded_dir_name name \<longleftrightarrow>
     name \<in> set [''.git'', ''.hg'', ''.svn'', ''.venv'', ''venv'', ''.tox'', ''__pycache__'', ''node_modules'', ''.cache'',
                 ''.pytest_cache'', ''.mypy_cache'', ''.ruff_cache'', ''target'', ''dist'', ''build'', ''.idea'', ''.vscode'']"

definition is_excluded_file_name :: "string \<Rightarrow> bool" where
  "is_excluded_file_name name \<longleftrightarrow>
     name \<in> set [''.DS_Store'', ''Thumbs.db'', ''.gitignore.swp''] \<or>
     list_ex (\<lambda>suffix. has_suffix name suffix \<and> name \<noteq> suffix) [''.pyc'', ''.pyo'', ''.swp'', ''~'']"

section \<open>The hash of a bundle\<close>

text \<open>The files the walk collects, by their path elements; \<open>None\<close> on an error.\<close>

type_synonym item = "string list \<times> string"

definition both :: "'a list option \<Rightarrow> 'a list option \<Rightarrow> 'a list option" where
  "both x y = (case (x, y) of (Some a, Some b) \<Rightarrow> Some (a @ b) | _ \<Rightarrow> None)"

fun bundle_items :: "string list \<Rightarrow> tree \<Rightarrow> item list option" where
  "bundle_items pre [] = Some []"
| "bundle_items pre ((n, Dir ds) # es) =
     (if is_excluded_dir_name n then bundle_items pre es
      else both (bundle_items (pre @ [n]) ds) (bundle_items pre es))"
| "bundle_items pre ((n, File c m) # es) =
     (if is_excluded_file_name n then bundle_items pre es else both (Some [(pre @ [n], c)]) (bundle_items pre es))"
| "bundle_items pre ((n, Link l) # es) = (if n = meta_file_name then None else bundle_items pre es)"
| "bundle_items pre ((n, Special) # es) = (if n = meta_file_name then None else bundle_items pre es)"
| "bundle_items pre ((n, Unreadable) # es) = None"

definition rel_path :: "string list \<Rightarrow> string" where
  "rel_path parts = join_with ''/'' parts"

definition nul :: char where "nul = CHR 0x00"

definition hex_encode :: "string \<Rightarrow> string" where
  "hex_encode s = concat (map (\<lambda>c. [lower_hex (code c div 16), lower_hex (code c mod 16)]) s)"

text \<open>The digest input, and the hash, for a function \<open>sha\<close> with sums of 32 bytes.\<close>

definition digest_input :: "(string \<Rightarrow> string) \<Rightarrow> item list \<Rightarrow> string" where
  "digest_input sha items =
     concat (map (\<lambda>(rel, c). rel @ nul # sha c @ [nul])
       (sort_key fst (map (\<lambda>(parts, c). (rel_path parts, c)) items)))"

definition bundle_hash :: "(string \<Rightarrow> string) \<Rightarrow> tree \<Rightarrow> string option" where
  "bundle_hash sha t = map_option (\<lambda>items. ''sha256:'' @ hex_encode (sha (digest_input sha items))) (bundle_items [] t)"

section \<open>Names\<close>

definition valid_skill_name :: "string \<Rightarrow> bool" where
  "valid_skill_name name \<longleftrightarrow>
     name \<noteq> [] \<and> name \<noteq> ''.'' \<and> name \<noteq> ''..'' \<and> slash \<notin> set name \<and> backslash \<notin> set name \<and>
     (is_digit (hd name) \<or> is_lower_alpha (hd name)) \<and>
     list_all (\<lambda>c. is_digit c \<or> is_lower_alpha c \<or> c = CHR ''-'') (tl name)"

section \<open>The copy\<close>

text \<open>\<open>filepath.Rel\<close> and \<open>containedIn\<close>.\<close>

fun strip_common :: "string list \<Rightarrow> string list \<Rightarrow> string list \<times> string list" where
  "strip_common (b # bs) (t # ts) = (if b = t then strip_common bs ts else (b # bs, t # ts))"
| "strip_common bs ts = (bs, ts)"

definition path_rel :: "string \<Rightarrow> string \<Rightarrow> string option" where
  "path_rel base targ =
     (if clean base = clean targ then Some ''.''
      else if is_abs base \<noteq> is_abs targ then None
      else let (bs, ts) = strip_common (clean_parts base) (if clean targ = ''.'' then [''.''] else clean_parts targ)
           in if bs \<noteq> [] \<and> hd bs = ''..'' then None
              else Some (join_with ''/'' (map (\<lambda>_. ''..'') bs @ ts)))"

definition contained_in :: "string \<Rightarrow> string \<Rightarrow> bool" where
  "contained_in root path =
     (case path_rel root path of
        None \<Rightarrow> False
      | Some rel \<Rightarrow> rel \<noteq> ''.'' \<and> rel \<noteq> ''..'' \<and> \<not> has_prefix rel ''../'')"

text \<open>Whether a link is made again: its path in the source, its place in the copy, and its text.\<close>

definition keeps_link :: "(string \<Rightarrow> string option) \<Rightarrow> string \<Rightarrow> string \<Rightarrow> string list \<Rightarrow> string \<Rightarrow> bool" where
  "keeps_link eval src dst parts link =
     (\<not> is_abs link \<and> ''..'' \<notin> set (split_on slash link) \<and>
      (case eval (path_join (src # parts)) of
         None \<Rightarrow> False
       | Some resolved \<Rightarrow>
           contained_in src resolved \<and>
           contained_in dst (clean (path_join [path_dir (path_join (dst # parts)), link]))))"

fun copy_tree :: "(string \<Rightarrow> string option) \<Rightarrow> string \<Rightarrow> string \<Rightarrow> string list \<Rightarrow> tree \<Rightarrow> tree option" where
  "copy_tree eval src dst pre [] = Some []"
| "copy_tree eval src dst pre ((n, Dir ds) # es) =
     (if is_excluded_dir_name n then copy_tree eval src dst pre es
      else case copy_tree eval src dst (pre @ [n]) ds of
        None \<Rightarrow> None
      | Some ds' \<Rightarrow> both (Some [(n, Dir ds')]) (copy_tree eval src dst pre es))"
| "copy_tree eval src dst pre ((n, File c m) # es) =
     (if is_excluded_file_name n then copy_tree eval src dst pre es
      else both (Some [(n, File c m)]) (copy_tree eval src dst pre es))"
| "copy_tree eval src dst pre ((n, Link l) # es) =
     (if keeps_link eval src dst (pre @ [n]) l then both (Some [(n, Link l)]) (copy_tree eval src dst pre es)
      else copy_tree eval src dst pre es)"
| "copy_tree eval src dst pre ((n, Special) # es) = copy_tree eval src dst pre es"
| "copy_tree eval src dst pre ((n, Unreadable) # es) = None"

section \<open>The copy is what was hashed\<close>

text \<open>All regular files of a tree, and all its links, by their path elements.\<close>

fun all_files :: "string list \<Rightarrow> tree \<Rightarrow> item list" where
  "all_files pre [] = []"
| "all_files pre ((n, Dir ds) # es) = all_files (pre @ [n]) ds @ all_files pre es"
| "all_files pre ((n, File c m) # es) = (pre @ [n], c) # all_files pre es"
| "all_files pre ((n, Link l) # es) = all_files pre es"
| "all_files pre ((n, Special) # es) = all_files pre es"
| "all_files pre ((n, Unreadable) # es) = all_files pre es"

fun all_links :: "string list \<Rightarrow> tree \<Rightarrow> item list" where
  "all_links pre [] = []"
| "all_links pre ((n, Dir ds) # es) = all_links (pre @ [n]) ds @ all_links pre es"
| "all_links pre ((n, Link l) # es) = (pre @ [n], l) # all_links pre es"
| "all_links pre ((n, File c m) # es) = all_links pre es"
| "all_links pre ((n, Special) # es) = all_links pre es"
| "all_links pre ((n, Unreadable) # es) = all_links pre es"

lemma both_Some: "both x y = Some z \<longleftrightarrow> (\<exists>a b. x = Some a \<and> y = Some b \<and> z = a @ b)"
  by (auto simp: both_def split: option.splits)

lemma copy_items:
  "bundle_items pre t = Some items \<Longrightarrow> copy_tree eval src dst pre t = Some t' \<Longrightarrow>
     bundle_items pre t' = Some items \<and> all_files pre t' = items \<and>
     (\<forall>(parts, l) \<in> set (all_links pre t'). keeps_link eval src dst parts l)"
proof (induction pre t arbitrary: items t' rule: bundle_items.induct)
  case (2 pre n ds es)
  show ?case
  proof (cases "is_excluded_dir_name n")
    case True
    then have a: "bundle_items pre es = Some items" "copy_tree eval src dst pre es = Some t'"
      using 2(4,5) by (simp_all only: bundle_items.simps copy_tree.simps if_True)
    show ?thesis by (rule 2(1) [OF True a])
  next
    case False
    obtain i1 i2 where i: "bundle_items (pre @ [n]) ds = Some i1" "bundle_items pre es = Some i2" "items = i1 @ i2"
      using 2(4) False by (auto simp: both_Some)
    obtain d' e' where c: "copy_tree eval src dst (pre @ [n]) ds = Some d'" "copy_tree eval src dst pre es = Some e'"
        "t' = (n, Dir d') # e'"
      using 2(5) False by (auto simp: both_Some split: option.splits)
    show ?thesis using 2(2) [OF False i(1) c(1)] 2(3) [OF False i(2) c(2)] i(3) c(3) False
      by (simp add: both_def ball_Un)
  qed
next
  case (3 pre n c m es)
  show ?case
  proof (cases "is_excluded_file_name n")
    case True
    then have a: "bundle_items pre es = Some items" "copy_tree eval src dst pre es = Some t'"
      using 3(3,4) by (simp_all only: bundle_items.simps copy_tree.simps if_True)
    show ?thesis by (rule 3(1) [OF True a])
  next
    case False
    obtain i2 where i: "bundle_items pre es = Some i2" "items = (pre @ [n], c) # i2"
      using 3(3) False by (auto simp: both_Some)
    obtain e' where e: "copy_tree eval src dst pre es = Some e'" "t' = (n, File c m) # e'"
      using 3(4) False by (auto simp: both_Some)
    show ?thesis using 3(2) [OF False i(1) e(1)] i(2) e(2) False by (simp add: both_def)
  qed
next
  case (4 pre n l es)
  then have n: "n \<noteq> meta_file_name" "bundle_items pre es = Some items" by (auto split: if_splits)
  show ?case
  proof (cases "keeps_link eval src dst (pre @ [n]) l")
    case True
    then obtain e' where e: "copy_tree eval src dst pre es = Some e'" "t' = (n, Link l) # e'"
      using 4(3) by (auto simp: both_Some)
    show ?thesis using 4(1) [OF n e(1)] n e(2) True by simp
  next
    case False
    then have a: "copy_tree eval src dst pre es = Some t'" using 4(3) by simp
    show ?thesis by (rule 4(1) [OF n a])
  qed
next
  case (5 pre n es)
  then have n: "n \<noteq> meta_file_name" "bundle_items pre es = Some items" by (auto split: if_splits)
  have a: "copy_tree eval src dst pre es = Some t'" using 5(3) by simp
  show ?case by (rule 5(1) [OF n a])
qed simp_all

text \<open>Directories as the operating system has them: entry names are distinct and hold no slash and no NUL.\<close>

definition name_ok :: "string \<Rightarrow> bool" where
  "name_ok n \<longleftrightarrow> n \<noteq> [] \<and> slash \<notin> set n \<and> nul \<notin> set n"

fun tree_ok :: "tree \<Rightarrow> bool" where
  "tree_ok [] \<longleftrightarrow> True"
| "tree_ok ((n, Dir ds) # es) \<longleftrightarrow> name_ok n \<and> n \<notin> fst ` set es \<and> tree_ok ds \<and> tree_ok es"
| "tree_ok ((n, _) # es) \<longleftrightarrow> name_ok n \<and> n \<notin> fst ` set es \<and> tree_ok es"

lemma bundle_items_below:
  "bundle_items pre t = Some items \<Longrightarrow> tree_ok t \<Longrightarrow> (p, c) \<in> set items \<Longrightarrow>
     \<exists>n suf. p = pre @ n # suf \<and> n \<in> fst ` set t \<and> list_all name_ok (n # suf)"
proof (induction pre t arbitrary: items p c rule: bundle_items.induct)
  case (2 pre n ds es)
  have t: "tree_ok ds" "tree_ok es" "name_ok n" using 2(5) by simp_all
  have tail: ?case if "bundle_items pre es = Some i2" "(p, c) \<in> set i2" for i2
  proof -
    have "\<exists>n suf. p = pre @ n # suf \<and> n \<in> fst ` set es \<and> list_all name_ok (n # suf)"
      using 2(1) [OF _ that(1) t(2) that(2)] 2(3) [OF _ that(1) t(2) that(2)] by blast
    then show ?thesis by auto
  qed
  show ?case
  proof (cases "is_excluded_dir_name n")
    case True
    then show ?thesis using tail [of items] 2(4,6) by simp
  next
    case False
    obtain i1 i2 where i: "bundle_items (pre @ [n]) ds = Some i1" "bundle_items pre es = Some i2" "items = i1 @ i2"
      using 2(4) False by (auto simp: both_Some)
    consider "(p, c) \<in> set i1" | "(p, c) \<in> set i2" using 2(6) i(3) by auto
    then show ?thesis
    proof cases
      case 1
      obtain n' suf where "p = (pre @ [n]) @ n' # suf" "list_all name_ok (n' # suf)"
        using 2(2) [OF False i(1) t(1) 1] by blast
      then show ?thesis using t(3) by (intro exI [of _ n] exI [of _ "n' # suf"]) simp
    qed (rule tail [OF i(2)])
  qed
next
  case (3 pre n c' m es)
  have t: "tree_ok es" "name_ok n" using 3(4) by simp_all
  have tail: ?case if "bundle_items pre es = Some i2" "(p, c) \<in> set i2" for i2
  proof -
    have "\<exists>n suf. p = pre @ n # suf \<and> n \<in> fst ` set es \<and> list_all name_ok (n # suf)"
      using 3(1) [OF _ that(1) t(1) that(2)] 3(2) [OF _ that(1) t(1) that(2)] by blast
    then show ?thesis by auto
  qed
  show ?case
  proof (cases "is_excluded_file_name n")
    case True
    then show ?thesis using tail [of items] 3(3,5) by simp
  next
    case False
    obtain i2 where i: "bundle_items pre es = Some i2" "items = (pre @ [n], c') # i2"
      using 3(3) False by (auto simp: both_Some)
    then show ?thesis using tail [OF i(1)] 3(5) t(2) by auto
  qed
next
  case (4 pre n l es)
  then have n: "n \<noteq> meta_file_name" "bundle_items pre es = Some items" by (auto split: if_splits)
  have "\<exists>n suf. p = pre @ n # suf \<and> n \<in> fst ` set es \<and> list_all name_ok (n # suf)"
    using 4(1) [OF n _ 4(4)] 4(3) by simp
  then show ?case by auto
next
  case (5 pre n es)
  then have n: "n \<noteq> meta_file_name" "bundle_items pre es = Some items" by (auto split: if_splits)
  have "\<exists>n suf. p = pre @ n # suf \<and> n \<in> fst ` set es \<and> list_all name_ok (n # suf)"
    using 5(1) [OF n _ 5(4)] 5(3) by simp
  then show ?case by auto
qed simp_all

lemma bundle_items_distinct:
  "bundle_items pre t = Some items \<Longrightarrow> tree_ok t \<Longrightarrow> distinct (map fst items)"
proof (induction pre t arbitrary: items rule: bundle_items.induct)
  case (2 pre n ds es)
  show ?case
  proof (cases "is_excluded_dir_name n")
    case True
    then show ?thesis using 2(1) [OF True] 2(4,5) by simp
  next
    case False
    obtain i1 i2 where i: "bundle_items (pre @ [n]) ds = Some i1" "bundle_items pre es = Some i2" "items = i1 @ i2"
      using 2(4) False by (auto simp: both_Some)
    have "fst ` set i1 \<inter> fst ` set i2 = {}"
      using bundle_items_below [OF i(1)] bundle_items_below [OF i(2)] 2(5) by fastforce
    then show ?thesis using 2(2) [OF False i(1)] 2(3) [OF False i(2)] 2(5) i(3) by simp
  qed
next
  case (3 pre n c m es)
  show ?case
  proof (cases "is_excluded_file_name n")
    case True
    then show ?thesis using 3(1) [OF True] 3(3,4) by simp
  next
    case False
    obtain i2 where i: "bundle_items pre es = Some i2" "items = (pre @ [n], c) # i2"
      using 3(3) False by (auto simp: both_Some)
    then show ?thesis using 3(2) [OF False i(1)] bundle_items_below [OF i(1)] 3(4) by fastforce
  qed
next
  case (4 pre n l es)
  then have n: "n \<noteq> meta_file_name" "bundle_items pre es = Some items" by (auto split: if_splits)
  then show ?case using 4(1) [OF n] 4(3) by simp
next
  case (5 pre n es)
  then have n: "n \<noteq> meta_file_name" "bundle_items pre es = Some items" by (auto split: if_splits)
  then show ?case using 5(1) [OF n] 5(3) by simp
qed simp_all

text \<open>The digest input can be read back.\<close>

definition named :: "item list \<Rightarrow> (string \<times> string) list" where
  "named items = map (\<lambda>(parts, c). (rel_path parts, c)) items"

lemma join_no_nul: "list_all name_ok ps \<Longrightarrow> nul \<notin> set (join_with ''/'' ps)"
  by (induction "''/''" ps rule: join_with.induct) (auto simp: name_ok_def nul_def)

lemma join_inj: "list_all name_ok ps \<Longrightarrow> list_all name_ok qs \<Longrightarrow> ps \<noteq> [] \<Longrightarrow> qs \<noteq> [] \<Longrightarrow>
    join_with ''/'' ps = join_with ''/'' qs \<Longrightarrow> ps = qs"
  by (metis list_all_iff name_ok_def split_join)

lemma rel_inj:
  "\<forall>(p, c) \<in> S. p \<noteq> [] \<and> list_all name_ok p \<Longrightarrow> inj_on (\<lambda>(p, c). (rel_path p, c)) S"
  unfolding rel_path_def by (intro inj_onI) (auto intro: join_inj)

lemma named_facts:
  assumes "bundle_items [] t = Some items" "tree_ok t"
  shows "distinct (map fst (named items))" "\<forall>(r, c) \<in> set (named items). nul \<notin> set r" "inj_on fst (set (named items))"
    "set (named items) = (\<lambda>(p, c). (rel_path p, c)) ` set items"
    "inj_on (\<lambda>(p, c). (rel_path p, c)) (set items)"
proof -
  have p: "p \<noteq> [] \<and> list_all name_ok p" if "(p, c) \<in> set items" for p c
    using bundle_items_below [OF assms that] by auto
  then have "inj_on rel_path (fst ` set items)"
    unfolding rel_path_def by (intro inj_onI) (metis imageE join_inj prod.collapse)
  then have "distinct (map (rel_path \<circ> fst) items)"
    using bundle_items_distinct [OF assms] by (simp add: distinct_map comp_inj_on inj_on_imageI)
  moreover have "map fst (named items) = map (rel_path \<circ> fst) items" by (simp add: named_def split_def)
  ultimately show d: "distinct (map fst (named items))" by simp
  then show "inj_on fst (set (named items))" by (simp add: distinct_map)
  show "\<forall>(r, c) \<in> set (named items). nul \<notin> set r"
    using p join_no_nul by (auto simp: named_def rel_path_def)
  show "set (named items) = (\<lambda>(p, c). (rel_path p, c)) ` set items" by (simp add: named_def)
  show "inj_on (\<lambda>(p, c). (rel_path p, c)) (set items)"
    using p by (intro rel_inj) blast
qed

lemma sep_inj: "d \<notin> set r \<Longrightarrow> d \<notin> set r' \<Longrightarrow> r @ d # a = r' @ d # b \<Longrightarrow> r = r' \<and> a = b"
proof (induction r arbitrary: r')
  case Nil
  then show ?case by (cases r') auto
next
  case (Cons x r)
  then show ?case by (cases r') auto
qed

lemma serial_inj:
  assumes "\<forall>s. length (sha s) = 32" "\<forall>(r, c) \<in> set xs. nul \<notin> set r" "\<forall>(r, c) \<in> set ys. nul \<notin> set r"
    and "concat (map (\<lambda>(r, c). r @ nul # sha c @ [nul]) xs) = concat (map (\<lambda>(r, c). r @ nul # sha c @ [nul]) ys)"
  shows "map (\<lambda>(r, c). (r, sha c)) xs = map (\<lambda>(r, c). (r, sha c)) ys"
  using assms(2-4)
proof (induction xs arbitrary: ys)
  case Nil
  then show ?case by (cases ys) auto
next
  case (Cons x xs)
  then obtain y ys' where ys: "ys = y # ys'" by (cases ys) (auto simp: split_def)
  obtain r c where x: "x = (r, c)" by fastforce
  obtain r' c' where y: "y = (r', c')" by fastforce
  let ?rest = "\<lambda>zs. concat (map (\<lambda>(r, c). r @ nul # sha c @ [nul]) zs)"
  have eq: "r @ nul # (sha c @ nul # ?rest xs) = r' @ nul # (sha c' @ nul # ?rest ys')"
    using Cons.prems(3) ys x y by simp
  have "nul \<notin> set r" "nul \<notin> set r'" using Cons.prems(1,2) ys x y by auto
  then have "r = r' \<and> sha c @ nul # ?rest xs = sha c' @ nul # ?rest ys'"
    using eq by (rule sep_inj)
  then have rr: "r = r'" "sha c @ nul # ?rest xs = sha c' @ nul # ?rest ys'" by blast+
  have "length (sha c) = length (sha c')" using assms(1) by simp
  then have "sha c = sha c' \<and> nul # ?rest xs = nul # ?rest ys'" using rr(2) by simp
  then have "r = r'" "sha c = sha c'" "?rest xs = ?rest ys'" using rr(1) by simp_all
  moreover have "map (\<lambda>(r, c). (r, sha c)) xs = map (\<lambda>(r, c). (r, sha c)) ys'"
  proof (rule Cons.IH)
    show "\<forall>(r, c) \<in> set xs. nul \<notin> set r" "\<forall>(r, c) \<in> set ys'. nul \<notin> set r" using Cons.prems(1,2) ys by simp_all
  qed fact
  ultimately show ?case unfolding ys x y by simp
qed

lemma lower_hex_inj: "m < 16 \<Longrightarrow> n < 16 \<Longrightarrow> lower_hex m = lower_hex n \<Longrightarrow> m = n"
proof -
  assume mn: "m < 16" "n < 16" "lower_hex m = lower_hex n"
  have c: "code (lower_hex k) = (if k < 10 then 48 + k else 87 + k)" if "k < 16" for k
    using that by (simp add: lower_hex_def)
  have "code (lower_hex m) = code (lower_hex n)" using mn(3) by simp
  then show "m = n" using c [OF mn(1)] c [OF mn(2)] mn(1,2) by (simp split: if_splits)
qed

lemma hex_encode_inj: "hex_encode s = hex_encode t \<Longrightarrow> s = t"
proof (induction s arbitrary: t)
  case (Cons a s)
  then obtain b t' where t: "t = b # t'" by (cases t) (auto simp: hex_encode_def)
  have "code a div 16 = code b div 16 \<and> code a mod 16 = code b mod 16"
    using Cons.prems t lower_hex_inj [of "code a div 16" "code b div 16"] lower_hex_inj [of "code a mod 16" "code b mod 16"]
    by (simp add: hex_encode_def less_mult_imp_div_less)
  then have "a = b" by (metis code_inject div_mult_mod_eq)
  then show ?case using Cons t by (simp add: hex_encode_def)
qed (cases t; simp add: hex_encode_def)

text \<open>What a bundle's files are: the sums and the hash over them, for collision-free inputs.\<close>

definition sha_inputs :: "(string \<Rightarrow> string) \<Rightarrow> item list \<Rightarrow> string set" where
  "sha_inputs sha items = insert (digest_input sha items) (snd ` set items)"

lemma digest_input_named:
  "digest_input sha items = concat (map (\<lambda>(r, c). r @ nul # sha c @ [nul]) (sort_key fst (named items)))"
  by (simp add: digest_input_def named_def)

lemma digest_input_inj:
  assumes "\<forall>s. length (sha s) = 32" "bundle_items [] t1 = Some i1" "bundle_items [] t2 = Some i2" "tree_ok t1" "tree_ok t2"
    and "inj_on sha (snd ` set i1 \<union> snd ` set i2)" "digest_input sha i1 = digest_input sha i2"
  shows "set (named i1) = set (named i2)"
proof -
  note f1 = named_facts [OF assms(2,4)] and f2 = named_facts [OF assms(3,5)]
  have "map (\<lambda>(r, c). (r, sha c)) (sort_key fst (named i1)) = map (\<lambda>(r, c). (r, sha c)) (sort_key fst (named i2))"
  proof (rule serial_inj [OF assms(1)])
    show "\<forall>(r, c) \<in> set (sort_key fst (named i1)). nul \<notin> set r" "\<forall>(r, c) \<in> set (sort_key fst (named i2)). nul \<notin> set r"
      using f1(2) f2(2) by (simp_all only: set_sort)
  qed (use assms(7) in \<open>simp only: digest_input_named\<close>)
  then have "set (map (\<lambda>(r, c). (r, sha c)) (sort_key fst (named i1))) = set (map (\<lambda>(r, c). (r, sha c)) (sort_key fst (named i2)))"
    by (rule arg_cong)
  then have e: "(\<lambda>(r, c). (r, sha c)) ` set (named i1) = (\<lambda>(r, c). (r, sha c)) ` set (named i2)"
    by (simp only: set_map set_sort)
  have snds: "snd ` set (named i1) = snd ` set i1" "snd ` set (named i2) = snd ` set i2"
    by (force simp: named_def image_iff split_def)+
  have "inj_on (\<lambda>(r, c). (r, sha c)) (set (named i1) \<union> set (named i2))"
  proof (rule inj_onI)
    fix x y assume xy: "x \<in> set (named i1) \<union> set (named i2)" "y \<in> set (named i1) \<union> set (named i2)"
      "(\<lambda>(r, c). (r, sha c)) x = (\<lambda>(r, c). (r, sha c)) y"
    then have "snd x \<in> snd ` set i1 \<union> snd ` set i2" "snd y \<in> snd ` set i1 \<union> snd ` set i2" unfolding snds [symmetric] by blast+
    moreover have "sha (snd x) = sha (snd y)" "fst x = fst y" using xy(3) by (simp_all add: split_def)
    ultimately have "snd x = snd y" using inj_onD [OF assms(6)] by blast
    then show "x = y" using \<open>fst x = fst y\<close> by (rule prod_eqI [rotated])
  qed
  then show ?thesis using e by (simp add: inj_on_image_eq_iff)
qed

lemma digest_input_sets:
  assumes "bundle_items [] t1 = Some i1" "bundle_items [] t2 = Some i2" "tree_ok t1" "tree_ok t2" "set i1 = set i2"
  shows "digest_input sha i1 = digest_input sha i2"
proof -
  note f1 = named_facts [OF assms(1,3)] and f2 = named_facts [OF assms(2,4)]
  have "set (named i1) = set (named i2)" using assms(5) f1(4) f2(4) by simp
  then have "mset (named i1) = mset (named i2)"
    using f1(1) f2(1) by (metis distinct_map set_eq_iff_mset_eq_distinct)
  then have "sort_key fst (named i1) = sort_key fst (named i2)"
    using sort_key_inj_key_eq [OF _ f1(3), of "sort_key fst (named i2)"] by simp
  then show ?thesis by (simp add: digest_input_named)
qed

text \<open>Without collisions, directories of one hash hold the same files.\<close>

lemma same_hash_files:
  assumes "\<forall>s. length (sha s) = 32" "bundle_items [] t1 = Some i1" "bundle_items [] t2 = Some i2" "tree_ok t1" "tree_ok t2"
    and "inj_on sha (sha_inputs sha i1 \<union> sha_inputs sha i2)" "bundle_hash sha t1 = bundle_hash sha t2"
  shows "set i1 = set i2"
proof -
  have "sha (digest_input sha i1) = sha (digest_input sha i2)"
    using assms(2,3,7) hex_encode_inj by (simp add: bundle_hash_def)
  then have d: "digest_input sha i1 = digest_input sha i2"
    by (rule inj_onD [OF assms(6)]) (simp_all add: sha_inputs_def)
  have "inj_on sha (snd ` set i1 \<union> snd ` set i2)"
    by (rule inj_on_subset [OF assms(6)]) (auto simp: sha_inputs_def)
  then have n: "set (named i1) = set (named i2)" using digest_input_inj [OF assms(1-5) _ d] by blast
  have p: "p \<noteq> [] \<and> list_all name_ok p" if "(p, c) \<in> set i1 \<union> set i2" for p c
    using bundle_items_below [OF assms(2,4)] bundle_items_below [OF assms(3,5)] that by fastforce
  have "inj_on (\<lambda>(p, c). (rel_path p, c)) (set i1 \<union> set i2)"
    using p by (intro rel_inj) blast
  then show "set i1 = set i2"
    using n named_facts(4) [OF assms(2,4)] named_facts(4) [OF assms(3,5)] by (simp add: inj_on_image_eq_iff)
qed

text \<open>
  C4: The hash stands for the files.  For two directories and a digest without collisions among the file
  contents and the digest inputs at hand, the hashes are equal exactly when the directories have the
  same files under the same relative paths with the same contents, but for what the exclusions skip: no
  move of a byte from a name to a contents, or from one file to the next, keeps the hash.
\<close>

theorem bundle_hash_exact:
  assumes "\<forall>s. length (sha s) = 32" "bundle_items [] t1 = Some i1" "bundle_items [] t2 = Some i2" "tree_ok t1" "tree_ok t2"
    and "inj_on sha (sha_inputs sha i1 \<union> sha_inputs sha i2)"
  shows "bundle_hash sha t1 = bundle_hash sha t2 \<longleftrightarrow> set i1 = set i2"
proof
  assume "set i1 = set i2"
  then show "bundle_hash sha t1 = bundle_hash sha t2"
    using digest_input_sets [OF assms(2-5)] assms(2,3) by (simp add: bundle_hash_def)
qed (rule same_hash_files [OF assms])

definition demo_sha :: "string \<Rightarrow> string" where
  "demo_sha s = take 32 (s @ replicate 32 (CHR ''.''))"

theorem bundle_hash_exact_witness:
  "bundle_hash demo_sha [(''f'', File ''a'' 420)] \<noteq> bundle_hash demo_sha [(''f'', File ''b'' 420)]"
proof -
  have i: "bundle_items [] [(''f'', File ''a'' 420)] = Some [([''f''], ''a'')]"
    "bundle_items [] [(''f'', File ''b'' 420)] = Some [([''f''], ''b'')]"
    by (simp_all add: is_excluded_file_name_def has_suffix_def both_def)
  have "inj_on demo_sha (sha_inputs demo_sha [([''f''], ''a'')] \<union> sha_inputs demo_sha [([''f''], ''b'')])"
    by (simp add: sha_inputs_def digest_input_def rel_path_def demo_sha_def nul_def)
  moreover have "\<forall>s. length (demo_sha s) = 32" by (simp add: demo_sha_def del: replicate_numeral take_append)
  ultimately show ?thesis
    using bundle_hash_exact [OF _ i, of demo_sha] by (simp add: name_ok_def nul_def)
qed

text \<open>Permissions and links are not part of the hash, though they are part of what is copied.\<close>

lemma mode_not_hashed: "bundle_hash sha ((n, File c m) # es) = bundle_hash sha ((n, File c m') # es)"
  by (simp add: bundle_hash_def)

lemma links_not_hashed: "n \<noteq> meta_file_name \<Longrightarrow> bundle_hash sha ((n, Link l) # es) = bundle_hash sha es"
  by (simp add: bundle_hash_def)

section \<open>Containment\<close>

lemma strip_common_split:
  "strip_common bs ts = (b, t) \<Longrightarrow> \<exists>c. bs = c @ b \<and> ts = c @ t"
proof (induction bs ts rule: strip_common.induct)
  case (1 x bs y ts)
  then show ?case by (cases "x = y") auto
qed simp_all

lemma join_first: "join_with ''/'' (w # ws) = w @ (if ws = [] then [] else slash # join_with ''/'' ws)"
  by (cases ws) simp_all

lemma contained_in_abs:
  assumes "is_abs root" "is_abs path" "contained_in root path"
  shows "\<exists>q qs. clean_parts path = clean_parts root @ q # qs"
proof -
  have ne: "clean root \<noteq> clean path" "clean path \<noteq> ''.''"
    using assms is_abs_clean [of path] by (auto simp: contained_in_def path_rel_def is_abs_def has_prefix_def)
  obtain b t where bt: "strip_common (clean_parts root) (clean_parts path) = (b, t)" by fastforce
  then obtain c where c: "clean_parts root = c @ b" "clean_parts path = c @ t" using strip_common_split by blast
  have "b = []"
  proof (rule ccontr)
    assume b: "b \<noteq> []"
    then have "hd b \<in> set (clean_parts root)" using c(1) by simp
    then have "plain (hd b)" using clean_abs_no_dotdot [OF assms(1)] by blast
    then have "path_rel root path = Some (join_with ''/'' (map (\<lambda>_. ''..'') b @ t))"
      using ne assms(1,2) bt by (simp add: path_rel_def plain_def)
    moreover have "has_prefix (join_with ''/'' (map (\<lambda>_. ''..'') b @ t)) ''../'' \<or> join_with ''/'' (map (\<lambda>_. ''..'') b @ t) = ''..''"
      using b by (cases b) (simp_all add: join_first has_prefix_iff)
    ultimately show False using assms(3) by (auto simp: contained_in_def)
  qed
  moreover have "t \<noteq> []"
  proof
    assume "t = []"
    then have "clean_parts root = clean_parts path" using c \<open>b = []\<close> by simp
    then have "clean root = clean path" using assms(1,2) by (auto simp: clean_def is_abs_def has_prefix_def)
    then show False using ne(1) by simp
  qed
  ultimately show ?thesis using c by (cases t) auto
qed

text \<open>
  C5: A snapshot runs what was hashed.  When the directory can be hashed and copied, the copy has the same hash, its
  regular files are exactly the hashed ones with their contents, and every link in it is relative,
  climbs nowhere, and points strictly inside the copy.
\<close>

theorem snapshot_copy_exact:
  assumes "bundle_items [] t = Some items" "copy_tree eval src dst [] t = Some t'" "is_abs dst"
  shows "bundle_hash sha t' = bundle_hash sha t \<and> all_files [] t' = items \<and>
    (\<forall>(parts, l) \<in> set (all_links [] t'). \<not> is_abs l \<and> ''..'' \<notin> set (split_on slash l) \<and>
       (\<exists>q qs. clean_parts (path_join [path_dir (path_join (dst # parts)), l]) = clean_parts dst @ q # qs))"
proof -
  note c = copy_items [OF assms(1,2)]
  have "\<exists>q qs. clean_parts (path_join [path_dir (path_join (dst # parts)), l]) = clean_parts dst @ q # qs"
    if k: "keeps_link eval src dst parts l" for parts l
  proof -
    let ?p = "path_join [path_dir (path_join (dst # parts)), l]"
    have "contained_in dst (clean ?p)" using k by (auto simp: keeps_link_def split: option.splits)
    moreover have "is_abs (clean ?p)"
      using calculation assms(3) by (auto simp: contained_in_def path_rel_def split: option.splits if_splits) 
    ultimately show ?thesis using contained_in_abs [OF assms(3)] clean_parts_clean by metis
  qed
  then show ?thesis using c assms(1) by (auto simp: bundle_hash_def keeps_link_def)
qed

definition demo_tree :: tree where
  "demo_tree =
     [(''a'', File ''x'' 493), (''dist'', Dir [(''b'', File ''y'' 420)]), (''l'', Link ''a''), (''m'', Link ''../a''),
      (''n'', Link ''/etc/passwd'')]"

theorem snapshot_copy_exact_witness:
  "\<exists>t'. copy_tree (\<lambda>p. Some ''/s/a'') ''/s'' ''/d'' [] demo_tree = Some t' \<and> all_files [] t' = [([''a''], ''x'')] \<and>
     all_links [] t' = [([''l''], ''a'')] \<and> bundle_hash demo_sha t' = bundle_hash demo_sha demo_tree"
proof -
  have i: "bundle_items [] demo_tree = Some [([''a''], ''x'')]"
    by (simp add: demo_tree_def is_excluded_dir_name_def is_excluded_file_name_def has_suffix_def both_def meta_file_name_def)
  have c: "copy_tree (\<lambda>p. Some ''/s/a'') ''/s'' ''/d'' [] demo_tree = Some [(''a'', File ''x'' 493), (''l'', Link ''a'')]"
    by (simp add: demo_tree_def is_excluded_dir_name_def is_excluded_file_name_def both_def
        keeps_link_def contained_in_def path_rel_def gostr)
  have "is_abs ''/d''" by (simp add: is_abs_def has_prefix_def)
  then show ?thesis using snapshot_copy_exact [OF i c] c by simp
qed

end
