(* ===== verification/Registry.thy ===== *)
theory Registry
  imports Bundle
begin

text \<open>
  The registry of skills (\<open>internal/registry/registry.go\<close>): entries by name and harness, with the
  back-compatible meaning of an entry without a harness.  The file is modelled after decoding, its
  location by the environment; the atomic write has one outcome.
\<close>

section \<open>Entries\<close>

record reg_entry =
  re_name :: string
  re_harness :: string
  re_skill_dir :: string
  re_bundle_hash :: string
  re_registered_at :: int
  re_declared :: "string list"
  re_skipped_secrets :: "string list"
  re_skipped_config :: "string list"

definition registry_path :: "string \<Rightarrow> string" where
  "registry_path workdir = path_join [workdir, ''.opencode'', ''sidecar.json'']"

text \<open>\<open>GlobalDir\<close>: empty when there is no home.\<close>

definition global_dir :: "host_env \<Rightarrow> string" where
  "global_dir env =
     (if he_getenv env ''XDG_CONFIG_HOME'' \<noteq> [] then path_join [he_getenv env ''XDG_CONFIG_HOME'', ''omac'']
      else case user_home_dir env of None \<Rightarrow> [] | Some home \<Rightarrow> path_join [home, ''.config'', ''omac''])"

definition global_path :: "host_env \<Rightarrow> string" where
  "global_path env = (if global_dir env = [] then [] else path_join [global_dir env, ''sidecar.json''])"

text \<open>What a registry file holds: nothing, something that does not decode, or entries.\<close>

datatype reg_file = NoFile | Broken | Entries "reg_entry list"

datatype reg_error = ReadFailed | SaveFailed | NoGlobalDir

definition load_registry :: "reg_file \<Rightarrow> reg_error + reg_entry list" where
  "load_registry f =
     (case f of
        NoFile \<Rightarrow> Inr []
      | Broken \<Rightarrow> Inl ReadFailed
      | Entries es \<Rightarrow> Inr (filter (\<lambda>e. valid_skill_name (re_name e)) es))"

definition save_registry :: "bool \<Rightarrow> reg_entry list \<Rightarrow> reg_error + reg_file" where
  "save_registry ok es = (if ok then Inr (Entries (sort_key re_name es)) else Inl SaveFailed)"

section \<open>Operations\<close>

fun index_where :: "('a \<Rightarrow> bool) \<Rightarrow> 'a list \<Rightarrow> nat option" where
  "index_where P [] = None"
| "index_where P (x # xs) = (if P x then Some 0 else map_option Suc (index_where P xs))"

definition find_entry :: "string \<Rightarrow> reg_entry list \<Rightarrow> nat option" where
  "find_entry name es = index_where (\<lambda>e. re_name e = name) es"

definition find_exact :: "string \<Rightarrow> string \<Rightarrow> reg_entry list \<Rightarrow> nat option" where
  "find_exact name harness es = index_where (\<lambda>e. re_name e = name \<and> re_harness e = harness) es"

text \<open>An exact match first, else the first entry of that name without a harness.\<close>

definition find_for_harness :: "string \<Rightarrow> string \<Rightarrow> reg_entry list \<Rightarrow> nat option" where
  "find_for_harness name harness es =
     (case find_exact name harness es of Some i \<Rightarrow> Some i | None \<Rightarrow> find_exact name [] es)"

definition upsert_entry :: "reg_entry \<Rightarrow> reg_entry list \<Rightarrow> reg_entry list" where
  "upsert_entry e es =
     (let idx = (if re_harness e = [] then find_entry (re_name e) es
                 else case find_exact (re_name e) (re_harness e) es of
                   Some i \<Rightarrow> Some i | None \<Rightarrow> find_exact (re_name e) [] es)
      in case idx of Some i \<Rightarrow> es[i := e] | None \<Rightarrow> es @ [e])"

definition remove_nth :: "nat \<Rightarrow> 'a list \<Rightarrow> 'a list" where
  "remove_nth i xs = take i xs @ drop (Suc i) xs"

definition remove_entry :: "string \<Rightarrow> reg_entry list \<Rightarrow> bool \<times> reg_entry list" where
  "remove_entry name es = (case find_entry name es of None \<Rightarrow> (False, es) | Some i \<Rightarrow> (True, remove_nth i es))"

definition remove_for_harness :: "string \<Rightarrow> string \<Rightarrow> reg_entry list \<Rightarrow> bool \<times> reg_entry list" where
  "remove_for_harness name harness es =
     (case find_for_harness name harness es of None \<Rightarrow> (False, es) | Some i \<Rightarrow> (True, remove_nth i es))"

section \<open>The invariant\<close>

text \<open>
  One entry per name and harness, and an entry without a harness comes before every other of its name.
\<close>

definition reg_key :: "reg_entry \<Rightarrow> string \<times> string" where
  "reg_key e = (re_name e, re_harness e)"

fun registry_ok :: "reg_entry list \<Rightarrow> bool" where
  "registry_ok [] \<longleftrightarrow> True"
| "registry_ok (e # es) \<longleftrightarrow>
     reg_key e \<notin> reg_key ` set es \<and> (re_name e, []) \<notin> reg_key ` set es \<and> registry_ok es"

lemma index_where_Some:
  "index_where P xs = Some i \<longleftrightarrow> i < length xs \<and> P (xs ! i) \<and> (\<forall>j < i. \<not> P (xs ! j))"
proof (induction xs arbitrary: i)
  case (Cons x xs)
  show ?case
  proof (cases i)
    case 0
    then show ?thesis by (cases "index_where P xs") auto
  next
    case (Suc k)
    then show ?thesis using Cons.IH [of k] by (cases "index_where P xs") (auto simp: less_Suc_eq_0_disj)
  qed
qed simp

lemma index_where_None: "index_where P xs = None \<longleftrightarrow> (\<forall>x \<in> set xs. \<not> P x)"
  by (induction xs) auto

lemma all_less_Suc: "(\<forall>i < Suc n. P i) \<longleftrightarrow> P 0 \<and> (\<forall>i < n. P (Suc i))"
  by (auto simp: less_Suc_eq_0_disj)

lemma registry_ok_iff:
  "registry_ok es \<longleftrightarrow>
     (\<forall>i < length es. \<forall>j < length es. i < j \<longrightarrow>
        reg_key (es ! i) \<noteq> reg_key (es ! j) \<and> reg_key (es ! j) \<noteq> (re_name (es ! i), []))"
proof (induction es)
  case (Cons e es)
  have m: "k \<in> reg_key ` set es \<longleftrightarrow> (\<exists>j < length es. reg_key (es ! j) = k)" for k
    by (metis (no_types, lifting) image_iff in_set_conv_nth)
  show ?case
    unfolding registry_ok.simps Cons.IH m by (simp add: all_less_Suc imp_conjR all_conj_distrib eq_commute [of "reg_key e"]) (simp only: conj_ac)
qed simp

lemma registry_ok_remove: "registry_ok es \<Longrightarrow> registry_ok (remove_nth i es)"
proof (induction es arbitrary: i)
  case (Cons e es)
  then show ?case
    by (cases i) (auto simp: remove_nth_def dest!: in_set_takeD in_set_dropD intro: Cons.IH [unfolded remove_nth_def])
qed (simp add: remove_nth_def)

lemma registry_ok_append:
  "registry_ok es \<Longrightarrow> \<forall>x \<in> set es. reg_key x \<noteq> reg_key e \<Longrightarrow>
     re_harness e \<noteq> [] \<or> (\<forall>x \<in> set es. re_name x \<noteq> re_name e) \<Longrightarrow> registry_ok (es @ [e])"
  by (induction es) (auto simp: reg_key_def)

lemma registry_ok_update:
  assumes "registry_ok es" "i < length es" "re_name (es ! i) = re_name e"
    and "\<forall>j < length es. j \<noteq> i \<longrightarrow> reg_key (es ! j) \<noteq> reg_key e"
    and "re_harness e = [] \<longrightarrow> (\<forall>j < i. re_name (es ! j) \<noteq> re_name e)"
  shows "registry_ok (es[i := e])"
  unfolding registry_ok_iff
proof (intro allI impI)
  fix a b assume ab: "a < length (es[i := e])" "b < length (es[i := e])" "a < b"
  have ok: "reg_key (es ! a) \<noteq> reg_key (es ! b) \<and> reg_key (es ! b) \<noteq> (re_name (es ! a), [])"
    using assms(1) ab unfolding registry_ok_iff by simp
  consider "a = i" | "b = i" "a \<noteq> i" | "a \<noteq> i" "b \<noteq> i" by blast
  then show "reg_key (es[i := e] ! a) \<noteq> reg_key (es[i := e] ! b) \<and> reg_key (es[i := e] ! b) \<noteq> (re_name (es[i := e] ! a), [])"
  proof cases
    case 1
    then show ?thesis using ab ok assms(2-4) by (auto dest: sym)
  next
    case 2
    then have "reg_key e \<noteq> (re_name (es ! a), [])" using ab assms(5) by (auto simp: reg_key_def)
    then show ?thesis using 2 ab assms(2,4) by auto
  next
    case 3
    then show ?thesis using ok by simp
  qed
qed

lemma registry_ok_upsert:
  assumes "registry_ok es"
  shows "registry_ok (upsert_entry e es)"
proof (cases "re_harness e = []")
  case True
  show ?thesis
  proof (cases "find_entry (re_name e) es")
    case None
    then have "registry_ok (es @ [e])"
      using assms by (intro registry_ok_append) (auto simp: find_entry_def index_where_None reg_key_def)
    then show ?thesis using None True by (simp add: upsert_entry_def)
  next
    case (Some i)
    then have i: "i < length es" "re_name (es ! i) = re_name e" "\<forall>j < i. re_name (es ! j) \<noteq> re_name e"
      by (auto simp: find_entry_def index_where_Some)
    have "\<forall>j < length es. j \<noteq> i \<longrightarrow> reg_key (es ! j) \<noteq> reg_key e"
    proof (intro allI impI)
      fix j assume j: "j < length es" "j \<noteq> i"
      show "reg_key (es ! j) \<noteq> reg_key e"
      proof (cases "j < i")
        case True
        then show ?thesis using i(3) by (simp add: reg_key_def)
      next
        case False
        then have "reg_key (es ! j) \<noteq> (re_name (es ! i), [])" using assms i(1) j unfolding registry_ok_iff by simp
        then show ?thesis using i(2) \<open>re_harness e = []\<close> by (simp add: reg_key_def)
      qed
    qed
    then have "registry_ok (es[i := e])" using assms i by (intro registry_ok_update) simp_all
    then show ?thesis using Some True by (simp add: upsert_entry_def)
  qed
next
  case False
  show ?thesis
  proof (cases "find_exact (re_name e) (re_harness e) es")
    case (Some i)
    then have i: "i < length es" "reg_key (es ! i) = reg_key e" by (auto simp: find_exact_def index_where_Some reg_key_def)
    have "reg_key (es ! j) \<noteq> reg_key e" if "j < length es" "j \<noteq> i" for j
      using assms that i unfolding registry_ok_iff by (metis nat_neq_iff)
    then have "registry_ok (es[i := e])"
      using assms i False by (intro registry_ok_update) (auto simp: reg_key_def)
    then show ?thesis using Some False by (simp add: upsert_entry_def)
  next
    case none: None
    then have other: "\<forall>x \<in> set es. reg_key x \<noteq> reg_key e" by (auto simp: find_exact_def index_where_None reg_key_def)
    show ?thesis
    proof (cases "find_exact (re_name e) [] es")
      case None
      then show ?thesis using none False assms other by (simp add: upsert_entry_def registry_ok_append)
    next
      case (Some i)
      then have "i < length es" "re_name (es ! i) = re_name e" by (auto simp: find_exact_def index_where_Some)
      then have "registry_ok (es[i := e])" using assms other False by (intro registry_ok_update) simp_all
      then show ?thesis using Some none False by (simp add: upsert_entry_def)
    qed
  qed
qed

section \<open>What is found\<close>

definition entry_for :: "string \<Rightarrow> string \<Rightarrow> reg_entry list \<Rightarrow> reg_entry option" where
  "entry_for name harness es = map_option (\<lambda>i. es ! i) (find_for_harness name harness es)"

lemma index_where_find: "map_option (\<lambda>i. xs ! i) (index_where P xs) = find P xs"
  by (induction xs) (auto simp: option.map_comp comp_def)

lemma entry_for_find:
  "entry_for name harness es =
     (case find (\<lambda>e. re_name e = name \<and> re_harness e = harness) es of
        Some e \<Rightarrow> Some e | None \<Rightarrow> find (\<lambda>e. re_name e = name \<and> re_harness e = []) es)"
  by (simp add: entry_for_def find_for_harness_def find_exact_def index_where_find [symmetric] split: option.split)

lemma find_filter: "(\<And>x. P x \<Longrightarrow> Q x) \<Longrightarrow> find P (filter Q xs) = find P xs"
  by (induction xs) auto

lemma entry_for_same_name:
  "filter (\<lambda>e. re_name e = name) es' = filter (\<lambda>e. re_name e = name) es \<Longrightarrow> entry_for name harness es' = entry_for name harness es"
proof -
  assume f: "filter (\<lambda>e. re_name e = name) es' = filter (\<lambda>e. re_name e = name) es"
  have "find (\<lambda>e. re_name e = name \<and> re_harness e = h) es' = find (\<lambda>e. re_name e = name \<and> re_harness e = h) es" for h
    using find_filter [of "\<lambda>e. re_name e = name \<and> re_harness e = h" "\<lambda>e. re_name e = name" es]
      find_filter [of "\<lambda>e. re_name e = name \<and> re_harness e = h" "\<lambda>e. re_name e = name" es'] f by simp
  then show ?thesis unfolding entry_for_find by (simp only:)
qed

lemma filter_update_other:
  "i < length es \<Longrightarrow> \<not> P (es ! i) \<Longrightarrow> \<not> P e \<Longrightarrow> filter P (es[i := e]) = filter P es"
  by (induction es arbitrary: i) (auto split: nat.split)

lemma upsert_other_name:
  "name \<noteq> re_name e \<Longrightarrow> filter (\<lambda>x. re_name x = name) (upsert_entry e es) = filter (\<lambda>x. re_name x = name) es"
  by (auto simp: upsert_entry_def find_entry_def find_exact_def index_where_Some Let_def filter_update_other
      split: option.split)

lemma upsert_mem: "e \<in> set (upsert_entry e es)"
  by (auto simp: upsert_entry_def find_entry_def find_exact_def index_where_Some Let_def set_update_memI
      split: option.split)

lemma registry_ok_find: "registry_ok es \<Longrightarrow> e \<in> set es \<Longrightarrow> find (\<lambda>x. re_name x = re_name e \<and> re_harness x = re_harness e) es = Some e"
  by (induction es) (auto simp: reg_key_def image_iff)

datatype reg_op = Register reg_entry | Deregister string | DeregisterFor string string

fun reg_exec :: "reg_op \<Rightarrow> reg_entry list \<Rightarrow> reg_entry list" where
  "reg_exec (Register e) es = upsert_entry e es"
| "reg_exec (Deregister name) es = snd (remove_entry name es)"
| "reg_exec (DeregisterFor name harness) es = snd (remove_for_harness name harness es)"

lemma registry_ok_run: "registry_ok es \<Longrightarrow> registry_ok (fold reg_exec ops es)"
proof (induction ops arbitrary: es)
  case (Cons op ops)
  have "registry_ok (reg_exec op es)"
    using Cons.prems by (cases op)
      (auto simp: registry_ok_upsert remove_entry_def remove_for_harness_def registry_ok_remove split: option.split)
  then show ?case using Cons.IH by simp
qed simp

lemma sort_same_name: "sort_key re_name (filter (\<lambda>e. re_name e = name) es) = filter (\<lambda>e. re_name e = name) es"
proof -
  have "sorted (map re_name (filter (\<lambda>e. re_name e = name) es))" by (induction es) auto
  then show ?thesis by (rule sort_key_id_if_sorted)
qed

lemma filter_valid_name:
  "valid_skill_name name \<Longrightarrow> filter (\<lambda>e. re_name e = name) (filter (\<lambda>e. valid_skill_name (re_name e)) es) = filter (\<lambda>e. re_name e = name) es"
  by (induction es) auto

text \<open>
  C6: A registration is found again.  From the empty registry, through any sequence of registrations and
  removals, there is one entry per name and harness; right after an entry is registered, the lookup for its name
  and harness gives that entry, those for other names give what they gave, and saving and loading the
  file changes no lookup of a valid name.
\<close>

theorem registration_found:
  fixes ops e
  defines "es \<equiv> fold reg_exec ops []"
  defines "es' \<equiv> upsert_entry e es"
  shows "registry_ok es' \<and> entry_for (re_name e) (re_harness e) es' = Some e \<and>
    (\<forall>name harness. name \<noteq> re_name e \<longrightarrow> entry_for name harness es' = entry_for name harness es) \<and>
    (\<exists>f l. save_registry True es' = Inr f \<and> load_registry f = Inr l \<and>
       (\<forall>name harness. valid_skill_name name \<longrightarrow> entry_for name harness l = entry_for name harness es'))"
proof -
  have ok: "registry_ok es'" unfolding es_def es'_def by (intro registry_ok_upsert registry_ok_run) simp
  have "entry_for (re_name e) (re_harness e) es' = Some e"
    using registry_ok_find [OF ok] upsert_mem unfolding es'_def by (simp add: entry_for_find)
  moreover have "entry_for name harness es' = entry_for name harness es" if "name \<noteq> re_name e" for name harness
    unfolding es'_def by (intro entry_for_same_name upsert_other_name that)
  moreover have "entry_for name harness (filter (\<lambda>e. valid_skill_name (re_name e)) (sort_key re_name es')) = entry_for name harness es'"
    if "valid_skill_name name" for name harness
    by (intro entry_for_same_name) (simp only: filter_valid_name [OF that] filter_sort sort_same_name)
  ultimately show ?thesis using ok by (auto simp: save_registry_def load_registry_def)
qed

definition demo_entry :: "string \<Rightarrow> string \<Rightarrow> string \<Rightarrow> reg_entry" where
  "demo_entry name harness dir =
     \<lparr>re_name = name, re_harness = harness, re_skill_dir = dir, re_bundle_hash = [], re_registered_at = 0, re_declared = [],
      re_skipped_secrets = [], re_skipped_config = []\<rparr>"

text \<open>The entry of another skill is still found when one without a harness is replaced by one with a harness.\<close>

theorem registration_found_witness:
  "entry_for ''a'' ''codex''
     (upsert_entry (demo_entry ''b'' ''codex'' ''/y'')
        (fold reg_exec [Register (demo_entry ''b'' [] ''/x''), Register (demo_entry ''a'' [] ''/z'')] [])) =
   Some (demo_entry ''a'' [] ''/z'')"
proof -
  let ?ops = "[Register (demo_entry ''b'' [] ''/x''), Register (demo_entry ''a'' [] ''/z'')]"
  let ?e = "demo_entry ''b'' ''codex'' ''/y''"
  have "''a'' \<noteq> re_name ?e" by (simp add: demo_entry_def)
  then have "entry_for ''a'' ''codex'' (upsert_entry ?e (fold reg_exec ?ops [])) = entry_for ''a'' ''codex'' (fold reg_exec ?ops [])"
    using registration_found [of ?e ?ops] by blast
  also have "\<dots> = Some (demo_entry ''a'' [] ''/z'')"
    by (simp add: demo_entry_def entry_for_find upsert_entry_def find_entry_def)
  finally show ?thesis .
qed

end
