(* ===== verification/Trust.thy ===== *)
theory Trust
  imports Registry "HOL-Library.AList"
begin

text \<open>
  Which skill code may run outside the sandbox: the approval store and the snapshots
  (\<open>internal/skilltrust/skilltrust.go\<close>, \<open>snapshot.go\<close>) and the gate of every launch
  (\<open>internal/cli/skill_approval.go\<close>).  The store's directory is one the sandbox never mounts, so the agent changes
  only the directories of skills; a sequence of host and agent actions is modelled as such.
\<close>

section \<open>The store\<close>

record approval =
  ap_name :: string
  ap_hash :: string
  ap_dir :: string
  ap_at :: int

datatype store_file = NoStore | CorruptStore | Store "approval list"

text \<open>The host-only directory (empty when there is none), the approvals file, the snapshots by path.\<close>

record trust =
  tr_dir :: string
  tr_store :: store_file
  tr_snaps :: "(string \<times> tree) list"

datatype trust_error =
    NoHostDir | StoreUnreadable | InvalidName | MissingSkillDir | CopyFailed | HashMismatch | StoreLocked | StoreNotSaved
  | CannotHash | NotApproved string | SnapshotMissing string

text \<open>
  The surroundings of an operation: SHA-256, \<open>EvalSymlinks\<close>, the skill directories on disk (\<open>None\<close> when there
  is none), the name of the temporary folder, whether the folders can be made, the lock taken and the store written.
\<close>

record trust_env =
  te_sha :: "string \<Rightarrow> string"
  te_eval :: "string \<Rightarrow> string option"
  te_disk :: "string \<Rightarrow> tree option"
  te_temp :: string
  te_mkdir_ok :: bool
  te_lock_ok :: bool
  te_save_ok :: bool
  te_now :: int

definition store_exists :: "trust \<Rightarrow> bool" where
  "store_exists tr \<longleftrightarrow> tr_dir tr \<noteq> [] \<and> tr_store tr \<noteq> NoStore"

definition load_store :: "trust \<Rightarrow> trust_error + approval list" where
  "load_store tr =
     (if tr_dir tr = [] then Inr []
      else case tr_store tr of NoStore \<Rightarrow> Inr [] | CorruptStore \<Rightarrow> Inl StoreUnreadable | Store as \<Rightarrow> Inr as)"

definition approves :: "string \<Rightarrow> string \<Rightarrow> approval \<Rightarrow> bool" where
  "approves name hash a \<longleftrightarrow> ap_name a = name \<and> ap_hash a = hash"

definition is_approved :: "trust \<Rightarrow> string \<Rightarrow> string \<Rightarrow> trust_error + bool" where
  "is_approved tr name hash =
     (case load_store tr of Inl e \<Rightarrow> Inl e | Inr as \<Rightarrow> Inr (list_ex (approves name hash) as))"

text \<open>The store read once (\<open>LoadApprovals\<close>): names, pairs, or the error.\<close>

record approvals =
  av_names :: "string set"
  av_pairs :: "(string \<times> string) set"
  av_err :: "trust_error option"

definition load_approvals :: "trust \<Rightarrow> approvals" where
  "load_approvals tr =
     (case load_store tr of
        Inl e \<Rightarrow> \<lparr>av_names = {}, av_pairs = {}, av_err = Some e\<rparr>
      | Inr as \<Rightarrow> \<lparr>av_names = ap_name ` set as, av_pairs = (\<lambda>a. (ap_name a, ap_hash a)) ` set as, av_err = None\<rparr>)"

definition has_name :: "approvals \<Rightarrow> string \<Rightarrow> bool \<times> trust_error option" where
  "has_name av name = (case av_err av of Some e \<Rightarrow> (True, Some e) | None \<Rightarrow> (name \<in> av_names av, None))"

definition loaded_approved :: "approvals \<Rightarrow> string \<Rightarrow> string \<Rightarrow> bool \<times> trust_error option" where
  "loaded_approved av name hash =
     (case av_err av of Some e \<Rightarrow> (False, Some e) | None \<Rightarrow> ((name, hash) \<in> av_pairs av, None))"

text \<open>\<open>save\<close> sorts by name, then hash, and replaces the file; a failed write leaves the old one.\<close>

definition save_store :: "trust_env \<Rightarrow> approval list \<Rightarrow> trust \<Rightarrow> trust_error + trust" where
  "save_store te as tr =
     (if tr_dir tr = [] then Inl NoHostDir
      else if \<not> te_save_ok te then Inl StoreNotSaved
      else Inr (tr\<lparr>tr_store := Store (sort_key (\<lambda>a. ap_name a) (sort_key ap_hash as))\<rparr>))"

section \<open>Snapshots\<close>

definition snapshot_root :: string where "snapshot_root = ''skills-v2''"

definition snapshot_rel :: "string \<Rightarrow> string \<Rightarrow> string" where
  "snapshot_rel name hash = path_join [snapshot_root, name, trim_prefix hash ''sha256:'']"

definition snapshot_path :: "trust \<Rightarrow> string \<Rightarrow> string \<Rightarrow> string \<times> bool" where
  "snapshot_path tr name hash =
     (if tr_dir tr = [] then ([], False)
      else let p = path_join [tr_dir tr, snapshot_rel name hash] in (p, map_of (tr_snaps tr) p \<noteq> None))"

text \<open>The spawn backstop, with \<open>is_dir\<close> for \<open>os.Stat\<close>.\<close>

definition is_snapshot_path :: "(string \<Rightarrow> bool) \<Rightarrow> trust \<Rightarrow> string \<Rightarrow> bool" where
  "is_snapshot_path is_dir tr dir \<longleftrightarrow>
     tr_dir tr \<noteq> [] \<and> dir \<noteq> [] \<and> contained_in (path_join [tr_dir tr, snapshot_root]) dir \<and> is_dir dir"

definition take_snapshot :: "trust_env \<Rightarrow> string \<Rightarrow> string \<Rightarrow> string \<Rightarrow> trust \<Rightarrow> trust_error + trust" where
  "take_snapshot te name hash src tr =
     (if \<not> valid_skill_name name then Inl InvalidName
      else if tr_dir tr = [] then Inl NoHostDir
      else let dst = path_join [tr_dir tr, snapshot_rel name hash];
               real = (case te_eval te src of Some r \<Rightarrow> r | None \<Rightarrow> clean src)
           in if map_of (tr_snaps tr) dst \<noteq> None then Inr tr
              else if \<not> te_mkdir_ok te then Inl CopyFailed
              else case Option.bind (te_disk te src) (copy_tree (te_eval te) real (te_temp te) []) of
                None \<Rightarrow> Inl CopyFailed
              | Some t \<Rightarrow>
                  if bundle_hash (te_sha te) t \<noteq> Some hash then Inl HashMismatch
                  else Inr (tr\<lparr>tr_snaps := AList.update dst t (tr_snaps tr)\<rparr>))"

definition remove_snapshot :: "string \<Rightarrow> string \<Rightarrow> trust \<Rightarrow> trust" where
  "remove_snapshot name hash tr =
     (if tr_dir tr = [] then tr
      else tr\<lparr>tr_snaps := AList.delete (path_join [tr_dir tr, snapshot_rel name hash]) (tr_snaps tr)\<rparr>)"

section \<open>Approving and revoking\<close>

text \<open>Each operation returns its error, if any, and the state it leaves.\<close>

definition approve :: "trust_env \<Rightarrow> string \<Rightarrow> string \<Rightarrow> string \<Rightarrow> trust \<Rightarrow> trust_error option \<times> trust" where
  "approve te name hash src tr =
     (if tr_dir tr = [] then (Some NoHostDir, tr)
      else if \<not> valid_skill_name name then (Some InvalidName, tr)
      else if src = [] then (Some MissingSkillDir, tr)
      else case take_snapshot te name hash src tr of
        Inl e \<Rightarrow> (Some e, tr)
      | Inr tr1 \<Rightarrow>
          if \<not> te_lock_ok te then (Some StoreLocked, tr1)
          else (case load_store tr1 of
             Inl e \<Rightarrow> (Some e, tr1)
           | Inr as \<Rightarrow>
               if list_ex (approves name hash) as then (None, tr1)
               else case save_store te (as @ [\<lparr>ap_name = name, ap_hash = hash, ap_dir = src, ap_at = te_now te\<rparr>]) tr1 of
                 Inl e \<Rightarrow> (Some e, tr1)
               | Inr tr2 \<Rightarrow> (None, tr2)))"

definition revoke :: "trust_env \<Rightarrow> string \<Rightarrow> string \<Rightarrow> trust \<Rightarrow> (bool \<times> trust_error option) \<times> trust" where
  "revoke te name hash tr =
     (if tr_dir tr = [] then ((False, Some NoHostDir), tr)
      else if \<not> te_lock_ok te then ((False, Some StoreLocked), tr)
      else case load_store tr of
        Inl e \<Rightarrow> ((False, Some e), tr)
      | Inr as \<Rightarrow>
          (let removed = list_ex (approves name hash) as;
               (err, tr1) = (case save_store te (filter (\<lambda>a. \<not> approves name hash a) as) tr of
                  Inl e \<Rightarrow> (Some e, tr) | Inr tr1 \<Rightarrow> (None, tr1))
           in ((removed, err), if removed then remove_snapshot name hash tr1 else tr1)))"

definition ensure_initialized :: "trust_env \<Rightarrow> trust \<Rightarrow> trust_error option \<times> trust" where
  "ensure_initialized te tr =
     (if tr_dir tr = [] \<or> store_exists tr then (None, tr)
      else if \<not> te_lock_ok te then (Some StoreLocked, tr)
      else case save_store te [] tr of Inl e \<Rightarrow> (Some e, tr) | Inr tr1 \<Rightarrow> (None, tr1))"

section \<open>The gate\<close>

definition skill_bundle_hash :: "trust_env \<Rightarrow> string \<Rightarrow> string \<Rightarrow> trust_error + string" where
  "skill_bundle_hash te dir given =
     (if given \<noteq> [] then Inr given
      else case Option.bind (te_disk te dir) (bundle_hash (te_sha te)) of
        None \<Rightarrow> Inl CannotHash | Some h \<Rightarrow> Inr h)"

definition approval_refusal :: "trust_env \<Rightarrow> string \<Rightarrow> string \<Rightarrow> string \<Rightarrow> trust \<Rightarrow> trust_error option" where
  "approval_refusal te name dir given tr =
     (case skill_bundle_hash te dir given of
        Inl e \<Rightarrow> Some e
      | Inr h \<Rightarrow> (case is_approved tr name h of
           Inl e \<Rightarrow> Some e | Inr ok \<Rightarrow> if ok then None else Some (NotApproved name)))"

definition approved_spawn_dir :: "trust_env \<Rightarrow> string \<Rightarrow> string \<Rightarrow> string \<Rightarrow> trust \<Rightarrow> trust_error + string" where
  "approved_spawn_dir te name dir given tr =
     (if \<not> valid_skill_name name then Inl InvalidName
      else case skill_bundle_hash te dir given of
        Inl e \<Rightarrow> Inl e
      | Inr h \<Rightarrow> (case approval_refusal te name dir h tr of
           Some e \<Rightarrow> Inl e
         | None \<Rightarrow> (let (snap, present) = snapshot_path tr name h
                    in if present then Inr snap else Inl (SnapshotMissing name))))"

definition skill_spawn_authorizer :: "(string \<Rightarrow> bool) \<Rightarrow> trust \<Rightarrow> string \<Rightarrow> string \<Rightarrow> trust_error option" where
  "skill_spawn_authorizer is_dir tr name dir = (if is_snapshot_path is_dir tr dir then None else Some (NotApproved name))"

text \<open>The first upgraded run: every global entry whose recorded hash still matches is approved.\<close>

definition is_under_dir :: "string \<Rightarrow> string \<Rightarrow> bool" where
  "is_under_dir root path =
     (case path_rel root path of
        None \<Rightarrow> False | Some rel \<Rightarrow> rel = ''.'' \<or> (\<not> has_prefix rel ''..'' \<and> \<not> is_abs rel))"

fun grandfather_approvals :: "trust_env \<Rightarrow> string \<Rightarrow> reg_entry list \<Rightarrow> trust \<Rightarrow> (nat \<times> trust_error option) \<times> trust" where
  "grandfather_approvals te workdir [] tr = ((0, None), tr)"
| "grandfather_approvals te workdir (e # es) tr =
     (if \<not> is_abs (re_skill_dir e) \<or> (workdir \<noteq> [] \<and> is_under_dir workdir (re_skill_dir e)) \<or> re_bundle_hash e = [] \<or>
         Option.bind (te_disk te (re_skill_dir e)) (bundle_hash (te_sha te)) \<noteq> Some (re_bundle_hash e)
      then grandfather_approvals te workdir es tr
      else case approve te (re_name e) (re_bundle_hash e) (re_skill_dir e) tr of
        (Some err, tr1) \<Rightarrow> ((0, Some err), tr1)
      | (None, tr1) \<Rightarrow>
          (let ((n, err), tr2) = grandfather_approvals te workdir es tr1 in ((n + 1, err), tr2)))"

fun grandfather_scopes :: "trust_env \<Rightarrow> (string \<times> reg_entry list) list \<Rightarrow> trust \<Rightarrow> (nat \<times> trust_error option) \<times> trust" where
  "grandfather_scopes te [] tr = ((0, None), tr)"
| "grandfather_scopes te ((workdir, reg) # scopes) tr =
     (let ((c, err), tr1) = grandfather_approvals te workdir reg tr;
          ((n, err'), tr2) = grandfather_scopes te scopes tr1
      in ((c + n, if err = None then err' else err), tr2))"

definition grandfather_once :: "trust_env \<Rightarrow> (string \<times> reg_entry list) list \<Rightarrow> trust \<Rightarrow> (nat \<times> trust_error option) \<times> trust" where
  "grandfather_once te scopes tr =
     (let ((n, err), tr1) = grandfather_scopes te scopes tr;
          (err', tr2) = ensure_initialized te tr1
      in ((n, if err = None then err' else err), tr2))"

section \<open>One read of the store answers like many\<close>

lemma loaded_approved_eq:
  "is_approved tr name hash =
     (case loaded_approved (load_approvals tr) name hash of (ok, None) \<Rightarrow> Inr ok | (_, Some e) \<Rightarrow> Inl e)"
  by (auto simp: is_approved_def loaded_approved_def load_approvals_def approves_def list_ex_iff split: sum.split)

lemma loaded_fails_closed:
  "av_err (load_approvals tr) \<noteq> None \<Longrightarrow>
     \<not> fst (loaded_approved (load_approvals tr) name hash) \<and> fst (has_name (load_approvals tr) name)"
  by (auto simp: loaded_approved_def has_name_def)

section \<open>Where snapshots are\<close>

lemma valid_name_plain: "valid_skill_name n \<Longrightarrow> plain n"
  by (simp add: valid_skill_name_def plain_def)

lemma hex_encode_plain: "s \<noteq> [] \<Longrightarrow> plain (hex_encode s)"
proof -
  have l: "lower_hex k \<noteq> slash \<and> lower_hex k \<noteq> CHR ''.''" if "k < 16" for k
  proof -
    have "list_all (\<lambda>k. lower_hex k \<noteq> slash \<and> lower_hex k \<noteq> CHR ''.'') [0..<16]" by code_simp
    then show ?thesis using that by (simp add: list_all_iff)
  qed
  have b: "code c div 16 < 16" "code c mod 16 < 16" for c :: char
    by (simp_all add: less_mult_imp_div_less)
  have "lower_hex (code x div 16) \<noteq> slash" "lower_hex (code x mod 16) \<noteq> slash" for x
    using l [OF b(1) [of x]] l [OF b(2) [of x]] by simp_all
  then have "slash \<notin> set (hex_encode s)" by (auto simp: hex_encode_def dest: sym)
  moreover have "hd (hex_encode s) \<noteq> CHR ''.''" "hex_encode s \<noteq> []" if "s = a # t" for a t
    using l [OF b(1) [of a]] that by (simp_all add: hex_encode_def)
  ultimately show "s \<noteq> [] \<Longrightarrow> plain (hex_encode s)" by (cases s) (auto simp: plain_def)
qed

definition snapshot_at :: "string \<Rightarrow> string \<Rightarrow> string \<Rightarrow> string" where
  "snapshot_at d name hash = path_join [d, snapshot_rel name hash]"

lemma bundle_hash_leaf:
  assumes "\<forall>s. length (sha s) = 32" "bundle_hash sha t = Some h"
  shows "\<exists>leaf. h = ''sha256:'' @ leaf \<and> plain leaf"
proof -
  obtain items where "h = ''sha256:'' @ hex_encode (sha (digest_input sha items))"
    using assms(2) by (auto simp: bundle_hash_def)
  moreover have "sha (digest_input sha items) \<noteq> []" using assms(1) by (metis length_0_conv zero_neq_numeral)
  ultimately show ?thesis using hex_encode_plain by blast
qed

lemma snapshot_at_parts:
  assumes "is_abs d" "clean d = d" "plain name" "plain leaf"
  shows "clean_parts (snapshot_at d name (''sha256:'' @ leaf)) = clean_parts d @ [snapshot_root, name, leaf]"
    and "is_abs (snapshot_at d name (''sha256:'' @ leaf))"
proof -
  have r: "plain snapshot_root" by (simp add: plain_def snapshot_root_def)
  let ?ps = "[snapshot_root, name, leaf]"
  have pl: "list_all plain ?ps" using assms r by simp
  have t: "trim_prefix (''sha256:'' @ leaf) ''sha256:'' = leaf" by (simp add: trim_prefix_def has_prefix_def)
  have n: "snapshot_root \<noteq> []" by (simp add: snapshot_root_def)
  have "\<not> is_abs (join_with ''/'' ?ps)" by (simp add: is_abs_def has_prefix_def snapshot_root_def)
  moreover have "clean_parts (join_with ''/'' ?ps) = ?ps"
    using clean_loop_plain [OF pl] split_join_plain [OF pl] calculation unfolding clean_parts_def by simp
  ultimately have "snapshot_rel name (''sha256:'' @ leaf) = join_with ''/'' ?ps"
    using n unfolding snapshot_rel_def t by (simp add: path_join_def clean_def path_of_def)
  moreover have d: "list_all plain (clean_parts d)" "d = rooted (clean_parts d)"
    using rooted_of_clean [OF assms(2,1)] by blast+
  ultimately have s: "snapshot_at d name (''sha256:'' @ leaf) = rooted (clean_parts d @ ?ps)"
    using join_rooted(1) [OF d(1) pl] unfolding snapshot_at_def by simp
  have "list_all plain (clean_parts d @ ?ps)" using d(1) pl by simp
  then show "clean_parts (snapshot_at d name (''sha256:'' @ leaf)) = clean_parts d @ ?ps"
    "is_abs (snapshot_at d name (''sha256:'' @ leaf))"
    unfolding s by (rule rooted_parts)+
qed

lemma snapshot_at_inj:
  assumes "\<forall>s. length (sha s) = 32" "is_abs d" "clean d = d" "valid_skill_name n1" "valid_skill_name n2"
    and "bundle_hash sha t1 = Some h1" "bundle_hash sha t2 = Some h2" "snapshot_at d n1 h1 = snapshot_at d n2 h2"
  shows "n1 = n2 \<and> h1 = h2"
proof -
  obtain l1 where l1: "h1 = ''sha256:'' @ l1" "plain l1" using bundle_hash_leaf [OF assms(1,6)] by blast
  obtain l2 where l2: "h2 = ''sha256:'' @ l2" "plain l2" using bundle_hash_leaf [OF assms(1,7)] by blast
  have "clean_parts d @ [snapshot_root, n1, l1] = clean_parts (snapshot_at d n1 h1)"
    unfolding l1(1) by (rule snapshot_at_parts(1) [OF assms(2,3) valid_name_plain [OF assms(4)] l1(2), symmetric])
  also have "\<dots> = clean_parts (snapshot_at d n2 h2)" by (simp only: assms(8))
  also have "\<dots> = clean_parts d @ [snapshot_root, n2, l2]"
    unfolding l2(1) by (rule snapshot_at_parts(1) [OF assms(2,3) valid_name_plain [OF assms(5)] l2(2)])
  finally have "n1 = n2" "l1 = l2" by simp_all
  then show ?thesis unfolding l1(1) l2(1) by simp
qed

text \<open>Containment of a path whose elements extend the root's.\<close>

lemma strip_common_prefix: "strip_common xs (xs @ ys) = ([], ys)"
  by (induction xs) simp_all

lemma contained_in_below:
  assumes "is_abs root" "is_abs p" "clean_parts p = clean_parts root @ q # qs"
  shows "contained_in root p"
proof -
  have q: "plain w" if "w \<in> set (q # qs)" for w
    by (rule clean_abs_no_dotdot [OF assms(2)]) (use assms(3) that in auto)
  have ne: "clean root \<noteq> clean p"
    using assms(3) clean_parts_clean [of root] clean_parts_clean [of p] by (metis append_self_conv list.distinct(1))
  have "is_abs (clean p)" using assms(2) by simp
  then have "clean p \<noteq> ''.''" by (auto simp: is_abs_def has_prefix_def)
  then have "path_rel root p = Some (join_with ''/'' (q # qs))"
    using ne assms by (simp add: path_rel_def strip_common_prefix)
  moreover have "split_on slash (join_with ''/'' (q # qs)) = q # qs"
    using q by (intro split_join_plain) (auto simp: list_all_iff)
  moreover have "split_on slash ''.'' = [''.'']" "split_on slash ''..'' = [''..'']" "split_on slash (''../'' @ r) = ''..'' # split_on slash r" for r
    by simp_all
  ultimately show ?thesis
    using q [of q] by (auto simp: contained_in_def plain_def has_prefix_iff)
qed

lemma snapshot_contained:
  assumes "is_abs d" "clean d = d" "plain name" "plain leaf"
  shows "contained_in (path_join [d, snapshot_root]) (snapshot_at d name (''sha256:'' @ leaf))"
proof (rule contained_in_below)
  have d: "list_all plain (clean_parts d)" "d = rooted (clean_parts d)"
    using rooted_of_clean [OF assms(2,1)] by blast+
  have r: "list_all plain [snapshot_root]" by (simp add: plain_def snapshot_root_def)
  have j: "path_join [d, snapshot_root] = rooted (clean_parts d @ [snapshot_root])"
    using join_rooted(1) [OF d(1) r] d(2) by simp
  have pl: "list_all plain (clean_parts d @ [snapshot_root])" using d(1) r by simp
  show "is_abs (path_join [d, snapshot_root])" unfolding j by (rule rooted_parts [OF pl])
  show "is_abs (snapshot_at d name (''sha256:'' @ leaf))" by (rule snapshot_at_parts [OF assms])
  show "clean_parts (snapshot_at d name (''sha256:'' @ leaf)) = clean_parts (path_join [d, snapshot_root]) @ [name, leaf]"
    unfolding snapshot_at_parts(1) [OF assms] j rooted_parts(1) [OF pl] by simp
qed

section \<open>What an operation may change\<close>

definition approvals_of :: "trust \<Rightarrow> approval list" where
  "approvals_of tr = (case tr_store tr of Store as \<Rightarrow> as | _ \<Rightarrow> [])"

definition pairs_of :: "trust \<Rightarrow> (string \<times> string) set" where
  "pairs_of tr = (\<lambda>a. (ap_name a, ap_hash a)) ` set (approvals_of tr)"

text \<open>A frozen folder: at the place of a valid name and its own hash, with no file the hash leaves out.\<close>

definition frozen :: "(string \<Rightarrow> string) \<Rightarrow> string \<Rightarrow> string \<times> tree \<Rightarrow> bool" where
  "frozen sha d s \<longleftrightarrow>
     (\<exists>name hash. valid_skill_name name \<and> bundle_hash sha (snd s) = Some hash \<and> fst s = snapshot_at d name hash \<and>
        bundle_items [] (snd s) = Some (all_files [] (snd s)))"

text \<open>From one state to another at most the given pairs are added, and only frozen folders.\<close>

definition trust_step :: "(string \<Rightarrow> string) \<Rightarrow> (string \<times> string) set \<Rightarrow> trust \<Rightarrow> trust \<Rightarrow> bool" where
  "trust_step sha new tr tr' \<longleftrightarrow>
     tr_dir tr' = tr_dir tr \<and> (tr_store tr \<noteq> CorruptStore \<longrightarrow> tr_store tr' \<noteq> CorruptStore) \<and>
     pairs_of tr' \<subseteq> pairs_of tr \<union> new \<and> (\<forall>s \<in> set (tr_snaps tr'). s \<in> set (tr_snaps tr) \<or> frozen sha (tr_dir tr) s)"

lemma trust_step_refl [intro]: "trust_step sha new tr tr"
  by (simp add: trust_step_def)

lemma trust_step_trans:
  "trust_step sha n1 a b \<Longrightarrow> trust_step sha n2 b c \<Longrightarrow> n1 \<subseteq> n \<Longrightarrow> n2 \<subseteq> n \<Longrightarrow> trust_step sha n a c"
  unfolding trust_step_def by (elim conjE, intro conjI) (simp, simp, blast, fastforce)

lemma load_store_Inr: "tr_dir tr \<noteq> [] \<Longrightarrow> load_store tr = Inr as \<Longrightarrow> as = approvals_of tr"
  by (auto simp: load_store_def approvals_of_def split: store_file.splits)

lemma save_store_step:
  assumes "save_store te as tr = Inr tr'" "(\<lambda>a. (ap_name a, ap_hash a)) ` set as \<subseteq> pairs_of tr \<union> new"
  shows "trust_step sha new tr tr'"
proof -
  have tr': "tr' = tr\<lparr>tr_store := Store (sort_key ap_name (sort_key ap_hash as))\<rparr>"
    using assms(1) by (simp add: save_store_def split: if_splits)
  then have "pairs_of tr' = (\<lambda>a. (ap_name a, ap_hash a)) ` set as" by (simp add: pairs_of_def approvals_of_def)
  then show ?thesis using assms(2) tr' by (simp add: trust_step_def)
qed

lemma copied_all_hashed:
  "copy_tree eval src dst pre t = Some t' \<Longrightarrow> bundle_items pre t' = Some items \<Longrightarrow> items = all_files pre t'"
proof (induction eval src dst pre t arbitrary: t' items rule: copy_tree.induct)
  case (2 eval src dst pre n ds es)
  show ?case
  proof (cases "is_excluded_dir_name n")
    case True
    have a: "copy_tree eval src dst pre es = Some t'" using 2(4) True by (simp only: copy_tree.simps if_True)
    show ?thesis by (rule 2(1) [OF True a 2(5)])
  next
    case False
    obtain d' e' where c: "copy_tree eval src dst (pre @ [n]) ds = Some d'" "copy_tree eval src dst pre es = Some e'"
        "t' = (n, Dir d') # e'"
      using 2(4) False by (auto simp: both_Some split: option.splits)
    obtain i1 i2 where i: "bundle_items (pre @ [n]) d' = Some i1" "bundle_items pre e' = Some i2" "items = i1 @ i2"
      using 2(5) False c(3) by (auto simp: both_Some)
    show ?thesis using 2(2) [OF False c(1) i(1)] 2(3) [OF False c(1) c(2) i(2)] i(3) c(3) by simp
  qed
next
  case (3 eval src dst pre n c m es)
  show ?case
  proof (cases "is_excluded_file_name n")
    case True
    have a: "copy_tree eval src dst pre es = Some t'" using 3(3) True by (simp only: copy_tree.simps if_True)
    show ?thesis by (rule 3(1) [OF True a 3(4)])
  next
    case False
    obtain e' where e: "copy_tree eval src dst pre es = Some e'" "t' = (n, File c m) # e'"
      using 3(3) False by (auto simp: both_Some)
    obtain i2 where i: "bundle_items pre e' = Some i2" "items = (pre @ [n], c) # i2"
      using 3(4) False e(2) by (auto simp: both_Some)
    show ?thesis using 3(2) [OF False e(1) i(1)] i(2) e(2) by simp
  qed
next
  case (4 eval src dst pre n l es)
  show ?case
  proof (cases "keeps_link eval src dst (pre @ [n]) l")
    case True
    then obtain e' where e: "copy_tree eval src dst pre es = Some e'" "t' = (n, Link l) # e'"
      using 4(3) by (auto simp: both_Some)
    have i: "bundle_items pre e' = Some items" using 4(4) e(2) by (simp split: if_splits)
    show ?thesis using 4(1) [OF True e(1) i] e(2) by simp
  next
    case False
    have a: "copy_tree eval src dst pre es = Some t'" using 4(3) False by simp
    show ?thesis by (rule 4(2) [OF False a 4(4)])
  qed
next
  case (5 eval src dst pre n es)
  have a: "copy_tree eval src dst pre es = Some t'" using 5(2) by simp
  show ?case by (rule 5(1) [OF a 5(3)])
qed simp_all

lemma set_update_subset: "set (AList.update k v xs) \<subseteq> insert (k, v) (set xs)"
  by (induction xs) auto

lemma take_snapshot_step:
  assumes "take_snapshot te name hash src tr = Inr tr'" "sha = te_sha te"
  shows "trust_step sha {} tr tr'"
proof -
  let ?dst = "path_join [tr_dir tr, snapshot_rel name hash]"
  show ?thesis
  proof (cases "tr' = tr")
    case False
    have v: "valid_skill_name name" using assms(1) by (simp add: take_snapshot_def split: if_splits)
    obtain real t0 t where c: "copy_tree (te_eval te) real (te_temp te) [] t0 = Some t" "bundle_hash (te_sha te) t = Some hash"
        "tr' = tr\<lparr>tr_snaps := AList.update ?dst t (tr_snaps tr)\<rparr>"
      using assms(1) False
      by (auto simp: take_snapshot_def Let_def bind_eq_Some_conv split: if_splits option.splits)
    obtain items where i: "bundle_items [] t = Some items" using c(2) by (auto simp: bundle_hash_def)
    have "frozen sha (tr_dir tr) (?dst, t)"
      using v c(2) assms(2) i copied_all_hashed [OF c(1) i] by (auto simp: frozen_def snapshot_at_def)
    then show ?thesis
      using set_update_subset [of ?dst t "tr_snaps tr"] unfolding c(3)
      by (auto simp: trust_step_def pairs_of_def approvals_of_def)
  qed auto
qed

lemma approve_step:
  assumes "sha = te_sha te"
  shows "trust_step sha {(name, hash)} tr (snd (approve te name hash src tr))"
proof (cases "tr_dir tr = [] \<or> \<not> valid_skill_name name \<or> src = []")
  case False
  show ?thesis
  proof (cases "take_snapshot te name hash src tr")
    case (Inl e)
    then show ?thesis by (auto simp: approve_def)
  next
    case (Inr tr1)
    have s1: "trust_step sha {} tr tr1" by (rule take_snapshot_step [OF Inr assms])
    then have d: "tr_dir tr1 \<noteq> []" using False by (simp add: trust_step_def)
    have s1': "trust_step sha {(name, hash)} tr tr1" by (rule trust_step_trans [OF s1 trust_step_refl [of sha "{}"]]) simp_all
    show ?thesis
    proof (cases "te_lock_ok te \<and> (\<exists>as. load_store tr1 = Inr as \<and> \<not> list_ex (approves name hash) as)")
      case True
      then obtain as where as: "load_store tr1 = Inr as" "\<not> list_ex (approves name hash) as" by blast
      let ?as = "as @ [\<lparr>ap_name = name, ap_hash = hash, ap_dir = src, ap_at = te_now te\<rparr>]"
      show ?thesis
      proof (cases "save_store te ?as tr1")
        case (Inl e)
        then show ?thesis using False Inr as True s1' by (simp add: approve_def)
      next
        case saved: (Inr tr2)
        have "trust_step sha {(name, hash)} tr1 tr2"
          by (rule save_store_step [OF saved]) (auto simp: load_store_Inr [OF d as(1)] pairs_of_def)
        then have "trust_step sha {(name, hash)} tr tr2" by (rule trust_step_trans [OF s1]) simp_all
        then show ?thesis using False Inr as True saved by (simp add: approve_def)
      qed
    next
      case other: False
      then have "snd (approve te name hash src tr) = tr1"
        using False Inr by (auto simp: approve_def split: sum.split)
      then show ?thesis using s1' by simp
    qed
  qed
qed (auto simp: approve_def)

lemma set_delete_subset: "set (AList.delete k xs) \<subseteq> set xs"
  by (simp add: AList.delete_eq)

lemma revoke_step: "trust_step sha {} tr (snd (revoke te name hash tr))"
proof (cases "tr_dir tr = [] \<or> \<not> te_lock_ok te")
  case False
  have r: "trust_step sha {} tr1 (remove_snapshot name hash tr1)" for tr1
    using set_delete_subset [of "path_join [tr_dir tr1, snapshot_rel name hash]" "tr_snaps tr1"]
    by (auto simp: trust_step_def remove_snapshot_def pairs_of_def approvals_of_def)
  show ?thesis
  proof (cases "load_store tr")
    case (Inl e)
    then show ?thesis by (auto simp: revoke_def)
  next
    case (Inr as)
    let ?as = "filter (\<lambda>a. \<not> approves name hash a) as"
    obtain tr1 where tr1: "tr1 = (case save_store te ?as tr of Inl e \<Rightarrow> tr | Inr t \<Rightarrow> t)" by blast
    have as: "as = approvals_of tr" using load_store_Inr False Inr by blast
    have s: "trust_step sha {} tr tr1"
    proof (cases "save_store te ?as tr")
      case (Inr t)
      have "trust_step sha {} tr t" by (rule save_store_step [OF Inr]) (auto simp: as pairs_of_def)
      then show ?thesis using Inr tr1 by simp
    qed (auto simp: tr1)
    have "trust_step sha {} tr (if list_ex (approves name hash) as then remove_snapshot name hash tr1 else tr1)"
      using s trust_step_trans [OF s r] by simp
    moreover have "snd (revoke te name hash tr) = (if list_ex (approves name hash) as then remove_snapshot name hash tr1 else tr1)"
      using False Inr tr1 by (simp add: revoke_def Let_def split: sum.splits)
    ultimately show ?thesis by simp
  qed
qed (auto simp: revoke_def)

lemma ensure_step: "trust_step sha {} tr (snd (ensure_initialized te tr))"
proof (cases "tr_dir tr = [] \<or> store_exists tr \<or> \<not> te_lock_ok te")
  case False
  show ?thesis
  proof (cases "save_store te [] tr")
    case (Inr t)
    have "trust_step sha {} tr t" by (rule save_store_step [OF Inr]) simp
    then show ?thesis using Inr False by (simp add: ensure_initialized_def)
  qed (use False in \<open>auto simp: ensure_initialized_def\<close>)
qed (auto simp: ensure_initialized_def)

text \<open>What the one migration may approve: absolute entries outside the working directory with a recorded hash.\<close>

definition migrates :: "string \<Rightarrow> reg_entry \<Rightarrow> bool" where
  "migrates workdir e \<longleftrightarrow>
     is_abs (re_skill_dir e) \<and> \<not> (workdir \<noteq> [] \<and> is_under_dir workdir (re_skill_dir e)) \<and> re_bundle_hash e \<noteq> []"

definition migrated_pairs :: "string \<Rightarrow> reg_entry list \<Rightarrow> (string \<times> string) set" where
  "migrated_pairs workdir es = (\<lambda>e. (re_name e, re_bundle_hash e)) ` {e \<in> set es. migrates workdir e}"

lemma grandfather_approvals_step:
  "trust_step (te_sha te) (migrated_pairs workdir es) tr (snd (grandfather_approvals te workdir es tr))"
proof (induction te workdir es tr rule: grandfather_approvals.induct)
  case (2 te workdir e es tr)
  let ?skip = "\<not> is_abs (re_skill_dir e) \<or> (workdir \<noteq> [] \<and> is_under_dir workdir (re_skill_dir e)) \<or> re_bundle_hash e = [] \<or>
         Option.bind (te_disk te (re_skill_dir e)) (bundle_hash (te_sha te)) \<noteq> Some (re_bundle_hash e)"
  have sub: "migrated_pairs workdir es \<subseteq> migrated_pairs workdir (e # es)" by (auto simp: migrated_pairs_def)
  show ?case
  proof (cases ?skip)
    case True
    have "trust_step (te_sha te) (migrated_pairs workdir (e # es)) tr (snd (grandfather_approvals te workdir es tr))"
      by (rule trust_step_trans [OF 2(1) [OF True] trust_step_refl [of _ "{}"]]) (use sub in simp_all)
    then show ?thesis using True by (simp only: grandfather_approvals.simps if_True)
  next
    case False
    let ?p = "(re_name e, re_bundle_hash e)"
    obtain err tr1 where a: "approve te (re_name e) (re_bundle_hash e) (re_skill_dir e) tr = (err, tr1)" by fastforce
    have s: "trust_step (te_sha te) {?p} tr tr1"
      using approve_step [OF refl, of te "re_name e" "re_bundle_hash e" tr "re_skill_dir e"] a by simp
    have p: "{?p} \<subseteq> migrated_pairs workdir (e # es)" using False by (auto simp: migrated_pairs_def migrates_def)
    show ?thesis
    proof (cases err)
      case None
      obtain n err2 tr2 where g: "grandfather_approvals te workdir es tr1 = ((n, err2), tr2)" by (metis surj_pair)
      have "trust_step (te_sha te) (migrated_pairs workdir es) tr1 tr2"
        using 2(2) [OF False a [symmetric, unfolded None] refl] g by simp
      then have "trust_step (te_sha te) (migrated_pairs workdir (e # es)) tr tr2" by (rule trust_step_trans [OF s _ p sub])
      moreover have "snd (grandfather_approvals te workdir (e # es) tr) = tr2"
        using a g None unfolding grandfather_approvals.simps if_not_P [OF False] by simp
      ultimately show ?thesis by simp
    next
      case (Some x)
      have "trust_step (te_sha te) (migrated_pairs workdir (e # es)) tr tr1"
        by (rule trust_step_trans [OF s trust_step_refl [of _ "{}"] p]) simp
      moreover have "snd (grandfather_approvals te workdir (e # es) tr) = tr1"
        using a Some unfolding grandfather_approvals.simps if_not_P [OF False] by simp
      ultimately show ?thesis by simp
    qed
  qed
qed auto

lemma grandfather_scopes_step:
  "trust_step (te_sha te) (\<Union>(w, es) \<in> set scopes. migrated_pairs w es) tr (snd (grandfather_scopes te scopes tr))"
proof (induction te scopes tr rule: grandfather_scopes.induct)
  case (2 te w es scopes tr)
  obtain c err tr1 where a: "grandfather_approvals te w es tr = ((c, err), tr1)" by (metis surj_pair)
  obtain n err' tr2 where b: "grandfather_scopes te scopes tr1 = ((n, err'), tr2)" by (metis surj_pair)
  have s1: "trust_step (te_sha te) (migrated_pairs w es) tr tr1" using grandfather_approvals_step [of te w es tr] a by simp
  have s2: "trust_step (te_sha te) (\<Union>(w, es) \<in> set scopes. migrated_pairs w es) tr1 tr2"
    using 2 [OF a [symmetric] refl refl, of tr1] b by simp
  have "trust_step (te_sha te) (\<Union>(w, es) \<in> set ((w, es) # scopes). migrated_pairs w es) tr tr2"
    by (rule trust_step_trans [OF s1 s2]) auto
  then show ?case using a b by simp
qed auto

lemma grandfather_once_step:
  "trust_step (te_sha te) (\<Union>(w, es) \<in> set scopes. migrated_pairs w es) tr (snd (grandfather_once te scopes tr))"
proof -
  obtain n err tr1 where a: "grandfather_scopes te scopes tr = ((n, err), tr1)" by (metis surj_pair)
  obtain err' tr2 where b: "ensure_initialized te tr1 = (err', tr2)" by fastforce
  have s1: "trust_step (te_sha te) (\<Union>(w, es) \<in> set scopes. migrated_pairs w es) tr tr1"
    using grandfather_scopes_step [of te scopes tr] a by simp
  have s2: "trust_step (te_sha te) {} tr1 tr2" using ensure_step [of "te_sha te" tr1 te] b by simp
  have "trust_step (te_sha te) (\<Union>(w, es) \<in> set scopes. migrated_pairs w es) tr tr2"
    by (rule trust_step_trans [OF s1 s2]) simp_all
  then show ?thesis using a b by (simp add: grandfather_once_def)
qed

section \<open>What a spawn runs\<close>

text \<open>
  The host's actions, each with the disk as it finds it: between two of them, and before the launch, the
  agent may have put anything into the directories of skills.
\<close>

datatype trust_op =
    Approve trust_env string string string
  | Revoke trust_env string string
  | Ensure trust_env
  | Migrate trust_env "(string \<times> reg_entry list) list"

fun trust_exec :: "(string \<Rightarrow> string) \<Rightarrow> trust_op \<Rightarrow> trust \<Rightarrow> trust" where
  "trust_exec sha (Approve te name hash src) tr = snd (approve (te\<lparr>te_sha := sha\<rparr>) name hash src tr)"
| "trust_exec sha (Revoke te name hash) tr = snd (revoke (te\<lparr>te_sha := sha\<rparr>) name hash tr)"
| "trust_exec sha (Ensure te) tr = snd (ensure_initialized (te\<lparr>te_sha := sha\<rparr>) tr)"
| "trust_exec sha (Migrate te scopes) tr = snd (grandfather_once (te\<lparr>te_sha := sha\<rparr>) scopes tr)"

definition empty_trust :: "string \<Rightarrow> trust" where
  "empty_trust d = \<lparr>tr_dir = d, tr_store = NoStore, tr_snaps = []\<rparr>"

fun op_grants :: "trust_op \<Rightarrow> (string \<times> string) set" where
  "op_grants (Approve te name hash src) = {(name, hash)}"
| "op_grants (Migrate te scopes) = (\<Union>(w, es) \<in> set scopes. migrated_pairs w es)"
| "op_grants _ = {}"

fun op_withdraws :: "trust_op \<Rightarrow> (string \<times> string) set" where
  "op_withdraws (Revoke te name hash) = (if te_lock_ok te \<and> te_save_ok te then {(name, hash)} else {})"
| "op_withdraws _ = {}"

text \<open>The host approved the pair, and has not revoked it since.\<close>

definition standing :: "trust_op list \<Rightarrow> (string \<times> string) \<Rightarrow> bool" where
  "standing ops p \<longleftrightarrow>
     (\<exists>before op after. ops = before @ op # after \<and> p \<in> op_grants op \<and> (\<forall>o' \<in> set after. p \<notin> op_withdraws o'))"

lemma standing_snoc:
  "p \<in> op_grants op \<Longrightarrow> standing (ops @ [op]) p"
  "standing ops p \<Longrightarrow> p \<notin> op_withdraws op \<Longrightarrow> standing (ops @ [op]) p"
proof -
  show "p \<in> op_grants op \<Longrightarrow> standing (ops @ [op]) p"
    unfolding standing_def by (intro exI [of _ ops] exI [of _ op] exI [of _ "[]"]) simp
  assume s: "standing ops p" "p \<notin> op_withdraws op"
  then obtain before g after where "ops = before @ g # after" "p \<in> op_grants g" "\<forall>o' \<in> set after. p \<notin> op_withdraws o'"
    unfolding standing_def by blast
  then show "standing (ops @ [op]) p"
    unfolding standing_def using s(2) by (intro exI [of _ before] exI [of _ g] exI [of _ "after @ [op]"]) simp
qed

lemma trust_exec_step: "trust_step sha (op_grants op) tr (trust_exec sha op tr)"
proof (cases op)
  case (Migrate te scopes)
  then show ?thesis using grandfather_once_step [of "te\<lparr>te_sha := sha\<rparr>" scopes tr] by simp
qed (simp_all add: approve_step revoke_step ensure_step)

lemma revoked_gone:
  assumes "tr_dir tr \<noteq> []" "tr_store tr \<noteq> CorruptStore" "te_lock_ok te" "te_save_ok te"
  shows "(name, hash) \<notin> pairs_of (snd (revoke te name hash tr))"
proof -
  obtain as where as: "load_store tr = Inr as"
    using assms(1,2) by (cases "tr_store tr") (auto simp: load_store_def)
  let ?tr1 = "tr\<lparr>tr_store := Store (sort_key (\<lambda>a. ap_name a) (sort_key ap_hash (filter (\<lambda>a. \<not> approves name hash a) as)))\<rparr>"
  have "snd (revoke te name hash tr) = (if list_ex (approves name hash) as then remove_snapshot name hash ?tr1 else ?tr1)"
    using assms as by (simp add: revoke_def save_store_def Let_def)
  moreover have "pairs_of (remove_snapshot name hash t) = pairs_of t" for t
    by (simp add: pairs_of_def approvals_of_def remove_snapshot_def)
  ultimately have "pairs_of (snd (revoke te name hash tr)) = pairs_of ?tr1" by simp
  then show ?thesis by (auto simp: pairs_of_def approvals_of_def approves_def)
qed

definition trust_run :: "(string \<Rightarrow> string) \<Rightarrow> trust_op list \<Rightarrow> string \<Rightarrow> trust" where
  "trust_run sha ops d = fold (trust_exec sha) ops (empty_trust d)"

lemma trust_run_inv:
  assumes "d \<noteq> []"
  shows "tr_dir (trust_run sha ops d) = d \<and> tr_store (trust_run sha ops d) \<noteq> CorruptStore \<and>
    (\<forall>p \<in> pairs_of (trust_run sha ops d). standing ops p) \<and> (\<forall>s \<in> set (tr_snaps (trust_run sha ops d)). frozen sha d s)"
proof (induction ops rule: rev_induct)
  case Nil
  then show ?case by (simp add: trust_run_def empty_trust_def pairs_of_def approvals_of_def)
next
  case (snoc op ops)
  let ?tr = "trust_run sha ops d"
  have r: "trust_run sha (ops @ [op]) d = trust_exec sha op ?tr" by (simp add: trust_run_def)
  have st: "trust_step sha (op_grants op) ?tr (trust_exec sha op ?tr)" by (rule trust_exec_step)
  have w: "p \<notin> op_withdraws op" if p: "p \<in> pairs_of (trust_exec sha op ?tr)" for p
  proof (cases op)
    case (Revoke te name hash)
    then show ?thesis
      using p revoked_gone [of ?tr "te\<lparr>te_sha := sha\<rparr>" name hash] snoc assms by (cases p) auto
  qed simp_all
  have "standing (ops @ [op]) p" if p: "p \<in> pairs_of (trust_exec sha op ?tr)" for p
  proof (cases "p \<in> op_grants op")
    case False
    then have "p \<in> pairs_of ?tr" using p st by (auto simp: trust_step_def)
    then have "standing ops p" using snoc by blast
    then show ?thesis using w [OF p] by (rule standing_snoc(2))
  qed (rule standing_snoc(1))
  then show ?case using st snoc unfolding r trust_step_def by auto
qed

lemma spawn_frozen:
  assumes sha: "\<forall>s. length (sha s) = 32" and d: "is_abs d" "clean d = d"
    and tr: "tr = trust_run sha ops d"
    and spawn: "approved_spawn_dir (te\<lparr>te_sha := sha\<rparr>) name wd given tr = Inr p"
    and given: "given \<noteq> [] \<Longrightarrow> \<exists>x. bundle_hash sha x = Some given"
  shows "\<exists>t h. map_of (tr_snaps tr) p = Some t \<and> bundle_items [] t = Some (all_files [] t) \<and> bundle_hash sha t = Some h \<and>
    skill_bundle_hash (te\<lparr>te_sha := sha\<rparr>) wd given = Inr h \<and> standing ops (name, h) \<and>
    skill_spawn_authorizer (\<lambda>q. map_of (tr_snaps tr) q \<noteq> None) tr name p = None"
proof -
  have dn: "d \<noteq> []" using d(1) by (auto simp: is_abs_def has_prefix_def)
  note inv = trust_run_inv [OF dn, of sha ops, folded tr]
  have v: "valid_skill_name name" using spawn by (simp add: approved_spawn_dir_def split: if_splits)
  obtain now h where h: "bundle_hash sha now = Some h" "skill_bundle_hash (te\<lparr>te_sha := sha\<rparr>) wd given = Inr h"
    using spawn v given
    by (cases "given = []") (auto simp: approved_spawn_dir_def skill_bundle_hash_def bind_eq_Some_conv split: option.splits)
  have ne: "h \<noteq> []" using h(1) by (auto simp: bundle_hash_def)
  have td: "tr_dir tr = d" using inv by blast
  have ok: "is_approved tr name h = Inr True" and p: "p = snapshot_at d name h" "map_of (tr_snaps tr) p \<noteq> None"
    using spawn v h(2) ne td dn
    by (auto simp: approved_spawn_dir_def approval_refusal_def skill_bundle_hash_def snapshot_path_def snapshot_at_def Let_def
        split: option.splits sum.splits if_splits)
  have "(name, h) \<in> pairs_of tr"
    using ok load_store_Inr [of tr] td dn
    by (fastforce simp: is_approved_def pairs_of_def approves_def list_ex_iff split: sum.splits)
  then have st: "standing ops (name, h)" using inv by blast
  obtain t where t: "map_of (tr_snaps tr) p = Some t" using p(2) by blast
  then have "frozen sha d (p, t)" using inv map_of_SomeD by fast
  then obtain n' h' where f: "valid_skill_name n'" "bundle_hash sha t = Some h'" "p = snapshot_at d n' h'"
      "bundle_items [] t = Some (all_files [] t)"
    by (auto simp: frozen_def)
  have "n' = name \<and> h' = h"
    by (rule snapshot_at_inj [OF sha d f(1) v f(2) h(1)]) (use f(3) p(1) in simp)
  then have ht: "bundle_hash sha t = Some h" using f(2) by simp
  obtain leaf where leaf: "h = ''sha256:'' @ leaf" "plain leaf" using bundle_hash_leaf [OF sha h(1)] by blast
  have c: "contained_in (path_join [d, snapshot_root]) p"
    using snapshot_contained [OF d valid_name_plain [OF v] leaf(2)] unfolding p(1) leaf(1) by (simp only:)
  have pn: "p \<noteq> []"
    using snapshot_at_parts(2) [OF d valid_name_plain [OF v] leaf(2)] unfolding p(1) leaf(1) by (auto simp: is_abs_def has_prefix_def)
  have "skill_spawn_authorizer (\<lambda>q. map_of (tr_snaps tr) q \<noteq> None) tr name p = None"
    using c pn p(2) td dn by (simp add: skill_spawn_authorizer_def is_snapshot_path_def)
  then show ?thesis using t f(4) h(2) ht st by blast
qed

text \<open>
  C3: Only approved code runs outside the sandbox.  After any sequence of host actions from a fresh store, with the
  skill directories as the agent left them at each of them: when a launch of a skill is let through,
  the folder it is started from is a snapshot that holds no regular file the hash does not cover, whose
  hash is that of the directory on disk, the host approved exactly this name and hash - or migrated it
  from a registry entry outside the working directory - and has not revoked it since, and the folder passes
  the supervisor's own check.
\<close>

theorem spawn_runs_approved:
  assumes sha: "\<forall>s. length (sha s) = 32" and d: "is_abs d" "clean d = d"
    and tr: "tr = trust_run sha ops d"
    and spawn: "approved_spawn_dir (te\<lparr>te_sha := sha\<rparr>) name wd [] tr = Inr p"
  shows "\<exists>t now h. map_of (tr_snaps tr) p = Some t \<and> bundle_items [] t = Some (all_files [] t) \<and>
    te_disk te wd = Some now \<and> bundle_hash sha now = Some h \<and> bundle_hash sha t = Some h \<and>
    standing ops (name, h) \<and>
    skill_spawn_authorizer (\<lambda>q. map_of (tr_snaps tr) q \<noteq> None) tr name p = None"
  using spawn_frozen [OF sha d tr spawn]
  by (auto simp: skill_bundle_hash_def bind_eq_Some_conv split: option.splits)

definition demo_skill :: tree where "demo_skill = [(''f'', File ''a'' 420)]"

definition demo_env :: trust_env where
  "demo_env =
     \<lparr>te_sha = demo_sha, te_eval = Some, te_disk = (\<lambda>p. if p = ''/w/s'' then Some demo_skill else None),
      te_temp = ''/c/t'', te_mkdir_ok = True, te_lock_ok = True, te_save_ok = True, te_now = 0\<rparr>"

lemma demo_skill_copy:
  "bundle_items [] demo_skill = Some [([''f''], ''a'')]" "copy_tree e a b [] demo_skill = Some demo_skill"
  by (simp_all add: demo_skill_def is_excluded_file_name_def has_suffix_def both_def)

lemma demo_spawn:
  fixes h
  defines "tr \<equiv> trust_run demo_sha [Approve demo_env ''s'' h ''/w/s''] ''/c''"
  assumes h: "bundle_hash demo_sha demo_skill = Some h"
  shows "approved_spawn_dir (demo_env\<lparr>te_sha := demo_sha\<rparr>) ''s'' ''/w/s'' [] tr = Inr (snapshot_at ''/c'' ''s'' h)"
proof -
  have ne: "h \<noteq> []" using h by (auto simp: bundle_hash_def)
  have v: "valid_skill_name ''s''" by code_simp
  let ?a = "\<lparr>ap_name = ''s'', ap_hash = h, ap_dir = ''/w/s'', ap_at = 0\<rparr>"
  have e: "te_disk demo_env ''/w/s'' = Some demo_skill" "te_mkdir_ok demo_env" "te_lock_ok demo_env" "te_save_ok demo_env"
    "te_now demo_env = 0" by (simp_all add: demo_env_def)
  have t: "tr = \<lparr>tr_dir = ''/c'', tr_store = Store [?a], tr_snaps = [(snapshot_at ''/c'' ''s'' h, demo_skill)]\<rparr>"
    unfolding tr_def trust_run_def empty_trust_def
    by (simp add: approve_def v e take_snapshot_def demo_skill_copy h load_store_def save_store_def snapshot_at_def Let_def)
  show ?thesis unfolding t
    by (simp add: approved_spawn_dir_def v skill_bundle_hash_def e h ne approval_refusal_def is_approved_def load_store_def
       approves_def snapshot_path_def snapshot_at_def Let_def)
qed

theorem spawn_runs_approved_witness:
  "\<exists>h p. bundle_hash demo_sha demo_skill = Some h \<and>
     map_of (tr_snaps (trust_run demo_sha [Approve demo_env ''s'' h ''/w/s''] ''/c'')) p \<noteq> None \<and>
     standing [Approve demo_env ''s'' h ''/w/s''] (''s'', h)"
proof -
  obtain h where h: "bundle_hash demo_sha demo_skill = Some h" by (simp add: bundle_hash_def demo_skill_copy)
  have "\<forall>s. length (demo_sha s) = 32" by (simp add: demo_sha_def del: replicate_numeral take_append)
  moreover have "is_abs ''/c''" "clean ''/c'' = ''/c''" by code_simp+
  ultimately show ?thesis
    using spawn_runs_approved [OF _ _ _ refl demo_spawn [OF h]] h by (auto simp: demo_env_def)
qed

text \<open>The migration's own containment test counts a sibling-like name inside the working directory as outside.\<close>

lemma is_under_dir_dots: "\<not> is_under_dir ''/w'' ''/w/..x/s'' \<and> contained_in ''/w'' ''/w/..x/s''"
  by code_simp

end
