(* ===== verification/Manifest.thy ===== *)
theory Manifest
  imports Bundle
begin

text \<open>
  The manifest of a skill, \<open>omac.yaml\<close> (\<open>internal/config/meta.go\<close>): its data after decoding, \<open>Validate\<close>, the checks
  of values, the documentation references, and the walk that reports unknown keys over the parsed YAML.  Regular
  expressions a manifest declares are a parameter.
\<close>

section \<open>Data\<close>

record regex =
  rx_ok :: "string \<Rightarrow> bool"
  rx_match :: "string \<Rightarrow> string \<Rightarrow> bool"

record secret_spec =
  ss_name :: string
  ss_required :: "bool option"
  ss_pattern :: string
  ss_default_from_env :: string
  ss_docs :: string

record config_spec =
  cs_name :: string
  cs_type :: string
  cs_required :: "bool option"
  cs_default :: string
  cs_default_from_env :: string
  cs_pattern :: string
  cs_choices :: "string list"
  cs_docs :: string

record health_spec =
  hs_path :: string
  hs_initial_delay :: int
  hs_timeout :: int
  hs_interval :: int

record sidecar_meta =
  sm_command :: "string list"
  sm_mount :: string
  sm_env_passthrough :: "string list"
  sm_secrets :: "secret_spec list"
  sm_config :: "config_spec list"
  sm_health :: "health_spec option"

record meta =
  mt_name :: string
  mt_sidecar :: "sidecar_meta option"

section \<open>Values\<close>

definition secret_required :: "secret_spec \<Rightarrow> bool" where
  "secret_required s = (case ss_required s of None \<Rightarrow> True | Some b \<Rightarrow> b)"

definition config_required :: "config_spec \<Rightarrow> bool" where
  "config_required c = (case cs_required c of None \<Rightarrow> True | Some b \<Rightarrow> b)"

definition effective_type :: "config_spec \<Rightarrow> string" where
  "effective_type c = (if cs_type c = [] then ''string'' else cs_type c)"

datatype value_error = BadPattern | NoMatch | NotAChoice

definition validate_secret_value :: "regex \<Rightarrow> secret_spec \<Rightarrow> string \<Rightarrow> value_error option" where
  "validate_secret_value rx s v =
     (if ss_pattern s = [] then None
      else if \<not> rx_ok rx (ss_pattern s) then Some BadPattern
      else if \<not> rx_match rx (ss_pattern s) v then Some NoMatch else None)"

definition validate_config_value :: "regex \<Rightarrow> config_spec \<Rightarrow> string \<Rightarrow> value_error option" where
  "validate_config_value rx c v =
     (if cs_choices c \<noteq> [] then (if v \<in> set (cs_choices c) then None else Some NotAChoice)
      else if effective_type c = ''string'' \<and> cs_pattern c \<noteq> [] then
        (if \<not> rx_ok rx (cs_pattern c) then Some BadPattern
         else if \<not> rx_match rx (cs_pattern c) v then Some NoMatch else None)
      else None)"

text \<open>\<open>parseBoolField\<close>, over ASCII white space and letters.\<close>

definition parse_bool_field :: "string \<Rightarrow> bool option" where
  "parse_bool_field s =
     (let t = to_lower (trim_space s)
      in if t \<in> set [''true'', ''t'', ''yes'', ''y'', ''1'', ''on''] then Some True
         else if t \<in> set [''false'', ''f'', ''no'', ''n'', ''0'', ''off''] then Some False else None)"

definition health_defaults :: "health_spec option \<Rightarrow> health_spec" where
  "health_defaults h =
     (let o1 = (case h of None \<Rightarrow> \<lparr>hs_path = [], hs_initial_delay = 0, hs_timeout = 0, hs_interval = 0\<rparr> | Some x \<Rightarrow> x)
      in \<lparr>hs_path = (if hs_path o1 = [] then ''/status'' else hs_path o1),
          hs_initial_delay = (if hs_initial_delay o1 = 0 then 200 else hs_initial_delay o1),
          hs_timeout = (if hs_timeout o1 = 0 then 5000 else hs_timeout o1),
          hs_interval = (if hs_interval o1 = 0 then 500 else hs_interval o1)\<rparr>)"

definition mount_or_default :: "sidecar_meta \<Rightarrow> string \<Rightarrow> string" where
  "mount_or_default s name = (if sm_mount s \<noteq> [] then sm_mount s else name)"

definition patternless_fields :: "sidecar_meta \<Rightarrow> string list" where
  "patternless_fields s =
     (if sm_secrets s = [] then []
      else map cs_name (filter (\<lambda>c. effective_type c = ''string'' \<and> cs_pattern c = [] \<and> cs_choices c = []) (sm_config s)))"

section \<open>Validation\<close>

definition env_name_ok :: "string \<Rightarrow> bool" where
  "env_name_ok s \<longleftrightarrow>
     s \<noteq> [] \<and> (is_upper_alpha (hd s) \<or> hd s = CHR ''_'') \<and>
     list_all (\<lambda>c. is_upper_alpha c \<or> is_digit c \<or> c = CHR ''_'') (tl s)"

definition mount_ok :: "string \<Rightarrow> bool" where
  "mount_ok s \<longleftrightarrow>
     s \<noteq> [] \<and> (is_digit (hd s) \<or> is_lower_alpha (hd s)) \<and>
     list_all (\<lambda>c. is_digit c \<or> is_lower_alpha c \<or> c = CHR ''-'') (tl s)"

datatype declarer = Secrets | Config

datatype meta_error =
    NameRequired | CommandRequired | BadMount | BadEnvName declarer nat | BadRegex declarer nat
  | DeclaredTwice string | ChoicesWithoutEnum nat | NoPatternOrChoices nat | BadDefault nat | EnumWithoutChoices nat
  | EnumWithPattern nat | UnknownType nat | BadPassthrough string | PassthroughIsConfig string | BadHealthPath

type_synonym declared = "(string \<times> declarer) list"

definition claim :: "string \<Rightarrow> declarer \<Rightarrow> declared \<Rightarrow> meta_error + declared" where
  "claim name kind ds = (if map_of ds name \<noteq> None then Inl (DeclaredTwice name) else Inr ((name, kind) # ds))"

fun check_secrets :: "regex \<Rightarrow> nat \<Rightarrow> secret_spec list \<Rightarrow> declared \<Rightarrow> meta_error + declared" where
  "check_secrets rx i [] ds = Inr ds"
| "check_secrets rx i (s # ss) ds =
     (if \<not> env_name_ok (ss_name s) then Inl (BadEnvName Secrets i)
      else if ss_pattern s \<noteq> [] \<and> \<not> rx_ok rx (ss_pattern s) then Inl (BadRegex Secrets i)
      else case claim (ss_name s) Secrets ds of Inl e \<Rightarrow> Inl e | Inr ds' \<Rightarrow> check_secrets rx (Suc i) ss ds')"

definition check_field :: "regex \<Rightarrow> nat \<Rightarrow> config_spec \<Rightarrow> meta_error option" where
  "check_field rx i c =
     (if effective_type c = ''string'' then
        (if cs_pattern c \<noteq> [] \<and> \<not> rx_ok rx (cs_pattern c) then Some (BadRegex Config i)
         else if cs_choices c \<noteq> [] then Some (ChoicesWithoutEnum i) else None)
      else if effective_type c = ''bool'' then
        (if cs_pattern c \<noteq> [] \<or> cs_choices c \<noteq> [] then Some (NoPatternOrChoices i)
         else if cs_default c \<noteq> [] \<and> parse_bool_field (cs_default c) = None then Some (BadDefault i) else None)
      else if effective_type c = ''int'' then
        (if cs_pattern c \<noteq> [] \<or> cs_choices c \<noteq> [] then Some (NoPatternOrChoices i)
         else if cs_default c \<noteq> [] \<and> atoi (cs_default c) = None then Some (BadDefault i) else None)
      else if effective_type c = ''enum'' then
        (if cs_choices c = [] then Some (EnumWithoutChoices i)
         else if cs_pattern c \<noteq> [] then Some (EnumWithPattern i)
         else if cs_default c \<noteq> [] \<and> cs_default c \<notin> set (cs_choices c) then Some (BadDefault i) else None)
      else Some (UnknownType i))"

fun check_configs :: "regex \<Rightarrow> nat \<Rightarrow> config_spec list \<Rightarrow> declared \<Rightarrow> meta_error + declared" where
  "check_configs rx i [] ds = Inr ds"
| "check_configs rx i (c # cs) ds =
     (if \<not> env_name_ok (cs_name c) then Inl (BadEnvName Config i)
      else case check_field rx i c of Some e \<Rightarrow> Inl e
      | None \<Rightarrow> (case claim (cs_name c) Config ds of Inl e \<Rightarrow> Inl e | Inr ds' \<Rightarrow> check_configs rx (Suc i) cs ds'))"

fun check_passthrough :: "string list \<Rightarrow> declared \<Rightarrow> meta_error option" where
  "check_passthrough [] ds = None"
| "check_passthrough (p # ps) ds =
     (if \<not> env_name_ok p then Some (BadPassthrough p)
      else if map_of ds p = Some Config then Some (PassthroughIsConfig p) else check_passthrough ps ds)"

definition health_path_ok :: "string \<Rightarrow> bool" where
  "health_path_ok p \<longleftrightarrow> has_prefix p ''/'' \<and> CHR ''@'' \<notin> set p \<and> colon \<notin> set p"

definition validate_sidecar :: "regex \<Rightarrow> sidecar_meta \<Rightarrow> meta_error option" where
  "validate_sidecar rx s =
     (if sm_command s = [] then Some CommandRequired
      else if sm_mount s \<noteq> [] \<and> \<not> mount_ok (sm_mount s) then Some BadMount
      else case check_secrets rx 0 (sm_secrets s) [] of Inl e \<Rightarrow> Some e
      | Inr ds \<Rightarrow> (case check_configs rx 0 (sm_config s) ds of Inl e \<Rightarrow> Some e
        | Inr ds' \<Rightarrow> (case check_passthrough (sm_env_passthrough s) ds' of Some e \<Rightarrow> Some e
          | None \<Rightarrow> (case sm_health s of
              Some h \<Rightarrow> if hs_path h \<noteq> [] \<and> \<not> health_path_ok (hs_path h) then Some BadHealthPath else None
            | None \<Rightarrow> None))))"

definition validate_meta :: "regex \<Rightarrow> meta \<Rightarrow> meta_error option" where
  "validate_meta rx m =
     (if mt_name m = [] then Some NameRequired
      else case mt_sidecar m of None \<Rightarrow> None | Some s \<Rightarrow> validate_sidecar rx s)"

section \<open>What validation means\<close>

text \<open>A field: its constraints fit its type, and its default is a value of the type.\<close>

definition field_ok :: "regex \<Rightarrow> config_spec \<Rightarrow> bool" where
  "field_ok rx c \<longleftrightarrow>
     (effective_type c = ''string'' \<and> (cs_pattern c = [] \<or> rx_ok rx (cs_pattern c)) \<and> cs_choices c = []) \<or>
     (effective_type c = ''bool'' \<and> cs_pattern c = [] \<and> cs_choices c = [] \<and> (cs_default c = [] \<or> parse_bool_field (cs_default c) \<noteq> None)) \<or>
     (effective_type c = ''int'' \<and> cs_pattern c = [] \<and> cs_choices c = [] \<and> (cs_default c = [] \<or> atoi (cs_default c) \<noteq> None)) \<or>
     (effective_type c = ''enum'' \<and> cs_choices c \<noteq> [] \<and> cs_pattern c = [] \<and> (cs_default c = [] \<or> cs_default c \<in> set (cs_choices c)))"

definition sidecar_ok :: "regex \<Rightarrow> sidecar_meta \<Rightarrow> bool" where
  "sidecar_ok rx s \<longleftrightarrow>
     sm_command s \<noteq> [] \<and> (sm_mount s = [] \<or> mount_ok (sm_mount s)) \<and>
     (\<forall>x \<in> set (sm_secrets s). env_name_ok (ss_name x) \<and> (ss_pattern x = [] \<or> rx_ok rx (ss_pattern x))) \<and>
     (\<forall>c \<in> set (sm_config s). env_name_ok (cs_name c) \<and> field_ok rx c) \<and>
     distinct (map ss_name (sm_secrets s) @ map cs_name (sm_config s)) \<and>
     (\<forall>p \<in> set (sm_env_passthrough s). env_name_ok p \<and> p \<notin> cs_name ` set (sm_config s)) \<and>
     (\<forall>h. sm_health s = Some h \<longrightarrow> hs_path h = [] \<or> health_path_ok (hs_path h))"

lemma check_field_ok: "check_field rx i c = None \<longleftrightarrow> field_ok rx c"
  unfolding check_field_def field_ok_def by simp

lemma claim_Inr: "claim n k ds = Inr ds' \<longleftrightarrow> n \<notin> fst ` set ds \<and> ds' = (n, k) # ds"
  by (auto simp: claim_def map_of_eq_None_iff)

lemma check_secrets_Inr:
  "check_secrets rx i ss ds = Inr ds' \<longleftrightarrow>
     (\<forall>x \<in> set ss. env_name_ok (ss_name x) \<and> (ss_pattern x = [] \<or> rx_ok rx (ss_pattern x))) \<and>
     distinct (map ss_name ss) \<and> ss_name ` set ss \<inter> fst ` set ds = {} \<and>
     ds' = rev (map (\<lambda>x. (ss_name x, Secrets)) ss) @ ds"
proof (induction ss arbitrary: i ds)
  case (Cons s ss)
  have "check_secrets rx i (s # ss) ds = Inr ds' \<longleftrightarrow>
      env_name_ok (ss_name s) \<and> (ss_pattern s = [] \<or> rx_ok rx (ss_pattern s)) \<and> ss_name s \<notin> fst ` set ds \<and>
      check_secrets rx (Suc i) ss ((ss_name s, Secrets) # ds) = Inr ds'"
    by (simp add: claim_def map_of_eq_None_iff)
  then show ?case unfolding Cons.IH by auto
qed auto

lemma check_configs_Inr:
  "check_configs rx i cs ds = Inr ds' \<longleftrightarrow>
     (\<forall>c \<in> set cs. env_name_ok (cs_name c) \<and> field_ok rx c) \<and>
     distinct (map cs_name cs) \<and> cs_name ` set cs \<inter> fst ` set ds = {} \<and>
     ds' = rev (map (\<lambda>c. (cs_name c, Config)) cs) @ ds"
proof (induction cs arbitrary: i ds)
  case (Cons c cs)
  have "check_configs rx i (c # cs) ds = Inr ds' \<longleftrightarrow>
      env_name_ok (cs_name c) \<and> field_ok rx c \<and> cs_name c \<notin> fst ` set ds \<and>
      check_configs rx (Suc i) cs ((cs_name c, Config) # ds) = Inr ds'"
    unfolding check_field_ok [of rx i c, symmetric]
    by (simp add: claim_def map_of_eq_None_iff split: option.split)
  then show ?case unfolding Cons.IH by auto
qed auto

lemma check_passthrough_None:
  "check_passthrough ps ds = None \<longleftrightarrow> (\<forall>p \<in> set ps. env_name_ok p \<and> map_of ds p \<noteq> Some Config)"
  by (induction ps) auto

lemma map_of_const: "map_of (rev (map (\<lambda>c. (f c, k)) xs)) p = (if p \<in> f ` set xs then Some k else None)"
proof (cases "p \<in> f ` set xs")
  case True
  then obtain k' where "map_of (rev (map (\<lambda>c. (f c, k)) xs)) p = Some k'"
    by (cases "map_of (rev (map (\<lambda>c. (f c, k)) xs)) p") (auto simp: map_of_eq_None_iff image_iff)
  then have "map_of (rev (map (\<lambda>c. (f c, k)) xs)) p = Some k" by (auto dest!: map_of_SomeD)
  then show ?thesis using True by simp
qed (auto simp: map_of_eq_None_iff)

lemma map_of_declared:
  "map_of (rev (map (\<lambda>c. (cs_name c, Config)) cs) @ rev (map (\<lambda>x. (ss_name x, Secrets)) ss)) p = Some Config
    \<longleftrightarrow> p \<in> cs_name ` set cs"
  unfolding map_of_append map_add_def map_of_const by simp

lemma validate_sidecar_ok: "validate_sidecar rx s = None \<longleftrightarrow> sidecar_ok rx s"
proof (cases "\<exists>ds. check_secrets rx 0 (sm_secrets s) [] = Inr ds \<and> (\<exists>ds'. check_configs rx 0 (sm_config s) ds = Inr ds')")
  case True
  then obtain ds ds' where d: "check_secrets rx 0 (sm_secrets s) [] = Inr ds" "check_configs rx 0 (sm_config s) ds = Inr ds'" by blast
  note d' = d(1)[unfolded check_secrets_Inr] d(2)[unfolded check_configs_Inr]
  have dis: "set (map ss_name (sm_secrets s)) \<inter> set (map cs_name (sm_config s)) = {}"
    using d' by (auto simp: image_comp comp_def)
  have mo: "map_of ds' p = Some Config \<longleftrightarrow> p \<in> cs_name ` set (sm_config s)" for p
    using map_of_declared [of "sm_config s" "sm_secrets s" p] d' by simp
  have "sidecar_ok rx s \<longleftrightarrow> sm_command s \<noteq> [] \<and> (sm_mount s = [] \<or> mount_ok (sm_mount s)) \<and>
      check_passthrough (sm_env_passthrough s) ds' = None \<and>
      (\<forall>h. sm_health s = Some h \<longrightarrow> hs_path h = [] \<or> health_path_ok (hs_path h))"
    using d' dis unfolding sidecar_ok_def check_passthrough_None mo by simp
  then show ?thesis by (simp add: validate_sidecar_def d split: option.splits)
next
  case False
  then have no: "\<not> (\<forall>x \<in> set (sm_secrets s). env_name_ok (ss_name x) \<and> (ss_pattern x = [] \<or> rx_ok rx (ss_pattern x))) \<or>
      \<not> (\<forall>c \<in> set (sm_config s). env_name_ok (cs_name c) \<and> field_ok rx c) \<or>
      \<not> distinct (map ss_name (sm_secrets s) @ map cs_name (sm_config s))"
    unfolding check_secrets_Inr check_configs_Inr by (auto simp: image_comp comp_def)
  then have "\<not> sidecar_ok rx s" unfolding sidecar_ok_def by blast
  moreover have "validate_sidecar rx s \<noteq> None"
    using False by (auto simp: validate_sidecar_def split: sum.splits)
  ultimately show ?thesis by simp
qed

text \<open>
  C11: What \<open>Validate\<close> accepts, exactly: a manifest with a name whose sidecar, if any, has a command, a mount
  of the route grammar, environment names for every secret, field and passed-through variable, patterns
  that compile, defaults that are values of their type, a health path that cannot change the host - and no
  variable is declared twice by secrets and fields, nor both as a field and as passed through.
\<close>

theorem manifest_valid_exact:
  "validate_meta rx m = None \<longleftrightarrow> mt_name m \<noteq> [] \<and> (case mt_sidecar m of None \<Rightarrow> True | Some s \<Rightarrow> sidecar_ok rx s)"
  by (simp add: validate_meta_def validate_sidecar_ok split: option.split)

text \<open>A skill name is a mount: the other tests of \<open>ValidSkillName\<close> only give better messages.\<close>

lemma valid_skill_name_mount: "valid_skill_name n \<longleftrightarrow> mount_ok n"
proof
  assume m: "mount_ok n"
  have sep: "\<not> is_digit c \<and> \<not> is_lower_alpha c \<and> c \<noteq> CHR ''-''" if "c = slash \<or> c = backslash \<or> c = dot" for c
    using that by (auto simp: is_digit_def is_lower_alpha_def code_def)
  have all: "is_digit c \<or> is_lower_alpha c \<or> c = CHR ''-''" if "c \<in> set n" for c
    using m that by (cases n) (auto simp: mount_ok_def list_all_iff)
  have "slash \<notin> set n" "backslash \<notin> set n" using all sep by blast+
  moreover have "hd n \<noteq> dot" using m sep by (simp add: mount_ok_def) metis
  moreover have "n \<noteq> []" using m by (simp add: mount_ok_def)
  ultimately show "valid_skill_name n" using m by (auto simp: valid_skill_name_def mount_ok_def)
qed (simp add: valid_skill_name_def mount_ok_def)

section \<open>Documentation references\<close>

definition split_docs_ref :: "string \<Rightarrow> string \<times> string" where
  "split_docs_ref ref =
     (takeWhile (\<lambda>c. c \<noteq> CHR ''#'') ref, drop 1 (dropWhile (\<lambda>c. c \<noteq> CHR ''#'') ref))"

text \<open>\<open>filepath.IsLocal\<close> on Unix.\<close>

definition is_local :: "string \<Rightarrow> bool" where
  "is_local p \<longleftrightarrow>
     \<not> is_abs p \<and> p \<noteq> [] \<and>
     (let q = (if list_ex (\<lambda>w. w = ''.'' \<or> w = ''..'') (split_on slash p) then clean p else p)
      in q \<noteq> ''..'' \<and> \<not> has_prefix q ''../'')"

datatype docs_problem = NoFileNamed | IsUrl | TildePath | AbsolutePath | LeavesSkill

definition docs_ref_problem :: "string \<Rightarrow> docs_problem option" where
  "docs_ref_problem ref =
     (let path = fst (split_docs_ref ref)
      in if path = [] then Some NoFileNamed
         else if contains_str path ''://'' then Some IsUrl
         else if has_prefix path ''~'' then Some TildePath
         else if is_abs path \<or> has_prefix path ''/'' then Some AbsolutePath
         else if \<not> is_local path then Some LeavesSkill else None)"

definition docs_path :: "string \<Rightarrow> string \<Rightarrow> string \<Rightarrow> string \<times> string" where
  "docs_path cwd skill_dir ref =
     (if ref = [] \<or> docs_ref_problem ref \<noteq> None then ([], [])
      else let (path, anchor) = split_docs_ref ref
           in (path_join [path_abs cwd skill_dir, path], anchor))"

text \<open>With \<open>stat\<close> giving whether a path is a directory, if it exists.\<close>

datatype docs_warning = DocsProblem docs_problem | DocsMissing | DocsIsDir

definition docs_warning :: "(string \<Rightarrow> bool option) \<Rightarrow> string \<Rightarrow> string \<Rightarrow> string \<Rightarrow> docs_warning option" where
  "docs_warning stat cwd skill_dir ref =
     (if ref = [] then None
      else case docs_ref_problem ref of Some p \<Rightarrow> Some (DocsProblem p)
      | None \<Rightarrow> (case stat (fst (docs_path cwd skill_dir ref)) of
           None \<Rightarrow> Some DocsMissing | Some d \<Rightarrow> if d then Some DocsIsDir else None))"

definition docs_warnings :: "(string \<Rightarrow> bool option) \<Rightarrow> string \<Rightarrow> string \<Rightarrow> meta \<Rightarrow> ((declarer \<times> nat) \<times> docs_warning) list" where
  "docs_warnings stat cwd skill_dir m =
     (case mt_sidecar m of None \<Rightarrow> []
      | Some s \<Rightarrow>
          List.map_filter (\<lambda>(i, x). map_option (Pair (Secrets, i)) (docs_warning stat cwd skill_dir (ss_docs x)))
            (enumerate 0 (sm_secrets s)) @
          List.map_filter (\<lambda>(i, c). map_option (Pair (Config, i)) (docs_warning stat cwd skill_dir (cs_docs c)))
            (enumerate 0 (sm_config s)))"

lemma dots_stay: "\<exists>zs. clean_loop False ps (xs @ [''..'']) = zs @ [''..'']"
proof (induction ps arbitrary: xs)
  case (Cons p ps)
  show ?case
  proof (cases "p = [] \<or> p = ''.''")
    case True
    then show ?thesis using Cons.IH [of xs] by auto
  next
    case False
    note plain_step = Cons.IH [of "p # xs"]
    show ?thesis
    proof (cases xs)
      case Nil
      then show ?thesis using False Cons.IH [of "[]"] Cons.IH [of "[''..'']"] plain_step by auto
    next
      case (Cons x xs')
      then show ?thesis using False \<open>\<And>xs. \<exists>zs. clean_loop False ps (xs @ [''..'']) = zs @ [''..'']\<close> [of xs']
          \<open>\<And>xs. \<exists>zs. clean_loop False ps (xs @ [''..'']) = zs @ [''..'']\<close> [of "''..'' # xs"] plain_step
        by auto
    qed
  qed
qed simp

text \<open>A relative path that does not climb does not, wherever it starts.\<close>

lemma local_extends:
  "\<forall>q \<in> set a. q \<noteq> ''..'' \<Longrightarrow> \<forall>q \<in> set (clean_loop False ps a). q \<noteq> ''..'' \<Longrightarrow>
     clean_loop r ps (a @ acc) = clean_loop False ps a @ acc"
proof (induction ps arbitrary: a)
  case (Cons p ps)
  show ?case
  proof (cases "p = ''..''")
    case False
    show ?thesis
    proof (cases "p = [] \<or> p = ''.''")
      case True
      have e: "clean_loop r' (p # ps) b = clean_loop r' ps b" for r' b using True by auto
      show ?thesis unfolding e by (rule Cons.IH [OF Cons.prems(1)]) (use Cons.prems(2) e in simp)
    next
      case plain: False
      have e: "clean_loop r' (p # ps) b = clean_loop r' ps (p # b)" for r' b using plain False by simp
      have "\<forall>q \<in> set (p # a). q \<noteq> ''..''" using Cons.prems(1) False by simp
      then have "clean_loop r ps ((p # a) @ acc) = clean_loop False ps (p # a) @ acc"
        by (rule Cons.IH) (use Cons.prems(2) e in simp)
      then show ?thesis unfolding e by simp
    qed
  next
    case True
    show ?thesis
    proof (cases a)
      case Nil
      then have "''..'' \<in> set (clean_loop False (p # ps) a)"
        using True dots_stay [of ps "[]"] by auto
      then show ?thesis using Cons.prems(2) by blast
    next
      case (Cons q qs)
      then have q: "q \<noteq> ''..''" "\<forall>x \<in> set qs. x \<noteq> ''..''" using Cons.prems(1) by auto
      have "\<forall>x \<in> set (clean_loop False ps qs). x \<noteq> ''..''" using Cons.prems(2) Cons q(1) True by simp
      then have "clean_loop r ps (qs @ acc) = clean_loop False ps qs @ acc" by (rule Cons.IH [OF q(2)])
      then show ?thesis using Cons q(1) True by simp
    qed
  qed
qed simp

lemma no_dots_stays: "''..'' \<notin> set ps \<Longrightarrow> ''..'' \<notin> set acc \<Longrightarrow> ''..'' \<notin> set (clean_loop r ps acc)"
proof (induction ps arbitrary: acc)
  case (Cons p ps)
  then have "''..'' \<notin> set (p # acc)" "''..'' \<notin> set ps" by auto
  then show ?case using Cons.IH [of acc] Cons.IH [of "p # acc"] Cons.prems by (cases "p = [] \<or> p = ''.''") auto
qed simp

lemma is_local_parts:
  assumes "is_local p"
  shows "\<forall>q \<in> set (clean_parts p). q \<noteq> ''..''" and "\<not> is_abs p"
proof -
  show na: "\<not> is_abs p" using assms by (simp add: is_local_def)
  show "\<forall>q \<in> set (clean_parts p). q \<noteq> ''..''"
  proof (cases "list_ex (\<lambda>w. w = ''.'' \<or> w = ''..'') (split_on slash p)")
    case False
    then have "''..'' \<notin> set (split_on slash p)" by (auto simp: list_ex_iff)
    then have "''..'' \<notin> set (clean_parts p)" unfolding clean_parts_def set_rev by (rule no_dots_stays) simp
    then show ?thesis by auto
  next
    case True
    then have c: "clean p \<noteq> ''..''" "\<not> has_prefix (clean p) ''../''" and ne: "p \<noteq> []"
      using assms by (simp_all add: is_local_def Let_def)
    have cp: "clean p = path_of False (clean_parts p)" using ne na by (simp add: clean_def)
    have ok: "clean_ok False (rev (clean_parts p))" using clean_parts_ok [of p] na by simp
    obtain xs ds where d: "rev (clean_parts p) = xs @ ds" "list_all plain xs" "\<forall>q \<in> set ds. q = ''..''"
      using clean_ok_split [OF ok] by blast
    have "ds = []"
    proof (rule ccontr)
      assume "ds \<noteq> []"
      then obtain ds' where "ds = ds' @ [''..'']" using d(3) by (cases ds rule: rev_cases) auto
      then have "clean_parts p = ''..'' # rev ds' @ rev xs" using d(1) by (simp add: rev_swap)
      then show False using c unfolding cp by (auto simp: path_of_def join_first has_prefix_iff split: if_splits)
    qed
    then have "set (clean_parts p) = set xs" using d(1) by (metis append_Nil2 set_rev)
    then show ?thesis using d(2) by (auto simp: list_all_iff plain_def)
  qed
qed

text \<open>
  A documentation reference that is shown names a file of the skill: whatever the manifest says, the path
  is that of the skill directory, absolute and clean, followed by further elements, none of which climbs.
\<close>

theorem docs_path_inside:
  assumes "is_abs cwd" "docs_path cwd dir ref = (p, anchor)" "p \<noteq> []"
  shows "is_abs p \<and> clean p = p \<and>
    (\<exists>rest. clean_parts p = clean_parts (path_abs cwd dir) @ rest \<and> list_all plain rest)"
proof -
  define path where "path = fst (split_docs_ref ref)"
  have pr: "docs_ref_problem ref = None" "p = path_join [path_abs cwd dir, path]"
    using assms(2,3) by (auto simp: docs_path_def path_def split: if_splits prod.splits)
  have loc: "is_local path" "path \<noteq> []"
    using pr(1) by (auto simp: docs_ref_problem_def path_def Let_def split: if_splits)
  have "cwd \<noteq> []" using assms(1) by (auto simp: is_abs_def has_prefix_def)
  then have aabs: "is_abs (path_abs cwd dir)"
    using assms(1) by (simp add: path_abs_def path_join_def is_abs_append)
  then have ane: "path_abs cwd dir \<noteq> []" by (auto simp: is_abs_def has_prefix_def)
  have pe: "p = clean (path_abs cwd dir @ slash # path)" using pr(2) ane by (simp add: path_join_def)
  have pa: "is_abs p" unfolding pe using aabs ane by (simp add: is_abs_append)
  have nd: "\<forall>q \<in> set (clean_loop False (split_on slash path) []). q \<noteq> ''..''"
    using is_local_parts [OF loc(1)] by (simp add: clean_parts_def)
  have "clean_parts p = rev (clean_loop True (split_on slash path) (rev (clean_parts (path_abs cwd dir))))"
    unfolding pe clean_parts_clean by (simp add: clean_parts_append [OF ane] aabs)
  also have "\<dots> = clean_parts (path_abs cwd dir) @ clean_parts path"
    using local_extends [OF _ nd, of True "rev (clean_parts (path_abs cwd dir))"] is_local_parts(2) [OF loc(1)]
    by (simp add: clean_parts_def)
  finally have "clean_parts p = clean_parts (path_abs cwd dir) @ clean_parts path" .
  moreover have "list_all plain (clean_parts path)"
    using clean_abs_no_dotdot [OF pa] calculation by (simp add: list_all_iff)
  ultimately show ?thesis using pa by (auto simp: pe)
qed

theorem docs_path_inside_witness:
  "\<exists>rest. clean_parts (fst (docs_path ''/c'' ''s'' ''docs/../a/t.md#x'')) = clean_parts (path_abs ''/c'' ''s'') @ rest \<and> rest \<noteq> []"
proof -
  have d: "docs_path ''/c'' ''s'' ''docs/../a/t.md#x'' = (''/c/s/a/t.md'', ''x'')" by code_simp
  have a: "is_abs ''/c''" by code_simp
  have ne: "clean_parts ''/c/s/a/t.md'' \<noteq> clean_parts (path_abs ''/c'' ''s'')" by code_simp
  obtain rest where "clean_parts ''/c/s/a/t.md'' = clean_parts (path_abs ''/c'' ''s'') @ rest"
    using docs_path_inside [OF a d] by blast
  then show ?thesis using ne unfolding d by auto
qed

section \<open>Unknown keys\<close>

text \<open>
  Parsed YAML: the nodes of a document by number, an alias standing for the node of its anchor, which may be any
  node of the document, an enclosing one included; a merge key is a constructor of its own.
\<close>

datatype ykey = YKey string | YMerge

datatype ynode = YScalar string | YMapping "(ykey \<times> ynode) list" | YSequence "ynode list" | YAlias nat

text \<open>The types the walk descends, as the struct tags give them.\<close>

datatype gtype = GValue | GStruct "(string \<times> gtype) list" | GSlice gtype

definition meta_type :: gtype where
  "meta_type =
     (let str = GSlice GValue;
          spec = GStruct (map (\<lambda>f. (f, GValue)) [''name'', ''description'', ''required'', ''pattern'', ''default_from_env'',
                   ''multiline'', ''hint'', ''docs'']);
          conf = GStruct (map (\<lambda>f. (f, GValue)) [''name'', ''description'', ''type'', ''required'', ''default'',
                   ''default_from_env'', ''pattern''] @ [(''choices'', str), (''hint'', GValue), (''docs'', GValue)]);
          health = GStruct (map (\<lambda>f. (f, GValue)) [''path'', ''initial_delay_ms'', ''timeout_ms'', ''interval_ms'']);
          limits = GStruct (map (\<lambda>f. (f, GValue)) [''max_body_bytes'', ''idle_timeout_secs'']);
          sidecar = GStruct [(''command'', str), (''mount'', GValue), (''env_passthrough'', str), (''secrets'', GSlice spec),
                   (''config'', GSlice conf), (''health'', health), (''install_scripts'', GValue), (''protocols'', str),
                   (''limits'', limits)]
      in GStruct (map (\<lambda>f. (f, GValue)) [''name'', ''type'', ''version'', ''description'', ''author''] @
           [(''dependencies'', str), (''sidecar'', sidecar)]))"

definition key_path :: "string \<Rightarrow> string \<Rightarrow> string" where
  "key_path path key = (if path = [] then key else path @ ''.'' @ key)"

definition item_path :: "string \<Rightarrow> nat \<Rightarrow> string" where
  "item_path path i = path @ ''['' @ show_nat i @ '']''"

definition append_all :: "'a list option list \<Rightarrow> 'a list option" where
  "append_all xs = (if None \<in> set xs then None else Some (concat (map the xs)))"

text \<open>\<open>collectUnknownKeys\<close> with fuel for its depth; \<open>None\<close> is a walk that did not come back.\<close>

fun unknown_keys :: "nat \<Rightarrow> (nat \<Rightarrow> ynode) \<Rightarrow> gtype \<Rightarrow> string \<Rightarrow> ynode \<Rightarrow> string list option" where
  "unknown_keys 0 doc t path node = None"
| "unknown_keys (Suc k) doc t path (YAlias a) = unknown_keys k doc t path (doc a)"
| "unknown_keys (Suc k) doc (GStruct fs) path (YMapping kvs) =
     append_all (map (\<lambda>(key, v).
       case key of
         YMerge \<Rightarrow> (case v of YSequence ms \<Rightarrow> append_all (map (unknown_keys k doc (GStruct fs) path) ms)
                    | _ \<Rightarrow> unknown_keys k doc (GStruct fs) path v)
       | YKey name \<Rightarrow> (case map_of fs name of
           None \<Rightarrow> Some [key_path path name]
         | Some ft \<Rightarrow> unknown_keys k doc ft (key_path path name) v)) kvs)"
| "unknown_keys (Suc k) doc (GSlice t) path (YSequence items) =
     append_all (map (\<lambda>(i, v). unknown_keys k doc t (item_path path i) v) (enumerate 0 items))"
| "unknown_keys (Suc k) doc t path node = Some []"

text \<open>
  The walk does not check for cycles, and it runs before the decoding that does: on a mapping that merges
  itself no amount of fuel is enough.
\<close>

lemma self_merge_diverges:
  "unknown_keys k (\<lambda>_. YMapping [(YMerge, YAlias 0)]) (GStruct fs) path (YMapping [(YMerge, YAlias 0)]) = None"
proof (induction k rule: less_induct)
  case (less k)
  show ?case
  proof (cases k)
    case (Suc k')
    then show ?thesis using less [of "k' - 1"] by (cases k') (auto simp: append_all_def)
  qed simp
qed

text \<open>Without a cycle - every alias of a node stands for an earlier one - the walk comes back.\<close>

fun aliases_below :: "nat \<Rightarrow> ynode \<Rightarrow> bool" where
  "aliases_below n (YScalar s) \<longleftrightarrow> True"
| "aliases_below n (YAlias a) \<longleftrightarrow> a < n"
| "aliases_below n (YSequence items) \<longleftrightarrow> (\<forall>v \<in> set items. aliases_below n v)"
| "aliases_below n (YMapping kvs) \<longleftrightarrow> (\<forall>kv \<in> set kvs. aliases_below n (snd kv))"

lemma append_all_Some: "(\<exists>r. append_all xs = Some r) \<longleftrightarrow> (\<forall>x \<in> set xs. \<exists>r. x = Some r)"
  by (auto simp: append_all_def) (metis option.exhaust)

definition walk_ends :: "nat \<Rightarrow> (nat \<Rightarrow> ynode) \<Rightarrow> gtype \<Rightarrow> string \<Rightarrow> ynode \<Rightarrow> bool" where
  "walk_ends k doc t path v \<longleftrightarrow> (\<exists>r. unknown_keys k doc t path v = Some r)"

lemma walk_ends_mapping:
  "walk_ends (Suc k) doc (GStruct fs) path (YMapping kvs) \<longleftrightarrow>
     (\<forall>(key, v) \<in> set kvs. case key of
        YMerge \<Rightarrow> (case v of YSequence ms \<Rightarrow> \<forall>m \<in> set ms. walk_ends k doc (GStruct fs) path m
                   | _ \<Rightarrow> walk_ends k doc (GStruct fs) path v)
      | YKey name \<Rightarrow> (case map_of fs name of None \<Rightarrow> True | Some ft \<Rightarrow> walk_ends k doc ft (key_path path name) v))"
proof -
  have one: "(\<exists>r. (case key of YMerge \<Rightarrow> (case v of YSequence ms \<Rightarrow> append_all (map (unknown_keys k doc (GStruct fs) path) ms)
        | _ \<Rightarrow> unknown_keys k doc (GStruct fs) path v)
      | YKey name \<Rightarrow> (case map_of fs name of None \<Rightarrow> Some [key_path path name]
        | Some ft \<Rightarrow> unknown_keys k doc ft (key_path path name) v)) = Some r) \<longleftrightarrow>
     (case key of
        YMerge \<Rightarrow> (case v of YSequence ms \<Rightarrow> \<forall>m \<in> set ms. walk_ends k doc (GStruct fs) path m
                   | _ \<Rightarrow> walk_ends k doc (GStruct fs) path v)
      | YKey name \<Rightarrow> (case map_of fs name of None \<Rightarrow> True | Some ft \<Rightarrow> walk_ends k doc ft (key_path path name) v))" for key v
  proof (cases key)
    case (YKey name)
    then show ?thesis by (cases "map_of fs name") (simp_all add: walk_ends_def)
  next
    case YMerge
    then show ?thesis by (cases v) (simp_all only: ykey.case ynode.case walk_ends_def append_all_Some set_map ball_simps)
  qed
  show ?thesis
    unfolding walk_ends_def [of "Suc k"] unknown_keys.simps append_all_Some set_map ball_simps
    by (intro ball_cong refl) (simp only: one split_def)
qed

lemma walk_ends_sequence:
  "walk_ends (Suc k) doc (GSlice t) path (YSequence items) \<longleftrightarrow>
     (\<forall>(i, v) \<in> set (enumerate 0 items). walk_ends k doc t (item_path path i) v)"
  unfolding walk_ends_def unknown_keys.simps append_all_Some by auto

lemma walk_ends_mono: "walk_ends k doc t path v \<Longrightarrow> walk_ends (k + d) doc t path v"
proof (induction k arbitrary: t path v)
  case (Suc k)
  note IH = Suc.IH and p = Suc.prems
  show ?case
  proof (cases v)
    case (YAlias a)
    then show ?thesis using p IH [of t path "doc a"] by (simp add: walk_ends_def)
  next
    case (YMapping kvs)
    show ?thesis
    proof (cases t)
      case (GStruct fs)
      show ?thesis unfolding YMapping GStruct add_Suc walk_ends_mapping
      proof (clarify)
        fix key v assume m: "(key, v) \<in> set kvs"
        note e = p [unfolded YMapping GStruct walk_ends_mapping, rule_format, OF m, unfolded prod.case]
        show "case key of YMerge \<Rightarrow> (case v of YSequence ms \<Rightarrow> \<forall>m \<in> set ms. walk_ends (k + d) doc (GStruct fs) path m
              | _ \<Rightarrow> walk_ends (k + d) doc (GStruct fs) path v)
          | YKey name \<Rightarrow> (case map_of fs name of None \<Rightarrow> True | Some ft \<Rightarrow> walk_ends (k + d) doc ft (key_path path name) v)"
        proof (cases key)
          case (YKey name)
          then show ?thesis using e by (cases "map_of fs name") (simp_all add: IH)
        next
          case YMerge
          then show ?thesis using e by (cases v) (simp_all add: IH)
        qed
      qed
    qed (use YMapping in \<open>simp_all add: walk_ends_def\<close>)
  next
    case (YSequence items)
    show ?thesis
    proof (cases t)
      case (GSlice t')
      show ?thesis using p unfolding YSequence GSlice add_Suc walk_ends_sequence by (auto intro: IH)
    qed (use YSequence in \<open>simp_all add: walk_ends_def\<close>)
  qed (cases t; simp add: walk_ends_def)
qed (simp add: walk_ends_def)

lemma common_fuel:
  assumes "\<forall>x \<in> set xs. \<exists>k. P k x" "\<And>k d x. P k x \<Longrightarrow> P (k + d) x"
  shows "\<exists>k::nat. \<forall>x \<in> set xs. P k x"
  using assms(1)
proof (induction xs)
  case (Cons x xs)
  then obtain k1 k2 where "P k1 x" "\<forall>x \<in> set xs. P k2 x" by auto
  then have "P (k1 + k2) x" "\<forall>x \<in> set xs. P (k2 + k1) x" using assms(2) by blast+
  then show ?case by (intro exI [of _ "k1 + k2"]) (simp add: add.commute)
qed simp

definition ends :: "(nat \<Rightarrow> ynode) \<Rightarrow> ynode \<Rightarrow> bool" where
  "ends doc v \<longleftrightarrow> (\<forall>t path. \<exists>k. walk_ends k doc t path v)"

lemma ends_sequence:
  assumes "\<forall>v \<in> set items. ends doc v"
  shows "ends doc (YSequence items)"
  unfolding ends_def
proof (intro allI)
  fix t path
  show "\<exists>k. walk_ends k doc t path (YSequence items)"
  proof (cases t)
    case (GSlice t')
    have "\<forall>iv \<in> set (enumerate 0 items). \<exists>k. walk_ends k doc t' (item_path path (fst iv)) (snd iv)"
    proof
      fix iv assume "iv \<in> set (enumerate 0 items)"
      then have "snd iv \<in> set items" by (metis enumerate_eq_zip prod.collapse set_zip_rightD)
      then show "\<exists>k. walk_ends k doc t' (item_path path (fst iv)) (snd iv)" using assms unfolding ends_def by blast
    qed
    then obtain k where "\<forall>iv \<in> set (enumerate 0 items). walk_ends k doc t' (item_path path (fst iv)) (snd iv)"
      using common_fuel [of "enumerate 0 items" "\<lambda>k iv. walk_ends k doc t' (item_path path (fst iv)) (snd iv)"] walk_ends_mono
      by blast
    then have "walk_ends (Suc k) doc t path (YSequence items)" unfolding GSlice walk_ends_sequence by (simp add: split_def)
    then show ?thesis ..
  qed (auto intro!: exI [of _ 1] simp: walk_ends_def)
qed

lemma ends_mapping:
  assumes "\<And>kv. kv \<in> set kvs \<Longrightarrow> ends doc (snd kv) \<and> (\<forall>ms. snd kv = YSequence ms \<longrightarrow> (\<forall>m \<in> set ms. ends doc m))"
  shows "ends doc (YMapping kvs)"
  unfolding ends_def
proof (intro allI)
  fix t path
  show "\<exists>k. walk_ends k doc t path (YMapping kvs)"
  proof (cases t)
    case (GStruct fs)
    define entry where "entry k kv = (case fst kv of
        YMerge \<Rightarrow> (case snd kv of YSequence ms \<Rightarrow> \<forall>m \<in> set ms. walk_ends k doc (GStruct fs) path m
                   | _ \<Rightarrow> walk_ends k doc (GStruct fs) path (snd kv))
      | YKey name \<Rightarrow> (case map_of fs name of None \<Rightarrow> True | Some ft \<Rightarrow> walk_ends k doc ft (key_path path name) (snd kv)))" for k kv
    have one: "\<exists>k. entry k kv" if kv: "kv \<in> set kvs" for kv
    proof -
      have e: "ends doc (snd kv)" "\<And>ms m. snd kv = YSequence ms \<Longrightarrow> m \<in> set ms \<Longrightarrow> ends doc m"
        using assms [OF kv] by blast+
      have w: "\<exists>k. walk_ends k doc t path v" if "ends doc v" for t path v using that by (simp add: ends_def)
      show ?thesis
      proof (cases "fst kv")
        case (YKey name)
        then show ?thesis using w [OF e(1)] by (cases "map_of fs name") (simp_all add: entry_def)
      next
        case YMerge
        show ?thesis
        proof (cases "\<exists>ms. snd kv = YSequence ms")
          case True
          then obtain ms where ms: "snd kv = YSequence ms" by blast
          have "\<forall>m \<in> set ms. \<exists>k. walk_ends k doc (GStruct fs) path m" using w [OF e(2) [OF ms]] by blast
          then show ?thesis
            using common_fuel [of ms "\<lambda>k. walk_ends k doc (GStruct fs) path"] walk_ends_mono YMerge ms by (auto simp: entry_def)
        next
          case False
          then show ?thesis using w [OF e(1)] YMerge by (cases "snd kv") (simp_all add: entry_def)
        qed
      qed
    qed
    have mono: "entry (k + d) kv" if "entry k kv" for k d kv
    proof (cases "fst kv")
      case (YKey name)
      then show ?thesis using that walk_ends_mono by (cases "map_of fs name") (simp_all add: entry_def)
    next
      case YMerge
      then show ?thesis using that walk_ends_mono by (cases "snd kv") (simp_all add: entry_def)
    qed
    obtain k where "\<forall>kv \<in> set kvs. entry k kv" using common_fuel [of kvs entry] one mono by blast
    then have "walk_ends (Suc k) doc t path (YMapping kvs)"
      unfolding GStruct walk_ends_mapping by (simp only: entry_def split_def)
    then show ?thesis ..
  qed (auto intro!: exI [of _ 1] simp: walk_ends_def)
qed

lemma ends_below:
  assumes "\<And>a. a < n \<Longrightarrow> ends doc (doc a)"
  shows "aliases_below n v \<Longrightarrow> ends doc v \<and> (\<forall>ms. v = YSequence ms \<longrightarrow> (\<forall>m \<in> set ms. ends doc m))"
proof (induction v)
  case (YScalar s)
  then show ?case by (auto simp: ends_def walk_ends_def intro!: exI [of _ 1])
next
  case (YMapping kvs)
  have "ends doc (snd kv) \<and> (\<forall>ms. snd kv = YSequence ms \<longrightarrow> (\<forall>m \<in> set ms. ends doc m))" if "kv \<in> set kvs" for kv
    by (rule YMapping.IH [OF that]) (use YMapping.prems that in \<open>auto simp: snds.simps\<close>)
  then have "ends doc (YMapping kvs)" by (rule ends_mapping)
  then show ?case by simp
next
  case (YSequence items)
  then have "\<forall>v \<in> set items. ends doc v" by simp
  then show ?case using ends_sequence by simp
next
  case (YAlias a)
  then have e: "ends doc (doc a)" using assms by simp
  have "\<exists>k. walk_ends k doc t path (YAlias a)" for t path
  proof -
    obtain k where "walk_ends k doc t path (doc a)" using e unfolding ends_def by blast
    then have "walk_ends (Suc k) doc t path (YAlias a)" by (simp add: walk_ends_def)
    then show ?thesis ..
  qed
  then show ?case by (simp add: ends_def)
qed

lemma unknown_keys_returns:
  assumes "\<forall>a. aliases_below a (doc a)" "aliases_below n root"
  shows "\<exists>k out. unknown_keys k doc meta_type [] root = Some out"
proof -
  have "ends doc (doc a)" for a
  proof (induction a rule: less_induct)
    case (less a)
    show ?case using ends_below [OF less] assms(1) by blast
  qed
  then have "ends doc root" using ends_below [of n doc root] assms(2) by blast
  then show ?thesis unfolding ends_def walk_ends_def by blast
qed

end
