(* ===== verification/SkillConfig.thy ===== *)
theory SkillConfig
  imports Expand "HOL-Library.Finite_Map" "HOL-Library.List_Lexorder" "HOL-Library.Char_ord"
begin

text \<open>
  The stored configuration of skills (\<open>internal/skillconfig/skillconfig.go\<close>) and the merge of its two layers
  (\<open>MergeConfig\<close> in \<open>internal/skillstate/skillstate.go\<close>).  The workdir's file is writable by the agent, the global one is not; only
  the global one carries approvals.  A store is modelled after decoding.
\<close>

type_synonym fields = "(string, string) fmap"

record config_store =
  cf_skills :: "(string, fields) fmap"
  cf_defaults :: "(string, fields) fmap"
  cf_approved :: "(string, (string, fields) fmap) fmap"
  cf_from_workdir :: "string \<Rightarrow> string \<Rightarrow> bool"
  cf_merged :: bool

definition empty_config :: config_store where
  "empty_config =
     \<lparr>cf_skills = fmempty, cf_defaults = fmempty, cf_approved = fmempty, cf_from_workdir = (\<lambda>_ _. False), cf_merged = False\<rparr>"

definition global_approved_key :: string where "global_approved_key = ''__global__''"

section \<open>Files\<close>

definition config_path :: "string \<Rightarrow> string" where
  "config_path workdir = path_join [workdir, ''.opencode'', ''skill-config.yaml'']"

datatype config_file = NoConfig | BrokenConfig | Config config_store

datatype config_error = ConfigUnreadable | ConfigNotSaved

definition load_config :: "config_file \<Rightarrow> config_error + config_store" where
  "load_config f = (case f of NoConfig \<Rightarrow> Inr empty_config | BrokenConfig \<Rightarrow> Inl ConfigUnreadable | Config s \<Rightarrow> Inr s)"

text \<open>The provenance of a merge is not written.\<close>

definition save_config :: "bool \<Rightarrow> config_store \<Rightarrow> config_error + config_file" where
  "save_config ok s = (if ok then Inr (Config (s\<lparr>cf_from_workdir := (\<lambda>_ _. False), cf_merged := False\<rparr>)) else Inl ConfigNotSaved)"

section \<open>Operations\<close>

definition cf_get :: "string \<Rightarrow> string \<Rightarrow> config_store \<Rightarrow> string option" where
  "cf_get skill field s = Option.bind (fmlookup (cf_skills s) skill) (\<lambda>m. fmlookup m field)"

definition fields_of :: "string \<Rightarrow> (string, fields) fmap \<Rightarrow> fields" where
  "fields_of skill m = (case fmlookup m skill of None \<Rightarrow> fmempty | Some f \<Rightarrow> f)"

definition cf_set :: "string \<Rightarrow> string \<Rightarrow> string \<Rightarrow> config_store \<Rightarrow> config_store" where
  "cf_set skill field v s = s\<lparr>cf_skills := fmupd skill (fmupd field v (fields_of skill (cf_skills s))) (cf_skills s)\<rparr>"

definition cf_unset :: "string \<Rightarrow> string \<Rightarrow> config_store \<Rightarrow> bool \<times> config_store" where
  "cf_unset skill field s =
     (case fmlookup (cf_skills s) skill of
        None \<Rightarrow> (False, s)
      | Some m \<Rightarrow>
          if fmlookup m field = None then (False, s)
          else let m' = fmdrop field m
               in (True, s\<lparr>cf_skills := (if m' = fmempty then fmdrop skill (cf_skills s) else fmupd skill m' (cf_skills s))\<rparr>))"

definition cf_remove_skill :: "string \<Rightarrow> config_store \<Rightarrow> bool \<times> config_store" where
  "cf_remove_skill skill s =
     (if fmlookup (cf_skills s) skill = None then (False, s) else (True, s\<lparr>cf_skills := fmdrop skill (cf_skills s)\<rparr>))"

definition cf_get_default :: "string \<Rightarrow> string \<Rightarrow> config_store \<Rightarrow> string option" where
  "cf_get_default skill field s = Option.bind (fmlookup (cf_defaults s) skill) (\<lambda>m. fmlookup m field)"

definition cf_set_default :: "string \<Rightarrow> string \<Rightarrow> string \<Rightarrow> config_store \<Rightarrow> config_store" where
  "cf_set_default skill field v s =
     s\<lparr>cf_defaults := fmupd skill (fmupd field v (fields_of skill (cf_defaults s))) (cf_defaults s)\<rparr>"

definition cf_remove_defaults :: "string \<Rightarrow> config_store \<Rightarrow> bool \<times> config_store" where
  "cf_remove_defaults skill s =
     (if fmlookup (cf_defaults s) skill = None then (False, s) else (True, s\<lparr>cf_defaults := fmdrop skill (cf_defaults s)\<rparr>))"

definition fields_for :: "string \<Rightarrow> config_store \<Rightarrow> string list option" where
  "fields_for skill s = map_option (\<lambda>m. sorted_list_of_fset (fmdom m)) (fmlookup (cf_skills s) skill)"

text \<open>Anchors: the workdir's own first, then the global one.\<close>

definition approved_for :: "string \<Rightarrow> string \<Rightarrow> config_store \<Rightarrow> fields option" where
  "approved_for workdir_id skill s =
     (let at = (\<lambda>key. Option.bind (fmlookup (cf_approved s) key) (\<lambda>m. fmlookup m skill))
      in if workdir_id \<noteq> [] \<and> at workdir_id \<noteq> None then at workdir_id else at global_approved_key)"

definition record_approved :: "string \<Rightarrow> string \<Rightarrow> fields \<Rightarrow> config_store \<Rightarrow> config_store" where
  "record_approved workdir_id skill vs s =
     s\<lparr>cf_approved := fmupd workdir_id
        (fmupd skill vs (case fmlookup (cf_approved s) workdir_id of None \<Rightarrow> fmempty | Some m \<Rightarrow> m)) (cf_approved s)\<rparr>"

section \<open>The merge\<close>

definition skills_of :: "config_store option \<Rightarrow> (string, fields) fmap" where
  "skills_of l = (case l of None \<Rightarrow> fmempty | Some s \<Rightarrow> cf_skills s)"

definition drop_empty :: "(string, fields) fmap \<Rightarrow> (string, fields) fmap" where
  "drop_empty m = fmfilter (\<lambda>k. fmlookup m k \<noteq> Some fmempty) m"

definition merge_config :: "config_store option \<Rightarrow> config_store option \<Rightarrow> config_store" where
  "merge_config glob work =
     (let g = skills_of glob; w = skills_of work;
          own = (\<lambda>skill field. Option.bind (fmlookup w skill) (\<lambda>m. fmlookup m field));
          glo = (\<lambda>skill field. Option.bind (fmlookup g skill) (\<lambda>m. fmlookup m field))
      in empty_config
        \<lparr>cf_skills := drop_empty (g ++\<^sub>f fmmap_keys (\<lambda>skill m. fields_of skill g ++\<^sub>f m) w),
         cf_approved := (case glob of None \<Rightarrow> fmempty | Some s \<Rightarrow> cf_approved s),
         cf_from_workdir := (\<lambda>skill field. own skill field \<noteq> None \<and> own skill field \<noteq> glo skill field),
         cf_merged := True\<rparr>)"

section \<open>What is read\<close>

lemma cf_get_set: "cf_get sk f (cf_set skill field v s) = (if sk = skill \<and> f = field then Some v else cf_get sk f s)"
  by (auto simp: cf_get_def cf_set_def fields_of_def split: option.split)

lemma cf_get_unset:
  "cf_get sk f (snd (cf_unset skill field s)) = (if sk = skill \<and> f = field then None else cf_get sk f s)"
proof -
  have "fmdrop field m = fmempty \<Longrightarrow> f \<noteq> field \<Longrightarrow> fmlookup m f = None" for m :: fields
    by (metis fmempty_lookup fmlookup_drop)
  then show ?thesis by (auto simp: cf_get_def cf_unset_def Let_def split: option.splits)
qed

lemma cf_get_remove: "cf_get sk f (snd (cf_remove_skill skill s)) = (if sk = skill then None else cf_get sk f s)"
  by (auto simp: cf_get_def cf_remove_skill_def)

lemma drop_empty_get: "Option.bind (fmlookup (drop_empty m) k) (\<lambda>x. fmlookup x f) = Option.bind (fmlookup m k) (\<lambda>x. fmlookup x f)"
  by (cases "fmlookup m k") (auto simp: drop_empty_def)

lemma merge_get:
  "cf_get skill field (merge_config glob work) =
     (case cf_get skill field (case work of None \<Rightarrow> empty_config | Some w \<Rightarrow> w) of
        Some v \<Rightarrow> Some v | None \<Rightarrow> cf_get skill field (case glob of None \<Rightarrow> empty_config | Some g \<Rightarrow> g))"
proof -
  have g: "cf_get skill field (case l of None \<Rightarrow> empty_config | Some g \<Rightarrow> g) = Option.bind (fmlookup (skills_of l) skill) (\<lambda>m. fmlookup m field)" for l
    by (cases l) (simp_all add: cf_get_def skills_of_def empty_config_def)
  have "cf_get skill field (merge_config glob work) =
      Option.bind (fmlookup (skills_of glob ++\<^sub>f fmmap_keys (\<lambda>skill m. fields_of skill (skills_of glob) ++\<^sub>f m) (skills_of work)) skill)
        (\<lambda>m. fmlookup m field)"
    unfolding merge_config_def cf_get_def Let_def by (simp add: drop_empty_get)
  then show ?thesis unfolding g
    by (cases "fmlookup (skills_of work) skill"; cases "fmlookup (skills_of glob) skill")
      (simp_all add: fields_of_def fmdom_notI fmdomI split: option.split)
qed

end
