(* ===== verification/Keychain.thy ===== *)
theory Keychain
  imports Bundle
begin

text \<open>
  Secrets in the operating system's keychain (\<open>internal/keychain/keychain.go\<close>): how a scope and a skill name become a
  service, how a failure of the backend is told from an absent secret, the fallback from a scoped
  to the unscoped secret, the remembered defaults, and the file that stands in for the keychain in tests.
  The library behind it is an interface, the locale \<open>keyring\<close>, which the file interprets.
\<close>

section \<open>Services\<close>

definition defaults_scope :: string where "defaults_scope = ''__defaults__''"

definition workdir_id :: "(string \<Rightarrow> string) \<Rightarrow> string \<Rightarrow> string" where
  "workdir_id sha workdir = hex_encode (sha workdir)"

definition escape_slashes :: "string \<Rightarrow> string" where
  "escape_slashes s = concat (map (\<lambda>c. if c = slash then ''%2F'' else [c]) s)"

definition service :: "string \<Rightarrow> string" where
  "service skill = ''omac/'' @ escape_slashes skill"

definition scoped_service :: "string \<Rightarrow> string \<Rightarrow> string" where
  "scoped_service scope skill =
     (if scope = [] then service skill else ''omac/'' @ scope @ ''/'' @ escape_slashes skill)"

section \<open>Reading\<close>

text \<open>What the library answers, and what the package makes of it.\<close>

datatype raw = RawOk string | RawNotFound | RawErr string

datatype key_error = KeyNotFound | KeyUnavailable string | KeyFailed string string

definition is_unavailable :: "string \<Rightarrow> bool" where
  "is_unavailable msg \<longleftrightarrow>
     contains_str msg ''org.freedesktop.secrets'' \<or> contains_str msg ''dbus'' \<or> contains_str msg ''D-Bus'' \<or>
     (contains_str msg ''dial unix'' \<and>
       (contains_str msg ''no such file or directory'' \<or> contains_str msg ''connection refused'' \<or>
        contains_str msg ''permission denied'')) \<or>
     contains_str msg ''failed to unlock correct collection''"

text \<open>The text of an error, and its cause alone.\<close>

definition key_error_text :: "key_error \<Rightarrow> string" where
  "key_error_text e =
     (case e of
        KeyNotFound \<Rightarrow> ''keychain: secret not found''
      | KeyUnavailable r \<Rightarrow> ''keychain: secret not found: keychain: backend unavailable: '' @ r
      | KeyFailed at r \<Rightarrow> ''keychain get '' @ at @ '': '' @ r)"

definition backend_cause :: "key_error \<Rightarrow> string" where
  "backend_cause e = (case e of KeyUnavailable r \<Rightarrow> r | _ \<Rightarrow> key_error_text e)"

definition get_scoped :: "('s \<Rightarrow> string \<Rightarrow> string \<Rightarrow> raw) \<Rightarrow> string \<Rightarrow> string \<Rightarrow> string \<Rightarrow> 's \<Rightarrow> key_error + string" where
  "get_scoped get scope skill name s =
     (let svc = scoped_service scope skill
      in case get s svc name of
           RawOk v \<Rightarrow> Inr v
         | RawNotFound \<Rightarrow> Inl KeyNotFound
         | RawErr e \<Rightarrow> if is_unavailable e then Inl (KeyUnavailable e) else Inl (KeyFailed (svc @ ''/'' @ name) e))"

definition is_not_found :: "key_error \<Rightarrow> bool" where
  "is_not_found e \<longleftrightarrow> (case e of KeyFailed _ _ \<Rightarrow> False | _ \<Rightarrow> True)"

definition get_with_fallback :: "('s \<Rightarrow> string \<Rightarrow> string \<Rightarrow> raw) \<Rightarrow> string \<Rightarrow> string \<Rightarrow> string \<Rightarrow> 's \<Rightarrow> key_error + string" where
  "get_with_fallback get scope skill name s =
     (if scope \<noteq> [] then
        (case get_scoped get scope skill name s of
           Inr v \<Rightarrow> Inr v
         | Inl e \<Rightarrow> if \<not> is_not_found e then Inl e else get_scoped get [] skill name s)
      else get_scoped get [] skill name s)"

definition has_scoped :: "('s \<Rightarrow> string \<Rightarrow> string \<Rightarrow> raw) \<Rightarrow> string \<Rightarrow> string \<Rightarrow> string \<Rightarrow> 's \<Rightarrow> key_error + bool" where
  "has_scoped get scope skill name s =
     (let svc = scoped_service scope skill
      in case get s svc name of
           RawOk v \<Rightarrow> Inr True
         | RawNotFound \<Rightarrow> Inr False
         | RawErr e \<Rightarrow> if is_unavailable e then Inr False else Inl (KeyFailed (svc @ ''/'' @ name) e))"

definition get_default :: "('s \<Rightarrow> string \<Rightarrow> string \<Rightarrow> raw) \<Rightarrow> string \<Rightarrow> string \<Rightarrow> 's \<Rightarrow> key_error + string" where
  "get_default get skill name s = get_scoped get defaults_scope skill name s"

section \<open>Writing\<close>

type_synonym 's put = "string \<Rightarrow> string \<Rightarrow> string \<Rightarrow> 's \<Rightarrow> string + 's"

definition set_scoped :: "'s put \<Rightarrow> string \<Rightarrow> string \<Rightarrow> string \<Rightarrow> string \<Rightarrow> 's \<Rightarrow> string + 's" where
  "set_scoped put scope skill name v s = put (scoped_service scope skill) name v s"

text \<open>The mirror is best effort.\<close>

definition set_with_default :: "'s put \<Rightarrow> string \<Rightarrow> string \<Rightarrow> string \<Rightarrow> string \<Rightarrow> 's \<Rightarrow> string + 's" where
  "set_with_default put scope skill name v s =
     (case set_scoped put scope skill name v s of
        Inl e \<Rightarrow> Inl e
      | Inr s1 \<Rightarrow>
          if scope = defaults_scope then Inr s1
          else Inr (case set_scoped put defaults_scope skill name v s1 of Inl _ \<Rightarrow> s1 | Inr s2 \<Rightarrow> s2))"

definition delete_scoped :: "(string \<Rightarrow> string \<Rightarrow> 's \<Rightarrow> string + 's) \<Rightarrow> string \<Rightarrow> string \<Rightarrow> string \<Rightarrow> 's \<Rightarrow> string + 's" where
  "delete_scoped del scope skill name s = del (scoped_service scope skill) name s"

fun delete_all_scoped :: "(string \<Rightarrow> string \<Rightarrow> 's \<Rightarrow> string + 's) \<Rightarrow> string \<Rightarrow> string \<Rightarrow> string list \<Rightarrow> 's \<Rightarrow> string option \<times> 's" where
  "delete_all_scoped del scope skill [] s = (None, s)"
| "delete_all_scoped del scope skill (n # ns) s =
     (case delete_scoped del scope skill n s of
        Inl e \<Rightarrow> (Some e, s) | Inr s' \<Rightarrow> delete_all_scoped del scope skill ns s')"

section \<open>The file\<close>

text \<open>The entries of the file, or nothing that decodes; whether it can be written.\<close>

record mock =
  mk_entries :: "((string \<times> string) \<times> string) list option"
  mk_writable :: bool

definition mock_get :: "mock \<Rightarrow> string \<Rightarrow> string \<Rightarrow> raw" where
  "mock_get m svc name =
     (case mk_entries m of
        None \<Rightarrow> RawErr ''invalid mock file''
      | Some es \<Rightarrow> (case map_of es (svc, name) of None \<Rightarrow> RawNotFound | Some v \<Rightarrow> RawOk v))"

definition mock_save :: "((string \<times> string) \<times> string) list \<Rightarrow> mock \<Rightarrow> string + mock" where
  "mock_save es m = (if mk_writable m then Inr (m\<lparr>mk_entries := Some es\<rparr>) else Inl ''cannot write mock file'')"

fun update_entry :: "string \<times> string \<Rightarrow> string \<Rightarrow> ((string \<times> string) \<times> string) list \<Rightarrow> ((string \<times> string) \<times> string) list" where
  "update_entry k v [] = [(k, v)]"
| "update_entry k v ((k', v') # es) = (if k' = k then (k', v) # es else (k', v') # update_entry k v es)"

fun remove_first :: "string \<times> string \<Rightarrow> ((string \<times> string) \<times> string) list \<Rightarrow> ((string \<times> string) \<times> string) list" where
  "remove_first k [] = []"
| "remove_first k ((k', v') # es) = (if k' = k then es else (k', v') # remove_first k es)"

definition mock_put :: "mock put" where
  "mock_put svc name v m =
     (case mk_entries m of None \<Rightarrow> Inl ''invalid mock file'' | Some es \<Rightarrow> mock_save (update_entry (svc, name) v es) m)"

definition mock_delete :: "string \<Rightarrow> string \<Rightarrow> mock \<Rightarrow> string + mock" where
  "mock_delete svc name m =
     (case mk_entries m of
        None \<Rightarrow> Inl ''invalid mock file''
      | Some es \<Rightarrow> if map_of es (svc, name) = None then Inr m else mock_save (remove_first (svc, name) es) m)"

section \<open>Services are told apart\<close>

lemma escape_no_slash: "slash \<notin> set (escape_slashes s)"
  by (auto simp: escape_slashes_def)

lemma escape_plain: "slash \<notin> set s \<Longrightarrow> escape_slashes s = s"
  by (induction s) (auto simp: escape_slashes_def)

text \<open>Scopes hold no slash: a workdir's is hexadecimal, the others are empty or reserved.\<close>

lemma workdir_id_no_slash: "slash \<notin> set (workdir_id sha wd)"
proof -
  have "list_all (\<lambda>k. lower_hex k \<noteq> slash) [0..<16]" by code_simp
  then have l: "lower_hex k \<noteq> slash" if "k < 16" for k using that by (simp add: list_all_iff)
  have b: "lower_hex (code c div 16) \<noteq> slash" "lower_hex (code c mod 16) \<noteq> slash" for c
    by (rule l; simp add: less_mult_imp_div_less)+
  show ?thesis using b by (auto simp: workdir_id_def hex_encode_def dest: sym)
qed

lemma scoped_service_inj:
  assumes "slash \<notin> set scope" "slash \<notin> set scope'" "scoped_service scope skill = scoped_service scope' skill'"
  shows "scope = scope' \<and> escape_slashes skill = escape_slashes skill'"
proof -
  have one: "split_on slash (escape_slashes s) = [escape_slashes s]" for s using escape_no_slash by (rule split_on_none)
  have s: "split_on slash (scoped_service sc sk) = (if sc = [] then [''omac'', escape_slashes sk] else [''omac'', sc, escape_slashes sk])"
    if "slash \<notin> set sc" for sc sk
    using that one by (simp add: scoped_service_def service_def split_on_append_sep)
  show ?thesis using s [OF assms(1), of skill] s [OF assms(2), of skill'] assms(3) by (auto split: if_splits)
qed

section \<open>The interface of a keychain\<close>

locale keyring =
  fixes ok :: "'s \<Rightarrow> bool"
    and get :: "'s \<Rightarrow> string \<Rightarrow> string \<Rightarrow> raw"
    and put :: "string \<Rightarrow> string \<Rightarrow> string \<Rightarrow> 's \<Rightarrow> string + 's"
    and del :: "string \<Rightarrow> string \<Rightarrow> 's \<Rightarrow> string + 's"
  assumes ok_put: "ok s \<Longrightarrow> put svc name v s = Inr s' \<Longrightarrow> ok s'"
    and ok_del: "ok s \<Longrightarrow> del svc name s = Inr s' \<Longrightarrow> ok s'"
    and get_put: "ok s \<Longrightarrow> put svc name v s = Inr s' \<Longrightarrow> get s' svc' name' = (if svc' = svc \<and> name' = name then RawOk v else get s svc' name')"
    and get_del: "ok s \<Longrightarrow> del svc name s = Inr s' \<Longrightarrow> get s' svc' name' = (if svc' = svc \<and> name' = name then RawNotFound else get s svc' name')"
begin

lemma get_scoped_put:
  assumes "ok s" "set_scoped put scope skill name v s = Inr s'" "slash \<notin> set scope" "slash \<notin> set scope'"
    and "slash \<notin> set skill" "slash \<notin> set skill'"
  shows "get_scoped get scope' skill' name' s' =
    (if scope' = scope \<and> skill' = skill \<and> name' = name then Inr v else get_scoped get scope' skill' name' s)"
proof -
  have "scoped_service scope' skill' = scoped_service scope skill \<longleftrightarrow> scope' = scope \<and> skill' = skill"
    using scoped_service_inj [OF assms(4,3), of skill' skill] assms(5,6) by (auto simp: escape_plain)
  then show ?thesis
    using get_put [OF assms(1) assms(2)[unfolded set_scoped_def]] by (simp add: get_scoped_def Let_def)
qed

text \<open>The mirror only adds the remembered default.\<close>

lemma get_scoped_set_with_default:
  assumes "ok s" "set_with_default put scope skill name v s = Inr s'" "slash \<notin> set scope" "slash \<notin> set scope'"
    and "slash \<notin> set skill" "slash \<notin> set skill'" "scope' \<noteq> defaults_scope"
  shows "get_scoped get scope' skill' name' s' =
    (if scope' = scope \<and> skill' = skill \<and> name' = name then Inr v else get_scoped get scope' skill' name' s)"
proof -
  have d: "slash \<notin> set defaults_scope" by (simp add: defaults_scope_def)
  obtain s1 where s1: "set_scoped put scope skill name v s = Inr s1"
    using assms(2) by (auto simp: set_with_default_def split: sum.splits)
  note g1 = get_scoped_put [OF assms(1) s1 assms(3,4,5,6)]
  have ok1: "ok s1" using ok_put [OF assms(1)] s1 by (simp add: set_scoped_def)
  show ?thesis
  proof (cases "s' = s1")
    case False
    then have "set_scoped put defaults_scope skill name v s1 = Inr s'"
      using assms(2) s1 by (auto simp: set_with_default_def split: sum.splits if_splits)
    then show ?thesis using get_scoped_put [OF ok1 _ d assms(4,5,6)] g1 assms(7) by simp
  qed (simp add: g1)
qed

lemma get_with_fallback_set:
  assumes "ok s" "set_with_default put scope skill name v s = Inr s'" "slash \<notin> set scope" "slash \<notin> set scope'"
    and "slash \<notin> set skill" "slash \<notin> set skill'" "scope' \<noteq> defaults_scope"
  shows "get_with_fallback get scope' skill' name' s' =
    (if skill' = skill \<and> name' = name \<and>
        (scope' = scope \<or> scope = [] \<and> (\<exists>e. get_scoped get scope' skill name s = Inl e \<and> is_not_found e)) then Inr v
     else get_with_fallback get scope' skill' name' s)"
proof -
  note g = get_scoped_set_with_default [OF assms(1-3) _ assms(5,6)]
  have e: "slash \<notin> set []" "[] \<noteq> defaults_scope" by (simp_all add: defaults_scope_def)
  show ?thesis
    unfolding get_with_fallback_def g [OF assms(4,7)] g [OF e]
    by (cases "get_scoped get scope' skill' name' s") auto
qed

lemma deleted_secret_gone:
  assumes "ok s" "delete_scoped del scope skill name s = Inr s'"
  shows "get_scoped get scope skill name s' = Inl KeyNotFound"
  using get_del [OF assms(1) assms(2)[unfolded delete_scoped_def]] by (simp add: get_scoped_def)

end

section \<open>The file is a keychain\<close>

definition mock_ok :: "mock \<Rightarrow> bool" where
  "mock_ok m \<longleftrightarrow> (\<forall>es. mk_entries m = Some es \<longrightarrow> distinct (map fst es))"

lemma map_of_update_entry: "map_of (update_entry k v es) k' = (if k' = k then Some v else map_of es k')"
  by (induction k v es rule: update_entry.induct) auto

lemma keys_update_entry: "set (map fst (update_entry k v es)) = insert k (set (map fst es))"
  by (induction k v es rule: update_entry.induct) auto

lemma distinct_update_entry: "distinct (map fst es) \<Longrightarrow> distinct (map fst (update_entry k v es))"
  by (induction k v es rule: update_entry.induct) (use keys_update_entry in auto)

lemma keys_remove_first: "set (map fst (remove_first k es)) \<subseteq> set (map fst es)"
  by (induction k es rule: remove_first.induct) auto

lemma distinct_remove_first: "distinct (map fst es) \<Longrightarrow> distinct (map fst (remove_first k es))"
proof (induction k es rule: remove_first.induct)
  case (2 k k' v' es)
  then show ?case using keys_remove_first [of k es] by auto
qed simp

lemma map_of_remove_first:
  "distinct (map fst es) \<Longrightarrow> map_of (remove_first k es) x = (if x = k then None else map_of es x)"
proof (induction k es rule: remove_first.induct)
  case (2 k k' v' es)
  show ?case
  proof (cases "k' = k")
    case True
    then have "map_of es k = None" using 2(2) by (simp add: map_of_eq_None_iff)
    then show ?thesis using True by simp
  next
    case False
    then show ?thesis using 2 by (cases "x = k") simp_all
  qed
qed simp

interpretation mockring: keyring mock_ok mock_get mock_put mock_delete
proof
  fix s s' :: mock and svc name v svc' name' :: string
  show "mock_ok s \<Longrightarrow> mock_put svc name v s = Inr s' \<Longrightarrow> mock_ok s'"
    by (auto simp: mock_ok_def mock_put_def mock_save_def distinct_update_entry split: option.splits if_splits)
  show "mock_ok s \<Longrightarrow> mock_delete svc name s = Inr s' \<Longrightarrow> mock_ok s'"
    by (auto simp: mock_ok_def mock_delete_def mock_save_def distinct_remove_first split: option.splits if_splits)
  show "mock_ok s \<Longrightarrow> mock_put svc name v s = Inr s' \<Longrightarrow>
      mock_get s' svc' name' = (if svc' = svc \<and> name' = name then RawOk v else mock_get s svc' name')"
    by (auto simp: mock_put_def mock_save_def mock_get_def map_of_update_entry split: option.splits if_splits)
  show "mock_ok s \<Longrightarrow> mock_delete svc name s = Inr s' \<Longrightarrow>
      mock_get s' svc' name' = (if svc' = svc \<and> name' = name then RawNotFound else mock_get s svc' name')"
    by (auto simp: mock_ok_def mock_delete_def mock_save_def mock_get_def map_of_remove_first split: option.splits if_splits)
qed


definition demo_mock :: mock where
  "demo_mock = \<lparr>mk_entries = Some [((''omac/0a/s'', ''TOKEN''), ''own'')], mk_writable = True\<rparr>"


end
