(* ===== verification/SkillState.thy ===== *)
theory SkillState
  imports Manifest SkillConfig Keychain Registry
begin

text \<open>
  Whether a registered skill may be mounted, and with which values (\<open>internal/skillstate/skillstate.go\<close>): the
  structural half (\<open>Inspect\<close>), the values (\<open>Fill\<close>), the merge of the configuration layers being in \<open>SkillConfig\<close>,
  and the summary for the callers that keep serving (\<open>StallFor\<close>).
\<close>

section \<open>Problems\<close>

datatype problem_kind =
    MetaBroken | BundleDrift | MissingSecret | InvalidSecret | InvalidConfig | KeychainUnavailable | MissingField

datatype problem_cause =
    BrokenManifest | NoSidecarBlock | FilesChanged | BadValue value_error | ChangedSinceRegister | NeverApproved
  | ApprovedRemoved | SecretUnset | BackendSays string | FieldUnset

datatype remedy = Reregister | RepromptFields | FixExported | SetSecret | InstallBackend | NoRemedy

record problem =
  pb_kind :: problem_kind
  pb_skill :: string
  pb_field :: string
  pb_cause :: problem_cause
  pb_fix :: remedy
  pb_optional :: bool

datatype value_source =
    Stored | FromDefault | FromKeychain | FromEnvPassthrough | MissingReq | MissingOpt | Unreadable | FromDefaultEnv string

record options =
  ro_scope :: string
  ro_env :: "string \<Rightarrow> string option"
  ro_accept_drift :: bool
  ro_skip_pattern :: bool
  ro_skip_hash :: bool
  ro_regex :: regex
  ro_keychain :: "string \<Rightarrow> string \<Rightarrow> string \<Rightarrow> key_error + string"

record armed =
  ar_entry :: reg_entry
  ar_meta :: "meta option"
  ar_mount :: string
  ar_bundle :: string
  ar_bundle_failed :: bool
  ar_secrets :: "(string \<times> string) list"
  ar_config :: "(string \<times> string) list"
  ar_secret_sources :: "(string \<times> value_source) list"
  ar_config_sources :: "(string \<times> value_source) list"

section \<open>Structure\<close>

definition bare_armed :: "reg_entry \<Rightarrow> meta option \<Rightarrow> string \<Rightarrow> armed" where
  "bare_armed e m mount =
     \<lparr>ar_entry = e, ar_meta = m, ar_mount = mount, ar_bundle = [], ar_bundle_failed = False, ar_secrets = [], ar_config = [],
      ar_secret_sources = [], ar_config_sources = []\<rparr>"

definition skill_problem :: "problem_kind \<Rightarrow> reg_entry \<Rightarrow> problem_cause \<Rightarrow> problem" where
  "skill_problem kind e c =
     \<lparr>pb_kind = kind, pb_skill = re_name e, pb_field = [], pb_cause = c, pb_fix = Reregister, pb_optional = False\<rparr>"

text \<open>With the hash of the directory, if it could be taken.\<close>

definition inspect_meta :: "options \<Rightarrow> string option \<Rightarrow> meta \<Rightarrow> sidecar_meta \<Rightarrow> reg_entry \<Rightarrow> armed \<times> problem list" where
  "inspect_meta ro hash m sc e =
     (let a = bare_armed e (Some m) (mount_or_default sc (re_name e))
      in if ro_skip_hash ro then (a, [])
         else case hash of
           None \<Rightarrow> (a\<lparr>ar_bundle_failed := True\<rparr>, [])
         | Some h \<Rightarrow> (a\<lparr>ar_bundle := h\<rparr>,
             if \<not> ro_accept_drift ro \<and> h \<noteq> re_bundle_hash e then [skill_problem BundleDrift e FilesChanged] else []))"

text \<open>With the manifest, if it could be loaded.\<close>

definition inspect :: "options \<Rightarrow> meta option \<Rightarrow> string option \<Rightarrow> reg_entry \<Rightarrow> armed \<times> problem list" where
  "inspect ro loaded hash e =
     (case loaded of
        None \<Rightarrow> (bare_armed e None (re_name e), [skill_problem MetaBroken e BrokenManifest])
      | Some m \<Rightarrow> (case mt_sidecar m of
          None \<Rightarrow> (bare_armed e (Some m) (re_name e), [skill_problem MetaBroken e NoSidecarBlock])
        | Some sc \<Rightarrow> inspect_meta ro hash m sc e))"

section \<open>Secrets\<close>

text \<open>A pass remembers that the backend is gone.\<close>

definition get_secret :: "options \<Rightarrow> key_error option \<Rightarrow> string \<Rightarrow> string \<Rightarrow> (key_error + string) \<times> key_error option" where
  "get_secret ro down skill name =
     (case down of
        Some e \<Rightarrow> (Inl e, down)
      | None \<Rightarrow> (case ro_keychain ro (ro_scope ro) skill name of
          Inr v \<Rightarrow> (Inr v, None)
        | Inl e \<Rightarrow> (Inl e, case e of KeyUnavailable _ \<Rightarrow> Some e | _ \<Rightarrow> None)))"

definition secret_from_env :: "options \<Rightarrow> string list \<Rightarrow> string \<Rightarrow> string option" where
  "secret_from_env ro passthrough name =
     (if name \<notin> set passthrough then None
      else case ro_env ro name of None \<Rightarrow> None | Some v \<Rightarrow> if v = [] then None else Some v)"

definition secret_problem :: "string \<Rightarrow> string \<Rightarrow> key_error \<Rightarrow> problem" where
  "secret_problem skill name err =
     (let unavailable = (case err of KeyUnavailable _ \<Rightarrow> True | _ \<Rightarrow> False) \<or> is_unavailable (key_error_text err);
          p = \<lparr>pb_kind = KeychainUnavailable, pb_skill = skill, pb_field = name, pb_cause = BackendSays (backend_cause err),
               pb_fix = (if unavailable then InstallBackend else NoRemedy), pb_optional = False\<rparr>
      in if unavailable \<or> \<not> is_not_found err then p
         else p\<lparr>pb_kind := MissingSecret, pb_cause := SecretUnset, pb_fix := SetSecret\<rparr>)"

definition bad_secret :: "string \<Rightarrow> secret_spec \<Rightarrow> value_error \<Rightarrow> problem" where
  "bad_secret skill spec err =
     \<lparr>pb_kind = InvalidSecret, pb_skill = skill, pb_field = ss_name spec, pb_cause = BadValue err, pb_fix = FixExported,
      pb_optional = \<not> secret_required spec\<rparr>"

text \<open>What one secret becomes: a value with its source and perhaps a problem, or none.\<close>

definition secret_step :: "options \<Rightarrow> string list \<Rightarrow> secret_spec \<Rightarrow> key_error + string \<Rightarrow> armed \<Rightarrow> armed \<times> problem list" where
  "secret_step ro passthrough spec res a =
     (let skill = re_name (ar_entry a); name = ss_name spec
      in case res of
           Inr v \<Rightarrow> (a\<lparr>ar_secrets := (name, v) # ar_secrets a, ar_secret_sources := (name, FromKeychain) # ar_secret_sources a\<rparr>, [])
         | Inl err \<Rightarrow> (case secret_from_env ro passthrough name of
             Some v \<Rightarrow> (a\<lparr>ar_secrets := (name, v) # ar_secrets a,
                         ar_secret_sources := (name, FromEnvPassthrough) # ar_secret_sources a\<rparr>,
                       if ro_skip_pattern ro then []
                       else case validate_secret_value (ro_regex ro) spec v of
                         None \<Rightarrow> [] | Some e \<Rightarrow> [bad_secret skill spec e])
           | None \<Rightarrow>
               (a\<lparr>ar_secret_sources :=
                   (name, case err of KeyUnavailable _ \<Rightarrow> Unreadable
                          | _ \<Rightarrow> if secret_required spec then MissingReq else MissingOpt) # ar_secret_sources a\<rparr>,
                if secret_required spec then [secret_problem skill name err] else [])))"

fun resolve_secrets ::
    "options \<Rightarrow> string list \<Rightarrow> secret_spec list \<Rightarrow> key_error option \<Rightarrow> armed \<Rightarrow> armed \<times> problem list \<times> key_error option" where
  "resolve_secrets ro passthrough [] down a = (a, [], down)"
| "resolve_secrets ro passthrough (spec # specs) down a =
     (let (res, down') = get_secret ro down (re_name (ar_entry a)) (ss_name spec);
          (a', ps) = secret_step ro passthrough spec res a;
          (a'', ps', down'') = resolve_secrets ro passthrough specs down' a'
      in (a'', ps @ ps', down''))"

section \<open>Configuration\<close>

definition config_problem :: "string \<Rightarrow> string \<Rightarrow> problem_cause \<Rightarrow> problem" where
  "config_problem skill field c =
     \<lparr>pb_kind = InvalidConfig, pb_skill = skill, pb_field = field, pb_cause = c, pb_fix = RepromptFields, pb_optional = False\<rparr>"

text \<open>One field: the value with its source, or what is wrong.\<close>

datatype outcome = Value string value_source | Refused problem_cause | Absent

definition resolve_field :: "options \<Rightarrow> config_store option \<Rightarrow> string \<Rightarrow> config_spec \<Rightarrow> outcome" where
  "resolve_field ro cfg skill spec =
     (let field = cs_name spec;
          anchor = Option.bind cfg (approved_for (ro_scope ro) skill);
          stored = Option.bind cfg (cf_get skill field)
      in case stored of
           Some v \<Rightarrow>
             (case validate_config_value (ro_regex ro) spec v of
                Some e \<Rightarrow> Refused (BadValue e)
              | None \<Rightarrow> (case anchor of
                  Some an \<Rightarrow> if fmlookup an field = Some v then Value v Stored else Refused ChangedSinceRegister
                | None \<Rightarrow> (case cfg of
                    Some c \<Rightarrow> if \<not> cf_merged c \<or> cf_from_workdir c skill field then Refused NeverApproved else Value v Stored
                  | None \<Rightarrow> Absent)))
         | None \<Rightarrow>
             if (case anchor of Some an \<Rightarrow> fmlookup an field \<noteq> None | None \<Rightarrow> False) then Refused ApprovedRemoved
             else if cs_default spec \<noteq> [] then Value (cs_default spec) FromDefault
             else case (if cs_default_from_env spec \<noteq> [] then ro_env ro (cs_default_from_env spec) else None) of
               Some v \<Rightarrow> if v \<noteq> [] then Value v (FromDefaultEnv (cs_default_from_env spec)) else Absent
             | None \<Rightarrow> Absent)"

definition config_step :: "options \<Rightarrow> config_store option \<Rightarrow> config_spec \<Rightarrow> armed \<Rightarrow> armed \<times> problem list" where
  "config_step ro cfg spec a =
     (let skill = re_name (ar_entry a); field = cs_name spec
      in case resolve_field ro cfg skill spec of
           Value v src \<Rightarrow> (a\<lparr>ar_config := (field, v) # ar_config a, ar_config_sources := (field, src) # ar_config_sources a\<rparr>, [])
         | Refused c \<Rightarrow> (a, [config_problem skill field c])
         | Absent \<Rightarrow>
             if \<not> config_required spec then (a\<lparr>ar_config_sources := (field, MissingOpt) # ar_config_sources a\<rparr>, [])
             else (a\<lparr>ar_config_sources := (field, MissingReq) # ar_config_sources a\<rparr>,
                   [(config_problem skill field FieldUnset)\<lparr>pb_kind := MissingField\<rparr>]))"

fun resolve_config :: "options \<Rightarrow> config_store option \<Rightarrow> config_spec list \<Rightarrow> armed \<Rightarrow> armed \<times> problem list" where
  "resolve_config ro cfg [] a = (a, [])"
| "resolve_config ro cfg (spec # specs) a =
     (let (a', ps) = config_step ro cfg spec a; (a'', ps') = resolve_config ro cfg specs a' in (a'', ps @ ps'))"

section \<open>The whole\<close>

definition fill :: "options \<Rightarrow> config_store option \<Rightarrow> key_error option \<Rightarrow> armed \<Rightarrow> armed \<times> problem list \<times> key_error option" where
  "fill ro cfg down a =
     (case Option.bind (ar_meta a) mt_sidecar of
        None \<Rightarrow> (a, [], down)
      | Some sc \<Rightarrow>
          (let (a1, ps1, down') = resolve_secrets ro (sm_env_passthrough sc) (sm_secrets sc) down a;
               (a2, ps2) = resolve_config ro cfg (sm_config sc) a1
           in (a2, ps1 @ ps2, down')))"

definition load_skill ::
    "options \<Rightarrow> meta option \<Rightarrow> string option \<Rightarrow> config_store option \<Rightarrow> key_error option \<Rightarrow> reg_entry \<Rightarrow> armed \<times> problem list \<times> key_error option" where
  "load_skill ro loaded hash cfg down e =
     (let (a, ps) = inspect ro loaded hash e
      in if list_ex (\<lambda>p. pb_kind p = MetaBroken) ps then (a, ps, down)
         else let (a', ps', down') = fill ro cfg down a in (a', ps @ ps', down'))"

section \<open>What keeps a route from arming\<close>

definition missing_fields :: "problem list \<Rightarrow> string list" where
  "missing_fields ps = sort (map pb_field (filter (\<lambda>p. pb_kind p = MissingSecret \<or> pb_kind p = MissingField) ps))"

definition blocking :: "problem list \<Rightarrow> problem list" where
  "blocking ps = filter (\<lambda>p. \<not> (pb_kind p = InvalidSecret \<and> pb_optional p)) ps"

datatype stall = Terminal problem | Pending "string list" "problem option"

text \<open>The detail of a pending stall is the first problem with a remedy of its own, else the list.\<close>

definition stall_for :: "problem list \<Rightarrow> stall option" where
  "stall_for problems =
     (let ps = blocking problems;
          own = (\<lambda>p. pb_kind p \<in> {KeychainUnavailable, InvalidSecret, InvalidConfig})
      in if ps = [] then None
         else case find (\<lambda>p. pb_kind p \<in> {MetaBroken, BundleDrift}) ps of
           Some p \<Rightarrow> Some (Terminal p)
         | None \<Rightarrow> Some (Pending (remdups_adj (sort (missing_fields ps @ map pb_field (filter own ps)))) (find own ps)))"

section \<open>One field at a time\<close>

definition field_entry :: "options \<Rightarrow> config_store option \<Rightarrow> string \<Rightarrow> config_spec \<Rightarrow> (string \<times> string) option" where
  "field_entry ro cfg skill spec = (case resolve_field ro cfg skill spec of Value v _ \<Rightarrow> Some (cs_name spec, v) | _ \<Rightarrow> None)"

definition field_problems :: "options \<Rightarrow> config_store option \<Rightarrow> string \<Rightarrow> config_spec \<Rightarrow> problem list" where
  "field_problems ro cfg skill spec =
     (case resolve_field ro cfg skill spec of
        Value _ _ \<Rightarrow> []
      | Refused c \<Rightarrow> [config_problem skill (cs_name spec) c]
      | Absent \<Rightarrow> if config_required spec then [(config_problem skill (cs_name spec) FieldUnset)\<lparr>pb_kind := MissingField\<rparr>] else [])"

lemma resolve_config_closed:
  "resolve_config ro cfg specs a = (a', ps) \<Longrightarrow>
     ar_config a' = rev (List.map_filter (field_entry ro cfg (re_name (ar_entry a))) specs) @ ar_config a \<and>
     ps = concat (map (field_problems ro cfg (re_name (ar_entry a))) specs) \<and>
     ar_entry a' = ar_entry a \<and> ar_secrets a' = ar_secrets a \<and> ar_meta a' = ar_meta a"
proof (induction specs arbitrary: a ps)
  case (Cons spec specs)
  obtain a1 ps1 where one: "config_step ro cfg spec a = (a1, ps1)" by fastforce
  obtain ps2 where rest: "resolve_config ro cfg specs a1 = (a', ps2)" "ps = ps1 @ ps2"
    using Cons.prems one by (auto split: prod.splits)
  have "ar_entry a1 = ar_entry a \<and> ar_secrets a1 = ar_secrets a \<and> ar_meta a1 = ar_meta a \<and>
    ar_config a1 = (case field_entry ro cfg (re_name (ar_entry a)) spec of None \<Rightarrow> ar_config a | Some e \<Rightarrow> e # ar_config a) \<and>
    ps1 = field_problems ro cfg (re_name (ar_entry a)) spec"
    using one by (cases "resolve_field ro cfg (re_name (ar_entry a)) spec")
      (auto simp: config_step_def field_entry_def field_problems_def Let_def split: if_splits)
  then show ?case using Cons.IH [OF rest(1)] rest(2)
    by (auto simp: List.map_filter_simps split: option.split)
qed (simp add: List.map_filter_simps)

section \<open>Only vouched values\<close>

text \<open>What the host-only layer says of a value: it is the anchored one, or without an anchor its own.\<close>

definition host_vouches :: "config_store option \<Rightarrow> string \<Rightarrow> string \<Rightarrow> string \<Rightarrow> string \<Rightarrow> bool" where
  "host_vouches glob scope skill field v \<longleftrightarrow>
     (case Option.bind glob (approved_for scope skill) of
        Some an \<Rightarrow> fmlookup an field = Some v
      | None \<Rightarrow> Option.bind glob (cf_get skill field) = Some v)"

lemma merge_anchor:
  "approved_for scope skill (merge_config glob work) = Option.bind glob (approved_for scope skill)"
  by (cases glob) (simp_all add: approved_for_def merge_config_def Let_def)

lemma merge_provenance:
  "cf_from_workdir (merge_config glob work) skill field \<longleftrightarrow>
     Option.bind work (cf_get skill field) \<noteq> None \<and>
     Option.bind work (cf_get skill field) \<noteq> Option.bind glob (cf_get skill field)"
  by (cases glob; cases work) (simp_all add: merge_config_def Let_def skills_of_def cf_get_def)

lemma merge_get_opt:
  "cf_get skill field (merge_config glob work) =
     (case Option.bind work (cf_get skill field) of Some v \<Rightarrow> Some v | None \<Rightarrow> Option.bind glob (cf_get skill field))"
proof -
  have "cf_get skill field empty_config = None" by (simp add: cf_get_def empty_config_def)
  then show ?thesis unfolding merge_get by (cases work; cases glob) (simp_all split: option.split)
qed

lemma merge_merged: "cf_merged (merge_config glob work)"
  by (simp add: merge_config_def Let_def)

lemma resolve_field_merged:
  "resolve_field ro (Some (merge_config glob work)) skill spec =
     (let field = cs_name spec;
          anchor = Option.bind glob (approved_for (ro_scope ro) skill);
          own = Option.bind work (cf_get skill field); glo = Option.bind glob (cf_get skill field)
      in case (case own of Some v \<Rightarrow> Some v | None \<Rightarrow> glo) of
           Some v \<Rightarrow>
             (case validate_config_value (ro_regex ro) spec v of
                Some e \<Rightarrow> Refused (BadValue e)
              | None \<Rightarrow> if host_vouches glob (ro_scope ro) skill field v then Value v Stored
                  else Refused (if anchor = None then NeverApproved else ChangedSinceRegister))
         | None \<Rightarrow>
             if (case anchor of Some an \<Rightarrow> fmlookup an field \<noteq> None | None \<Rightarrow> False) then Refused ApprovedRemoved
             else if cs_default spec \<noteq> [] then Value (cs_default spec) FromDefault
             else case (if cs_default_from_env spec \<noteq> [] then ro_env ro (cs_default_from_env spec) else None) of
               Some v \<Rightarrow> if v \<noteq> [] then Value v (FromDefaultEnv (cs_default_from_env spec)) else Absent
             | None \<Rightarrow> Absent)"
proof -
  let ?own = "Option.bind work (cf_get skill (cs_name spec))"
  let ?glo = "Option.bind glob (cf_get skill (cs_name spec))"
  let ?anchor = "Option.bind glob (approved_for (ro_scope ro) skill)"
  have b: "Option.bind (Some x) f = f x" for x :: config_store and f :: "config_store \<Rightarrow> 'b option" by simp
  show ?thesis
    unfolding resolve_field_def Let_def b merge_anchor merge_get_opt
    by (cases ?own; cases ?glo; cases ?anchor)
      (simp_all add: host_vouches_def merge_provenance merge_merged split: option.split)
qed

lemma resolve_secrets_keeps:
  "resolve_secrets ro passthrough specs down a = (a', ps, down') \<Longrightarrow>
     ar_config a' = ar_config a \<and> ar_entry a' = ar_entry a \<and> ar_meta a' = ar_meta a"
proof (induction specs arbitrary: down a ps)
  case (Cons spec specs)
  obtain res d1 where g: "get_secret ro down (re_name (ar_entry a)) (ss_name spec) = (res, d1)" by fastforce
  obtain a1 ps1 where one: "secret_step ro passthrough spec res a = (a1, ps1)" by fastforce
  obtain ps2 where rest: "resolve_secrets ro passthrough specs d1 a1 = (a', ps2, down')"
    using Cons.prems g one by (auto split: prod.splits)
  have "ar_config a1 = ar_config a \<and> ar_entry a1 = ar_entry a \<and> ar_meta a1 = ar_meta a"
    using one by (auto simp: secret_step_def Let_def split: sum.splits option.splits)
  then show ?case using Cons.IH [OF rest] by simp
qed simp

lemma blocking_stalls: "p \<in> set ps \<Longrightarrow> pb_kind p \<noteq> InvalidSecret \<Longrightarrow> stall_for ps \<noteq> None"
proof -
  assume "p \<in> set ps" "pb_kind p \<noteq> InvalidSecret"
  then have "blocking ps \<noteq> []" by (auto simp: blocking_def filter_empty_conv)
  then show "stall_for ps \<noteq> None" by (simp add: stall_for_def Let_def split: option.split)
qed

text \<open>
  C7: No value the agent wrote reaches a sidecar unless the host approved it.  Whatever the workdir's configuration file
  holds, every field a skill gets is either valid for its declaration and vouched for by the host-only
  layer - anchored for this working directory or globally, or unanchored and the same in the global file - or
  the default of the manifest, or that of the host's environment; and a value of the workdir that is not
  vouched for keeps the skill from arming.
\<close>

theorem agent_config_refused:
  assumes "fill ro (Some (merge_config glob work)) down a = (a', ps, down')"
    and "ar_meta a = Some m" "mt_sidecar m = Some sc" "ar_config a = []"
  shows "(\<forall>(f, v) \<in> set (ar_config a'). \<exists>spec \<in> set (sm_config sc). cs_name spec = f \<and>
      (validate_config_value (ro_regex ro) spec v = None \<and> host_vouches glob (ro_scope ro) (re_name (ar_entry a)) f v \<or>
       v = cs_default spec \<or> ro_env ro (cs_default_from_env spec) = Some v)) \<and>
    (\<forall>spec \<in> set (sm_config sc). \<forall>v. Option.bind work (cf_get (re_name (ar_entry a)) (cs_name spec)) = Some v \<longrightarrow>
       \<not> host_vouches glob (ro_scope ro) (re_name (ar_entry a)) (cs_name spec) v \<longrightarrow>
       (\<exists>p \<in> set ps. pb_kind p = InvalidConfig \<and> pb_field p = cs_name spec) \<and> stall_for ps \<noteq> None)"
proof -
  let ?cfg = "Some (merge_config glob work)" and ?skill = "re_name (ar_entry a)"
  obtain a1 ps1 ps2 where r: "resolve_secrets ro (sm_env_passthrough sc) (sm_secrets sc) down a = (a1, ps1, down')"
      "resolve_config ro ?cfg (sm_config sc) a1 = (a', ps2)" "ps = ps1 @ ps2"
    using assms(1-3) by (auto simp: fill_def split: prod.splits)
  note k = resolve_secrets_keeps [OF r(1)] and c = resolve_config_closed [OF r(2)]
  have "\<exists>spec \<in> set (sm_config sc). cs_name spec = f \<and>
      (validate_config_value (ro_regex ro) spec v = None \<and> host_vouches glob (ro_scope ro) ?skill f v \<or>
       v = cs_default spec \<or> ro_env ro (cs_default_from_env spec) = Some v)" if "(f, v) \<in> set (ar_config a')" for f v
  proof -
    obtain spec where s: "spec \<in> set (sm_config sc)" "field_entry ro ?cfg ?skill spec = Some (f, v)"
      using c k assms(4) \<open>(f, v) \<in> set (ar_config a')\<close> by (auto simp: set_map_filter)
    then obtain src where "resolve_field ro ?cfg ?skill spec = Value v src" "cs_name spec = f"
      by (auto simp: field_entry_def split: outcome.splits)
    then show ?thesis using s(1)
      by (intro bexI [of _ spec])
        (auto simp: resolve_field_merged Let_def split: option.splits if_splits)
  qed
  moreover have "(\<exists>p \<in> set ps. pb_kind p = InvalidConfig \<and> pb_field p = cs_name spec) \<and> stall_for ps \<noteq> None"
    if s: "spec \<in> set (sm_config sc)" "Option.bind work (cf_get ?skill (cs_name spec)) = Some v"
      "\<not> host_vouches glob (ro_scope ro) ?skill (cs_name spec) v" for spec v
  proof -
    obtain cause where "resolve_field ro ?cfg ?skill spec = Refused cause"
      using s(2,3) by (cases "validate_config_value (ro_regex ro) spec v") (simp_all add: resolve_field_merged Let_def)
    then have "config_problem ?skill (cs_name spec) cause \<in> set ps"
      using s(1) c k r(3) by (auto simp: field_problems_def intro!: bexI [of _ spec])
    moreover have "pb_kind (config_problem ?skill (cs_name spec) cause) = InvalidConfig \<and>
        pb_field (config_problem ?skill (cs_name spec) cause) = cs_name spec" by (simp add: config_problem_def)
    moreover have "stall_for ps \<noteq> None"
      by (rule blocking_stalls [OF calculation(1)]) (simp add: config_problem_def)
    ultimately show ?thesis by blast
  qed
  ultimately show ?thesis by blast
qed

definition demo_options :: options where
  "demo_options =
     \<lparr>ro_scope = ''id'', ro_env = (\<lambda>_. None), ro_accept_drift = False, ro_skip_pattern = False, ro_skip_hash = False,
      ro_regex = \<lparr>rx_ok = (\<lambda>_. True), rx_match = (=)\<rparr>, ro_keychain = (\<lambda>_ _ _. Inl KeyNotFound)\<rparr>"

definition demo_field :: config_spec where
  "demo_field =
     \<lparr>cs_name = ''URL'', cs_type = [], cs_required = None, cs_default = [], cs_default_from_env = [], cs_pattern = [],
      cs_choices = [], cs_docs = []\<rparr>"

definition demo_sidecar :: sidecar_meta where
  "demo_sidecar =
     \<lparr>sm_command = [''run''], sm_mount = [], sm_env_passthrough = [], sm_secrets = [], sm_config = [demo_field], sm_health = None\<rparr>"

definition demo_armed :: armed where
  "demo_armed = bare_armed (demo_entry ''s'' [] ''/s'') (Some \<lparr>mt_name = ''s'', mt_sidecar = Some demo_sidecar\<rparr>) ''s''"

text \<open>The anchored address is \<open>a\<close>; the agent writes \<open>b\<close>.\<close>

theorem agent_config_refused_witness:
  "\<exists>a' ps d. fill demo_options
      (Some (merge_config (Some (record_approved ''id'' ''s'' (fmupd ''URL'' ''a'' fmempty) empty_config))
         (Some (cf_set ''s'' ''URL'' ''b'' empty_config)))) None demo_armed = (a', ps, d) \<and> stall_for ps \<noteq> None"
proof -
  let ?glob = "Some (record_approved ''id'' ''s'' (fmupd ''URL'' ''a'' fmempty) empty_config)"
  let ?work = "Some (cf_set ''s'' ''URL'' ''b'' empty_config)"
  obtain a' ps d where f: "fill demo_options (Some (merge_config ?glob ?work)) None demo_armed = (a', ps, d)"
    by (metis surj_pair)
  have m: "ar_meta demo_armed = Some \<lparr>mt_name = ''s'', mt_sidecar = Some demo_sidecar\<rparr>" "ar_config demo_armed = []"
    "re_name (ar_entry demo_armed) = ''s''" by (simp_all add: demo_armed_def bare_armed_def demo_entry_def)
  have w: "Option.bind ?work (cf_get ''s'' ''URL'') = Some ''b''" by (simp add: cf_get_set)
  have h: "\<not> host_vouches ?glob (ro_scope demo_options) ''s'' ''URL'' ''b''"
    by (simp add: host_vouches_def demo_options_def approved_for_def record_approved_def empty_config_def Let_def)
  have s: "demo_field \<in> set (sm_config demo_sidecar)" "cs_name demo_field = ''URL''"
    by (simp_all add: demo_sidecar_def demo_field_def)
  have "stall_for ps \<noteq> None"
    using agent_config_refused [OF f m(1) _ m(2)] s w h unfolding m(3) by fastforce
  then show ?thesis using f by blast
qed

section \<open>What keeps a skill waiting\<close>

lemma all_kinds: "pb_kind p \<in> {MetaBroken, BundleDrift} \<or> pb_kind p \<in> {MissingSecret, MissingField} \<or>
    pb_kind p \<in> {KeychainUnavailable, InvalidSecret, InvalidConfig}"
  by (cases "pb_kind p") simp_all

lemma sorted_remdups_adj: "sorted xs \<Longrightarrow> sorted (remdups_adj xs) \<and> distinct (remdups_adj xs)"
  by (induction xs rule: remdups_adj.induct) auto

text \<open>
  A skill waits exactly when a problem is left that is not the malformed value of an optional secret.  It
  waits for good exactly when one of them is a broken manifest or a changed directory; otherwise the
  list it is given names exactly the fields of the problems, in order and once each.
\<close>

theorem stall_exact:
  "(stall_for ps = None \<longleftrightarrow> (\<forall>p \<in> set ps. pb_kind p = InvalidSecret \<and> pb_optional p)) \<and>
   ((\<exists>p. stall_for ps = Some (Terminal p)) \<longleftrightarrow> (\<exists>p \<in> set ps. pb_kind p \<in> {MetaBroken, BundleDrift})) \<and>
   (\<forall>missing d. stall_for ps = Some (Pending missing d) \<longrightarrow>
      sorted missing \<and> distinct missing \<and> set missing = pb_field ` set (blocking ps))"
proof -
  let ?b = "blocking ps" and ?t = "\<lambda>p. pb_kind p \<in> {MetaBroken, BundleDrift}"
  let ?own = "\<lambda>p. pb_kind p \<in> {KeychainUnavailable, InvalidSecret, InvalidConfig}"
  have none: "stall_for ps = None \<longleftrightarrow> ?b = []" by (simp add: stall_for_def Let_def split: option.split)
  have be: "?b = [] \<longleftrightarrow> (\<forall>p \<in> set ps. pb_kind p = InvalidSecret \<and> pb_optional p)" by (auto simp: blocking_def filter_empty_conv)
  have ft: "(\<exists>p. find ?t ?b = Some p) \<longleftrightarrow> (\<exists>p \<in> set ps. ?t p)"
  proof
    assume "\<exists>p. find ?t ?b = Some p"
    then show "\<exists>p \<in> set ps. ?t p" by (auto simp: find_Some_iff blocking_def dest!: nth_mem)
  next
    assume "\<exists>p \<in> set ps. ?t p"
    then have "\<exists>p \<in> set ?b. ?t p" by (auto simp: blocking_def)
    then show "\<exists>p. find ?t ?b = Some p" by (metis find_None_iff2 not_None_eq)
  qed
  have trm: "(\<exists>p. stall_for ps = Some (Terminal p)) \<longleftrightarrow> (\<exists>p. find ?t ?b = Some p)"
    by (cases "find ?t ?b") (auto simp: stall_for_def Let_def)
  have pend: "sorted missing \<and> distinct missing \<and> set missing = pb_field ` set ?b"
    if st: "stall_for ps = Some (Pending missing d)" for missing d
  proof -
    have ft': "find ?t ?b = None" and m: "missing = remdups_adj (sort (missing_fields ?b @ map pb_field (filter ?own ?b)))"
      using st by (auto simp: stall_for_def Let_def split: option.splits if_splits)
    have "\<not> ?t p" if "p \<in> set ?b" for p using ft' that by (auto simp: find_None_iff)
    then have k: "pb_kind p = MissingSecret \<or> pb_kind p = MissingField \<or> ?own p" if "p \<in> set ?b" for p
      using all_kinds [of p] that by blast
    have "set missing = pb_field ` set ?b" unfolding m missing_fields_def using k by auto
    then show ?thesis using sorted_remdups_adj [OF sorted_sort] unfolding m by blast
  qed
  show ?thesis using none be ft trm pend by blast
qed

theorem stall_exact_witness:
  "\<exists>missing d. stall_for [config_problem ''s'' ''B'' FieldUnset, config_problem ''s'' ''A'' FieldUnset] = Some (Pending missing d) \<and>
     missing = [''A'', ''B'']"
proof -
  let ?ps = "[config_problem ''s'' ''B'' FieldUnset, config_problem ''s'' ''A'' FieldUnset]"
  have b: "blocking ?ps = ?ps" by (simp add: blocking_def config_problem_def)
  obtain missing d where st: "stall_for ?ps = Some (Pending missing d)"
    by (simp add: stall_for_def b Let_def) (simp add: config_problem_def)
  have "sorted missing" "distinct missing" "set missing = set [''A'', ''B'']"
    using stall_exact [of ?ps] st unfolding b by (auto simp: config_problem_def)
  moreover have "sorted [''A'', ''B'']" by (simp add: less_eq_char_def)
  ultimately have "missing = [''A'', ''B'']" by (intro sorted_distinct_set_unique) simp_all
  then show ?thesis using st by blast
qed

section \<open>What a ready skill has\<close>

text \<open>Where a secret's value may come from: the keychain, or a variable the manifest passes through, checked.\<close>

definition secret_from :: "options \<Rightarrow> string list \<Rightarrow> string \<Rightarrow> secret_spec \<Rightarrow> string \<Rightarrow> bool" where
  "secret_from ro passthrough skill spec v \<longleftrightarrow>
     ro_keychain ro (ro_scope ro) skill (ss_name spec) = Inr v \<or>
     ss_name spec \<in> set passthrough \<and> ro_env ro (ss_name spec) = Some v \<and> v \<noteq> []"

lemma secret_step_values:
  assumes "get_secret ro down skill (ss_name spec) = (res, down')" "secret_step ro passthrough spec res a = (a', ps)"
    and "skill = re_name (ar_entry a)"
  shows "(ar_secrets a' = ar_secrets a \<and> (secret_required spec \<longrightarrow> ps \<noteq> [])) \<or>
    (\<exists>v. ar_secrets a' = (ss_name spec, v) # ar_secrets a \<and> secret_from ro passthrough skill spec v \<and>
       (ps = [] \<longrightarrow> ro_skip_pattern ro \<or> ro_keychain ro (ro_scope ro) skill (ss_name spec) = Inr v \<or>
          validate_secret_value (ro_regex ro) spec v = None))"
proof (cases res)
  case (Inr v)
  then have "ro_keychain ro (ro_scope ro) skill (ss_name spec) = Inr v"
    using assms(1) by (auto simp: get_secret_def split: option.splits sum.splits)
  then show ?thesis using assms(2) Inr by (auto simp: secret_step_def secret_from_def Let_def)
next
  case (Inl err)
  show ?thesis
  proof (cases "secret_from_env ro passthrough (ss_name spec)")
    case None
    then show ?thesis using assms(2) Inl by (auto simp: secret_step_def Let_def)
  next
    case (Some v)
    then have "secret_from ro passthrough skill spec v"
      by (auto simp: secret_from_env_def secret_from_def split: if_splits option.splits)
    then show ?thesis using assms(2) Inl Some
      by (auto simp: secret_step_def Let_def split: option.splits)
  qed
qed

lemma resolve_secrets_values:
  "resolve_secrets ro passthrough specs down a = (a', ps, down') \<Longrightarrow> distinct (map ss_name specs) \<Longrightarrow>
     \<exists>new. ar_secrets a' = new @ ar_secrets a \<and> distinct (map fst new) \<and>
       (\<forall>(n, v) \<in> set new. \<exists>spec \<in> set specs. ss_name spec = n \<and> secret_from ro passthrough (re_name (ar_entry a)) spec v \<and>
          (ps = [] \<longrightarrow> ro_skip_pattern ro \<or> ro_keychain ro (ro_scope ro) (re_name (ar_entry a)) n = Inr v \<or>
             validate_secret_value (ro_regex ro) spec v = None)) \<and>
       (ps = [] \<longrightarrow> (\<forall>spec \<in> set specs. secret_required spec \<longrightarrow> ss_name spec \<in> fst ` set new))"
proof (induction specs arbitrary: down a ps)
  case Nil
  then show ?case by (intro exI [of _ "[]"]) auto
next
  case (Cons spec specs)
  let ?skill = "re_name (ar_entry a)"
  obtain res d1 where g: "get_secret ro down ?skill (ss_name spec) = (res, d1)" by fastforce
  obtain a1 ps1 where one: "secret_step ro passthrough spec res a = (a1, ps1)" by fastforce
  obtain ps2 where rest: "resolve_secrets ro passthrough specs d1 a1 = (a', ps2, down')" "ps = ps1 @ ps2"
    using Cons.prems g one by (auto split: prod.splits)
  have e1: "ar_entry a1 = ar_entry a"
    using one by (auto simp: secret_step_def Let_def split: sum.splits option.splits)
  have dis: "distinct (map ss_name specs)" "ss_name spec \<notin> ss_name ` set specs" using Cons.prems(2) by auto
  obtain new where new: "ar_secrets a' = new @ ar_secrets a1" "distinct (map fst new)"
    "\<forall>(n, v) \<in> set new. \<exists>spec \<in> set specs. ss_name spec = n \<and> secret_from ro passthrough ?skill spec v \<and>
          (ps2 = [] \<longrightarrow> ro_skip_pattern ro \<or> ro_keychain ro (ro_scope ro) ?skill n = Inr v \<or>
             validate_secret_value (ro_regex ro) spec v = None)"
    "ps2 = [] \<longrightarrow> (\<forall>spec \<in> set specs. secret_required spec \<longrightarrow> ss_name spec \<in> fst ` set new)"
    using Cons.IH [OF rest(1) dis(1)] unfolding e1 by blast
  have fresh: "ss_name spec \<notin> fst ` set new" using new(3) dis(2) by fastforce
  show ?case
    using secret_step_values [OF g one refl]
  proof
    assume "ar_secrets a1 = ar_secrets a \<and> (secret_required spec \<longrightarrow> ps1 \<noteq> [])"
    then show ?thesis using new rest(2) by (intro exI [of _ new]) fastforce
  next
    assume "\<exists>v. ar_secrets a1 = (ss_name spec, v) # ar_secrets a \<and> secret_from ro passthrough ?skill spec v \<and>
       (ps1 = [] \<longrightarrow> ro_skip_pattern ro \<or> ro_keychain ro (ro_scope ro) ?skill (ss_name spec) = Inr v \<or>
          validate_secret_value (ro_regex ro) spec v = None)"
    then obtain v where "ar_secrets a1 = (ss_name spec, v) # ar_secrets a" "secret_from ro passthrough ?skill spec v"
       "ps1 = [] \<longrightarrow> ro_skip_pattern ro \<or> ro_keychain ro (ro_scope ro) ?skill (ss_name spec) = Inr v \<or>
          validate_secret_value (ro_regex ro) spec v = None" by blast
    then show ?thesis using new rest(2) fresh by (intro exI [of _ "new @ [(ss_name spec, v)]"]) fastforce
  qed
qed

lemma field_entry_Some:
  "field_entry ro cfg skill spec = Some (n, v) \<longleftrightarrow> cs_name spec = n \<and> (\<exists>src. resolve_field ro cfg skill spec = Value v src)"
  by (cases "resolve_field ro cfg skill spec") (auto simp: field_entry_def)

lemma field_keys: "fst ` set (List.map_filter (field_entry ro cfg skill) specs) \<subseteq> cs_name ` set specs"
  by (auto simp: set_map_filter field_entry_Some)

lemma distinct_fields: "distinct (map cs_name specs) \<Longrightarrow> distinct (map fst (List.map_filter (field_entry ro cfg skill) specs))"
proof (induction specs)
  case (Cons c cs)
  have n: "field_entry ro cfg skill c = Some e \<Longrightarrow> fst e = cs_name c" for e
    by (auto simp: field_entry_def split: outcome.splits)
  have "cs_name c \<notin> fst ` set (List.map_filter (field_entry ro cfg skill) cs)"
    using Cons.prems field_keys [of ro cfg skill cs] by auto
  then show ?case using Cons n by (auto simp: List.map_filter_simps split: option.split)
qed (simp add: List.map_filter_simps)

text \<open>The values of a skill without problems: named once, complete, each from an allowed source.\<close>

lemma ready_values:
  assumes "load_skill ro (Some m) hash cfg down e = (a, [], down')" "mt_sidecar m = Some sc" "sidecar_ok rx sc"
  shows "ar_entry a = e \<and> distinct (map fst (ar_secrets a) @ map fst (ar_config a)) \<and>
    (\<forall>s \<in> set (sm_secrets sc). secret_required s \<longrightarrow> (\<exists>v. (ss_name s, v) \<in> set (ar_secrets a))) \<and>
    (\<forall>(n, v) \<in> set (ar_secrets a). \<exists>s \<in> set (sm_secrets sc). ss_name s = n \<and>
       secret_from ro (sm_env_passthrough sc) (re_name e) s v \<and>
       (ro_skip_pattern ro \<or> ro_keychain ro (ro_scope ro) (re_name e) n = Inr v \<or> validate_secret_value (ro_regex ro) s v = None)) \<and>
    (\<forall>c \<in> set (sm_config sc). config_required c \<longrightarrow> (\<exists>v. (cs_name c, v) \<in> set (ar_config a))) \<and>
    (\<forall>(n, v) \<in> set (ar_config a). \<exists>c \<in> set (sm_config sc). \<exists>src. cs_name c = n \<and> resolve_field ro cfg (re_name e) c = Value v src)"
proof -
  have dis: "distinct (map ss_name (sm_secrets sc))" "distinct (map cs_name (sm_config sc))"
    "ss_name ` set (sm_secrets sc) \<inter> cs_name ` set (sm_config sc) = {}"
    using assms(3) by (auto simp: sidecar_ok_def)
  obtain a0 where a0: "inspect ro (Some m) hash e = (a0, [])" "fill ro cfg down a0 = (a, [], down')"
    using assms(1) by (auto simp: load_skill_def split: prod.splits if_splits)
  have b: "ar_meta a0 = Some m \<and> ar_entry a0 = e \<and> ar_secrets a0 = [] \<and> ar_config a0 = []"
    using a0(1) assms(2) by (auto simp: inspect_def inspect_meta_def bare_armed_def Let_def split: if_splits option.splits)
  obtain a1 where r: "resolve_secrets ro (sm_env_passthrough sc) (sm_secrets sc) down a0 = (a1, [], down')"
      "resolve_config ro cfg (sm_config sc) a1 = (a, [])"
    using a0(2) b assms(2) by (auto simp: fill_def split: prod.splits)
  obtain new where new: "ar_secrets a1 = new" "distinct (map fst new)"
    "\<forall>(n, v) \<in> set new. \<exists>s \<in> set (sm_secrets sc). ss_name s = n \<and> secret_from ro (sm_env_passthrough sc) (re_name e) s v \<and>
          (ro_skip_pattern ro \<or> ro_keychain ro (ro_scope ro) (re_name e) n = Inr v \<or> validate_secret_value (ro_regex ro) s v = None)"
    "\<forall>s \<in> set (sm_secrets sc). secret_required s \<longrightarrow> ss_name s \<in> fst ` set new"
    using resolve_secrets_values [OF r(1) dis(1)] b by auto
  note c = resolve_config_closed [OF r(2)] and k = resolve_secrets_keeps [OF r(1)]
  have conf: "ar_config a = rev (List.map_filter (field_entry ro cfg (re_name e)) (sm_config sc))"
    "\<forall>spec \<in> set (sm_config sc). field_problems ro cfg (re_name e) spec = []" "ar_secrets a = new" "ar_entry a = e"
    using c k b new(1) by auto
  have ck: "fst ` set (ar_config a) \<subseteq> cs_name ` set (sm_config sc)" using field_keys conf(1) by simp
  have sk: "fst ` set new \<subseteq> ss_name ` set (sm_secrets sc)" using new(3) by fastforce
  have "distinct (map fst (ar_config a))" using distinct_fields [OF dis(2)] conf(1) by (simp add: rev_map [symmetric])
  then have "distinct (map fst (ar_secrets a) @ map fst (ar_config a))" using new(2) ck sk dis(3) conf(3) by auto
  moreover have "\<exists>v. (cs_name x, v) \<in> set (ar_config a)" if x: "x \<in> set (sm_config sc)" "config_required x" for x
  proof -
    obtain v src where "resolve_field ro cfg (re_name e) x = Value v src"
      using conf(2) x by (cases "resolve_field ro cfg (re_name e) x") (auto simp: field_problems_def)
    then have "field_entry ro cfg (re_name e) x = Some (cs_name x, v)" by (simp add: field_entry_def)
    then show ?thesis using x(1) conf(1) by (auto simp: set_map_filter)
  qed
  moreover have "\<exists>x \<in> set (sm_config sc). \<exists>src. cs_name x = n \<and> resolve_field ro cfg (re_name e) x = Value v src"
    if "(n, v) \<in> set (ar_config a)" for n v
    using that conf(1) by (auto simp: set_map_filter field_entry_Some)
  moreover have "\<exists>v. (ss_name s, v) \<in> set (ar_secrets a)" if "s \<in> set (sm_secrets sc)" "secret_required s" for s
    using new(4) that conf(3) by force
  ultimately show ?thesis unfolding conf(3) using new(3) conf(4) by (intro conjI ballI) (simp | blast)+
qed

text \<open>
  Remembering that the backend is gone changes nothing when that is a property of the backend: if one
  read finds it unavailable, so does every other.
\<close>

definition down_ok :: "options \<Rightarrow> key_error option \<Rightarrow> bool" where
  "down_ok ro down \<longleftrightarrow>
     down = None \<or> (\<exists>r. down = Some (KeyUnavailable r) \<and> (\<forall>skill name. ro_keychain ro (ro_scope ro) skill name = Inl (KeyUnavailable r)))"

lemma sticky_keychain_agrees:
  assumes "\<And>r. ro_keychain ro (ro_scope ro) skill name = Inl (KeyUnavailable r) \<Longrightarrow>
      \<forall>skill' name'. ro_keychain ro (ro_scope ro) skill' name' = Inl (KeyUnavailable r)"
    and "down_ok ro down" "get_secret ro down skill name = (res, down')"
  shows "res = ro_keychain ro (ro_scope ro) skill name \<and> down_ok ro down'"
proof (cases down)
  case None
  show ?thesis
  proof (cases "ro_keychain ro (ro_scope ro) skill name")
    case (Inl err)
    show ?thesis
    proof (cases err)
      case (KeyUnavailable r)
      then show ?thesis using assms(3) Inl None assms(1) [of r] by (auto simp: get_secret_def down_ok_def)
    qed (use assms(3) Inl None in \<open>auto simp: get_secret_def down_ok_def\<close>)
  qed (use assms(3) None in \<open>auto simp: get_secret_def down_ok_def\<close>)
qed (use assms(2,3) in \<open>auto simp: get_secret_def down_ok_def\<close>)

text \<open>
  The text of a failure names the service, so an unreadable secret of a skill with \<open>dbus\<close> in its name is taken for a
  missing backend.
\<close>

lemma dbus_skill_misread:
  "pb_fix (secret_problem ''s'' ''T'' (KeyFailed ''omac/s/T'' ''denied'')) = NoRemedy \<and>
   pb_fix (secret_problem ''dbus'' ''T'' (KeyFailed ''omac/dbus/T'' ''denied'')) = InstallBackend"
  by code_simp

end
