(* ===== verification/Supervisor.thy ===== *)
theory Supervisor
  imports SkillState Trust
begin

text \<open>
  The supervisor of the sidecars (\<open>internal/supervisor/supervisor.go\<close>): the spawn gate, the environment and the
  command line a sidecar gets, and the processes with their audit trail, as a step relation in which
  starts, health checks, deaths, stops and the shutdown interleave.  Processes are numbers; signals and waiting
  have the outcome that the process is gone.
\<close>

section \<open>Data\<close>

record sidecar_spec =
  sp_name :: string
  sp_skill_name :: string
  sp_skill_dir :: string
  sp_command :: "string list"
  sp_env_passthrough :: "string list"
  sp_secrets :: "(string \<times> string) list"
  sp_config :: "(string \<times> string) list"
  sp_workdir :: string
  sp_harness_skills_dir :: string

definition shown_name :: "sidecar_spec \<Rightarrow> string" where
  "shown_name sp = (if sp_skill_name sp = [] then sp_name sp else sp_skill_name sp)"

section \<open>The environment\<close>

type_synonym vars = "(string, string) fmap"

text \<open>The host's variables: what precedes the first equals sign, a later entry replacing an earlier one.\<close>

definition host_vars :: "string list \<Rightarrow> vars" where
  "host_vars environ =
     fold (\<lambda>kv m. case index_of (CHR ''='') kv of None \<Rightarrow> m | Some i \<Rightarrow> fmupd (take i kv) (drop (Suc i) kv) m) environ fmempty"

definition pass_vars :: "vars \<Rightarrow> string list \<Rightarrow> vars \<Rightarrow> vars" where
  "pass_vars host names m = fold (\<lambda>k m. case fmlookup host k of None \<Rightarrow> m | Some v \<Rightarrow> fmupd k v m) names m"

definition put_vars :: "(string \<times> string) list \<Rightarrow> vars \<Rightarrow> vars" where
  "put_vars kvs m = fold (\<lambda>(k, v) m. fmupd k v m) kvs m"

definition injected_vars :: "sidecar_spec \<Rightarrow> nat \<Rightarrow> (string \<times> string) list" where
  "injected_vars sp port =
     [(''SIDECAR_PORT'', show_nat port), (''SIDECAR_SKILL'', shown_name sp), (''OMAC_WORKDIR'', sp_workdir sp)] @
     (if sp_harness_skills_dir sp = [] then [] else [(''OMAC_HARNESS_SKILLS_DIR'', sp_harness_skills_dir sp)])"

definition build_env :: "string list \<Rightarrow> string list \<Rightarrow> sidecar_spec \<Rightarrow> nat \<Rightarrow> vars" where
  "build_env base environ sp port =
     (let host = host_vars environ;
          m1 = pass_vars host base fmempty;
          m2 = pass_vars host (sp_env_passthrough sp) m1;
          m3 = put_vars (injected_vars sp port) m2;
          m4 = put_vars (sp_config sp) m3
      in put_vars (sp_secrets sp) m4)"

lemma put_vars_lookup:
  "distinct (map fst kvs) \<Longrightarrow> fmlookup (put_vars kvs m) k = (case map_of kvs k of Some v \<Rightarrow> Some v | None \<Rightarrow> fmlookup m k)"
proof (induction kvs arbitrary: m)
  case (Cons kv kvs)
  obtain k' v' where kv: "kv = (k', v')" by fastforce
  have "map_of kvs k' = None" using Cons.prems kv by (simp add: map_of_eq_None_iff)
  moreover have "fmlookup (put_vars kvs (fmupd k' v' m)) k = (case map_of kvs k of Some v \<Rightarrow> Some v | None \<Rightarrow> fmlookup (fmupd k' v' m) k)"
    using Cons by simp
  moreover have "put_vars (kv # kvs) m = put_vars kvs (fmupd k' v' m)" by (simp add: put_vars_def kv)
  ultimately show ?case using kv by (cases "k = k'") (simp_all split: option.split)
qed (simp add: put_vars_def)

lemma pass_vars_lookup:
  "fmlookup (pass_vars host names m) k =
     (if k \<in> set names \<and> fmlookup host k \<noteq> None then fmlookup host k else fmlookup m k)"
  by (induction names arbitrary: m) (auto simp: pass_vars_def split: option.split)

lemma distinct_injected: "distinct (map fst (injected_vars sp port))"
  by (simp add: injected_vars_def)

text \<open>What a variable of a sidecar is: a secret, else a field, else omac's own, else passed through.\<close>

lemma build_env_lookup:
  assumes "distinct (map fst (sp_secrets sp))" "distinct (map fst (sp_config sp))"
  shows "fmlookup (build_env base environ sp port) k =
    (case map_of (sp_secrets sp) k of Some v \<Rightarrow> Some v | None \<Rightarrow>
      (case map_of (sp_config sp) k of Some v \<Rightarrow> Some v | None \<Rightarrow>
        (case map_of (injected_vars sp port) k of Some v \<Rightarrow> Some v | None \<Rightarrow>
          if k \<in> set base \<union> set (sp_env_passthrough sp) then fmlookup (host_vars environ) k else None)))"
  unfolding build_env_def Let_def put_vars_lookup [OF assms(1)] put_vars_lookup [OF assms(2)]
    put_vars_lookup [OF distinct_injected] pass_vars_lookup
  by (auto split: option.split)

section \<open>The command line\<close>

function expand :: "string \<Rightarrow> (string \<Rightarrow> string) \<Rightarrow> string" where
  "expand s vs =
     (case s of
        [] \<Rightarrow> []
      | c # r \<Rightarrow>
          (case (if c = CHR ''$'' \<and> r \<noteq> [] \<and> hd r = CHR ''{'' then index_of (CHR ''}'') (tl r) else None) of
             Some e \<Rightarrow> vs (take e (tl r)) @ expand (drop (Suc e) (tl r)) vs
           | None \<Rightarrow> c # expand r vs))"
  by auto
termination by (relation "measure (length \<circ> fst)") auto

declare expand.simps [simp del]

definition expand_argv :: "string list \<Rightarrow> (string \<Rightarrow> string) \<Rightarrow> string list" where
  "expand_argv argv vs = map (\<lambda>a. expand a vs) argv"

definition port_var :: "nat \<Rightarrow> string \<Rightarrow> string" where
  "port_var port name = (if name = ''SIDECAR_PORT'' then show_nat port else [])"

lemma expand_plain: "CHR ''$'' \<notin> set s \<Longrightarrow> expand s vs = s"
proof (induction s)
  case (Cons c s)
  then show ?case by (subst expand.simps) auto
qed (simp add: expand.simps)

lemma expand_var: "CHR ''}'' \<notin> set n \<Longrightarrow> expand (''${'' @ n @ ''}'' @ s) vs = vs n @ expand s vs"
  by (subst expand.simps) (simp add: index_of_append)

text \<open>\<open>ensureExecutable\<close>: the file whose mode it changes, with \<open>stat\<close> giving the permissions of a regular file.\<close>

definition ensure_executable :: "(string \<Rightarrow> nat option) \<Rightarrow> string \<Rightarrow> string \<Rightarrow> string option" where
  "ensure_executable stat skill_dir exe =
     (if \<not> contains_str exe ''/'' then None
      else let p = (if is_abs exe then exe else path_join [skill_dir, exe])
           in case path_rel skill_dir p of
                None \<Rightarrow> None
              | Some rel \<Rightarrow>
                  if rel = ''..'' \<or> has_prefix rel ''../'' then None
                  else case stat p of
                    None \<Rightarrow> None
                  | Some m \<Rightarrow> if (m div 64) mod 2 = 1 then None else Some p)"

lemma ensure_executable_inside:
  assumes "ensure_executable stat dir exe = Some p" "is_abs dir"
  shows "clean p = clean dir \<or> (\<exists>q qs. clean_parts p = clean_parts dir @ q # qs)"
proof -
  let ?p = "if is_abs exe then exe else path_join [dir, exe]"
  obtain rel where r: "path_rel dir p = Some rel" "rel \<noteq> ''..''" "\<not> has_prefix rel ''../''" and p: "p = ?p"
    using assms(1) unfolding ensure_executable_def Let_def by (simp split: if_splits option.splits)
  have "dir \<noteq> []" using assms(2) by (auto simp: is_abs_def has_prefix_def)
  then have pa: "is_abs p" using assms(2) unfolding p by (simp add: path_join_def is_abs_append)
  show ?thesis
  proof (cases "rel = ''.''")
    case False
    then have "contained_in dir p" using r by (simp add: contained_in_def)
    then show ?thesis using contained_in_abs [OF assms(2) pa] by blast
  next
    case True
    show ?thesis
    proof (rule ccontr)
      assume n: "\<not> ?thesis"
      obtain b t where bt: "strip_common (clean_parts dir) (clean_parts p) = (b, t)" by fastforce
      have "clean p \<noteq> ''.''" using is_abs_clean [of p] pa by (auto simp: is_abs_def has_prefix_def)
      then have e: "join_with ''/'' (map (\<lambda>_. ''..'') b @ t) = ''.''"
        using r(1) True n assms(2) pa bt by (auto simp: path_rel_def split: if_splits)
      obtain c where c: "clean_parts dir = c @ b" "clean_parts p = c @ t" using strip_common_split [OF bt] by blast
      have "b = []" using e by (cases b) (auto simp: join_first split: if_splits)
      moreover have "t \<noteq> []" using e calculation by auto
      ultimately show False using n c by (cases t) auto
    qed
  qed
qed

section \<open>Processes\<close>

text \<open>A process by its number, with what the trail and the lookup need.\<close>

record child =
  ch_id :: nat
  ch_name :: string
  ch_skill :: string

datatype trail = Exec nat string string "string list" "string list" | Inject nat "string list" "string list" | Exit nat

text \<open>
  Children that passed their health check, starts whose check is still under way, the processes alive, the
  trail, and the next number.
\<close>

record supervisor =
  su_children :: "child list"
  su_starting :: "child list"
  su_live :: "nat list"
  su_trail :: "trail list"
  su_next :: nat

definition empty_supervisor :: supervisor where
  "empty_supervisor = \<lparr>su_children = [], su_starting = [], su_live = [], su_trail = [], su_next = 0\<rparr>"

text \<open>The first half of \<open>startOne\<close>, up to the health check; the gate comes before everything else.\<close>

datatype start_outcome = PortFailed | LogFailed | SpawnFailed | Spawned

definition begin_start ::
    "(sidecar_spec \<Rightarrow> bool) \<Rightarrow> sidecar_spec \<Rightarrow> start_outcome \<Rightarrow> supervisor \<Rightarrow> child option \<times> supervisor" where
  "begin_start authorized sp out su =
     (if \<not> authorized sp then (None, su)
      else if out \<noteq> Spawned \<or> sp_command sp = [] then (None, su)
      else let pid = su_next su; c = \<lparr>ch_id = pid, ch_name = sp_name sp, ch_skill = shown_name sp\<rparr>;
               sn = sort (map fst (sp_secrets sp)); cn = sort (map fst (sp_config sp))
           in (Some c, su\<lparr>su_starting := c # su_starting su, su_live := pid # su_live su, su_next := Suc pid,
                 su_trail := su_trail su @ [Exec pid (shown_name sp) (sp_skill_dir sp) sn cn] @
                   (if sn \<noteq> [] \<or> cn \<noteq> [] then [Inject pid sn cn] else [])\<rparr>))"

definition gone :: "nat \<Rightarrow> supervisor \<Rightarrow> supervisor" where
  "gone pid su = su\<lparr>su_live := filter (\<lambda>p. p \<noteq> pid) (su_live su)\<rparr>"

text \<open>The second half: tracked when healthy, else terminated, with nothing on the trail.\<close>

definition end_start :: "bool \<Rightarrow> child \<Rightarrow> supervisor \<Rightarrow> supervisor" where
  "end_start healthy c su =
     (let su1 = su\<lparr>su_starting := filter (\<lambda>x. ch_id x \<noteq> ch_id c) (su_starting su)\<rparr>
      in if healthy then su1\<lparr>su_children := su_children su1 @ [c]\<rparr> else gone (ch_id c) su1)"

text \<open>\<open>auditExit\<close>: once for each child.\<close>

definition audit_exit :: "child \<Rightarrow> supervisor \<Rightarrow> supervisor" where
  "audit_exit c su =
     (if Exit (ch_id c) \<in> set (su_trail su) then su else su\<lparr>su_trail := su_trail su @ [Exit (ch_id c)]\<rparr>)"

definition reap :: "child \<Rightarrow> supervisor \<Rightarrow> supervisor" where
  "reap c su = audit_exit c (gone (ch_id c) su)"

fun take_named :: "string \<Rightarrow> child list \<Rightarrow> (child \<times> child list) option" where
  "take_named name [] = None"
| "take_named name (c # cs) =
     (if ch_name c = name then Some (c, cs)
      else case take_named name cs of None \<Rightarrow> None | Some (d, ds) \<Rightarrow> Some (d, c # ds))"

definition stop_sidecar :: "string \<Rightarrow> supervisor \<Rightarrow> bool \<times> supervisor" where
  "stop_sidecar name su =
     (case take_named name (su_children su) of
        None \<Rightarrow> (False, su) | Some (c, cs) \<Rightarrow> (True, reap c (su\<lparr>su_children := cs\<rparr>)))"

definition shutdown_all :: "supervisor \<Rightarrow> supervisor" where
  "shutdown_all su = fold reap (su_children su) (su\<lparr>su_children := []\<rparr>)"

text \<open>The whole of \<open>startOne\<close>, \<open>AddSidecar\<close> and \<open>StartAll\<close> when nothing interleaves.\<close>

definition add_sidecar ::
    "(sidecar_spec \<Rightarrow> bool) \<Rightarrow> sidecar_spec \<times> start_outcome \<times> bool \<Rightarrow> supervisor \<Rightarrow> child option \<times> supervisor" where
  "add_sidecar authorized x su =
     (let (sp, out, healthy) = x; (c, su1) = begin_start authorized sp out su
      in case c of
           None \<Rightarrow> (None, su1)
         | Some c \<Rightarrow> (if healthy then Some c else None, end_start healthy c su1))"

fun start_all ::
    "(sidecar_spec \<Rightarrow> bool) \<Rightarrow> (sidecar_spec \<times> start_outcome \<times> bool) list \<Rightarrow> supervisor \<Rightarrow> child list option \<times> supervisor" where
  "start_all authorized [] su = (Some [], su)"
| "start_all authorized (x # xs) su =
     (case add_sidecar authorized x su of
        (None, su1) \<Rightarrow> (None, shutdown_all su1)
      | (Some c, su1) \<Rightarrow> (let (cs, su2) = start_all authorized xs su1 in (map_option ((#) c) cs, su2)))"

text \<open>The steps of concurrent callers, and of processes that end by themselves.\<close>

inductive supervisor_step :: "(sidecar_spec \<Rightarrow> bool) \<Rightarrow> supervisor \<Rightarrow> supervisor \<Rightarrow> bool" for authorized where
  begins: "begin_start authorized sp out su = (c, su') \<Longrightarrow> supervisor_step authorized su su'"
| ends: "c \<in> set (su_starting su) \<Longrightarrow> supervisor_step authorized su (end_start healthy c su)"
| dies: "c \<in> set (su_children su) \<Longrightarrow> supervisor_step authorized su (reap c su)"
| stops: "supervisor_step authorized su (snd (stop_sidecar name su))"
| shuts: "supervisor_step authorized su (shutdown_all su)"

inductive supervised :: "(sidecar_spec \<Rightarrow> bool) \<Rightarrow> supervisor \<Rightarrow> bool" for authorized where
  initial: "supervised authorized empty_supervisor"
| step: "supervised authorized su \<Longrightarrow> supervisor_step authorized su su' \<Longrightarrow> supervised authorized su'"

section \<open>The trail tells the truth\<close>

definition executed :: "nat \<Rightarrow> trail list \<Rightarrow> bool" where
  "executed pid tr \<longleftrightarrow> (\<exists>skill dir sn cn. Exec pid skill dir sn cn \<in> set tr)"

text \<open>Every exit follows the start of its process, and comes once.\<close>

definition orderly :: "trail list \<Rightarrow> bool" where
  "orderly tr \<longleftrightarrow> (\<forall>xs pid ys. tr = xs @ Exit pid # ys \<longrightarrow> executed pid xs \<and> Exit pid \<notin> set xs)"

lemma orderly_append:
  assumes "orderly tr" "\<And>pid. e = Exit pid \<Longrightarrow> executed pid tr \<and> Exit pid \<notin> set tr"
  shows "orderly (tr @ [e])"
  unfolding orderly_def
proof (intro allI impI)
  fix xs pid ys assume eq: "tr @ [e] = xs @ Exit pid # ys"
  show "executed pid xs \<and> Exit pid \<notin> set xs"
  proof (cases ys rule: rev_cases)
    case Nil
    then show ?thesis using eq assms(2) by simp
  next
    case (snoc zs z)
    then have "tr = xs @ Exit pid # zs" using eq by simp
    then show ?thesis using assms(1) unfolding orderly_def by blast
  qed
qed

definition authorized_trail :: "(sidecar_spec \<Rightarrow> bool) \<Rightarrow> trail list \<Rightarrow> bool" where
  "authorized_trail authorized tr \<longleftrightarrow>
     (\<forall>pid skill dir sn cn. Exec pid skill dir sn cn \<in> set tr \<longrightarrow>
        (\<exists>sp. authorized sp \<and> sp_skill_dir sp = dir \<and> shown_name sp = skill))"

lemma authorized_trail_simps [simp]:
  "authorized_trail authorized []"
  "authorized_trail authorized (a @ b) \<longleftrightarrow> authorized_trail authorized a \<and> authorized_trail authorized b"
  "authorized_trail authorized (Exec q skill dir sn cn # tr) \<longleftrightarrow>
     (\<exists>sp. authorized sp \<and> sp_skill_dir sp = dir \<and> shown_name sp = skill) \<and> authorized_trail authorized tr"
  "authorized_trail authorized (Inject q sn cn # tr) \<longleftrightarrow> authorized_trail authorized tr"
  "authorized_trail authorized (Exit q # tr) \<longleftrightarrow> authorized_trail authorized tr"
  unfolding authorized_trail_def by (auto; metis)+

text \<open>The invariant, with the children a stop or a shutdown has taken out and not yet reaped.\<close>

definition supervisor_inv :: "(sidecar_spec \<Rightarrow> bool) \<Rightarrow> child list \<Rightarrow> supervisor \<Rightarrow> bool" where
  "supervisor_inv authorized out su \<longleftrightarrow>
     distinct (map ch_id (su_children su @ out @ su_starting su)) \<and>
     (\<forall>p \<in> set (su_live su). p \<in> ch_id ` (set (su_children su) \<union> set out \<union> set (su_starting su))) \<and>
     (\<forall>c \<in> set (su_starting su). ch_id c \<in> set (su_live su)) \<and>
     (\<forall>c \<in> set (su_children su) \<union> set out. ch_id c \<in> set (su_live su) \<or> Exit (ch_id c) \<in> set (su_trail su)) \<and>
     (\<forall>c \<in> set (su_children su) \<union> set out \<union> set (su_starting su). executed (ch_id c) (su_trail su)) \<and>
     (\<forall>pid. Exit pid \<in> set (su_trail su) \<longrightarrow> pid \<notin> set (su_live su)) \<and>
     (\<forall>pid. executed pid (su_trail su) \<or> Exit pid \<in> set (su_trail su) \<longrightarrow> pid < su_next su) \<and>
     orderly (su_trail su) \<and> authorized_trail authorized (su_trail su)"

lemma executed_append [simp]: "executed pid (a @ b) \<longleftrightarrow> executed pid a \<or> executed pid b"
  by (auto simp: executed_def)

lemma executed_simps [simp]:
  "\<not> executed pid []" "executed pid (Exec q a b c d # tr) \<longleftrightarrow> pid = q \<or> executed pid tr"
  "executed pid (Inject q c d # tr) \<longleftrightarrow> executed pid tr" "executed pid (Exit q # tr) \<longleftrightarrow> executed pid tr"
  by (auto simp: executed_def)

lemma inv_begin:
  assumes "supervisor_inv authorized [] su" "begin_start authorized sp out su = (c, su')"
  shows "supervisor_inv authorized [] su'"
proof (cases c)
  case None
  then show ?thesis using assms by (auto simp: begin_start_def Let_def split: if_splits)
next
  case (Some ch)
  define sn where "sn = sort (map fst (sp_secrets sp))"
  define cn where "cn = sort (map fst (sp_config sp))"
  let ?pid = "su_next su"
  define new where "new = Exec ?pid (shown_name sp) (sp_skill_dir sp) sn cn # (if sn \<noteq> [] \<or> cn \<noteq> [] then [Inject ?pid sn cn] else [])"
  have au: "authorized sp" and ch: "ch = \<lparr>ch_id = ?pid, ch_name = sp_name sp, ch_skill = shown_name sp\<rparr>"
    and su': "su' = su\<lparr>su_starting := ch # su_starting su, su_live := ?pid # su_live su, su_next := Suc ?pid,
        su_trail := su_trail su @ new\<rparr>"
    using assms(2) Some by (auto simp: begin_start_def Let_def new_def sn_def cn_def split: if_splits)
  note inv = assms(1)[unfolded supervisor_inv_def]
  have fresh: "\<not> executed ?pid (su_trail su)" "Exit ?pid \<notin> set (su_trail su)" using inv by blast+
  have ids: "?pid \<notin> ch_id ` (set (su_children su) \<union> set (su_starting su))" using inv fresh(1) by auto
  have ex: "Exit p \<notin> set new" "executed p new \<longleftrightarrow> p = ?pid" for p by (auto simp: new_def)
  have o1: "orderly (su_trail su @ [Exec ?pid (shown_name sp) (sp_skill_dir sp) sn cn])"
    by (rule orderly_append) (use inv in simp_all)
  have "orderly ((su_trail su @ [Exec ?pid (shown_name sp) (sp_skill_dir sp) sn cn]) @ [Inject ?pid sn cn])"
    by (rule orderly_append [OF o1]) simp
  then have "orderly (su_trail su @ new)" using o1 by (auto simp: new_def)
  moreover have "authorized_trail authorized (su_trail su @ new)"
    using inv au by (auto simp: new_def)
  ultimately show ?thesis
    using inv ids ex fresh unfolding supervisor_inv_def su' by (auto simp: ch less_Suc_eq)
qed

lemma inv_reap:
  assumes "supervisor_inv authorized out su" "c \<in> set (su_children su) \<union> set out"
  shows "supervisor_inv authorized out (reap c su)" "ch_id c \<notin> set (su_live (reap c su))"
    "su_children (reap c su) = su_children su" "su_starting (reap c su) = su_starting su"
proof -
  note inv = assms(1)[unfolded supervisor_inv_def]
  have tr: "su_trail (reap c su) = (if Exit (ch_id c) \<in> set (su_trail su) then su_trail su else su_trail su @ [Exit (ch_id c)])"
    and rest: "su_live (reap c su) = filter (\<lambda>p. p \<noteq> ch_id c) (su_live su)" "su_children (reap c su) = su_children su"
      "su_starting (reap c su) = su_starting su" "su_next (reap c su) = su_next su"
    by (simp_all add: reap_def audit_exit_def gone_def)
  show "ch_id c \<notin> set (su_live (reap c su))" "su_children (reap c su) = su_children su" "su_starting (reap c su) = su_starting su"
    using rest by simp_all
  have ex: "executed (ch_id c) (su_trail su)" using inv assms(2) by blast
  have "ch_id ` (set (su_children su) \<union> set out) \<inter> ch_id ` set (su_starting su) = {}" using inv by auto
  then have st: "ch_id x \<noteq> ch_id c" if "x \<in> set (su_starting su)" for x using assms(2) that by blast
  have "orderly (su_trail su @ [Exit (ch_id c)])" if "Exit (ch_id c) \<notin> set (su_trail su)"
    by (rule orderly_append) (use inv ex that in simp_all)
  then have o: "orderly (su_trail (reap c su))" using inv by (simp add: tr)
  have a: "authorized_trail authorized (su_trail (reap c su))" using inv by (simp add: tr)
  have e: "executed p (su_trail (reap c su)) \<longleftrightarrow> executed p (su_trail su)"
    "Exit p \<in> set (su_trail (reap c su)) \<longleftrightarrow> Exit p \<in> set (su_trail su) \<or> p = ch_id c" for p
    by (auto simp: tr)
  have n: "ch_id c < su_next su" using inv ex by blast
  show "supervisor_inv authorized out (reap c su)"
    using inv st o a n unfolding supervisor_inv_def rest e by (intro conjI; (simp | blast)?) auto
qed

lemma inv_end:
  assumes "supervisor_inv authorized [] su" "c \<in> set (su_starting su)"
  shows "supervisor_inv authorized [] (end_start healthy c su)"
proof -
  note inv = assms(1)[unfolded supervisor_inv_def]
  define st where "st = filter (\<lambda>x. ch_id x \<noteq> ch_id c) (su_starting su)"
  have d: "distinct (map ch_id (su_starting su))" "ch_id ` set (su_children su) \<inter> ch_id ` set (su_starting su) = {}"
    using inv by auto
  have c: "ch_id c \<notin> ch_id ` set (su_children su)" "ch_id c \<notin> ch_id ` set st" "ch_id c \<in> set (su_live su)"
    "executed (ch_id c) (su_trail su)"
    using inv assms(2) d(2) by (auto simp: st_def)
  have sub: "set st \<subseteq> set (su_starting su)" "distinct (map ch_id st)"
    using d(1) by (auto simp: st_def distinct_map_filter)
  have only: "x = c" if "x \<in> set (su_starting su)" "ch_id x = ch_id c" for x
    using d(1) that assms(2) by (auto simp: distinct_map dest: inj_onD)
  have cov: "set (su_starting su) \<subseteq> insert c (set st)" using only by (auto simp: st_def)
  have dj: "ch_id ` set (su_children su) \<inter> ch_id ` set st = {}" using d(2) sub(1) by blast
  have lc: "p = ch_id c \<or> p \<in> ch_id ` (set (su_children su) \<union> set st)" if "p \<in> set (su_live su)" for p
  proof -
    have "p \<in> ch_id ` set (su_children su) \<or> p \<in> ch_id ` set (su_starting su)" using inv that by (auto simp: image_Un)
    then show ?thesis using image_mono [OF cov, of ch_id] by auto
  qed
  show ?thesis
  proof (cases healthy)
    case True
    then have e: "end_start healthy c su = su\<lparr>su_starting := st, su_children := su_children su @ [c]\<rparr>"
      by (simp add: end_start_def st_def)
    have "\<forall>p \<in> set (su_live su). p \<in> ch_id ` (set (su_children su @ [c]) \<union> set [] \<union> set st)"
      using lc by auto
    then show ?thesis using inv c sub dj unfolding supervisor_inv_def e by (intro conjI; (simp | blast)?) auto
  next
    case False
    then have e: "end_start healthy c su = su\<lparr>su_starting := st, su_live := filter (\<lambda>p. p \<noteq> ch_id c) (su_live su)\<rparr>"
      by (simp add: end_start_def st_def gone_def)
    have "\<forall>p \<in> set (filter (\<lambda>p. p \<noteq> ch_id c) (su_live su)). p \<in> ch_id ` (set (su_children su) \<union> set [] \<union> set st)"
      using lc by auto
    moreover have "\<forall>x \<in> set (su_children su) \<union> set st. ch_id x \<noteq> ch_id c" using c(1,2) by (metis Un_iff image_eqI)
    ultimately show ?thesis using inv sub dj unfolding supervisor_inv_def e by (intro conjI; (simp | blast)?) auto
  qed
qed

lemma inv_drop: "supervisor_inv authorized (c # out) su \<Longrightarrow> ch_id c \<notin> set (su_live su) \<Longrightarrow> supervisor_inv authorized out su"
  unfolding supervisor_inv_def by (elim conjE, intro conjI; (simp | blast)?) auto

lemma take_named_Some:
  "take_named name cs = Some (c, ds) \<Longrightarrow> ch_name c = name \<and> mset cs = add_mset c (mset ds)"
  by (induction cs arbitrary: ds) (auto split: if_splits option.splits)

lemma inv_out:
  assumes "supervisor_inv authorized [] su" "mset (su_children su) = mset (cs @ out)"
  shows "supervisor_inv authorized out (su\<lparr>su_children := cs\<rparr>)"
proof -
  have s: "set (su_children su) = set cs \<union> set out" using mset_eq_setD [OF assms(2)] by simp
  have "mset (map ch_id (su_children su @ su_starting su)) = mset (map ch_id (cs @ out @ su_starting su))"
    using assms(2) by (simp add: add.assoc)
  then have "distinct (map ch_id (su_children su @ su_starting su)) = distinct (map ch_id (cs @ out @ su_starting su))"
    by (rule mset_eq_imp_distinct_iff)
  then show ?thesis using assms(1) unfolding supervisor_inv_def by (simp add: s) blast?
qed

lemma inv_stop:
  assumes "supervisor_inv authorized [] su"
  shows "supervisor_inv authorized [] (snd (stop_sidecar name su))"
proof (cases "take_named name (su_children su)")
  case (Some x)
  obtain c cs where x: "x = (c, cs)" by fastforce
  have "mset (su_children su) = mset (cs @ [c])" using take_named_Some Some x by fastforce
  then have i: "supervisor_inv authorized [c] (su\<lparr>su_children := cs\<rparr>)" by (rule inv_out [OF assms])
  have r: "supervisor_inv authorized [c] (reap c (su\<lparr>su_children := cs\<rparr>))"
    "ch_id c \<notin> set (su_live (reap c (su\<lparr>su_children := cs\<rparr>)))"
    by (rule inv_reap [OF i]; simp)+
  show ?thesis using inv_drop [OF r] Some x by (simp add: stop_sidecar_def)
qed (use assms in \<open>simp add: stop_sidecar_def\<close>)

lemma inv_reap_all:
  "supervisor_inv authorized out su \<Longrightarrow> su_children su = [] \<Longrightarrow>
     supervisor_inv authorized [] (fold reap out su) \<and> su_starting (fold reap out su) = su_starting su \<and>
     su_children (fold reap out su) = []"
proof (induction out arbitrary: su)
  case (Cons c out)
  have c: "c \<in> set (su_children su) \<union> set (c # out)" by simp
  note r = inv_reap [OF Cons.prems(1) c]
  show ?case using Cons.IH [OF inv_drop [OF r(1,2)]] r(3,4) Cons.prems(2) by simp
qed simp

lemma inv_shutdown:
  assumes "supervisor_inv authorized [] su"
  shows "supervisor_inv authorized [] (shutdown_all su)" "su_children (shutdown_all su) = []"
    "su_starting (shutdown_all su) = su_starting su"
proof -
  have "supervisor_inv authorized (su_children su) (su\<lparr>su_children := []\<rparr>)" by (rule inv_out [OF assms]) simp
  from inv_reap_all [OF this]
  show "supervisor_inv authorized [] (shutdown_all su)" "su_children (shutdown_all su) = []"
    "su_starting (shutdown_all su) = su_starting su"
    by (simp_all add: shutdown_all_def)
qed

lemma supervised_inv: "supervised authorized su \<Longrightarrow> supervisor_inv authorized [] su"
proof (induction rule: supervised.induct)
  case initial
  show ?case by (simp add: supervisor_inv_def empty_supervisor_def orderly_def)
next
  case (step su su')
  from step.hyps(2) step.IH show ?case
    by (cases rule: supervisor_step.cases) (auto intro: inv_begin inv_end inv_reap(1) inv_stop inv_shutdown(1))
qed


definition demo_spec :: "string \<Rightarrow> sidecar_spec" where
  "demo_spec dir =
     \<lparr>sp_name = ''s'', sp_skill_name = [], sp_skill_dir = dir, sp_command = [''run''], sp_env_passthrough = [], sp_secrets = [],
      sp_config = [], sp_workdir = ''/w'', sp_harness_skills_dir = []\<rparr>"

text \<open>One sidecar is up and one is starting when the shutdown comes; a forged one is refused.\<close>

definition demo_supervisor :: supervisor where
  "demo_supervisor =
     (let gate = (\<lambda>sp. sp_skill_dir sp = ''/c''); s1 = snd (begin_start gate (demo_spec ''/c'') Spawned empty_supervisor);
          s2 = end_start True (hd (su_starting s1)) s1; s3 = snd (begin_start gate (demo_spec ''/w'') Spawned s2)
      in snd (begin_start gate (demo_spec ''/c'') Spawned s3))"

lemma demo_supervisor_eq:
  "demo_supervisor =
     \<lparr>su_children = [\<lparr>ch_id = 0, ch_name = ''s'', ch_skill = ''s''\<rparr>],
      su_starting = [\<lparr>ch_id = 1, ch_name = ''s'', ch_skill = ''s''\<rparr>], su_live = [1, 0],
      su_trail = [Exec 0 ''s'' ''/c'' [] [], Exec 1 ''s'' ''/c'' [] []], su_next = 2\<rparr>"
  by (simp add: demo_supervisor_def Let_def begin_start_def end_start_def empty_supervisor_def demo_spec_def shown_name_def)

lemma demo_supervised: "supervised (\<lambda>sp. sp_skill_dir sp = ''/c'') demo_supervisor"
proof -
  let ?g = "\<lambda>sp. sp_skill_dir sp = ''/c''"
  define s1 where "s1 = snd (begin_start ?g (demo_spec ''/c'') Spawned empty_supervisor)"
  have b: "supervised ?g s \<Longrightarrow> supervised ?g (snd (begin_start ?g sp out s))" for s sp out
    by (rule supervised.step [OF _ supervisor_step.begins [of _ _ _ _ "fst (begin_start ?g sp out s)"]]) auto
  have "supervised ?g s1" unfolding s1_def by (rule b [OF supervised.initial])
  moreover have "su_starting s1 \<noteq> []" by (simp add: s1_def begin_start_def demo_spec_def Let_def)
  ultimately have "supervised ?g (end_start True (hd (su_starting s1)) s1)"
    by (intro supervised.step [OF _ supervisor_step.ends]) simp_all
  from b [OF b [OF this]] show ?thesis by (simp only: demo_supervisor_def Let_def s1_def)
qed


text \<open>
  A shutdown does not wait for a start whose health check is under way: its process stays, and is tracked when it
  turns out healthy.  A start that turns out unhealthy leaves a start on the trail without an exit.
\<close>

lemma shutdown_misses_starting:
  "1 \<in> set (su_live (shutdown_all demo_supervisor)) \<and>
   su_children (end_start True \<lparr>ch_id = 1, ch_name = ''s'', ch_skill = ''s''\<rparr> (shutdown_all demo_supervisor)) \<noteq> []"
  by (simp add: demo_supervisor_eq shutdown_all_def reap_def audit_exit_def gone_def end_start_def)

lemma unhealthy_without_exit:
  "su_live (end_start False \<lparr>ch_id = 1, ch_name = ''s'', ch_skill = ''s''\<rparr> demo_supervisor) = [0] \<and>
   Exit 1 \<notin> set (su_trail (end_start False \<lparr>ch_id = 1, ch_name = ''s'', ch_skill = ''s''\<rparr> demo_supervisor))"
  by (simp add: demo_supervisor_eq gone_def end_start_def)

section \<open>Callers that do not interleave\<close>

lemma add_sidecar_supervised:
  assumes "supervised authorized su" "add_sidecar authorized x su = (c, su')"
  shows "supervised authorized su'" "su_starting su = [] \<Longrightarrow> su_starting su' = []"
proof -
  obtain sp out healthy where x: "x = (sp, out, healthy)" by (metis prod_cases3)
  obtain c1 su1 where b: "begin_start authorized sp out su = (c1, su1)" by fastforce
  have s1: "supervised authorized su1" using supervised.step [OF assms(1) supervisor_step.begins [OF b]] .
  have "supervised authorized su' \<and> (su_starting su = [] \<longrightarrow> su_starting su' = [])"
  proof (cases c1)
    case None
    then have "su1 = su" using b by (auto simp: begin_start_def Let_def split: if_splits)
    then show ?thesis using assms None b x by (simp add: add_sidecar_def)
  next
    case (Some ch)
    then have st: "su_starting su1 = ch # su_starting su" using b by (auto simp: begin_start_def Let_def split: if_splits)
    have su': "su' = end_start healthy ch su1" using assms(2) Some b x by (simp add: add_sidecar_def)
    have "supervised authorized su'" unfolding su' by (rule supervised.step [OF s1 supervisor_step.ends]) (simp add: st)
    moreover have "su_starting su = [] \<longrightarrow> su_starting su' = []" by (simp add: su' end_start_def Let_def st gone_def)
    ultimately show ?thesis by blast
  qed
  then show "supervised authorized su'" "su_starting su = [] \<Longrightarrow> su_starting su' = []" by blast+
qed

text \<open>\<open>StartAll\<close> on a supervisor with no start under way starts all, or leaves no process at all.\<close>

lemma start_all_or_none:
  "supervised authorized su \<Longrightarrow> su_starting su = [] \<Longrightarrow> start_all authorized xs su = (cs, su') \<Longrightarrow>
     supervised authorized su' \<and> (case cs of None \<Rightarrow> su_live su' = [] | Some l \<Rightarrow> length l = length xs)"
proof (induction xs arbitrary: su cs su')
  case (Cons x xs)
  obtain c su1 where a: "add_sidecar authorized x su = (c, su1)" by fastforce
  note s = add_sidecar_supervised [OF Cons.prems(1) a]
  show ?case
  proof (cases c)
    case None
    have sh: "supervised authorized (shutdown_all su1)" by (rule supervised.step [OF s(1) supervisor_step.shuts])
    have "set (su_live (shutdown_all su1)) \<subseteq> ch_id ` set (su_starting su1)"
      using inv_shutdown [OF supervised_inv [OF s(1)]] unfolding supervisor_inv_def by auto
    then show ?thesis using None a sh s(2) Cons.prems(2,3) by auto
  next
    case (Some ch)
    obtain l su2 where l: "start_all authorized xs su1 = (l, su2)" by fastforce
    show ?thesis using Cons.IH [OF s(1) s(2) [OF Cons.prems(2)] l] Some a l Cons.prems(3) by (cases l) auto
  qed
qed auto

section \<open>What a ready skill runs with\<close>


text \<open>A skill with one secret in the keychain and one field left to its default.\<close>

definition ready_options :: options where
  "ready_options = demo_options\<lparr>ro_keychain := (\<lambda>_ _ _. Inr ''k''), ro_skip_hash := True\<rparr>"

definition ready_sidecar :: sidecar_meta where
  "ready_sidecar = demo_sidecar
     \<lparr>sm_command := [''run''], sm_secrets := [\<lparr>ss_name = ''T'', ss_required = None, ss_pattern = [], ss_default_from_env = [], ss_docs = []\<rparr>],
      sm_config := [demo_field\<lparr>cs_default := ''d''\<rparr>]\<rparr>"

definition ready_spec :: sidecar_spec where
  "ready_spec = (demo_spec ''/c'')\<lparr>sp_secrets := [(''T'', ''k'')], sp_config := [(''URL'', ''d'')]\<rparr>"


end
