(* ===== verification/Harness.thy ===== *)
theory Harness
  imports Expand "HOL-Library.List_Lexorder" "HOL-Library.Char_ord"
begin

text \<open>
  The agents omac can launch (\<open>internal/config/harness.go\<close>): the registry as data, the lookup of a name,
  where a harness keeps its configuration and skills and which of it the sandbox is granted, and the command
  line of a launch.  The environment is the parameter of \<open>Expand\<close>.
\<close>

section \<open>Data\<close>

record server_launch =
  sl_subcommand :: string
  sl_listen_port :: int
  sl_port_flag :: string
  sl_auth_env :: string

datatype list_kind = ListNone | ListOpenCodeCLI | ListClaudeFiles | ListCodex | ListCopilot | ListPi | ListCodewhale

record harness_session =
  se_continue :: "string list"
  se_resume :: "string \<Rightarrow> string list"
  se_kind :: list_kind

text \<open>
  The briefing functions that write a file give its path and text, with what they return once it is
  written: variables, or the path relative to the working directory.
\<close>

record harness =
  hn_name :: string
  hn_aliases :: "string list"
  hn_inner_cmd :: "string list"
  hn_server :: "server_launch option"
  hn_bridge_dir :: string
  hn_skills_base :: string
  hn_user_config_home :: string
  hn_home_env :: string
  hn_session :: "harness_session option"
  hn_system_context :: "(string \<Rightarrow> string list) option"
  hn_briefing_env :: "(string \<Rightarrow> string \<Rightarrow> (string \<times> string) \<times> (string \<times> string) list) option"
  hn_launch_env :: "(string \<Rightarrow> string \<Rightarrow> (string \<times> string) list) option"
  hn_briefing_file :: "(string \<Rightarrow> string \<Rightarrow> (string \<times> string) \<times> string) option"
  hn_dirs :: "string list"
  hn_create_dirs :: "string list"
  hn_deny_paths :: "string list"
  hn_needs_bootstrap :: bool
  hn_env_allow :: "string list"

definition shared_skills_base :: string where "shared_skills_base = ''agents''"

definition plain_harness :: harness where
  "plain_harness =
     \<lparr>hn_name = [], hn_aliases = [], hn_inner_cmd = [], hn_server = None, hn_bridge_dir = [], hn_skills_base = [],
      hn_user_config_home = [], hn_home_env = [], hn_session = None, hn_system_context = None, hn_briefing_env = None,
      hn_launch_env = None, hn_briefing_file = None, hn_dirs = [], hn_create_dirs = [], hn_deny_paths = [],
      hn_needs_bootstrap = False, hn_env_allow = []\<rparr>"

section \<open>Locations of OpenCode\<close>

definition env_join :: "host_env \<Rightarrow> string \<Rightarrow> string list \<Rightarrow> string" where
  "env_join env name elems = (let root = he_getenv env name in if root = [] then [] else path_join (root # elems))"

definition xdg_data_dir :: "host_env \<Rightarrow> string \<Rightarrow> string" where
  "xdg_data_dir env name =
     (let root = he_getenv env ''XDG_DATA_HOME''
      in if root \<noteq> [] then path_join [root, name] else path_join [''~'', ''.local'', ''share'', name])"

definition has_glob :: "string \<Rightarrow> bool" where
  "has_glob s \<longleftrightarrow> list_ex (\<lambda>c. c = CHR ''*'' \<or> c = CHR ''?'' \<or> c = CHR ''['') s"

definition service_files :: "host_env \<Rightarrow> string list" where
  "service_files env =
     fold (\<lambda>dir out. if dir = [] \<or> has_glob dir then out
                     else let p = path_join [dir, ''service.json''] in if p \<in> set out then out else out @ [p])
       [env_join env ''XDG_CONFIG_HOME'' [''opencode''], env_join env ''OPENCODE_CONFIG_DIR'' [],
        env_join env ''XDG_STATE_HOME'' [''opencode'']]
       [''~/.config/opencode/service.json'', ''~/.local/state/opencode/service.json'']"

section \<open>The registry\<close>

definition opencode_harness :: "host_env \<Rightarrow> harness" where
  "opencode_harness env = plain_harness
     \<lparr>hn_name := ''opencode'', hn_aliases := [''oc''], hn_inner_cmd := [''opencode''],
      hn_server := Some \<lparr>sl_subcommand = ''serve'', sl_listen_port = 4096, sl_port_flag = ''--port'',
        sl_auth_env = ''OPENCODE_SERVER_PASSWORD''\<rparr>,
      hn_bridge_dir := path_join [''.opencode'', ''plugins''], hn_skills_base := ''opencode'',
      hn_session := Some \<lparr>se_continue = [''--continue''], se_resume = (\<lambda>i. [''--session'', i]), se_kind = ListOpenCodeCLI\<rparr>,
      hn_dirs := [''~/.local/share/opencode'', xdg_data_dir env ''opentui'', ''~/.local/state/opencode'', ''~/.config/opencode'',
        ''~/.opencode''],
      hn_create_dirs := [xdg_data_dir env ''opentui''], hn_deny_paths := service_files env, hn_needs_bootstrap := True\<rparr>"

definition claude_harness :: harness where
  "claude_harness = plain_harness
     \<lparr>hn_name := ''claude-code'', hn_aliases := [''claude'', ''cc''], hn_inner_cmd := [''claude''], hn_bridge_dir := ''.claude'',
      hn_skills_base := ''claude'', hn_user_config_home := ''.claude'', hn_home_env := ''CLAUDE_CONFIG_DIR'',
      hn_dirs := [''~/.claude'', ''~/.local/share/claude''],
      hn_env_allow := [''ANTHROPIC_API_KEY'', ''ANTHROPIC_AUTH_TOKEN'', ''ANTHROPIC_BASE_URL'', ''ANTHROPIC_MODEL'', ''CLAUDE_CODE_TMPDIR''],
      hn_launch_env := Some (\<lambda>_ tmp. [(''CLAUDE_CODE_TMPDIR'', tmp)]),
      hn_session := Some \<lparr>se_continue = [''--continue''], se_resume = (\<lambda>i. [''--resume'', i]), se_kind = ListClaudeFiles\<rparr>,
      hn_system_context := Some (\<lambda>b. [''--append-system-prompt'', b])\<rparr>"

definition codex_harness :: harness where
  "codex_harness = plain_harness
     \<lparr>hn_name := ''codex'', hn_aliases := [''cx''], hn_inner_cmd := [''codex''], hn_bridge_dir := ''.codex'', hn_skills_base := ''codex'',
      hn_user_config_home := ''.codex'', hn_home_env := ''CODEX_HOME'', hn_dirs := [''~/.codex''],
      hn_env_allow := [''OPENAI_API_KEY'', ''OPENAI_BASE_URL''],
      hn_session := Some \<lparr>se_continue = [''resume'', ''--last''], se_resume = (\<lambda>i. [''resume'', i]), se_kind = ListCodex\<rparr>,
      hn_system_context := Some (\<lambda>b. [''-c'', ''instructions='' @ b])\<rparr>"

definition copilot_harness :: harness where
  "copilot_harness = plain_harness
     \<lparr>hn_name := ''copilot'', hn_aliases := [''co''], hn_inner_cmd := [''copilot''], hn_bridge_dir := ''.copilot'',
      hn_skills_base := ''copilot'', hn_user_config_home := ''.copilot'', hn_home_env := ''COPILOT_HOME'', hn_dirs := [''~/.copilot''],
      hn_env_allow := [''GITHUB_TOKEN'', ''GH_TOKEN'', ''COPILOT_CUSTOM_INSTRUCTIONS_DIRS'', ''COPILOT_PROVIDER_TYPE'',
        ''COPILOT_PROVIDER_BASE_URL'', ''COPILOT_PROVIDER_API_KEY'', ''COPILOT_MODEL'', ''COPILOT_PROVIDER_WIRE_API'', ''COPILOT_CACHE_HOME''],
      hn_launch_env := Some (\<lambda>home _. if home = [] then [] else [(''COPILOT_CACHE_HOME'', home)]),
      hn_session := Some \<lparr>se_continue = [''--continue''], se_resume = (\<lambda>i. [''--session-id'', i]), se_kind = ListCopilot\<rparr>,
      hn_briefing_env := Some (\<lambda>b tmp. ((path_join [tmp, ''AGENTS.md''], b), [(''COPILOT_CUSTOM_INSTRUCTIONS_DIRS'', tmp)]))\<rparr>"

definition pi_harness :: harness where
  "pi_harness = plain_harness
     \<lparr>hn_name := ''pi'', hn_inner_cmd := [''pi''], hn_bridge_dir := ''.pi/extensions'', hn_skills_base := ''pi'',
      hn_user_config_home := path_join [''.pi'', ''agent''], hn_home_env := ''PI_CODING_AGENT_DIR'', hn_dirs := [''~/.pi''],
      hn_session := Some \<lparr>se_continue = [''-c''], se_resume = (\<lambda>i. [''--session'', i]), se_kind = ListPi\<rparr>\<rparr>"

definition codewhale_harness :: harness where
  "codewhale_harness = plain_harness
     \<lparr>hn_name := ''codewhale'', hn_aliases := [''cw''], hn_inner_cmd := [''codewhale''], hn_skills_base := shared_skills_base,
      hn_user_config_home := ''.codewhale'', hn_home_env := ''CODEWHALE_HOME'', hn_dirs := [''~/.codewhale''],
      hn_session := Some \<lparr>se_continue = [''--continue''], se_resume = (\<lambda>i. [''resume'', i]), se_kind = ListCodewhale\<rparr>,
      hn_briefing_file := Some (\<lambda>b workdir.
        let rel = path_join [''.codewhale'', ''rules'', ''omac-sandbox-briefing.md''] in ((path_join [workdir, rel], b), rel))\<rparr>"

definition harness_registry :: "host_env \<Rightarrow> harness list" where
  "harness_registry env =
     [opencode_harness env, claude_harness, codex_harness, copilot_harness, pi_harness, codewhale_harness]"

definition lookup_harness :: "host_env \<Rightarrow> string \<Rightarrow> harness option" where
  "lookup_harness env name =
     (let want = to_lower (trim_space name)
      in if want = [] then None
         else find (\<lambda>h. to_lower (hn_name h) = want \<or> list_ex (\<lambda>a. to_lower a = want) (hn_aliases h)) (harness_registry env))"

definition default_harness_name :: string where "default_harness_name = ''opencode''"

definition default_harness :: "host_env \<Rightarrow> harness option" where
  "default_harness env = lookup_harness env default_harness_name"

definition harness_names :: "host_env \<Rightarrow> string list" where
  "harness_names env = sort (map hn_name (harness_registry env))"

definition all_skills_bases :: "host_env \<Rightarrow> string list" where
  "all_skills_bases env = filter (\<lambda>b. b \<noteq> []) (map hn_skills_base (harness_registry env))"

definition home_env_names :: "host_env \<Rightarrow> string list" where
  "home_env_names env = rev (remdups (rev (filter (\<lambda>n. n \<noteq> []) (map hn_home_env (harness_registry env)))))"

section \<open>Skills in scope\<close>

definition in_scope_bases :: "harness \<Rightarrow> string list" where
  "in_scope_bases h =
     (if hn_skills_base h = [] \<or> hn_skills_base h = shared_skills_base then [shared_skills_base]
      else [hn_skills_base h, shared_skills_base])"

definition base_in_scope :: "harness \<Rightarrow> string \<Rightarrow> bool" where
  "base_in_scope h b \<longleftrightarrow> list_ex (\<lambda>x. x = b) (in_scope_bases h)"

definition own_base :: "harness \<Rightarrow> string" where
  "own_base h = (if hn_skills_base h = [] then shared_skills_base else hn_skills_base h)"

definition workdir_skills_dir :: "harness \<Rightarrow> string" where
  "workdir_skills_dir h = path_join [''.'' @ own_base h, ''skills'']"

section \<open>Directories\<close>

definition normalize_home_path :: "host_env \<Rightarrow> string \<Rightarrow> string" where
  "normalize_home_path env p =
     (if p = [] then []
      else let q = (if p = ''~'' \<or> has_prefix p ''~/'' then
                      (case user_home_dir env of None \<Rightarrow> p | Some home \<Rightarrow> if p = ''~'' then home else path_join [home, drop 2 p])
                    else p)
           in case abs_path env q of Inl _ \<Rightarrow> clean q | Inr a \<Rightarrow> a)"

definition user_config_root :: "host_env \<Rightarrow> string" where
  "user_config_root env =
     (if he_getenv env ''XDG_CONFIG_HOME'' \<noteq> [] then he_getenv env ''XDG_CONFIG_HOME''
      else case user_home_dir env of None \<Rightarrow> [] | Some home \<Rightarrow> path_join [home, ''.config''])"

definition default_config_home :: "host_env \<Rightarrow> harness \<Rightarrow> string" where
  "default_config_home env h =
     (if hn_user_config_home h \<noteq> [] then
        (case user_home_dir env of None \<Rightarrow> [] | Some home \<Rightarrow> path_join [home, hn_user_config_home h])
      else let root = user_config_root env in if root = [] then [] else path_join [root, own_base h])"

definition config_home :: "host_env \<Rightarrow> harness \<Rightarrow> string" where
  "config_home env h =
     (if hn_home_env h \<noteq> [] \<and> he_getenv env (hn_home_env h) \<noteq> [] then normalize_home_path env (he_getenv env (hn_home_env h))
      else default_config_home env h)"

definition redirected_config_home :: "host_env \<Rightarrow> harness \<Rightarrow> string" where
  "redirected_config_home env h =
     (let def = default_config_home env h; cur = config_home env h
      in if hn_home_env h = [] \<or> def = [] \<or> cur = [] \<or> def = cur then [] else cur)"

definition resolved_dirs :: "host_env \<Rightarrow> harness \<Rightarrow> string list" where
  "resolved_dirs env h =
     (let cur = redirected_config_home env h; def = default_config_home env h
      in if cur = [] then hn_dirs h
         else let out = map (\<lambda>d. if normalize_home_path env d = def then cur else d) (hn_dirs h)
              in if list_ex (\<lambda>d. normalize_home_path env d = def) (hn_dirs h) then out else out @ [cur])"

definition resolved_create_dirs :: "host_env \<Rightarrow> harness \<Rightarrow> string list" where
  "resolved_create_dirs env h =
     (let dir = redirected_config_home env h in hn_create_dirs h @ (if dir = [] then [] else [dir]))"

definition default_global_skills_dir :: "host_env \<Rightarrow> harness \<Rightarrow> string" where
  "default_global_skills_dir env h =
     (let home = default_config_home env h in if home = [] then [] else path_join [home, ''skills''])"

definition global_skills_dir :: "host_env \<Rightarrow> harness \<Rightarrow> string" where
  "global_skills_dir env h = (let home = config_home env h in if home = [] then [] else path_join [home, ''skills''])"

definition global_bridge_dir :: "host_env \<Rightarrow> harness \<Rightarrow> string" where
  "global_bridge_dir env h =
     (if hn_bridge_dir h = [] then []
      else let leaf = path_base (hn_bridge_dir h)
           in if leaf = ''.'' @ own_base h \<or> leaf = own_base h then []
              else let home = config_home env h in if home = [] then [] else path_join [home, leaf])"

definition forwarded_vars :: "harness \<Rightarrow> string list" where
  "forwarded_vars h =
     (if hn_home_env h = [] \<or> hn_home_env h \<in> set (hn_env_allow h) then hn_env_allow h
      else hn_env_allow h @ [hn_home_env h])"

section \<open>The command line of a launch\<close>

fun has_leading_subcommand :: "string list \<Rightarrow> bool" where
  "has_leading_subcommand [] = False"
| "has_leading_subcommand (a # as) = (if a = [] then has_leading_subcommand as else hd a \<noteq> CHR ''-'')"

definition apply_server_launch :: "harness \<Rightarrow> string list \<Rightarrow> string list \<Rightarrow> string list" where
  "apply_server_launch h inner trailing =
     (case hn_server h of
        None \<Rightarrow> inner
      | Some s \<Rightarrow>
          if sl_subcommand s = [] then inner
          else case inner of
            [] \<Rightarrow> inner
          | exe # rest \<Rightarrow>
              if has_leading_subcommand rest \<or> has_leading_subcommand trailing then inner
              else exe # sl_subcommand s # rest)"

definition port_value :: "string \<Rightarrow> int option" where
  "port_value raw = (case atoi raw of None \<Rightarrow> None | Some n \<Rightarrow> if 0 < n \<and> n \<le> 65535 then Some n else None)"

fun listen_port_loop :: "string \<Rightarrow> string list \<Rightarrow> int \<Rightarrow> int" where
  "listen_port_loop flag [] port = port"
| "listen_port_loop flag (a # as) port =
     (let raw = (if a = flag \<and> as \<noteq> [] then Some (hd as)
                 else if has_prefix a (flag @ ''='') then Some (trim_prefix a (flag @ ''='')) else None)
      in listen_port_loop flag as (case Option.bind raw port_value of None \<Rightarrow> port | Some n \<Rightarrow> n))"

definition resolve_listen_port :: "harness \<Rightarrow> string list \<Rightarrow> int" where
  "resolve_listen_port h argv =
     (case hn_server h of
        None \<Rightarrow> 0
      | Some s \<Rightarrow>
          if sl_listen_port s \<le> 0 then 0
          else if sl_port_flag s = [] then sl_listen_port s
          else listen_port_loop (sl_port_flag s) argv (sl_listen_port s))"

definition resolve_inner_cmd :: "harness \<Rightarrow> string list \<Rightarrow> string \<Rightarrow> string list" where
  "resolve_inner_cmd h profile_inner ovr =
     (if ovr \<noteq> [] then ovr # tl profile_inner
      else if profile_inner = [] then hn_inner_cmd h else profile_inner)"

section \<open>The registry is unambiguous\<close>

definition spellings :: "harness \<Rightarrow> string list" where
  "spellings h = hn_name h # hn_aliases h"

lemmas harness_defs = opencode_harness_def claude_harness_def codex_harness_def copilot_harness_def pi_harness_def codewhale_harness_def
  plain_harness_def

lemma spellings_registry:
  "concat (map spellings (harness_registry env)) =
     [''opencode'', ''oc'', ''claude-code'', ''claude'', ''cc'', ''codex'', ''cx'', ''copilot'', ''co'', ''pi'', ''codewhale'', ''cw'']"
  by (simp add: harness_registry_def spellings_def harness_defs)

lemma spellings_lower: "map to_lower (concat (map spellings (harness_registry env))) = concat (map spellings (harness_registry env))"
  unfolding spellings_registry by code_simp

lemma spellings_distinct: "distinct (concat (map spellings (harness_registry env)))"
  unfolding spellings_registry by simp

lemma find_unique:
  assumes "distinct (concat (map f xs))" "x \<in> set xs" "a \<in> set (f x)"
  shows "find (\<lambda>y. a \<in> set (f y)) xs = Some x"
  using assms by (induction xs) auto

lemma spelled: "h \<in> set (harness_registry env) \<Longrightarrow>
    (to_lower (hn_name h) = w \<or> list_ex (\<lambda>a. to_lower a = w) (hn_aliases h)) \<longleftrightarrow> w \<in> set (spellings h)"
proof -
  assume h: "h \<in> set (harness_registry env)"
  have "to_lower a = a" if "a \<in> set (spellings h)" for a
  proof -
    have "a \<in> set (concat (map spellings (harness_registry env)))" using that h by auto
    then show ?thesis using spellings_lower [of env] by (metis map_eq_conv map_ident)
  qed
  then show ?thesis by (auto simp: spellings_def list_ex_iff)
qed

lemma spelling_ne: "h \<in> set (harness_registry env) \<Longrightarrow> [] \<notin> set (spellings h)"
proof -
  assume h: "h \<in> set (harness_registry env)"
  have "[] \<notin> set (concat (map spellings (harness_registry env)))" unfolding spellings_registry by simp
  then show ?thesis using h by auto
qed

text \<open>
  Every spelling names one harness.  A token selects a harness exactly when, without surrounding space and
  letter case, it is the name or an alias of that harness; no two harnesses share one, and the
  default is registered.
\<close>

theorem lookup_harness_exact:
  "(lookup_harness env name = Some h \<longleftrightarrow> h \<in> set (harness_registry env) \<and> to_lower (trim_space name) \<in> set (spellings h)) \<and>
   default_harness env = Some (opencode_harness env)"
proof -
  let ?w = "to_lower (trim_space name)"
  have look: "lookup_harness env n = (if to_lower (trim_space n) = [] then None
      else find (\<lambda>h. to_lower (trim_space n) \<in> set (spellings h)) (harness_registry env))" for n
  proof -
    have "find (\<lambda>h. to_lower (hn_name h) = w \<or> list_ex (\<lambda>a. to_lower a = w) (hn_aliases h)) (harness_registry env) =
        find (\<lambda>h. w \<in> set (spellings h)) (harness_registry env)" for w
      by (rule find_cong [OF refl]) (rule spelled)
    then show ?thesis unfolding lookup_harness_def Let_def by simp
  qed
  have "lookup_harness env name = Some h \<longleftrightarrow> h \<in> set (harness_registry env) \<and> ?w \<in> set (spellings h)"
  proof
    assume "lookup_harness env name = Some h"
    then show "h \<in> set (harness_registry env) \<and> ?w \<in> set (spellings h)"
      by (auto simp: look find_Some_iff split: if_splits dest: nth_mem)
  next
    assume h: "h \<in> set (harness_registry env) \<and> ?w \<in> set (spellings h)"
    then have "?w \<noteq> []" using spelling_ne by metis
    then show "lookup_harness env name = Some h" using h find_unique [OF spellings_distinct] by (simp add: look)
  qed
  moreover have "to_lower (trim_space default_harness_name) = ''opencode''" by code_simp
  then have "default_harness env = Some (opencode_harness env)"
    by (simp add: default_harness_def look harness_registry_def spellings_def harness_defs)
  ultimately show ?thesis by blast
qed

section \<open>The sandbox is granted what the harness reads\<close>

lemma path_join_id: "is_abs p \<Longrightarrow> is_abs (path_join [p, q]) \<and> clean (path_join [p, q]) = path_join [p, q]"
  using is_abs_join_abs [of p q] path_join_clean [of "[p, q]"] by (auto simp: is_abs_def has_prefix_def)

lemma normalize_below_home:
  assumes "user_home_dir env = Some home" "is_abs home"
  shows "normalize_home_path env (''~/'' @ r) = path_join [home, r]"
  using assms path_join_id [OF assms(2), of r]
  by (simp add: normalize_home_path_def abs_path_def Let_def has_prefix_def)

lemma path_join_ne: "q \<noteq> [] \<Longrightarrow> path_join [a, q] \<noteq> []"
  by (simp add: path_join_def)

lemma abs_path_ne: "abs_path env q = Inr a \<Longrightarrow> q \<noteq> [] \<Longrightarrow> a \<noteq> []"
  using path_join_ne by (auto simp: abs_path_def split: if_splits option.splits)

lemma normalize_ne:
  assumes "p \<noteq> []"
  shows "normalize_home_path env p \<noteq> []"
proof -
  define q where "q = (if p = ''~'' \<or> has_prefix p ''~/'' then
      (case user_home_dir env of None \<Rightarrow> p | Some home \<Rightarrow> if p = ''~'' then home else path_join [home, drop 2 p]) else p)"
  have "user_home_dir env = Some home \<Longrightarrow> home \<noteq> []" for home by (auto simp: user_home_dir_def Let_def split: if_splits)
  then have q: "q \<noteq> []" using assms by (auto simp: q_def path_join_def split: option.split)
  have "normalize_home_path env p = (case abs_path env q of Inl _ \<Rightarrow> clean q | Inr a \<Rightarrow> a)"
    using assms unfolding normalize_home_path_def Let_def q_def by (rule if_not_P)
  then show ?thesis using abs_path_ne [OF _ q] by (cases "abs_path env q") auto
qed

lemma config_home_listed:
  assumes "redirected_config_home env h \<noteq> []"
  shows "config_home env h \<in> set (resolved_dirs env h)" "config_home env h \<in> set (resolved_create_dirs env h)"
    "hn_home_env h \<in> set (forwarded_vars h)"
proof -
  have r: "redirected_config_home env h = config_home env h" "hn_home_env h \<noteq> []"
    using assms by (auto simp: redirected_config_home_def Let_def split: if_splits)
  show "config_home env h \<in> set (resolved_dirs env h)"
    using assms unfolding resolved_dirs_def Let_def r(1) by (auto simp: list_ex_iff)
  show "config_home env h \<in> set (resolved_create_dirs env h)" using assms by (simp add: resolved_create_dirs_def Let_def r(1))
  show "hn_home_env h \<in> set (forwarded_vars h)" using r(2) by (simp add: forwarded_vars_def)
qed

lemma join_parts:
  assumes "is_abs home" "list_all plain ps" "ps \<noteq> []"
  shows "path_join [home, join_with ''/'' ps] = rooted (clean_parts home @ ps)"
proof -
  have ne: "home \<noteq> []" using assms(1) by (auto simp: is_abs_def has_prefix_def)
  have "path_join [home, join_with ''/'' ps] = clean (home @ slash # join_with ''/'' ps)" using ne by (simp add: path_join_def)
  also have "\<dots> = path_of True (clean_parts (home @ slash # join_with ''/'' ps))"
    using assms(1) ne by (simp add: clean_def is_abs_append)
  finally show ?thesis using clean_parts_join(1) [OF ne assms(2,3)] by (simp add: rooted_def)
qed

lemma join_below:
  assumes "is_abs home" "plain a" "plain b"
  shows "is_under (path_join [home, a @ slash # b]) (path_join [home, a])"
proof -
  have "path_join [home, a] = rooted (clean_parts home @ [a])" "path_join [home, a @ slash # b] = rooted (clean_parts home @ [a, b])"
    using join_parts [OF assms(1), of "[a]"] join_parts [OF assms(1), of "[a, b]"] assms(2,3) by simp_all
  moreover have "rooted ((clean_parts home @ [a]) @ [b]) = rooted (clean_parts home @ [a]) @ slash # b"
    by (subst rooted_append) simp_all
  ultimately show ?thesis by (simp add: is_under_def has_prefix_iff)
qed

lemma join_join:
  assumes "is_abs home" "plain a" "plain b"
  shows "path_join [path_join [home, a], b] = path_join [home, a @ slash # b]"
proof -
  have a: "is_abs (path_join [home, a])" using is_abs_join_abs [OF assms(1)] .
  have "list_all plain (clean_parts home)" using clean_abs_no_dotdot [OF assms(1)] by (simp add: list_all_iff)
  then show ?thesis
    using join_parts [OF assms(1), of "[a]"] join_parts [OF assms(1), of "[a, b]"] join_parts [OF a, of "[b]"] assms(2,3)
      rooted_parts(1) [of "clean_parts home @ [a]"] by simp
qed

text \<open>The config home of every harness is one of its directories or, for pi, below one.\<close>

lemma default_home_declared:
  assumes "h \<in> set (harness_registry env)" "user_home_dir env = Some home" "is_abs home"
    and "hn_name h = ''opencode'' \<Longrightarrow> he_getenv env ''XDG_CONFIG_HOME'' = []"
  shows "default_config_home env h \<noteq> [] \<and>
    (\<exists>d \<in> set (hn_dirs h). default_config_home env h = normalize_home_path env d \<or>
       hn_name h = ''pi'' \<and> is_under (default_config_home env h) (normalize_home_path env d))"
proof -
  note n = normalize_below_home [OF assms(2,3)]
  have ne: "path_join [home, r] \<noteq> []" for r using path_join_id [OF assms(3), of r] by (auto simp: is_abs_def has_prefix_def)
  have one: ?thesis if "default_config_home env h = path_join [home, r]" "''~/'' @ r \<in> set (hn_dirs h)" for r
    using that ne n [of r] by (auto intro!: bexI [of _ "''~/'' @ r"])
  consider "h = opencode_harness env" | "h = claude_harness" | "h = codex_harness" | "h = copilot_harness" | "h = pi_harness"
    | "h = codewhale_harness" using assms(1) by (auto simp: harness_registry_def)
  then show ?thesis
  proof cases
    case 1
    have "default_config_home env h = path_join [path_join [home, ''.config''], ''opencode'']"
      using 1 assms(2,4) ne by (simp add: default_config_home_def user_config_root_def own_base_def harness_defs)
    also have "\<dots> = path_join [home, ''.config/opencode'']"
      using join_join [OF assms(3), of "''.config''" "''opencode''"] by (simp add: plain_def)
    finally show ?thesis by (rule one) (simp add: 1 harness_defs)
  next
    case 2
    show ?thesis by (rule one [of "''.claude''"]) (simp_all add: 2 default_config_home_def assms(2) harness_defs)
  next
    case 3
    show ?thesis by (rule one [of "''.codex''"]) (simp_all add: 3 default_config_home_def assms(2) harness_defs)
  next
    case 4
    show ?thesis by (rule one [of "''.copilot''"]) (simp_all add: 4 default_config_home_def assms(2) harness_defs)
  next
    case 5
    have "path_join [''.pi'', ''agent''] = ''.pi/agent''" by code_simp
    then have d: "default_config_home env h = path_join [home, ''.pi/agent'']" by (simp add: 5 default_config_home_def assms(2) harness_defs)
    have "is_under (path_join [home, ''.pi/agent'']) (path_join [home, ''.pi''])"
      using join_below [OF assms(3), of "''.pi''" "''agent''"] by (simp add: plain_def)
    then show ?thesis using d ne n [of "''.pi''"] by (auto simp: 5 harness_defs)
  next
    case 6
    show ?thesis by (rule one [of "''.codewhale''"]) (simp_all add: 6 default_config_home_def assms(2) harness_defs)
  qed
qed


definition harness_env :: "string \<Rightarrow> string \<Rightarrow> host_env" where
  "harness_env var v = \<lparr>he_getenv = (\<lambda>n. if n = ''HOME'' then ''/h'' else if n = var then v else []), he_cwd = Some ''/w''\<rparr>"


text \<open>
  OpenCode moved by \<open>XDG_CONFIG_HOME\<close>, which the documentation gives as its redirect, reads a directory that
  is not granted; and pi's default home stays granted beside the redirected one.
\<close>

lemma opencode_xdg_not_granted:
  "config_home (harness_env ''XDG_CONFIG_HOME'' ''/x'') (opencode_harness (harness_env ''XDG_CONFIG_HOME'' ''/x'')) = ''/x/opencode'' \<and>
   map (normalize_home_path (harness_env ''XDG_CONFIG_HOME'' ''/x''))
     (resolved_dirs (harness_env ''XDG_CONFIG_HOME'' ''/x'') (opencode_harness (harness_env ''XDG_CONFIG_HOME'' ''/x''))) =
     [''/h/.local/share/opencode'', ''/h/.local/share/opentui'', ''/h/.local/state/opencode'', ''/h/.config/opencode'', ''/h/.opencode'']"
  by code_simp

lemma pi_default_home_stays_granted:
  "resolved_dirs (harness_env ''PI_CODING_AGENT_DIR'' ''/x'') pi_harness = [''~/.pi'', ''/x''] \<and>
   default_config_home (harness_env ''PI_CODING_AGENT_DIR'' ''/x'') pi_harness = ''/h/.pi/agent''"
  by code_simp

section \<open>Launch\<close>


lemma listen_port_loop_bounds: "0 \<le> port \<Longrightarrow> port \<le> 65535 \<Longrightarrow> 0 \<le> listen_port_loop flag argv port \<and> listen_port_loop flag argv port \<le> 65535"
  by (induction flag argv port rule: listen_port_loop.induct)
    (auto simp: Let_def port_value_def split: option.splits if_splits bind_splits)

lemma listen_port_inline:
  assumes "port_value v = Some n" "flag \<noteq> []" "flag \<notin> set argv"
  shows "listen_port_loop flag (argv @ [flag @ ''='' @ v]) port = n"
  using assms
proof (induction argv arbitrary: port)
  case (Cons a as)
  then have "a \<noteq> flag" "flag \<notin> set as" by auto
  then show ?case using Cons by (simp add: Let_def)
qed (simp add: Let_def trim_prefix_def has_prefix_def)

lemma listen_port_separate:
  assumes "port_value v = Some n" "flag \<noteq> []" "flag \<notin> set argv" "\<not> has_prefix v (flag @ ''='')"
  shows "listen_port_loop flag (argv @ [flag, v]) port = n"
  using assms
proof (induction argv arbitrary: port)
  case (Cons a as)
  then have "a \<noteq> flag" "flag \<notin> set as" by auto
  then show ?case using Cons by (simp add: Let_def)
qed (simp add: Let_def)

lemma apply_server_launch_once:
  "apply_server_launch h (apply_server_launch h inner trailing) trailing = apply_server_launch h inner trailing"
  if "\<And>s. hn_server h = Some s \<Longrightarrow> sl_subcommand s = [] \<or> hd (sl_subcommand s) \<noteq> CHR ''-''"
proof (cases "hn_server h")
  case (Some s)
  then show ?thesis using that by (cases inner) (auto simp: apply_server_launch_def)
qed (simp add: apply_server_launch_def)

text \<open>
  The port that is granted is the port the server binds.  For a registered harness it is a TCP port, or 0 when the harness
  declares none; without the harness's flag it is the declared one, and the last occurrence of
  the flag with a valid port decides, in either of its forms.
\<close>

theorem serve_port_exact:
  assumes "h \<in> set (harness_registry env)"
  shows "0 \<le> resolve_listen_port h argv \<and> resolve_listen_port h argv \<le> 65535 \<and>
    (hn_server h = None \<longrightarrow> resolve_listen_port h argv = 0) \<and>
    (\<forall>s v n. hn_server h = Some s \<longrightarrow> port_value v = Some n \<longrightarrow> ''--port'' \<notin> set argv \<longrightarrow>
       resolve_listen_port h (argv @ [''--port='' @ v]) = n \<and>
       (\<not> has_prefix v ''--port'' \<longrightarrow> resolve_listen_port h (argv @ [''--port'', v]) = n))"
proof -
  have sv: "hn_server h = Some s \<Longrightarrow> s = \<lparr>sl_subcommand = ''serve'', sl_listen_port = 4096, sl_port_flag = ''--port'',
      sl_auth_env = ''OPENCODE_SERVER_PASSWORD''\<rparr>" for s
    using assms by (auto simp: harness_registry_def harness_defs)
  have b: "0 \<le> resolve_listen_port h argv \<and> resolve_listen_port h argv \<le> 65535"
  proof (cases "hn_server h")
    case (Some s)
    then show ?thesis using listen_port_loop_bounds [of 4096] by (simp add: resolve_listen_port_def sv [OF Some])
  qed (simp add: resolve_listen_port_def)
  have e: "resolve_listen_port h (argv @ [''--port='' @ v]) = n \<and>
      (\<not> has_prefix v ''--port'' \<longrightarrow> resolve_listen_port h (argv @ [''--port'', v]) = n)"
    if "hn_server h = Some s" "port_value v = Some n" "''--port'' \<notin> set argv" for s v n
  proof -
    have r: "resolve_listen_port h av = listen_port_loop ''--port'' av 4096" for av
      using that(1) by (simp add: resolve_listen_port_def sv [OF that(1)])
    have "listen_port_loop ''--port'' (argv @ [''--port'' @ ''='' @ v]) 4096 = n"
      by (rule listen_port_inline [OF that(2) _ that(3)]) (simp_all add: has_prefix_def)
    moreover have "listen_port_loop ''--port'' (argv @ [''--port'', v]) 4096 = n" if "\<not> has_prefix v ''--port''"
      by (rule listen_port_separate [OF \<open>port_value v = Some n\<close> _ \<open>''--port'' \<notin> set argv\<close>])
        (use that has_prefix_trans [of v "''--port'' @ ''=''" "''--port''"] in \<open>auto simp del: append_Cons\<close>)
    ultimately show ?thesis by (simp add: r)
  qed
  show ?thesis using b e by (simp add: resolve_listen_port_def)
qed

text \<open>No path hidden from OpenCode is a pattern, so the profile accepts them all.\<close>

lemma has_glob_iff: "has_glob s \<longleftrightarrow> (\<exists>c \<in> set s. c = CHR ''*'' \<or> c = CHR ''?'' \<or> c = CHR ''['')"
  by (simp add: has_glob_def list_ex_iff)

lemma clean_loop_elems: "set (clean_loop r ps acc) \<subseteq> insert ''..'' (set ps \<union> set acc)"
proof (induction r ps acc rule: clean_loop.induct)
  case (2 r p ps acc)
  then show ?case by (cases acc) (auto split: if_splits)
qed auto

lemma set_join_with: "set (join_with d ws) \<subseteq> \<Union> (set ` set ws) \<union> set d"
  by (induction d ws rule: join_with.induct) auto

lemma set_clean: "set (clean p) \<subseteq> set p \<union> {dot, slash}"
proof -
  have w: "c = dot \<or> c \<in> set p" if "w \<in> set (clean_parts p)" "c \<in> set w" for w c
  proof -
    have "w = ''..'' \<or> w \<in> set (split_on slash p)"
      using that(1) clean_loop_elems [of "is_abs p" "split_on slash p" "[]"] by (auto simp: clean_parts_def)
    then show ?thesis using split_on_subset that(2) by auto
  qed
  have "c = dot \<or> c = slash \<or> c \<in> set p" if "c \<in> set (clean p)" for c
  proof -
    have "c = dot \<or> c = slash \<or> c \<in> set (join_with ''/'' (clean_parts p))"
      using that by (auto simp: clean_def path_of_def split: if_splits)
    then show ?thesis using set_join_with [of "''/''" "clean_parts p"] w by fastforce
  qed
  then show ?thesis by blast
qed

lemma set_path_join: "a \<noteq> [] \<Longrightarrow> set (path_join [a, b]) \<subseteq> set a \<union> set (slash # dot # b)"
proof -
  assume "a \<noteq> []"
  then have "path_join [a, b] = clean (a @ slash # b)" by (simp add: path_join_def)
  then show ?thesis using set_clean [of "a @ slash # b"] by auto
qed

lemma has_glob_sub:
  assumes "set a \<subseteq> set b \<union> set d" "\<not> has_glob b" "\<not> has_glob d"
  shows "\<not> has_glob a"
  using assms unfolding has_glob_iff by blast

lemma add_plain:
  assumes "\<And>dir. \<not> P dir \<Longrightarrow> dir \<noteq> [] \<Longrightarrow> \<not> P (g dir)" "\<forall>p \<in> set out. \<not> P p"
  shows "\<forall>p \<in> set (fold (\<lambda>dir out. if dir = [] \<or> P dir then out else let p = g dir in if p \<in> set out then out else out @ [p]) dirs out).
    \<not> P p"
  using assms(2)
proof (induction dirs arbitrary: out)
  case (Cons d dirs)
  have "\<not> P p" if p: "p \<in> set (if d = [] \<or> P d then out else let p = g d in if p \<in> set out then out else out @ [p])" for p
  proof -
    have "p \<in> set out \<or> p = g d \<and> d \<noteq> [] \<and> \<not> P d" using p by (simp add: Let_def split: if_splits) blast?
    then show ?thesis using Cons.prems assms(1) by blast
  qed
  then have "\<forall>p \<in> set (if d = [] \<or> P d then out else let p = g d in if p \<in> set out then out else out @ [p]). \<not> P p" ..
  then show ?case unfolding fold_simps by (rule Cons.IH)
qed simp

lemma service_files_plain: "p \<in> set (service_files env) \<Longrightarrow> \<not> has_glob p"
proof -
  have j: "\<not> has_glob (path_join [dir, ''service.json''])" if d: "\<not> has_glob dir" "dir \<noteq> []" for dir
  proof (rule has_glob_sub [OF _ d(1)])
    show "set (path_join [dir, ''service.json'']) \<subseteq> set dir \<union> set (slash # dot # ''service.json'')"
      by (rule set_path_join [OF d(2)])
    show "\<not> has_glob (slash # dot # ''service.json'')" by code_simp
  qed
  have i: "\<forall>p \<in> set [''~/.config/opencode/service.json'', ''~/.local/state/opencode/service.json'']. \<not> has_glob p"
    by code_simp
  show "p \<in> set (service_files env) \<Longrightarrow> \<not> has_glob p"
    using add_plain [of has_glob "\<lambda>dir. path_join [dir, ''service.json'']", OF j i] unfolding service_files_def by blast
qed

end
