(* ===== verification/SkillSource.thy ===== *)
theory SkillSource
  imports Harness Bundle
begin

text \<open>
  Where skills are looked for (\<open>internal/skillsource/skillsource.go\<close>): the roots of a harness in their order, the
  search for one name and for all, and the test whether a registered directory belongs to a harness.  The file system
  answers \<open>stat\<close> and \<open>readdir\<close>.
\<close>

section \<open>Roots\<close>

datatype source_kind = Workdir | UserGlobal

record source =
  so_root :: string
  so_kind :: source_kind

datatype listing = Listing "(string \<times> bool) list" | NoDirectory | ListError string

text \<open>A name in a listing carries whether the entry itself is a directory; a link is not.\<close>

record skill_fs =
  sf_isdir :: "string \<Rightarrow> bool"
  sf_stat :: "string \<Rightarrow> lstat"
  sf_readdir :: "string \<Rightarrow> listing"

definition keep_first :: "'a list \<Rightarrow> 'a list" where
  "keep_first xs = rev (remdups (rev xs))"

definition with_config_home_root :: "host_env \<Rightarrow> string list \<Rightarrow> harness \<Rightarrow> string list" where
  "with_config_home_root env roots h =
     (let cur = global_skills_dir env h; def = default_global_skills_dir env h
      in if cur = [] then roots
         else let out = map (\<lambda>p. if p = def then cur else p) roots
              in keep_first (if def \<in> set roots then out else out @ [cur]))"

definition user_global_roots :: "host_env \<Rightarrow> string list \<Rightarrow> harness \<Rightarrow> string list" where
  "user_global_roots env bases h =
     (let xdg = he_getenv env ''XDG_CONFIG_HOME'';
          out = (if xdg = [] then [] else map (\<lambda>b. path_join [xdg, b, ''skills'']) bases)
      in with_config_home_root env
           (keep_first (case user_home_dir env of
              None \<Rightarrow> out
            | Some home \<Rightarrow> out @ map (\<lambda>b. path_join [home, ''.config'', b, ''skills'']) bases @
                map (\<lambda>b. path_join [home, ''.'' @ b, ''skills'']) bases)) h)"

definition sources :: "skill_fs \<Rightarrow> host_env \<Rightarrow> string \<Rightarrow> harness \<Rightarrow> source list" where
  "sources fs env workdir h =
     map (\<lambda>b. \<lparr>so_root = path_join [workdir, ''.'' @ b, ''skills''], so_kind = Workdir\<rparr>) (in_scope_bases h) @
     map (\<lambda>r. \<lparr>so_root = r, so_kind = UserGlobal\<rparr>) (filter (sf_isdir fs) (user_global_roots env (in_scope_bases h) h))"

section \<open>One skill\<close>

datatype source_error = InvalidName | StatRefused string | NotFound | ReadRefused string

definition skill_dir :: "source \<Rightarrow> string \<Rightarrow> string" where
  "skill_dir s name = path_join [so_root s, name]"

fun resolve_from :: "(string \<Rightarrow> lstat) \<Rightarrow> string \<Rightarrow> source list \<Rightarrow> source_error + string \<times> source" where
  "resolve_from stat name [] = Inl NotFound"
| "resolve_from stat name (s # ss) =
     (let m = path_join [skill_dir s name, meta_file_name]
      in case stat m of
           Exists \<Rightarrow> Inr (skill_dir s name, s)
         | NotExist \<Rightarrow> resolve_from stat name ss
         | LstatError _ \<Rightarrow> Inl (StatRefused m))"

definition resolve :: "skill_fs \<Rightarrow> host_env \<Rightarrow> string \<Rightarrow> harness \<Rightarrow> string \<Rightarrow> source_error + string \<times> source" where
  "resolve fs env workdir h name =
     (if \<not> valid_skill_name name then Inl InvalidName else resolve_from (sf_stat fs) name (sources fs env workdir h))"

record candidate =
  ca_name :: string
  ca_dir :: string
  ca_kind :: source_kind
  ca_harness :: string

fun candidates_from :: "(string \<Rightarrow> lstat) \<Rightarrow> string \<Rightarrow> string \<Rightarrow> source list \<Rightarrow> source_error + candidate list" where
  "candidates_from stat hname name [] = Inr []"
| "candidates_from stat hname name (s # ss) =
     (let m = path_join [skill_dir s name, meta_file_name]
      in case stat m of
           LstatError _ \<Rightarrow> Inl (StatRefused m)
         | NotExist \<Rightarrow> candidates_from stat hname name ss
         | Exists \<Rightarrow> (case candidates_from stat hname name ss of
             Inl e \<Rightarrow> Inl e
           | Inr cs \<Rightarrow> Inr (\<lparr>ca_name = name, ca_dir = skill_dir s name, ca_kind = so_kind s, ca_harness = hname\<rparr> # cs)))"

definition candidates :: "skill_fs \<Rightarrow> host_env \<Rightarrow> string \<Rightarrow> harness \<Rightarrow> string \<Rightarrow> source_error + candidate list" where
  "candidates fs env workdir h name =
     (if \<not> valid_skill_name name then Inl InvalidName
      else candidates_from (sf_stat fs) (hn_name h) name (sources fs env workdir h))"

definition shared_label :: string where "shared_label = ''shared''"

text \<open>A directory met again is marked as shared.\<close>

definition add_candidate :: "candidate \<Rightarrow> candidate list \<Rightarrow> candidate list" where
  "add_candidate c out =
     (if ca_dir c \<in> ca_dir ` set out then map (\<lambda>x. if ca_dir x = ca_dir c then x\<lparr>ca_harness := shared_label\<rparr> else x) out
      else out @ [c])"

fun candidates_all_from ::
    "skill_fs \<Rightarrow> host_env \<Rightarrow> string \<Rightarrow> string \<Rightarrow> harness list \<Rightarrow> candidate list \<Rightarrow> source_error + candidate list" where
  "candidates_all_from fs env workdir name [] out = Inr out"
| "candidates_all_from fs env workdir name (h # hs) out =
     (case candidates fs env workdir h name of
        Inl e \<Rightarrow> Inl e
      | Inr cs \<Rightarrow> candidates_all_from fs env workdir name hs (fold add_candidate cs out))"

definition candidates_all :: "skill_fs \<Rightarrow> host_env \<Rightarrow> string \<Rightarrow> string \<Rightarrow> source_error + candidate list" where
  "candidates_all fs env workdir name = candidates_all_from fs env workdir name (harness_registry env) []"

section \<open>Scope of a directory\<close>

definition skills_base_of_dir :: "host_env \<Rightarrow> string \<Rightarrow> string option" where
  "skills_base_of_dir env dir =
     (let parent = path_dir (clean dir)
      in if path_base parent \<noteq> ''skills'' then None
         else let base = trim_prefix (path_base (path_dir parent)) ''.''
              in if base = shared_skills_base \<or> base \<in> set (all_skills_bases env) then Some base else None)"

definition dir_in_scope :: "host_env \<Rightarrow> string \<Rightarrow> harness \<Rightarrow> bool" where
  "dir_in_scope env dir h = (case skills_base_of_dir env dir of None \<Rightarrow> True | Some b \<Rightarrow> base_in_scope h b)"

section \<open>All skills\<close>

fun discover_entries ::
    "(string \<Rightarrow> lstat) \<Rightarrow> source \<Rightarrow> (string \<times> bool) list \<Rightarrow> (string \<times> string \<times> source_kind) list \<Rightarrow> (string \<times> string \<times> source_kind) list" where
  "discover_entries stat s [] out = out"
| "discover_entries stat s ((n, isdir) # es) out =
     discover_entries stat s es
       (if \<not> isdir \<or> n \<in> fst ` set out \<or> stat (path_join [so_root s, n, meta_file_name]) \<noteq> Exists then out
        else out @ [(n, skill_dir s n, so_kind s)])"

fun discover_from ::
    "skill_fs \<Rightarrow> source list \<Rightarrow> (string \<times> string \<times> source_kind) list \<Rightarrow> source_error + (string \<times> string \<times> source_kind) list" where
  "discover_from fs [] out = Inr out"
| "discover_from fs (s # ss) out =
     (case sf_readdir fs (so_root s) of
        NoDirectory \<Rightarrow> discover_from fs ss out
      | ListError _ \<Rightarrow> Inl (ReadRefused (so_root s))
      | Listing es \<Rightarrow> discover_from fs ss (discover_entries (sf_stat fs) s es out))"

definition discover :: "skill_fs \<Rightarrow> host_env \<Rightarrow> string \<Rightarrow> harness \<Rightarrow> source_error + (string \<times> string \<times> source_kind) list" where
  "discover fs env workdir h = discover_from fs (sources fs env workdir h) []"

section \<open>Searching for all agrees with searching for one\<close>

lemma join_twice:
  assumes "root \<noteq> []" "plain n" "plain m"
  shows "path_join [path_join [root, n], m] = path_join [root, n, m]"
proof -
  let ?q = "path_join [root, n]"
  have q: "?q = path_of (is_abs root) (clean_parts root @ [n])"
    using assms by (simp add: path_join_def clean_def clean_parts_child is_abs_append)
  have "?q = clean (root @ slash # n)" using assms(1) by (simp add: path_join_def)
  then have p: "clean_parts ?q = clean_parts root @ [n]" "is_abs ?q = is_abs root" "?q \<noteq> []"
    using assms by (simp_all add: clean_parts_clean clean_parts_child is_abs_append)
  have "path_join [?q, m] = path_of (is_abs root) (clean_parts root @ [n, m])"
    using p assms(3) by (simp add: path_join_def clean_def clean_parts_child is_abs_append)
  moreover have "path_join [root, n, m] = clean ((root @ slash # n) @ slash # m)" using assms(1) by (simp add: path_join_def)
  moreover have "\<dots> = path_of (is_abs root) (clean_parts root @ [n, m])"
    using clean_parts_child [of "root @ slash # n" m] assms by (simp add: clean_def clean_parts_child is_abs_append del: append_assoc) simp
  ultimately show ?thesis by simp
qed

lemma clean_parts_join2:
  assumes "root \<noteq> []" "plain n" "plain m"
  shows "clean_parts (path_join [root, n, m]) = clean_parts root @ [n, m]"
proof -
  have "path_join [root, n, m] = clean ((root @ slash # n) @ slash # m)" using assms(1) by (simp add: path_join_def)
  moreover have "clean_parts ((root @ slash # n) @ slash # m) = clean_parts root @ [n, m]"
    using clean_parts_child [of "root @ slash # n" m] assms by (simp add: clean_parts_child del: append_assoc)
  ultimately show ?thesis by (simp only: clean_parts_clean)
qed

lemma valid_plain: "valid_skill_name n \<Longrightarrow> plain n"
  by (simp add: valid_skill_name_def plain_def)

lemma path_join_blank: "path_join es = [] \<longleftrightarrow> list_all (\<lambda>e. e = []) es"
  by (simp add: path_join_def Let_def dropWhile_eq_Nil_conv list_all_iff)

lemma sources_rooted: "s \<in> set (sources fs env workdir h) \<Longrightarrow> so_root s \<noteq> []"
proof -
  have g: "[] \<notin> set (with_config_home_root env roots h)" if "[] \<notin> set roots" for roots
    using that by (auto simp: with_config_home_root_def keep_first_def Let_def)
  have "[] \<notin> set (user_global_roots env bases h)" for bases
    unfolding user_global_roots_def Let_def
    by (rule g) (auto simp: keep_first_def path_join_blank path_join_blank [THEN eq_iff_swap] split: option.split)
  then show "s \<in> set (sources fs env workdir h) \<Longrightarrow> so_root s \<noteq> []"
    by (force simp: sources_def path_join_blank)
qed

text \<open>
  A root whose listing shows what \<open>stat\<close> finds: every skill in it is an entry that is itself a directory, and \<open>stat\<close>
  only finds it or does not.
\<close>

definition listed :: "skill_fs \<Rightarrow> source \<Rightarrow> bool" where
  "listed fs s \<longleftrightarrow>
     (\<forall>n. plain n \<longrightarrow>
        (let st = sf_stat fs (path_join [so_root s, n, meta_file_name])
         in st = NotExist \<or> st = Exists \<and> (\<exists>es. sf_readdir fs (so_root s) = Listing es \<and> (n, True) \<in> set es))) \<and>
     (\<forall>e. sf_readdir fs (so_root s) \<noteq> ListError e)"

lemma discover_entries_lookup:
  "map_of (discover_entries stat s es out) n =
     (case map_of out n of
        Some v \<Rightarrow> Some v
      | None \<Rightarrow> if (n, True) \<in> set es \<and> stat (path_join [so_root s, n, meta_file_name]) = Exists
                then Some (skill_dir s n, so_kind s) else None)"
proof (induction stat s es out rule: discover_entries.induct)
  case (2 stat s m isdir es out)
  show ?case
  proof (cases "map_of out n")
    case None
    then have "n \<notin> fst ` set out" by (simp add: map_of_eq_None_iff)
    then show ?thesis using 2 None by (cases "m = n") (auto simp: map_add_def)
  next
    case (Some v)
    then show ?thesis using 2 by (auto simp: map_add_def split: option.split)
  qed
qed (auto split: option.split)

lemma discover_entries_distinct: "distinct (map fst out) \<Longrightarrow> distinct (map fst (discover_entries stat s es out))"
  by (induction stat s es out rule: discover_entries.induct) auto

lemma discover_from_lookup:
  assumes "\<And>s. s \<in> set ss \<Longrightarrow> listed fs s \<and> so_root s \<noteq> []" "distinct (map fst out)"
  shows "\<exists>es. discover_from fs ss out = Inr es \<and> distinct (map fst es) \<and>
    (\<forall>n. plain n \<longrightarrow> map_of es n =
       (case map_of out n of
          Some v \<Rightarrow> Some v
        | None \<Rightarrow> (case resolve_from (sf_stat fs) n ss of Inr (d, s) \<Rightarrow> Some (d, so_kind s) | Inl _ \<Rightarrow> None)))"
  using assms
proof (induction ss arbitrary: out)
  case Nil
  then show ?case by (auto split: option.split)
next
  case (Cons s ss)
  have s: "listed fs s" "so_root s \<noteq> []" using Cons.prems(1) by auto
  let ?out = "case sf_readdir fs (so_root s) of Listing es \<Rightarrow> discover_entries (sf_stat fs) s es out | _ \<Rightarrow> out"
  have step: "discover_from fs (s # ss) out = discover_from fs ss ?out"
    using s(1) by (cases "sf_readdir fs (so_root s)") (auto simp: listed_def)
  have dis: "distinct (map fst ?out)"
    using Cons.prems(2) discover_entries_distinct by (auto split: listing.split)
  obtain es where es: "discover_from fs ss ?out = Inr es" "distinct (map fst es)"
    "\<forall>n. plain n \<longrightarrow> map_of es n = (case map_of ?out n of Some v \<Rightarrow> Some v
       | None \<Rightarrow> (case resolve_from (sf_stat fs) n ss of Inr (d, s) \<Rightarrow> Some (d, so_kind s) | Inl _ \<Rightarrow> None))"
    using Cons.IH [OF _ dis] Cons.prems(1) by auto
  have mp: "plain meta_file_name" by (simp add: meta_file_name_def plain_def)
  have "map_of es n = (case map_of out n of Some v \<Rightarrow> Some v
      | None \<Rightarrow> (case resolve_from (sf_stat fs) n (s # ss) of Inr (d, s) \<Rightarrow> Some (d, so_kind s) | Inl _ \<Rightarrow> None))"
    if n: "plain n" for n
  proof -
    let ?m = "path_join [so_root s, n, meta_file_name]"
    have m: "path_join [skill_dir s n, meta_file_name] = ?m" unfolding skill_dir_def by (rule join_twice [OF s(2) n mp])
    have "sf_stat fs ?m = NotExist \<or> sf_stat fs ?m = Exists \<and> (\<exists>es. sf_readdir fs (so_root s) = Listing es \<and> (n, True) \<in> set es)"
      using s(1) n unfolding listed_def Let_def by blast
    then show ?thesis
    proof (elim disjE conjE exE)
      assume ne: "sf_stat fs ?m = NotExist"
      have o: "map_of ?out n = map_of out n"
        using ne by (auto simp: discover_entries_lookup split: listing.split option.split)
      have r: "resolve_from (sf_stat fs) n (s # ss) = resolve_from (sf_stat fs) n ss" using ne m by (simp add: Let_def)
      show ?thesis unfolding r by (rule es(3) [rule_format, OF n, unfolded o])
    next
      fix l assume l: "sf_stat fs ?m = Exists" "sf_readdir fs (so_root s) = Listing l" "(n, True) \<in> set l"
      then have "resolve_from (sf_stat fs) n (s # ss) = Inr (skill_dir s n, s)" using m by (simp add: Let_def)
      then show ?thesis using es(3) [rule_format, OF n] l by (simp add: discover_entries_lookup del: resolve_from.simps split: option.split)
    qed
  qed
  then show ?case using es(1,2) step by auto
qed

text \<open>
  C16: The list of skills is what searching for each name finds.  In file systems where every skill is a directory and can be
  inspected, the skills found across all roots are named once, and under each valid name there is
  the directory and the layer a search for that name resolves to, or none when it finds none.
\<close>

theorem discover_agrees:
  assumes "\<And>s. s \<in> set (sources fs env workdir h) \<Longrightarrow> listed fs s"
  shows "\<exists>es. discover fs env workdir h = Inr es \<and> distinct (map fst es) \<and>
    (\<forall>n. valid_skill_name n \<longrightarrow>
       map_of es n = (case resolve fs env workdir h n of Inr (d, s) \<Rightarrow> Some (d, so_kind s) | Inl _ \<Rightarrow> None))"
proof -
  have "\<And>s. s \<in> set (sources fs env workdir h) \<Longrightarrow> listed fs s \<and> so_root s \<noteq> []" using assms sources_rooted by blast
  from discover_from_lookup [of "sources fs env workdir h" fs "[]", OF this] obtain es where
    "discover fs env workdir h = Inr es" "distinct (map fst es)"
    "\<And>n. plain n \<Longrightarrow> map_of es n =
       (case resolve_from (sf_stat fs) n (sources fs env workdir h) of Inr (d, s) \<Rightarrow> Some (d, so_kind s) | Inl _ \<Rightarrow> None)"
    unfolding discover_def by auto
  then show ?thesis using valid_plain by (auto simp: resolve_def)
qed

definition one_skill_fs :: skill_fs where
  "one_skill_fs =
     \<lparr>sf_isdir = (\<lambda>_. False), sf_stat = (\<lambda>p. if p = ''/w/.claude/skills/x/omac.yaml'' then Exists else NotExist),
      sf_readdir = (\<lambda>p. if p = ''/w/.claude/skills'' then Listing [(''README'', False), (''x'', True)] else NoDirectory)\<rparr>"

theorem discover_agrees_witness:
  "\<exists>es. discover one_skill_fs (harness_env ''NONE'' []) ''/w'' claude_harness = Inr es \<and>
     map_of es ''x'' = Some (''/w/.claude/skills/x'', Workdir)"
proof -
  let ?ss = "sources one_skill_fs (harness_env ''NONE'' []) ''/w'' claude_harness"
  have ss: "?ss = [\<lparr>so_root = ''/w/.claude/skills'', so_kind = Workdir\<rparr>, \<lparr>so_root = ''/w/.agents/skills'', so_kind = Workdir\<rparr>]"
    by code_simp
  have cp: "clean_parts ''/w/.claude/skills'' = [''w'', ''.claude'', ''skills'']" "clean_parts ''/w/.agents/skills'' = [''w'', ''.agents'', ''skills'']"
    "clean_parts ''/w/.claude/skills/x/omac.yaml'' = [''w'', ''.claude'', ''skills'', ''x'', ''omac.yaml'']" by code_simp+
  have m: "plain meta_file_name" "meta_file_name = ''omac.yaml''" by (simp_all add: meta_file_name_def plain_def)
  have l: "listed one_skill_fs s" if s: "s \<in> set ?ss" for s
  proof -
    have "so_root s = ''/w/.claude/skills'' \<and> n = ''x''"
      if "plain n" "path_join [so_root s, n, meta_file_name] = ''/w/.claude/skills/x/omac.yaml''" for n
    proof -
      have "so_root s \<noteq> []" using s ss by auto
      from clean_parts_join2 [OF this that(1) m(1)] show ?thesis using s ss that(2) cp m(2) by auto
    qed
    then have "sf_stat one_skill_fs (path_join [so_root s, n, meta_file_name]) = NotExist \<or>
        sf_stat one_skill_fs (path_join [so_root s, n, meta_file_name]) = Exists \<and>
          (\<exists>es. sf_readdir one_skill_fs (so_root s) = Listing es \<and> (n, True) \<in> set es)" if "plain n" for n
      using that by (cases "path_join [so_root s, n, meta_file_name] = ''/w/.claude/skills/x/omac.yaml''") (simp_all add: one_skill_fs_def)
    then show ?thesis unfolding listed_def Let_def by (simp add: one_skill_fs_def)
  qed
  have r: "resolve one_skill_fs (harness_env ''NONE'' []) ''/w'' claude_harness ''x'' =
      Inr (''/w/.claude/skills/x'', \<lparr>so_root = ''/w/.claude/skills'', so_kind = Workdir\<rparr>)" "valid_skill_name ''x''" by code_simp+
  show ?thesis using discover_agrees [OF l] r by fastforce
qed

section \<open>Links\<close>

text \<open>
  A skill that is a link to a directory is found by name but not listed, so the list shows the skill of the same name in a
  layer it overrides.
\<close>

definition link_fs :: skill_fs where
  "link_fs =
     \<lparr>sf_isdir = (\<lambda>p. p = ''/h/.claude/skills''),
      sf_stat = (\<lambda>p. if p = ''/w/.claude/skills/x/omac.yaml'' \<or> p = ''/h/.claude/skills/x/omac.yaml'' then Exists else NotExist),
      sf_readdir = (\<lambda>p. if p = ''/w/.claude/skills'' then Listing [(''x'', False)]
                         else if p = ''/h/.claude/skills'' then Listing [(''x'', True)] else NoDirectory)\<rparr>"

lemma discover_misses_links:
  "discover link_fs (harness_env ''NONE'' []) ''/w'' claude_harness = Inr [(''x'', ''/h/.claude/skills/x'', UserGlobal)] \<and>
   resolve link_fs (harness_env ''NONE'' []) ''/w'' claude_harness ''x'' =
     Inr (''/w/.claude/skills/x'', \<lparr>so_root = ''/w/.claude/skills'', so_kind = Workdir\<rparr>)"
  by code_simp

text \<open>With the home directory as working directory a skill of one harness is met twice and taken for a shared one.\<close>

definition home_fs :: skill_fs where
  "home_fs =
     \<lparr>sf_isdir = (\<lambda>p. p = ''/h/.claude/skills''),
      sf_stat = (\<lambda>p. if p = ''/h/.claude/skills/x/omac.yaml'' then Exists else NotExist),
      sf_readdir = (\<lambda>_. NoDirectory)\<rparr>"

lemma home_workdir_marked_shared:
  "candidates_all home_fs (harness_env ''NONE'' []) ''/h'' ''x'' =
     Inr [\<lparr>ca_name = ''x'', ca_dir = ''/h/.claude/skills/x'', ca_kind = Workdir, ca_harness = shared_label\<rparr>]"
  by code_simp

section \<open>One skill among its candidates\<close>

lemma candidates_first:
  "candidates_from stat hname name ss = Inr cs \<Longrightarrow>
     (case resolve_from stat name ss of
        Inr (d, s) \<Rightarrow> \<exists>cs'. cs = \<lparr>ca_name = name, ca_dir = d, ca_kind = so_kind s, ca_harness = hname\<rparr> # cs'
      | Inl e \<Rightarrow> e = NotFound \<and> cs = [])"
  by (induction stat hname name ss arbitrary: cs rule: candidates_from.induct) (auto simp: Let_def split: lstat.splits sum.splits)

section \<open>The scope test\<close>

lemma base_of_child: "plain n \<Longrightarrow> path_base (p @ slash # n) = n"
proof -
  assume n: "plain n"
  then obtain m c where m: "n = m @ [c]" "c \<noteq> slash" by (cases n rule: rev_cases) (auto simp: plain_def)
  have "takeWhile (\<lambda>c. c \<noteq> slash) (rev (p @ slash # n)) = rev n" using n by (simp add: plain_def takeWhile_append)
  moreover have "trim_right (\<lambda>c. c = slash) (p @ slash # n) = p @ slash # n" using m by (simp add: trim_right_id)
  ultimately show ?thesis by (simp add: path_base_def)
qed

lemma rooted_child: "rooted (ds @ [n]) = (if ds = [] then [] else rooted ds) @ slash # n"
  using rooted_append [of ds "[n]"] by (cases "ds = []") (simp_all add: rooted_def path_of_def)

lemma rooted_base: "plain n \<Longrightarrow> path_base (rooted (ds @ [n])) = n"
  unfolding rooted_child by (rule base_of_child)

lemma rooted_dir:
  assumes "list_all plain ds" "plain n"
  shows "path_dir (rooted (ds @ [n])) = rooted ds"
proof -
  let ?p = "if ds = [] then [] else rooted ds"
  have "dropWhile (\<lambda>c. c \<noteq> slash) (rev (?p @ slash # n)) = slash # rev ?p"
    using assms(2) by (simp add: plain_def dropWhile_append)
  then have d: "path_dir (rooted (ds @ [n])) = clean (?p @ [slash])" by (simp add: path_dir_def upto_last_slash_def rooted_child)
  have ne: "rooted ds \<noteq> []" by (simp add: rooted_def path_of_def)
  show ?thesis
  proof (cases "ds = []")
    case True
    have "clean [slash] = rooted []" by code_simp
    then show ?thesis using d True by simp
  next
    case False
    have "clean_parts (rooted ds @ [slash]) = ds"
      using clean_parts_append [OF ne, of "[]"] rooted_parts(1) [OF assms(1)] by simp
    then show ?thesis using d False ne rooted_parts(2) [OF assms(1)] by (simp add: clean_def is_abs_append rooted_def)
  qed
qed

lemma clean_rooted: "list_all plain ds \<Longrightarrow> clean (rooted ds) = rooted ds"
  using rooted_parts [of ds] by (simp add: clean_def rooted_def path_of_def)

text \<open>
  What a registered directory belongs to.  An absolute directory is in the scope of a harness exactly when it lies in the
  \<open>skills\<close> folder of that harness's base or of the shared one, hidden or not, or when it lies in no
  registered base at all.
\<close>

theorem dir_in_scope_exact:
  assumes "list_all plain (ds @ [b, c, n])"
  shows "dir_in_scope env (rooted (ds @ [b, c, n])) h \<longleftrightarrow>
    (c = ''skills'' \<and> trim_prefix b ''.'' \<in> insert shared_skills_base (set (all_skills_bases env)) \<longrightarrow>
      trim_prefix b ''.'' = hn_skills_base h \<or> trim_prefix b ''.'' = shared_skills_base)"
proof -
  have p: "list_all plain (ds @ [b, c])" "list_all plain (ds @ [b])" "plain n" "plain c" "plain b" using assms by simp_all
  note d1 = rooted_dir [OF p(1,3), simplified] and b1 = rooted_base [OF p(4), of "ds @ [b]", simplified]
  note d2 = rooted_dir [OF p(2,4), simplified] and b2 = rooted_base [OF p(5), of ds]
  have base: "skills_base_of_dir env (rooted (ds @ [b, c, n])) =
      (if c = ''skills'' \<and> trim_prefix b ''.'' \<in> insert shared_skills_base (set (all_skills_bases env)) then Some (trim_prefix b ''.'') else None)"
    unfolding skills_base_of_dir_def Let_def clean_rooted [OF assms] d1 b1 d2 b2 by simp
  show ?thesis
  proof (cases "c = ''skills'' \<and> trim_prefix b ''.'' \<in> insert shared_skills_base (set (all_skills_bases env))")
    case True
    have "trim_prefix b ''.'' \<noteq> []" using True by (auto simp: all_skills_bases_def shared_skills_base_def)
    then have "base_in_scope h (trim_prefix b ''.'') \<longleftrightarrow> trim_prefix b ''.'' = hn_skills_base h \<or> trim_prefix b ''.'' = shared_skills_base"
      by (auto simp: base_in_scope_def in_scope_bases_def)
    moreover have "dir_in_scope env (rooted (ds @ [b, c, n])) h \<longleftrightarrow> base_in_scope h (trim_prefix b ''.'')"
      unfolding dir_in_scope_def base if_P [OF True] by simp
    ultimately show ?thesis using True by blast
  next
    case False
    then have "dir_in_scope env (rooted (ds @ [b, c, n])) h" unfolding dir_in_scope_def base if_not_P [OF False] by simp
    then show ?thesis using False by blast
  qed
qed

text \<open>
  The home of pi's and of CodeWhale's global skills is no registered base: a skill registered from there is in the scope of every
  harness.
\<close>

lemma pi_skill_in_every_scope:
  "global_skills_dir (harness_env ''NONE'' []) pi_harness = ''/h/.pi/agent/skills'' \<and>
   dir_in_scope (harness_env ''NONE'' []) ''/h/.pi/agent/skills/x'' h \<and>
   global_skills_dir (harness_env ''NONE'' []) codewhale_harness = ''/h/.codewhale/skills'' \<and>
   dir_in_scope (harness_env ''NONE'' []) ''/h/.codewhale/skills/x'' h"
proof -
  have "skills_base_of_dir (harness_env ''NONE'' []) ''/h/.pi/agent/skills/x'' = None"
    "skills_base_of_dir (harness_env ''NONE'' []) ''/h/.codewhale/skills/x'' = None" by code_simp+
  moreover have "global_skills_dir (harness_env ''NONE'' []) pi_harness = ''/h/.pi/agent/skills''"
    "global_skills_dir (harness_env ''NONE'' []) codewhale_harness = ''/h/.codewhale/skills''" by code_simp+
  ultimately show ?thesis by (simp add: dir_in_scope_def)
qed

theorem dir_in_scope_exact_witness:
  "dir_in_scope (harness_env ''NONE'' []) ''/h/.claude/skills/x'' claude_harness \<and>
   \<not> dir_in_scope (harness_env ''NONE'' []) ''/h/.claude/skills/x'' codex_harness"
proof -
  have r: "rooted ([''h''] @ [''.claude'', ''skills'', ''x'']) = ''/h/.claude/skills/x''" by (simp add: rooted_def path_of_def)
  have p: "list_all plain ([''h''] @ [''.claude'', ''skills'', ''x''])" by (simp add: plain_def)
  have t: "trim_prefix ''.claude'' ''.'' = ''claude''" "''claude'' \<in> set (all_skills_bases (harness_env ''NONE'' []))" by code_simp+
  show ?thesis using dir_in_scope_exact [OF p, unfolded r t(1)] t(2) by (simp add: harness_defs shared_skills_base_def)
qed

end
