(* ===== verification/Launcher.thy ===== *)
theory Launcher
  imports Harness Manifest "HOL-Library.Finite_Map"
begin

text \<open>
  The launcher configuration (\<open>internal/config/launcher.go\<close>): its layers and what each may set; and the expansion of a
  launch template into a command line, with the names and addresses under which skills are announced
  (\<open>internal/sandbox/launcher.go\<close>).  Configuration files are modelled after decoding.
\<close>

section \<open>Data\<close>

datatype cache_scope = ScopeGlobal | ScopeConfig | ScopeWorkdir

record watch_config =
  wc_full_pass_ticks :: int
  wc_concurrency :: int

record sandbox_profile =
  sx_command :: "string list"
  sx_inner :: "string list"

record sandbox_config =
  sx_default :: string
  sx_profiles :: "(string, sandbox_profile) fmap"
  sx_briefing :: string
  sx_watch :: watch_config

record facade_config =
  fx_idle_timeout :: int
  fx_max_body :: int
  fx_base_env :: "string list option"

record audit_config =
  ax_enabled :: "bool option"
  ax_path :: string
  ax_syslog :: bool
  ax_strict :: bool

record launcher_config =
  lc_sandbox :: sandbox_config
  lc_facade :: facade_config
  lc_audit :: audit_config
  lc_cache :: string

definition audit_enabled :: "audit_config \<Rightarrow> bool" where
  "audit_enabled a = (case ax_enabled a of None \<Rightarrow> True | Some b \<Rightarrow> b)"

definition validate_cache_scope :: "string \<Rightarrow> cache_scope option" where
  "validate_cache_scope s =
     (if s = ''global'' then Some ScopeGlobal else if s = ''config'' then Some ScopeConfig
      else if s = ''workdir'' then Some ScopeWorkdir else None)"

definition resolve_cache :: "string \<Rightarrow> cache_scope option" where
  "resolve_cache s = (if s = [] then Some ScopeWorkdir else validate_cache_scope s)"

definition watch_ok :: "watch_config \<Rightarrow> bool" where
  "watch_ok w \<longleftrightarrow> 0 \<le> wc_full_pass_ticks w \<and> 0 \<le> wc_concurrency w"

text \<open>The policy a template hands to \<open>omac sandbox run\<close>, for templates that run it.\<close>

fun policy_flag :: "string list \<Rightarrow> string" where
  "policy_flag [] = ''default''"
| "policy_flag (a # as) =
     (if a = ''--'' then ''default''
      else if a = ''--profile'' \<and> as \<noteq> [] then hd as
      else if has_prefix a ''--profile='' then trim_prefix a ''--profile=''
      else policy_flag as)"

definition policy_ref :: "sandbox_profile \<Rightarrow> string option" where
  "policy_ref p =
     (case sx_command p of
        a # b # c # rest \<Rightarrow>
          if a = ''{{self}}'' \<and> b = ''sandbox'' \<and> c = ''run'' then Some (policy_flag rest) else None
      | _ \<Rightarrow> None)"

section \<open>Defaults\<close>

definition no_watch :: watch_config where "no_watch = \<lparr>wc_full_pass_ticks = 0, wc_concurrency = 0\<rparr>"

definition no_sandbox :: sandbox_config where
  "no_sandbox = \<lparr>sx_default = [], sx_profiles = fmempty, sx_briefing = [], sx_watch = no_watch\<rparr>"

definition no_audit :: audit_config where
  "no_audit = \<lparr>ax_enabled = None, ax_path = [], ax_syslog = False, ax_strict = False\<rparr>"

definition empty_launcher :: launcher_config where
  "empty_launcher =
     \<lparr>lc_sandbox = no_sandbox, lc_facade = \<lparr>fx_idle_timeout = 0, fx_max_body = 0, fx_base_env = None\<rparr>, lc_audit = no_audit, lc_cache = []\<rparr>"

definition builtin_profile :: sandbox_profile where
  "builtin_profile =
     \<lparr>sx_command =
        [''{{self}}'', ''sandbox'', ''run'', ''--profile'', ''default'', ''--allow-file'', ''{{socket}}'', ''--read'', ''{{socket_dir}}'',
         ''{{tmpdir_flags}}'', ''--open-port'', ''{{tcp_port}}'', ''--'', ''{{inner_cmd}}'', ''{{inner_args}}''],
      sx_inner = []\<rparr>"

definition nono_profile :: "string list \<Rightarrow> sandbox_profile" where
  "nono_profile extra =
     \<lparr>sx_command =
        [''nono'', ''run'', ''--allow-cwd'', ''--profile'', ''tng-sandbox''] @ extra @
        [''--allow-file'', ''{{socket}}'', ''--read'', ''{{socket_dir}}'', ''{{tmpdir_flags}}'', ''--open-port'', ''{{tcp_port}}'', ''--'',
         ''{{inner_cmd}}'', ''{{inner_args}}''],
      sx_inner = []\<rparr>"

definition default_profiles :: "(string, sandbox_profile) fmap" where
  "default_profiles = fmap_of_list
     [(''builtin'', builtin_profile), (''nono'', nono_profile []), (''nono-netprofile'', nono_profile [''--network-profile'', ''opencode'']),
      (''no-sandbox-debug'', \<lparr>sx_command = [''{{inner_cmd}}'', ''{{inner_args}}''], sx_inner = [''bash'']\<rparr>)]"

definition default_launcher :: launcher_config where
  "default_launcher =
     \<lparr>lc_sandbox = \<lparr>sx_default = ''builtin'', sx_profiles = default_profiles, sx_briefing = [], sx_watch = no_watch\<rparr>,
      lc_facade = \<lparr>fx_idle_timeout = 300, fx_max_body = 10 * 1024 * 1024,
        fx_base_env = Some [''PATH'', ''HOME'', ''USER'', ''LANG'', ''LC_ALL'', ''LC_CTYPE'', ''TMPDIR'']\<rparr>,
      lc_audit = \<lparr>ax_enabled = Some True, ax_path = [], ax_syslog = False, ax_strict = False\<rparr>, lc_cache = ''workdir''\<rparr>"

section \<open>Layers\<close>

definition pick :: "int \<Rightarrow> int \<Rightarrow> int" where "pick ovr fallback = (if ovr \<noteq> 0 then ovr else fallback)"

definition merge_defaults :: "launcher_config \<Rightarrow> launcher_config" where
  "merge_defaults lc =
     (let d = default_launcher; s = lc_sandbox lc; f = lc_facade lc; a = lc_audit lc
      in lc\<lparr>lc_sandbox := s\<lparr>sx_default := (if sx_default s = [] then sx_default (lc_sandbox d) else sx_default s),
              sx_profiles := sx_profiles (lc_sandbox d) ++\<^sub>f sx_profiles s\<rparr>,
            lc_facade := f\<lparr>fx_idle_timeout := pick (fx_idle_timeout f) (fx_idle_timeout (lc_facade d)),
              fx_max_body := pick (fx_max_body f) (fx_max_body (lc_facade d)),
              fx_base_env := (case fx_base_env f of None \<Rightarrow> fx_base_env (lc_facade d) | Some e \<Rightarrow> Some e)\<rparr>,
            lc_audit := a\<lparr>ax_enabled := (case ax_enabled a of None \<Rightarrow> ax_enabled (lc_audit d) | Some b \<Rightarrow> Some b)\<rparr>\<rparr>)"

definition strip_security :: "launcher_config \<Rightarrow> launcher_config" where
  "strip_security lc = lc\<lparr>lc_sandbox := no_sandbox, lc_audit := no_audit, lc_facade := (lc_facade lc)\<lparr>fx_base_env := None\<rparr>\<rparr>"

datatype launcher_file = NoLauncher | LauncherUnreadable | LauncherBroken | LauncherYaml launcher_config

datatype origin = OriginNone | OriginGlobal | OriginWorkdir

datatype launcher_error = CannotRead origin | CannotParse origin

definition load_file :: "origin \<Rightarrow> launcher_file \<Rightarrow> launcher_error + launcher_config option" where
  "load_file o1 f =
     (case f of NoLauncher \<Rightarrow> Inr None | LauncherUnreadable \<Rightarrow> Inl (CannotRead o1) | LauncherBroken \<Rightarrow> Inl (CannotParse o1)
      | LauncherYaml c \<Rightarrow> Inr (Some c))"

definition layered :: "launcher_config option \<Rightarrow> launcher_config option \<Rightarrow> launcher_error + launcher_config \<times> origin" where
  "layered local glob =
     (case (local, glob) of
        (Some l, Some g) \<Rightarrow>
          (let m = merge_defaults g; f = lc_facade m;
               c = m\<lparr>lc_facade := f\<lparr>fx_idle_timeout := pick (fx_idle_timeout (lc_facade l)) (fx_idle_timeout f),
                                    fx_max_body := pick (fx_max_body (lc_facade l)) (fx_max_body f)\<rparr>, lc_cache := lc_cache l\<rparr>
           in if resolve_cache (lc_cache c) = None then Inl (CannotParse OriginWorkdir)
              else if \<not> watch_ok (sx_watch (lc_sandbox c)) then Inl (CannotParse OriginGlobal)
              else Inr (c, OriginWorkdir))
      | (Some l, None) \<Rightarrow>
          (let c = merge_defaults (strip_security l)
           in if resolve_cache (lc_cache c) = None then Inl (CannotParse OriginWorkdir) else Inr (c, OriginWorkdir))
      | (None, Some g) \<Rightarrow>
          (let c = merge_defaults g
           in if resolve_cache (lc_cache c) = None \<or> \<not> watch_ok (sx_watch (lc_sandbox c)) then Inl (CannotParse OriginGlobal)
              else Inr (c, OriginGlobal))
      | (None, None) \<Rightarrow> Inr (default_launcher, OriginNone))"

definition load_launcher :: "launcher_file \<Rightarrow> launcher_file \<Rightarrow> launcher_error + launcher_config \<times> origin" where
  "load_launcher local glob =
     (case load_file OriginGlobal glob of
        Inl e \<Rightarrow> Inl e
      | Inr g \<Rightarrow> (case load_file OriginWorkdir local of Inl e \<Rightarrow> Inl e | Inr l \<Rightarrow> layered l g))"

section \<open>What the workdir decides\<close>

definition decoded :: "launcher_file \<Rightarrow> launcher_config" where
  "decoded f = (case f of LauncherYaml c \<Rightarrow> c | _ \<Rightarrow> empty_launcher)"

lemma merge_empty: "merge_defaults empty_launcher = default_launcher\<lparr>lc_cache := []\<rparr>"
  by (simp add: merge_defaults_def empty_launcher_def default_launcher_def no_sandbox_def no_audit_def pick_def no_watch_def Let_def)

lemma merge_strip: "lc_sandbox (merge_defaults (strip_security c)) = lc_sandbox default_launcher \<and>
    lc_audit (merge_defaults (strip_security c)) = lc_audit default_launcher \<and>
    fx_base_env (lc_facade (merge_defaults (strip_security c))) = fx_base_env (lc_facade default_launcher)"
  by (simp add: merge_defaults_def strip_security_def default_launcher_def no_sandbox_def no_audit_def no_watch_def Let_def)

text \<open>
  C15: A repository cannot change the sandbox.  Whatever the workdir's file holds, a configuration that loads has the sandbox
  templates and their selection, the briefing, the watch, the audit settings and the passed-through
  variables of the user's own file completed by the defaults; the built-in profile is there unless that
  file replaces it; and the workdir's file decides the cache scope and, where it is not 0, a limit of the facade.
\<close>

theorem workdir_config_operational:
  assumes "load_launcher local glob = Inr (c, src)"
  shows "lc_sandbox c = lc_sandbox (merge_defaults (decoded glob)) \<and> lc_audit c = lc_audit (merge_defaults (decoded glob)) \<and>
    fx_base_env (lc_facade c) = fx_base_env (lc_facade (merge_defaults (decoded glob))) \<and>
    (fmlookup (sx_profiles (lc_sandbox (decoded glob))) ''builtin'' = None \<longrightarrow>
       fmlookup (sx_profiles (lc_sandbox c)) ''builtin'' = Some builtin_profile) \<and>
    fx_max_body (lc_facade c) = pick (fx_max_body (lc_facade (decoded local))) (fx_max_body (lc_facade (merge_defaults (decoded glob)))) \<and>
    (local \<noteq> NoLauncher \<longrightarrow> src = OriginWorkdir \<and> lc_cache c = lc_cache (decoded local)) \<and> resolve_cache (lc_cache c) \<noteq> None"
proof -
  have b: "fmlookup (sx_profiles (lc_sandbox (merge_defaults x))) ''builtin'' = Some builtin_profile"
    if "fmlookup (sx_profiles (lc_sandbox x)) ''builtin'' = None" for x
    using that by (simp add: merge_defaults_def default_launcher_def default_profiles_def fmdom_notI fmlookup_of_list Let_def)
  have m: "lc_sandbox (merge_defaults empty_launcher) = lc_sandbox default_launcher" "lc_audit (merge_defaults empty_launcher) = lc_audit default_launcher"
    "lc_facade (merge_defaults empty_launcher) = lc_facade default_launcher" by (simp_all add: merge_empty)
  have d: "resolve_cache (lc_cache default_launcher) \<noteq> None" "fx_max_body (lc_facade default_launcher) \<noteq> 0"
    by (simp_all add: default_launcher_def resolve_cache_def validate_cache_scope_def)
  have mb: "fx_max_body (lc_facade (merge_defaults x)) = pick (fx_max_body (lc_facade x)) (fx_max_body (lc_facade default_launcher))"
    "lc_cache (merge_defaults x) = lc_cache x" for x by (simp_all add: merge_defaults_def Let_def)
  have z: "fx_max_body (lc_facade empty_launcher) = 0" "fx_max_body (lc_facade (strip_security x)) = fx_max_body (lc_facade x)"
    "lc_cache (strip_security x) = lc_cache x" for x by (simp_all add: empty_launcher_def strip_security_def)
  have sb: "fmlookup (sx_profiles (lc_sandbox c)) ''builtin'' = Some builtin_profile"
    if "lc_sandbox c = lc_sandbox (merge_defaults (decoded glob))" "fmlookup (sx_profiles (lc_sandbox (decoded glob))) ''builtin'' = None"
    using b [OF that(2)] that(1) by simp
  consider (none) "local = NoLauncher" "glob = NoLauncher" | (glob) g where "local = NoLauncher" "glob = LauncherYaml g"
    | (local) l where "local = LauncherYaml l" "glob = NoLauncher" | (both) l g where "local = LauncherYaml l" "glob = LauncherYaml g"
    using assms by (cases local; cases glob) (auto simp: load_launcher_def load_file_def)
  then have "lc_sandbox c = lc_sandbox (merge_defaults (decoded glob)) \<and> lc_audit c = lc_audit (merge_defaults (decoded glob)) \<and>
    fx_base_env (lc_facade c) = fx_base_env (lc_facade (merge_defaults (decoded glob))) \<and>
    fx_max_body (lc_facade c) = pick (fx_max_body (lc_facade (decoded local))) (fx_max_body (lc_facade (merge_defaults (decoded glob)))) \<and>
    (local \<noteq> NoLauncher \<longrightarrow> src = OriginWorkdir \<and> lc_cache c = lc_cache (decoded local)) \<and> resolve_cache (lc_cache c) \<noteq> None"
  proof cases
    case none
    then have "c = default_launcher" using assms by (simp add: load_launcher_def load_file_def layered_def)
    then show ?thesis using none d by (simp add: decoded_def m z pick_def)
  next
    case glob
    then have "c = merge_defaults g" "resolve_cache (lc_cache c) \<noteq> None"
      using assms by (auto simp: load_launcher_def load_file_def layered_def Let_def split: if_splits)
    then show ?thesis using glob by (simp add: decoded_def z pick_def)
  next
    case local
    then have "c = merge_defaults (strip_security l)" "resolve_cache (lc_cache c) \<noteq> None" "src = OriginWorkdir"
      using assms by (auto simp: load_launcher_def load_file_def layered_def Let_def split: if_splits)
    then show ?thesis using local merge_strip [of l] by (simp add: decoded_def m mb z)
  next
    case both
    then show ?thesis
      using assms by (auto simp: load_launcher_def load_file_def layered_def decoded_def Let_def split: if_splits)
  qed
  then show ?thesis using sb by blast
qed

text \<open>
  A workdir file without a cache block takes the user's scope back to the default.
\<close>

lemma workdir_file_resets_cache:
  "load_launcher NoLauncher (LauncherYaml (empty_launcher\<lparr>lc_cache := ''global''\<rparr>)) =
     Inr (merge_defaults (empty_launcher\<lparr>lc_cache := ''global''\<rparr>), OriginGlobal) \<and>
   (\<exists>c. load_launcher (LauncherYaml empty_launcher) (LauncherYaml (empty_launcher\<lparr>lc_cache := ''global''\<rparr>)) = Inr (c, OriginWorkdir) \<and>
     resolve_cache (lc_cache c) = Some ScopeWorkdir)"
  by (simp add: load_launcher_def load_file_def layered_def resolve_cache_def validate_cache_scope_def merge_defaults_def empty_launcher_def
    no_sandbox_def no_watch_def watch_ok_def Let_def)

theorem workdir_config_operational_witness:
  "\<exists>c. load_launcher (LauncherYaml (empty_launcher\<lparr>lc_audit := \<lparr>ax_enabled = Some False, ax_path = ''/tmp/x'', ax_syslog = False, ax_strict = False\<rparr>\<rparr>)) NoLauncher =
     Inr (c, OriginWorkdir) \<and> ax_enabled (lc_audit c) = Some True \<and> ax_path (lc_audit c) = []"
proof -
  let ?l = "LauncherYaml (empty_launcher\<lparr>lc_audit := \<lparr>ax_enabled = Some False, ax_path = ''/tmp/x'', ax_syslog = False, ax_strict = False\<rparr>\<rparr>)"
  obtain c where c: "load_launcher ?l NoLauncher = Inr (c, OriginWorkdir)"
    by (simp add: load_launcher_def load_file_def layered_def resolve_cache_def merge_defaults_def strip_security_def empty_launcher_def Let_def)
  have "lc_audit (merge_defaults (decoded NoLauncher)) = lc_audit default_launcher" by (simp add: decoded_def merge_empty)
  then show ?thesis using workdir_config_operational [OF c] c by (simp add: default_launcher_def)
qed

end
