(* ===== verification/LaunchArgs.thy ===== *)
theory LaunchArgs
  imports Launcher Flags
begin

text \<open>
  From a launch template to the command line of the sandbox (\<open>internal/sandbox/launcher.go\<close>) and what a launch splices
  into it (\<open>internal/cli/serve.go\<close>, in the order of \<open>cli/start.go\<close>); read back by the flag parser of
  \<open>omac sandbox run\<close>.  Also the names and addresses under which skills are announced.
\<close>

section \<open>Templates\<close>

record inputs =
  in_workdir :: string
  in_socket :: string
  in_port :: int
  in_mounts :: "string list"
  in_inner :: "string list"
  in_tmp :: string

fun index_str :: "string \<Rightarrow> string \<Rightarrow> nat option" where
  "index_str p [] = (if p = [] then Some 0 else None)"
| "index_str p (c # s) = (if has_prefix (c # s) p then Some 0 else map_option Suc (index_str p s))"

lemma index_str_le: "index_str p s = Some i \<Longrightarrow> i \<le> length s"
  by (induction p s arbitrary: i rule: index_str.induct) (auto split: if_splits)

datatype expand_failure = NoCommand | NoInnerCommand | UnknownPlaceholder string | ListEmbedded string

definition splat_token :: "string \<Rightarrow> string option" where
  "splat_token tok =
     (if length tok < 5 \<or> \<not> has_prefix tok ''{{'' \<or> \<not> has_suffix tok ''}}'' then None
      else let name = trim_space (take (length tok - 4) (drop 2 tok)) in if name = [] then None else Some name)"

function substitute_scalars :: "string \<Rightarrow> (string \<times> string) list \<Rightarrow> (string \<times> string list) list \<Rightarrow> expand_failure + string" where
  "substitute_scalars tok scalars splats =
     (case tok of
        [] \<Rightarrow> Inr []
      | c # rest \<Rightarrow>
          (case (if has_prefix tok ''{{'' then index_str ''}}'' (drop 2 tok) else None) of
             Some e \<Rightarrow>
               (let name = trim_space (take e (drop 2 tok))
                in if map_of splats name \<noteq> None then Inl (ListEmbedded name)
                   else case map_of scalars name of
                     None \<Rightarrow> Inl (UnknownPlaceholder name)
                   | Some v \<Rightarrow> (case substitute_scalars (drop (2 + e + 2) tok) scalars splats of Inl x \<Rightarrow> Inl x | Inr s \<Rightarrow> Inr (v @ s)))
           | None \<Rightarrow> (case substitute_scalars rest scalars splats of Inl x \<Rightarrow> Inl x | Inr s \<Rightarrow> Inr (c # s))))"
  by auto
termination by (relation "measure (\<lambda>(tok, _, _). length tok)") auto

declare substitute_scalars.simps [simp del]

section \<open>Names and addresses\<close>

definition env_char :: "char \<Rightarrow> char" where
  "env_char c =
     (if is_lower_alpha c then char_of (code c - 32) else if is_upper_alpha c \<or> is_digit c then c else CHR ''_'')"

definition env_ident :: "string \<Rightarrow> string" where "env_ident s = map env_char s"

definition env_name :: "string \<Rightarrow> string" where
  "env_name mount = ''OMAC_'' @ env_ident mount @ ''_BASE''"

definition dir_env_name :: "string \<Rightarrow> string \<Rightarrow> string" where
  "dir_env_name token mount = ''OMAC_D_'' @ env_ident token @ ''_'' @ env_ident mount @ ''_BASE''"

definition global_env_name :: "string \<Rightarrow> string" where
  "global_env_name mount = ''OMAC_G_'' @ env_ident mount @ ''_BASE''"

definition socket_env_name :: "string \<Rightarrow> string" where
  "socket_env_name mount = trim_suffix (env_name mount) ''_BASE'' @ ''_SOCKET_BASE''"

text \<open>\<open>url.PathEscape\<close>: what stays in a path segment.\<close>

definition upper_hex :: "nat \<Rightarrow> char" where
  "upper_hex n = (if n < 10 then char_of (48 + n) else char_of (55 + n))"

definition path_escape :: "string \<Rightarrow> string" where
  "path_escape s = concat (map (\<lambda>c.
     if is_lower_alpha c \<or> is_upper_alpha c \<or> is_digit c \<or> c \<in> set ''-_.~$&+:=@'' then [c]
     else [CHR ''%'', upper_hex (code c div 16), upper_hex (code c mod 16)]) s)"

definition env_value :: "string \<Rightarrow> string \<Rightarrow> string" where
  "env_value mount socket = ''http+unix://'' @ path_escape socket @ ''/'' @ mount"

definition tcp_env_value :: "string \<Rightarrow> int \<Rightarrow> string" where
  "tcp_env_value mount port = ''http://127.0.0.1:'' @ show_int port @ ''/'' @ mount"

definition tcp_env_value_ns :: "string \<Rightarrow> string \<Rightarrow> int \<Rightarrow> string" where
  "tcp_env_value_ns ns mount port =
     (if ns = [] then tcp_env_value mount port
      else ''http://127.0.0.1:'' @ show_int port @ ''/'' @ ns @ ''/'' @ mount)"

definition env_value_ns :: "string \<Rightarrow> string \<Rightarrow> string \<Rightarrow> string" where
  "env_value_ns ns mount socket =
     (if ns = [] then env_value mount socket else ''http+unix://'' @ path_escape socket @ ''/'' @ ns @ ''/'' @ mount)"

definition per_skill_env :: "string \<Rightarrow> string \<Rightarrow> string" where
  "per_skill_env mount socket = env_name mount @ ''='' @ env_value mount socket"

section \<open>Expansion\<close>

fun expand_tokens :: "(string \<times> string) list \<Rightarrow> (string \<times> string list) list \<Rightarrow> string list \<Rightarrow> expand_failure + string list" where
  "expand_tokens scalars splats [] = Inr []"
| "expand_tokens scalars splats (tok # toks) =
     (let here =
        (case splat_token tok of
           Some name \<Rightarrow>
             (case map_of splats name of
                Some vs \<Rightarrow> Inr vs
              | None \<Rightarrow> (case map_of scalars name of Some v \<Rightarrow> Inr [v] | None \<Rightarrow> Inl (UnknownPlaceholder name)))
         | None \<Rightarrow> (case substitute_scalars tok scalars splats of Inl e \<Rightarrow> Inl e | Inr s \<Rightarrow> Inr [s]))
      in case here of
           Inl e \<Rightarrow> Inl e
         | Inr vs \<Rightarrow> (case expand_tokens scalars splats toks of Inl e \<Rightarrow> Inl e | Inr out \<Rightarrow> Inr (vs @ out)))"

definition expand_template :: "string \<Rightarrow> sandbox_profile \<Rightarrow> inputs \<Rightarrow> expand_failure + string list" where
  "expand_template self p i =
     (if sx_command p = [] then Inl NoCommand
      else case (if in_inner i = [] then sx_inner p else in_inner i) of
        [] \<Rightarrow> Inl NoInnerCommand
      | cmd # args \<Rightarrow>
          expand_tokens
            [(''socket'', in_socket i), (''socket_dir'', path_dir (in_socket i)), (''workdir'', in_workdir i),
             (''skills_csv'', join_with '','' (in_mounts i)), (''inner_cmd'', cmd), (''tcp_port'', show_int (in_port i)),
             (''tmpdir'', in_tmp i), (''self'', self)]
            [(''inner_args'', args),
             (''per_skill_env_flags'', concat (map (\<lambda>m. [''--env'', per_skill_env m (in_socket i)]) (in_mounts i))),
             (''tmpdir_flags'', if in_tmp i = [] then [] else [''--read'', in_tmp i, ''--write'', in_tmp i])]
            (sx_command p))"

section \<open>Splicing flags\<close>

fun before_separator :: "string list \<Rightarrow> string list \<Rightarrow> string list option" where
  "before_separator ins [] = None"
| "before_separator ins (a # as) = (if a = ''--'' then Some (ins @ a # as) else map_option ((#) a) (before_separator ins as))"

definition inject_flag :: "string list \<Rightarrow> string \<Rightarrow> string \<Rightarrow> string list" where
  "inject_flag argv name v =
     (let ins = (if v = [] then [name] else [name, v])
      in case before_separator ins argv of
           Some out \<Rightarrow> out
         | None \<Rightarrow> (case argv of [] \<Rightarrow> [] | a # as \<Rightarrow> a # ins @ as))"

definition inject_each :: "string \<Rightarrow> string list \<Rightarrow> string list \<Rightarrow> string list" where
  "inject_each name vs argv = fold (\<lambda>v argv. if v = [] then argv else inject_flag argv name v) vs argv"

definition inject_dirs :: "string list \<Rightarrow> string list \<Rightarrow> string list" where
  "inject_dirs argv dirs = inject_each ''--allow'' dirs argv"

definition inject_denies :: "string list \<Rightarrow> string list \<Rightarrow> sandbox_profile \<Rightarrow> string list" where
  "inject_denies argv paths p = (if policy_ref p = None then argv else inject_each ''--deny'' paths argv)"

definition inject_hidden :: "string list \<Rightarrow> string list \<Rightarrow> sandbox_profile \<Rightarrow> string list" where
  "inject_hidden argv targets p =
     (if policy_ref p = None then argv else fold (\<lambda>t argv. inject_flag argv ''--deny-literal'' t) targets argv)"

definition inject_env_allow :: "string list \<Rightarrow> string list \<Rightarrow> sandbox_profile \<Rightarrow> string list" where
  "inject_env_allow argv names p = (if policy_ref p = None then argv else inject_each ''--allow-env'' names argv)"

definition inject_user_ports :: "string list \<Rightarrow> int list \<Rightarrow> sandbox_profile \<Rightarrow> string list" where
  "inject_user_ports argv ports p =
     (if policy_ref p = None then argv
      else fold (\<lambda>port argv. if port < 1 \<or> port > 65535 then argv else inject_flag argv ''--open-port'' (show_int port)) ports argv)"

definition inject_server_port :: "string list \<Rightarrow> harness \<Rightarrow> string list \<Rightarrow> string list" where
  "inject_server_port argv h inner =
     (let port = resolve_listen_port h inner in if port \<le> 0 then argv else inject_flag argv ''--open-port'' (show_int port))"

text \<open>\<open>sandboxServeArgv\<close>.\<close>

definition sandbox_serve_argv :: "host_env \<Rightarrow> string \<Rightarrow> sandbox_profile \<Rightarrow> inputs \<Rightarrow> string \<Rightarrow> harness \<Rightarrow> expand_failure + string list" where
  "sandbox_serve_argv env self p i control h =
     (case expand_template self p i of
        Inl e \<Rightarrow> Inl e
      | Inr argv \<Rightarrow>
          (let a1 = (if control = [] then argv else inject_flag argv ''--open-port'' control);
               a2 = inject_server_port a1 h (in_inner i);
               a3 = inject_dirs a2 (resolved_dirs env h)
           in Inr (inject_denies a3 (hn_deny_paths h) p)))"

text \<open>
  The splices of \<open>omac start\<close> after the expansion, with the paths of hidden skills, the cache directory and the
  audit settings it was given, for a policy that allows some variables.
\<close>

record launch_extras =
  lx_control :: "int option"
  lx_hidden :: "string list"
  lx_cache :: string
  lx_ports :: "int list"
  lx_audit :: "(string \<times> string \<times> string) option"

definition forwarded_env :: "bool \<Rightarrow> string list \<Rightarrow> harness \<Rightarrow> string list" where
  "forwarded_env allow_empty defaults h = (if allow_empty then defaults @ [hn_home_env h] else forwarded_vars h)"

definition start_argv :: "host_env \<Rightarrow> bool \<Rightarrow> string list \<Rightarrow> sandbox_profile \<Rightarrow> harness \<Rightarrow> launch_extras \<Rightarrow> string list \<Rightarrow> string list" where
  "start_argv env allow_empty defaults p h x argv =
     (let a1 = (case lx_control x of None \<Rightarrow> argv | Some port \<Rightarrow> inject_flag argv ''--open-port'' (show_int port));
          a2 = inject_dirs a1 (resolved_dirs env h);
          a3 = inject_denies a2 (hn_deny_paths h) p;
          a4 = inject_hidden a3 (lx_hidden x) p;
          a5 = (if lx_cache x = [] then a4 else inject_flag a4 ''--allow'' (lx_cache x));
          a6 = inject_env_allow a5 (forwarded_env allow_empty defaults h) p;
          a7 = inject_user_ports a6 (lx_ports x) p
      in case lx_audit x of
           None \<Rightarrow> a7
         | Some (log, run, mode) \<Rightarrow>
             inject_flag (inject_flag (inject_flag a7 ''--audit-log'' log) ''--audit-run-id'' run) ''--audit-mode'' mode)"

section \<open>Before the separator\<close>

lemma before_separator_append: "''--'' \<notin> set pre \<Longrightarrow> before_separator ins (pre @ ''--'' # inner) = Some (pre @ ins @ ''--'' # inner)"
  by (induction pre) auto

lemma inject_value: "''--'' \<notin> set pre \<Longrightarrow> v \<noteq> [] \<Longrightarrow> inject_flag (pre @ ''--'' # inner) a v = (pre @ opts False a [v]) @ ''--'' # inner"
  by (simp add: inject_flag_def before_separator_append opts_def opt_def)

lemma opts_snoc: "opts False a (v # vs) = opts False a [v] @ opts False a vs"
  by (simp add: opts_def)

lemma opts_plain: "a \<noteq> ''--'' \<Longrightarrow> ''--'' \<notin> set vs \<Longrightarrow> ''--'' \<notin> set (opts False a vs)"
  by (auto simp: opts_def opt_def)

lemma inject_fold:
  assumes "a \<noteq> ''--''" "''--'' \<notin> set pre" "''--'' \<notin> set (map f (filter ok vs))" "[] \<notin> set (map f (filter ok vs))"
  shows "fold (\<lambda>v argv. if ok v then inject_flag argv a (f v) else argv) vs (pre @ ''--'' # inner) =
    (pre @ opts False a (map f (filter ok vs))) @ ''--'' # inner"
  using assms
proof (induction vs arbitrary: pre)
  case (Cons v vs)
  show ?case
  proof (cases "ok v")
    case True
    have "''--'' \<notin> set (pre @ opts False a [f v])" using Cons.prems True by (auto simp: opts_def opt_def)
    note ih = Cons.IH [OF Cons.prems(1) this]
    have "inject_flag (pre @ ''--'' # inner) a (f v) = (pre @ opts False a [f v]) @ ''--'' # inner"
      by (rule inject_value) (use Cons.prems True in auto)
    then show ?thesis using ih Cons.prems True by (simp add: opts_snoc [of a "f v" "map f (filter ok vs)"])
  next
    case False
    then show ?thesis using Cons by simp
  qed
qed (simp add: opts_def)

lemma inject_each_at:
  assumes "a \<noteq> ''--''" "''--'' \<notin> set pre" "''--'' \<notin> set vs"
  shows "inject_each a vs (pre @ ''--'' # inner) = (pre @ opts False a (filter (\<lambda>v. v \<noteq> []) vs)) @ ''--'' # inner"
proof -
  have "inject_each a vs = fold (\<lambda>v argv. if v \<noteq> [] then inject_flag argv a v else argv) vs"
    unfolding inject_each_def by (rule arg_cong [of _ _ "\<lambda>f. fold f vs"], intro ext) simp
  then show ?thesis using inject_fold [of a pre "\<lambda>v. v" "\<lambda>v. v \<noteq> []" vs inner] assms by auto
qed

text \<open>A command line with its separator, as the splices keep it.\<close>

definition spliced :: "string list \<Rightarrow> string list \<Rightarrow> string list \<Rightarrow> bool" where
  "spliced pre inner argv \<longleftrightarrow> argv = pre @ ''--'' # inner \<and> ''--'' \<notin> set pre"

lemma spliced_value:
  "spliced pre inner argv \<Longrightarrow> a \<noteq> ''--'' \<Longrightarrow> v \<noteq> [] \<Longrightarrow> v \<noteq> ''--'' \<Longrightarrow> spliced (pre @ opts False a [v]) inner (inject_flag argv a v)"
  unfolding spliced_def using inject_value [of pre v inner a] opts_plain [of a "[v]"] by auto

lemma spliced_each:
  "spliced pre inner argv \<Longrightarrow> a \<noteq> ''--'' \<Longrightarrow> ''--'' \<notin> set vs \<Longrightarrow> spliced (pre @ opts False a (filter (\<lambda>v. v \<noteq> []) vs)) inner (inject_each a vs argv)"
  unfolding spliced_def using inject_each_at [of a pre vs inner] opts_plain [of a "filter (\<lambda>v. v \<noteq> []) vs"] by auto

lemma spliced_fold:
  assumes "spliced pre inner argv" "a \<noteq> ''--''" "''--'' \<notin> set (map f (filter ok vs))" "[] \<notin> set (map f (filter ok vs))"
  shows "spliced (pre @ opts False a (map f (filter ok vs))) inner (fold (\<lambda>v argv. if ok v then inject_flag argv a (f v) else argv) vs argv)"
  using assms inject_fold [of a pre f ok vs inner] opts_plain [of a "map f (filter ok vs)"] unfolding spliced_def by simp

lemma policy_builtin: "policy_ref builtin_profile = Some ''default''"
  by (simp add: policy_ref_def builtin_profile_def has_prefix_def)

lemma show_int_plain: "show_int n \<noteq> [] \<and> show_int n \<noteq> ''--''"
proof -
  have h: "show_nat m \<noteq> [] \<and> hd (show_nat m) \<noteq> CHR ''-''" for m
    using show_nat_digits [of m] by (cases "show_nat m") (auto simp: is_digit_def code_def)
  have "show_nat m \<noteq> ''--'' \<and> CHR ''-'' # show_nat m \<noteq> ''--''" for m
    using h [of m] by (cases "show_nat m") auto
  then show ?thesis using h by (simp add: show_int_def)
qed

lemma substitute_plain: "CHR ''{'' \<notin> set tok \<Longrightarrow> substitute_scalars tok scalars splats = Inr tok"
proof (induction tok)
  case (Cons c tok)
  then have "\<not> has_prefix (c # tok) ''{{''" by (auto simp: has_prefix_def)
  then show ?case using Cons by (subst substitute_scalars.simps) simp
qed (simp add: substitute_scalars.simps)

section \<open>The built-in launch\<close>

definition tmp_flags :: "inputs \<Rightarrow> string list" where
  "tmp_flags i = (if in_tmp i = [] then [] else [in_tmp i])"

lemma expand_builtin:
  assumes "in_inner i \<noteq> []"
  shows "expand_template self builtin_profile i =
    Inr ([self, ''sandbox'', ''run''] @ opts False ''--profile'' [''default''] @ opts False ''--allow-file'' [in_socket i] @
      opts False ''--read'' (path_dir (in_socket i) # tmp_flags i) @ opts False ''--write'' (tmp_flags i) @
      opts False ''--open-port'' [show_int (in_port i)] @ ''--'' # in_inner i)"
proof -
  obtain cmd args where i: "in_inner i = cmd # args" using assms by (cases "in_inner i") auto
  have p: "splat_token ''sandbox'' = None" "splat_token ''run'' = None" "splat_token ''--profile'' = None" "splat_token ''default'' = None"
    "splat_token ''--allow-file'' = None" "splat_token ''--read'' = None" "splat_token ''--open-port'' = None" "splat_token ''--'' = None"
    "splat_token ''{{self}}'' = Some ''self''" "splat_token ''{{socket}}'' = Some ''socket''" "splat_token ''{{socket_dir}}'' = Some ''socket_dir''"
    "splat_token ''{{tmpdir_flags}}'' = Some ''tmpdir_flags''" "splat_token ''{{tcp_port}}'' = Some ''tcp_port''"
    "splat_token ''{{inner_cmd}}'' = Some ''inner_cmd''" "splat_token ''{{inner_args}}'' = Some ''inner_args''" by code_simp+
  show ?thesis
    by (simp add: expand_template_def builtin_profile_def i p substitute_plain Let_def opts_def opt_def tmp_flags_def)
qed

section \<open>What the sandbox reads\<close>

text \<open>The values that a launch puts before the separator.\<close>

definition launch_values :: "host_env \<Rightarrow> bool \<Rightarrow> string list \<Rightarrow> harness \<Rightarrow> launch_extras \<Rightarrow> string \<Rightarrow> inputs \<Rightarrow> string list" where
  "launch_values env allow_empty defaults h x self i =
     self # in_socket i # path_dir (in_socket i) # in_tmp i # lx_cache x # lx_hidden x @ resolved_dirs env h @ hn_deny_paths h @
     forwarded_env allow_empty defaults h @ (case lx_audit x of None \<Rightarrow> [] | Some (log, run, mode) \<Rightarrow> [log, run, mode])"

definition filled :: "string list \<Rightarrow> string list" where "filled xs = filter (\<lambda>v. v \<noteq> []) xs"

definition audit_opts :: "launch_extras \<Rightarrow> string list" where
  "audit_opts x =
     (case lx_audit x of None \<Rightarrow> []
      | Some (log, run, mode) \<Rightarrow> opts False ''--audit-log'' [log] @ opts False ''--audit-run-id'' [run] @ opts False ''--audit-mode'' [mode])"

lemma start_argv_pieces:
  assumes "spliced pre inner argv" "''--'' \<notin> set (launch_values env allow_empty defaults h x self i)" "[] \<notin> set (lx_hidden x)"
    and "\<And>log run mode. lx_audit x = Some (log, run, mode) \<Longrightarrow> log \<noteq> [] \<and> run \<noteq> [] \<and> mode \<noteq> []"
  shows "start_argv env allow_empty defaults builtin_profile h x argv =
    (pre @ opts False ''--open-port'' (case lx_control x of None \<Rightarrow> [] | Some p \<Rightarrow> [show_int p]) @
     opts False ''--allow'' (filled (resolved_dirs env h)) @ opts False ''--deny'' (filled (hn_deny_paths h)) @
     opts False ''--deny-literal'' (lx_hidden x) @ opts False ''--allow'' (filled [lx_cache x]) @
     opts False ''--allow-env'' (filled (forwarded_env allow_empty defaults h)) @
     opts False ''--open-port'' (map show_int (filter (\<lambda>p. 1 \<le> p \<and> p \<le> 65535) (lx_ports x))) @ audit_opts x) @ ''--'' # inner"
proof -
  have v: "''--'' \<notin> set (lx_hidden x)" "''--'' \<notin> set (resolved_dirs env h)" "''--'' \<notin> set (hn_deny_paths h)" "lx_cache x \<noteq> ''--''"
    "''--'' \<notin> set (forwarded_env allow_empty defaults h)" using assms(2) by (auto simp: launch_values_def)
  have np: "policy_ref builtin_profile \<noteq> None" by (simp add: policy_builtin)
  define a1 where "a1 = (case lx_control x of None \<Rightarrow> argv | Some port \<Rightarrow> inject_flag argv ''--open-port'' (show_int port))"
  define p1 where "p1 = pre @ opts False ''--open-port'' (case lx_control x of None \<Rightarrow> [] | Some p \<Rightarrow> [show_int p])"
  have 1: "spliced p1 inner a1"
  proof (cases "lx_control x")
    case None
    then show ?thesis using assms(1) by (simp add: a1_def p1_def opts_def)
  next
    case (Some port)
    have "show_int port \<noteq> []" "show_int port \<noteq> ''--''" using show_int_plain by blast+
    from spliced_value [OF assms(1) _ this, of "''--open-port''"] show ?thesis using Some by (simp add: a1_def p1_def)
  qed
  have 2: "spliced (p1 @ opts False ''--allow'' (filled (resolved_dirs env h))) inner (inject_dirs a1 (resolved_dirs env h))" (is "spliced ?p2 _ ?a2")
    unfolding inject_dirs_def filled_def by (rule spliced_each [OF 1 _ v(2)]) simp
  have 3: "spliced (?p2 @ opts False ''--deny'' (filled (hn_deny_paths h))) inner (inject_denies ?a2 (hn_deny_paths h) builtin_profile)"
    (is "spliced ?p3 _ ?a3") using spliced_each [OF 2 _ v(3), of "''--deny''"] unfolding inject_denies_def if_not_P [OF np] filled_def by simp
  have 4: "spliced (?p3 @ opts False ''--deny-literal'' (lx_hidden x)) inner (inject_hidden ?a3 (lx_hidden x) builtin_profile)" (is "spliced ?p4 _ ?a4")
    unfolding inject_hidden_def if_not_P [OF np]
    using spliced_fold [OF 3, of "''--deny-literal''" "\<lambda>t. t" "\<lambda>_. True" "lx_hidden x"] v(1) assms(3) by simp
  have 5: "spliced (?p4 @ opts False ''--allow'' (filled [lx_cache x])) inner (if lx_cache x = [] then ?a4 else inject_flag ?a4 ''--allow'' (lx_cache x))"
    (is "spliced ?p5 _ ?a5")
  proof (cases "lx_cache x = []")
    case True
    then show ?thesis using 4 by (simp add: filled_def opts_def)
  next
    case False
    have "spliced (?p4 @ opts False ''--allow'' [lx_cache x]) inner (inject_flag ?a4 ''--allow'' (lx_cache x))"
      by (rule spliced_value [OF 4 _ False v(4)]) simp
    then show ?thesis using False by (simp add: filled_def)
  qed
  have 6: "spliced (?p5 @ opts False ''--allow-env'' (filled (forwarded_env allow_empty defaults h))) inner
      (inject_env_allow ?a5 (forwarded_env allow_empty defaults h) builtin_profile)" (is "spliced ?p6 _ ?a6")
    using spliced_each [OF 5 _ v(5), of "''--allow-env''"] unfolding inject_env_allow_def if_not_P [OF np] filled_def by simp
  have ne: "''--'' \<notin> set (map show_int ps)" "[] \<notin> set (map show_int ps)" for ps
    unfolding set_map image_iff using show_int_plain by metis+
  have c: "(\<lambda>port argv. if port < 1 \<or> port > 65535 then argv else inject_flag argv ''--open-port'' (show_int port)) =
      (\<lambda>port argv. if 1 \<le> port \<and> port \<le> 65535 then inject_flag argv ''--open-port'' (show_int port) else argv)"
    by (intro ext) auto
  have 7: "spliced (?p6 @ opts False ''--open-port'' (map show_int (filter (\<lambda>p. 1 \<le> p \<and> p \<le> 65535) (lx_ports x)))) inner
      (inject_user_ports ?a6 (lx_ports x) builtin_profile)" (is "spliced ?p7 _ ?a7")
    unfolding inject_user_ports_def if_not_P [OF np] c by (rule spliced_fold [OF 6 _ ne]) simp
  have "spliced (?p7 @ audit_opts x) inner
      (case lx_audit x of None \<Rightarrow> ?a7
       | Some (log, run, mode) \<Rightarrow> inject_flag (inject_flag (inject_flag ?a7 ''--audit-log'' log) ''--audit-run-id'' run) ''--audit-mode'' mode)"
  proof (cases "lx_audit x")
    case None
    then show ?thesis using 7 by (simp add: audit_opts_def)
  next
    case (Some l)
    obtain log run mode where l: "lx_audit x = Some (log, run, mode)" using Some by (cases l) auto
    have n: "log \<noteq> []" "run \<noteq> []" "mode \<noteq> []" using assms(4) l by blast+
    have m: "log \<noteq> ''--''" "run \<noteq> ''--''" "mode \<noteq> ''--''" using assms(2) l by (auto simp: launch_values_def)
    have s1: "spliced (?p7 @ opts False ''--audit-log'' [log]) inner (inject_flag ?a7 ''--audit-log'' log)"
      by (rule spliced_value [OF 7 _ n(1) m(1)]) simp
    have s2: "spliced ((?p7 @ opts False ''--audit-log'' [log]) @ opts False ''--audit-run-id'' [run]) inner
        (inject_flag (inject_flag ?a7 ''--audit-log'' log) ''--audit-run-id'' run)"
      by (rule spliced_value [OF s1 _ n(2) m(2)]) simp
    have "spliced (((?p7 @ opts False ''--audit-log'' [log]) @ opts False ''--audit-run-id'' [run]) @ opts False ''--audit-mode'' [mode]) inner
        (inject_flag (inject_flag (inject_flag ?a7 ''--audit-log'' log) ''--audit-run-id'' run) ''--audit-mode'' mode)"
      by (rule spliced_value [OF s2 _ n(3) m(3)]) simp
    then show ?thesis using l by (simp add: audit_opts_def)
  qed
  then show ?thesis unfolding start_argv_def Let_def a1_def [symmetric] p1_def [symmetric] spliced_def by (simp add: p1_def)
qed


definition launch_inputs :: inputs where
  "launch_inputs =
     \<lparr>in_workdir = ''/w'', in_socket = ''/r/s'', in_port = 7, in_mounts = [], in_inner = [''claude'', ''--'', ''--allow'', ''/''], in_tmp = []\<rparr>"

definition launch_extra :: launch_extras where
  "launch_extra = \<lparr>lx_control = Some 8, lx_hidden = [''/w/.claude/skills/x''], lx_cache = ''/c'', lx_ports = [], lx_audit = None\<rparr>"


section \<open>Names\<close>

text \<open>
  Skills have different variables: the mounts that a manifest may have are told apart by their names; but the address a
  mount has on the socket bears the name of another mount, and so does a global skill's.
\<close>

lemma env_char_inj:
  assumes "is_lower_alpha c \<or> is_digit c \<or> c = CHR ''-''" "is_lower_alpha d \<or> is_digit d \<or> d = CHR ''-''" "env_char c = env_char d"
  shows "c = d"
proof -
  have e: "code (env_char x) = (if is_lower_alpha x then code x - 32 else if is_digit x then code x else 95)"
    if "is_lower_alpha x \<or> is_digit x \<or> x = CHR ''-''" for x
    using that by (auto simp: env_char_def is_lower_alpha_def is_upper_alpha_def is_digit_def) (simp_all add: code_def)
  have "code c = code d"
    using e [OF assms(1)] e [OF assms(2)] assms by (auto simp: is_lower_alpha_def is_digit_def split: if_splits)
  then show ?thesis by (simp add: code_inject)
qed

lemma mount_chars: "mount_ok m \<Longrightarrow> c \<in> set m \<Longrightarrow> is_lower_alpha c \<or> is_digit c \<or> c = CHR ''-''"
  by (cases m) (auto simp: mount_ok_def list_all_iff)

lemma env_name_inj:
  assumes "mount_ok m" "mount_ok m'" "env_name m = env_name m'"
  shows "m = m'"
proof -
  have "env_ident m = env_ident m'" using assms(3) by (simp add: env_name_def)
  then have "map env_char m = map env_char m'" by (simp add: env_ident_def)
  then show ?thesis using mount_chars [OF assms(1)] mount_chars [OF assms(2)]
  proof (induction m m' rule: list_induct2')
    case (4 c cs d ds)
    then show ?case using env_char_inj [of c d] by auto
  qed auto
qed

lemma socket_name_clash:
  "mount_ok ''mail'' \<and> mount_ok ''mail-socket'' \<and> socket_env_name ''mail'' = env_name ''mail-socket'' \<and>
   env_value ''mail'' ''/r/s'' \<noteq> tcp_env_value ''mail-socket'' 7"
  by code_simp

lemma global_name_clash:
  "mount_ok ''mail'' \<and> mount_ok ''g-mail'' \<and> global_env_name ''mail'' = env_name ''g-mail''"
  by code_simp

text \<open>Two placeholders that fill a token are taken for one.\<close>

lemma adjacent_placeholders_fail:
  "expand_template ''/bin/omac'' \<lparr>sx_command = [''{{workdir}}:{{tmpdir}}''], sx_inner = []\<rparr> launch_inputs =
     Inl (UnknownPlaceholder ''workdir}}:{{tmpdir'')"
  by code_simp

end
