(* ===== verification/SkillContent.thy ===== *)
theory SkillContent
  imports SkillSource Trust LaunchArgs
begin

text \<open>
  Which skill instructions a sandboxed agent may see (\<open>internal/cli/skill_content.go\<close>): the search for skill
  directories below all roots, the check of one directory against the host's approvals, and the paths that are
  masked for a directory that fails it.  The recursion of the search is a worklist here, in the same order.
\<close>

section \<open>The file system\<close>

text \<open>
  What \<open>Lstat\<close> says of a path; \<open>EvalSymlinks\<close>; a directory as the walk of a skill meets it.  Whether a path is a
  directory is \<open>os.Stat\<close>'s answer, which follows links.
\<close>

datatype path_kind = Absent | Refused | RegularFile | SymLink string | OtherKind

record content_fs =
  co_skills :: skill_fs
  co_lstat :: "string \<Rightarrow> path_kind"
  co_eval :: "string \<Rightarrow> string option"
  co_tree :: "string \<Rightarrow> tree option"

definition skill_doc_name :: string where "skill_doc_name = ''SKILL.md''"

definition is_skill_doc :: "string \<Rightarrow> bool" where
  "is_skill_doc n \<longleftrightarrow> to_lower n = to_lower skill_doc_name"

section \<open>One skill\<close>

text \<open>\<open>unhashedSkillDoc\<close>: the first thing a loader may read although the hash leaves it out.\<close>

datatype doc_scan = NoDoc | FoundDoc "string list" | DocError

fun unhashed_in :: "content_fs \<Rightarrow> string \<Rightarrow> string list \<Rightarrow> tree \<Rightarrow> doc_scan" where
  "unhashed_in fs root pre [] = NoDoc"
| "unhashed_in fs root pre ((n, Dir ds) # es) =
     (case unhashed_in fs root (pre @ [n]) ds of NoDoc \<Rightarrow> unhashed_in fs root pre es | r \<Rightarrow> r)"
| "unhashed_in fs root pre ((n, Link l) # es) =
     (let p = path_join (root # pre @ [n])
      in if is_skill_doc n then FoundDoc (pre @ [n])
         else if sf_isdir (co_skills fs) p \<and> (case co_eval fs p of None \<Rightarrow> True | Some t \<Rightarrow> \<not> is_under_dir root t) then FoundDoc (pre @ [n])
         else unhashed_in fs root pre es)"
| "unhashed_in fs root pre ((n, Unreadable) # es) =
     (if sf_isdir (co_skills fs) (path_join (root # pre @ [n])) then DocError
      else if is_skill_doc n \<and> list_ex is_excluded_dir_name pre then FoundDoc (pre @ [n])
      else unhashed_in fs root pre es)"
| "unhashed_in fs root pre ((n, File c m) # es) =
     (if is_skill_doc n \<and> list_ex is_excluded_dir_name pre then FoundDoc (pre @ [n]) else unhashed_in fs root pre es)"
| "unhashed_in fs root pre ((n, Special) # es) =
     (if is_skill_doc n \<and> list_ex is_excluded_dir_name pre then FoundDoc (pre @ [n]) else unhashed_in fs root pre es)"

definition skill_root :: "content_fs \<Rightarrow> string \<Rightarrow> string" where
  "skill_root fs dir = (case co_eval fs dir of Some r \<Rightarrow> r | None \<Rightarrow> dir)"

definition unhashed_doc :: "content_fs \<Rightarrow> string \<Rightarrow> doc_scan" where
  "unhashed_doc fs dir =
     (case co_tree fs (skill_root fs dir) of None \<Rightarrow> DocError | Some t \<Rightarrow> unhashed_in fs (skill_root fs dir) [] t)"

datatype refusal = NoManifest | CannotCheck | Uncovered "string list" | CannotHashSkill | StoreFailed trust_error | NotApprovedContent

definition skill_content_refusal :: "content_fs \<Rightarrow> (string \<Rightarrow> string) \<Rightarrow> approvals \<Rightarrow> string \<Rightarrow> string \<Rightarrow> refusal option" where
  "skill_content_refusal fs sha av name dir =
     (if co_lstat fs (path_join [dir, meta_file_name]) \<noteq> RegularFile then Some NoManifest
      else case unhashed_doc fs dir of
        DocError \<Rightarrow> Some CannotCheck
      | FoundDoc rel \<Rightarrow> Some (Uncovered rel)
      | NoDoc \<Rightarrow>
          (case Option.bind (co_tree fs (skill_root fs dir)) (bundle_hash sha) of
             None \<Rightarrow> Some CannotHashSkill
           | Some h \<Rightarrow> (case loaded_approved av name h of
               (_, Some e) \<Rightarrow> Some (StoreFailed e)
             | (ok, None) \<Rightarrow> if ok then None else Some NotApprovedContent)))"

section \<open>The search\<close>

definition is_omac_skill_dir :: "content_fs \<Rightarrow> approvals \<Rightarrow> string \<Rightarrow> bool \<Rightarrow> bool" where
  "is_omac_skill_dir fs av dir nested \<longleftrightarrow>
     co_lstat fs (path_join [dir, meta_file_name]) \<noteq> Absent \<or>
     (fst (has_name av (path_base dir)) \<and> (\<not> nested \<or> co_lstat fs (path_join [dir, skill_doc_name]) \<noteq> Absent))"

definition max_skill_scan_dirs :: nat where "max_skill_scan_dirs = 50000"

datatype scan_reason = NotListed | TooManyFolders

record scan_state =
  sc_seen :: "string list"
  sc_descended :: "string list"
  sc_out :: "(string \<times> string \<times> source_kind) list"
  sc_unreadable :: "(string \<times> scan_reason) list"

definition children :: "string \<Rightarrow> bool \<Rightarrow> (string \<times> bool) list \<Rightarrow> (string \<times> string \<times> bool) list" where
  "children dir nested es = map (\<lambda>(n, _). (n, path_join [dir, n], nested)) es"

text \<open>The entries still to look at, and how many more folders may be listed; False when that ran out.\<close>

function scan_dirs ::
    "content_fs \<Rightarrow> approvals \<Rightarrow> source_kind \<Rightarrow> nat \<Rightarrow> (string \<times> string \<times> bool) list \<Rightarrow> scan_state \<Rightarrow> bool \<times> scan_state" where
  "scan_dirs fs av k budget [] s = (True, s)"
| "scan_dirs fs av k budget ((n, child, nested) # todo) s =
     (if child \<in> set (sc_seen s) \<or> \<not> sf_isdir (co_skills fs) child then scan_dirs fs av k budget todo s
      else if is_omac_skill_dir fs av child nested then
        scan_dirs fs av k budget todo (s\<lparr>sc_seen := child # sc_seen s, sc_out := sc_out s @ [(n, child, k)]\<rparr>)
      else case co_eval fs child of
        None \<Rightarrow> scan_dirs fs av k budget todo s
      | Some real \<Rightarrow>
          if real \<in> set (sc_descended s) then scan_dirs fs av k budget todo s
          else let s' = s\<lparr>sc_descended := real # sc_descended s\<rparr>
               in if budget = 0 then (False, s')
                  else (case sf_readdir (co_skills fs) child of
                    Listing es \<Rightarrow> scan_dirs fs av k (budget - 1) (children child True es @ todo) s'
                  | _ \<Rightarrow> scan_dirs fs av k (budget - 1) todo (s'\<lparr>sc_unreadable := sc_unreadable s' @ [(child, NotListed)]\<rparr>)))"
  by pat_completeness auto
termination by (relation "measures [\<lambda>(fs, av, k, b, t, s). b, \<lambda>(fs, av, k, b, t, s). length t]") auto

declare scan_dirs.simps [simp del]

definition scan_root :: "content_fs \<Rightarrow> approvals \<Rightarrow> nat \<Rightarrow> source \<Rightarrow> scan_state \<Rightarrow> scan_state" where
  "scan_root fs av limit src s =
     (if so_root src \<in> set (sc_seen s) then s
      else let s1 = s\<lparr>sc_seen := so_root src # sc_seen s,
                      sc_descended := (case co_eval fs (so_root src) of Some r \<Rightarrow> r # sc_descended s | None \<Rightarrow> sc_descended s)\<rparr>
           in case sf_readdir (co_skills fs) (so_root src) of
                NoDirectory \<Rightarrow> s1
              | ListError _ \<Rightarrow> s1\<lparr>sc_unreadable := sc_unreadable s1 @ [(so_root src, NotListed)]\<rparr>
              | Listing es \<Rightarrow>
                  (let (ok, s2) = scan_dirs fs av (so_kind src) (limit - 1) (children (so_root src) False es) s1
                   in if ok then s2 else s2\<lparr>sc_unreadable := sc_unreadable s2 @ [(so_root src, TooManyFolders)]\<rparr>))"

definition all_sources :: "content_fs \<Rightarrow> host_env \<Rightarrow> string list \<Rightarrow> source list" where
  "all_sources fs env workdirs = concat (map (\<lambda>wd. concat (map (sources (co_skills fs) env wd) (harness_registry env))) workdirs)"

definition no_scan :: scan_state where
  "no_scan = \<lparr>sc_seen = [], sc_descended = [], sc_out = [], sc_unreadable = []\<rparr>"

definition scan_sources :: "content_fs \<Rightarrow> approvals \<Rightarrow> nat \<Rightarrow> source list \<Rightarrow> scan_state" where
  "scan_sources fs av limit srcs = fold (scan_root fs av limit) srcs no_scan"

definition omac_skill_dirs ::
    "content_fs \<Rightarrow> host_env \<Rightarrow> approvals \<Rightarrow> string list \<Rightarrow> (string \<times> string \<times> source_kind) list \<times> (string \<times> scan_reason) list" where
  "omac_skill_dirs fs env av workdirs =
     (let s = scan_sources fs av max_skill_scan_dirs (all_sources fs env workdirs)
      in (sort_key (\<lambda>(_, d, _). d) (sc_out s), sc_unreadable s))"

section \<open>Masks\<close>

definition max_mask_hops :: nat where "max_mask_hops = 40"

text \<open>\<open>resolveBelow\<close> after its first split: the number of links followed, where it stands, what is left.\<close>

function below_loop :: "content_fs \<Rightarrow> string \<Rightarrow> nat \<Rightarrow> string \<Rightarrow> string list \<Rightarrow> string option" where
  "below_loop fs base hops cur [] = Some cur"
| "below_loop fs base hops cur (name # rest) =
     (if name = [] \<or> name = ''.'' then below_loop fs base hops cur rest
      else let next = path_join [cur, name]
           in if \<not> is_under_dir base next then Some (path_join (next # rest))
              else case co_lstat fs next of
                Absent \<Rightarrow> None
              | Refused \<Rightarrow> None
              | SymLink text \<Rightarrow>
                  if hops \<ge> max_mask_hops then None
                  else let target = (if is_abs text then text else path_join [cur, text])
                       in (case path_rel base target of
                             None \<Rightarrow> Some (path_join (target # rest))
                           | Some trel \<Rightarrow>
                               if \<not> is_under_dir base target then Some (path_join (target # rest))
                               else below_loop fs base (Suc hops) base (split_on slash trel @ rest))
              | _ \<Rightarrow> below_loop fs base hops next rest)"
  by pat_completeness auto
termination
  by (relation "measures [\<lambda>(fs, b, h, c, r). max_mask_hops - h, \<lambda>(fs, b, h, c, r). length r]") auto

declare below_loop.simps [simp del]

definition resolve_below :: "content_fs \<Rightarrow> string \<Rightarrow> string \<Rightarrow> string option" where
  "resolve_below fs base path =
     (case path_rel base path of None \<Rightarrow> None | Some rel \<Rightarrow> below_loop fs base 0 base (split_on slash rel))"

definition add_mask :: "content_fs \<Rightarrow> string \<Rightarrow> string list \<Rightarrow> string list" where
  "add_mask fs p out =
     (case co_lstat fs p of Absent \<Rightarrow> out | Refused \<Rightarrow> out | SymLink _ \<Rightarrow> out | _ \<Rightarrow> if p \<in> set out then out else out @ [p])"

definition mask_base :: "host_env \<Rightarrow> string list \<Rightarrow> string \<Rightarrow> string" where
  "mask_base env workdirs path =
     (case find (\<lambda>wd. is_under_dir wd path) workdirs of
        Some wd \<Rightarrow> wd
      | None \<Rightarrow> (case user_home_dir env of Some home \<Rightarrow> if is_under_dir home path then home else ''/'' | None \<Rightarrow> ''/''))"

definition mask_targets :: "content_fs \<Rightarrow> host_env \<Rightarrow> string list \<Rightarrow> string \<Rightarrow> string list" where
  "mask_targets fs env workdirs path =
     (let o1 = (case resolve_below fs (mask_base env workdirs path) path of Some p \<Rightarrow> add_mask fs p [] | None \<Rightarrow> []);
          o2 = (case co_eval fs path of Some p \<Rightarrow> add_mask fs p o1 | None \<Rightarrow> o1)
      in if o2 = [] then [path] else o2)"

text \<open>\<open>injectUntrustedSkillDenies\<close>: the masked paths, and the command line with them.\<close>

definition untrusted_targets :: "content_fs \<Rightarrow> host_env \<Rightarrow> (string \<Rightarrow> string) \<Rightarrow> approvals \<Rightarrow> string list \<Rightarrow> string list" where
  "untrusted_targets fs env sha av workdirs =
     (let (dirs, unreadable) = omac_skill_dirs fs env av workdirs
      in concat (map (\<lambda>(root, _). mask_targets fs env workdirs root) unreadable) @
         concat (map (\<lambda>(n, d, _). if skill_content_refusal fs sha av n d = None then [] else mask_targets fs env workdirs d) dirs))"

definition inject_untrusted_denies ::
    "content_fs \<Rightarrow> host_env \<Rightarrow> (string \<Rightarrow> string) \<Rightarrow> approvals \<Rightarrow> string list \<Rightarrow> sandbox_profile \<Rightarrow> string list \<Rightarrow> string list" where
  "inject_untrusted_denies fs env sha av workdirs p argv =
     inject_hidden argv (untrusted_targets fs env sha av workdirs) p"

section \<open>What a loader reads was approved\<close>

lemma skill_doc_chars: "is_skill_doc n \<Longrightarrow> length n = 8 \<and> lower_char (last n) = CHR ''d''"
proof -
  assume "is_skill_doc n"
  then have e: "map lower_char n = ''skill.md''" by (simp add: is_skill_doc_def skill_doc_name_def gostr)
  then have "length (map lower_char n) = 8" "n \<noteq> []" by auto
  moreover have "last (map lower_char n) = CHR ''d''" unfolding e by simp
  ultimately show ?thesis by (simp add: last_map)
qed

lemma skill_doc_hashed: "is_skill_doc n \<Longrightarrow> \<not> is_excluded_file_name n"
proof
  assume d: "is_skill_doc n" and x: "is_excluded_file_name n"
  note c = skill_doc_chars [OF d]
  have s: "has_suffix n (s @ [z]) \<Longrightarrow> last n = z" for s z
    unfolding has_suffix_def by (metis append_assoc append_take_drop_id last_snoc)
  consider "n \<in> set [''.DS_Store'', ''Thumbs.db'', ''.gitignore.swp'']"
    | z where "z \<in> set ''cop~''" "last n = z"
    using x s [of "''.py''" "CHR ''c''"] s [of "''.py''" "CHR ''o''"] s [of "''.sw''" "CHR ''p''"] s [of "[]" "CHR ''~''"]
    by (auto simp: is_excluded_file_name_def)
  then show False
  proof cases
    case 1
    then show False using c by auto
  next
    case 2
    have "\<forall>z \<in> set ''cop~''. lower_char z \<noteq> CHR ''d''" by code_simp
    then show False using 2 c by metis
  qed
qed

lemma items_are_files: "bundle_items pre t = Some items \<Longrightarrow> set items \<subseteq> set (all_files pre t)"
proof (induction pre t arbitrary: items rule: bundle_items.induct)
  case (2 pre n ds es)
  then show ?case by (auto simp: both_Some split: if_splits)
next
  case (3 pre n c m es)
  then show ?case by (auto simp: both_Some split: if_splits)
qed (auto split: if_splits)

lemma unhashed_excluded:
  "unhashed_in fs root pre t = NoDoc \<Longrightarrow> list_ex is_excluded_dir_name pre \<Longrightarrow> (p, c) \<in> set (all_files pre t) \<Longrightarrow> \<not> is_skill_doc (last p)"
  by (induction fs root pre t arbitrary: p c rule: unhashed_in.induct) (auto simp: Let_def split: if_splits doc_scan.splits)

lemma unhashed_covered:
  "unhashed_in fs root pre t = NoDoc \<Longrightarrow> bundle_items pre t = Some items \<Longrightarrow> (p, c) \<in> set (all_files pre t) \<Longrightarrow>
     is_skill_doc (last p) \<Longrightarrow> (p, c) \<in> set items"
proof (induction fs root pre t arbitrary: items rule: unhashed_in.induct)
  case (2 fs root pre n ds es)
  have d: "unhashed_in fs root (pre @ [n]) ds = NoDoc" "unhashed_in fs root pre es = NoDoc"
    using 2(3) by (auto split: doc_scan.splits)
  show ?case
  proof (cases "is_excluded_dir_name n")
    case True
    then have "(p, c) \<notin> set (all_files (pre @ [n]) ds)" using unhashed_excluded [OF d(1)] 2(6) by auto
    then show ?thesis using 2(2) [OF d] 2(4,5,6) True by auto
  next
    case False
    then show ?thesis using 2(1) [OF d(1)] 2(2) [OF d] 2(4,5,6) by (auto simp: both_Some)
  qed
next
  case (5 fs root pre n c' m es)
  then show ?case using skill_doc_hashed [of n] by (auto simp: both_Some split: if_splits)
qed (auto simp: Let_def both_Some split: if_splits)

lemma unhashed_links:
  "unhashed_in fs root pre t = NoDoc \<Longrightarrow> (p, l) \<in> set (all_links pre t) \<Longrightarrow>
     \<not> is_skill_doc (last p) \<and>
     (sf_isdir (co_skills fs) (path_join (root # p)) \<longrightarrow> (\<exists>q. co_eval fs (path_join (root # p)) = Some q \<and> is_under_dir root q))"
  by (induction fs root pre t arbitrary: p l rule: unhashed_in.induct)
    (auto simp: Let_def split: if_splits doc_scan.splits option.splits)

lemma no_refusal:
  assumes "skill_content_refusal fs sha (load_approvals tr) name dir = None"
  shows "\<exists>t items h. co_tree fs (skill_root fs dir) = Some t \<and> unhashed_in fs (skill_root fs dir) [] t = NoDoc \<and>
    bundle_items [] t = Some items \<and> bundle_hash sha t = Some h \<and> is_approved tr name h = Inr True"
  using assms
  by (auto simp: skill_content_refusal_def unhashed_doc_def loaded_approved_eq bundle_hash_def split: if_splits doc_scan.splits option.splits
      bind_splits prod.splits)

text \<open>
  C14: A skill that is shown says what the host reviewed.  Let the skill pass the check, and let every hash that
  the host approved for its name be that of a reviewed version.  Then one reviewed version holds every file of the skill that a
  loader could take for instructions, under the same path with the same contents, however deep it lies and in whatever
  letter case it is named; no such file is a link, and no link to a directory leads out of the skill.
\<close>

theorem skill_docs_approved:
  assumes "skill_content_refusal fs sha (load_approvals tr) name dir = None"
    and "\<And>h. is_approved tr name h = Inr True \<Longrightarrow> \<exists>v \<in> versions. bundle_hash sha v = Some h"
    and "\<forall>s. length (sha s) = 32" "\<forall>v \<in> versions. tree_ok v" "co_tree fs (skill_root fs dir) = Some t" "tree_ok t"
    and "\<And>v i j. v \<in> versions \<Longrightarrow> bundle_items [] t = Some i \<Longrightarrow> bundle_items [] v = Some j \<Longrightarrow> inj_on sha (sha_inputs sha i \<union> sha_inputs sha j)"
  shows "(\<exists>v \<in> versions. \<forall>(p, c) \<in> set (all_files [] t). is_skill_doc (last p) \<longrightarrow> (p, c) \<in> set (all_files [] v)) \<and>
    (\<forall>(p, l) \<in> set (all_links [] t). \<not> is_skill_doc (last p) \<and>
       (sf_isdir (co_skills fs) (path_join (skill_root fs dir # p)) \<longrightarrow>
          (\<exists>q. co_eval fs (path_join (skill_root fs dir # p)) = Some q \<and> is_under_dir (skill_root fs dir) q)))"
proof -
  obtain items h where n: "unhashed_in fs (skill_root fs dir) [] t = NoDoc" "bundle_items [] t = Some items" "bundle_hash sha t = Some h"
      "is_approved tr name h = Inr True"
    using no_refusal [OF assms(1)] assms(5) by auto
  obtain v where v: "v \<in> versions" "bundle_hash sha v = Some h" using assms(2) [OF n(4)] by blast
  then obtain j where j: "bundle_items [] v = Some j" by (auto simp: bundle_hash_def)
  have "set items = set j"
    by (rule same_hash_files [OF assms(3) n(2) j assms(6)]) (use assms(4,7) v n j in auto)
  then have "\<forall>(p, c) \<in> set (all_files [] t). is_skill_doc (last p) \<longrightarrow> (p, c) \<in> set (all_files [] v)"
    using unhashed_covered [OF n(1,2)] items_are_files [OF j] by auto
  then show ?thesis using v(1) unhashed_links [OF n(1)] by blast
qed

text \<open>A skill with its instructions and a second copy of them in a linked folder.\<close>

definition doc_tree :: tree where
  "doc_tree = [(''SKILL.md'', File ''x'' 420), (''l'', Link ''d''), (''omac.yaml'', File ''y'' 420)]"

definition doc_fs :: content_fs where
  "doc_fs =
     \<lparr>co_skills = \<lparr>sf_isdir = (\<lambda>p. p = ''/w/s''), sf_stat = (\<lambda>_. NotExist), sf_readdir = (\<lambda>_. NoDirectory)\<rparr>,
      co_lstat = (\<lambda>p. if p = ''/w/s/omac.yaml'' then RegularFile else Absent),
      co_eval = (\<lambda>p. if p = ''/w/s'' then Some p else None), co_tree = (\<lambda>p. if p = ''/w/s'' then Some doc_tree else None)\<rparr>"

definition doc_trust :: trust where
  "doc_trust =
     \<lparr>tr_dir = ''/t'',
      tr_store = Store [\<lparr>ap_name = ''s'', ap_hash = the (bundle_hash demo_sha doc_tree), ap_dir = ''/w/s'', ap_at = 0\<rparr>],
      tr_snaps = []\<rparr>"

theorem skill_docs_approved_witness:
  "skill_content_refusal doc_fs demo_sha (load_approvals doc_trust) ''s'' ''/w/s'' = None \<and> is_skill_doc ''SKILL.md'' \<and>
   (\<exists>v \<in> {doc_tree}. ([''SKILL.md''], ''x'') \<in> set (all_files [] v)) \<and> \<not> is_skill_doc ''l''"
proof -
  have i: "bundle_items [] doc_tree = Some [([''SKILL.md''], ''x''), ([''omac.yaml''], ''y'')]" by code_simp
  have h: "bundle_hash demo_sha doc_tree = Some h" if "is_approved doc_trust ''s'' h = Inr True" for h
    using that i by (simp add: is_approved_def load_store_def doc_trust_def approves_def bundle_hash_def)
  have m: "co_lstat doc_fs (path_join [''/w/s'', meta_file_name]) = RegularFile" by code_simp
  have u: "unhashed_doc doc_fs ''/w/s'' = NoDoc" by code_simp
  have k: "co_tree doc_fs (skill_root doc_fs ''/w/s'') = Some doc_tree" by code_simp
  have "is_approved doc_trust ''s'' (the (bundle_hash demo_sha doc_tree)) = Inr True"
    by (simp add: is_approved_def load_store_def doc_trust_def approves_def)
  then have r: "skill_content_refusal doc_fs demo_sha (load_approvals doc_trust) ''s'' ''/w/s'' = None"
    using i by (simp add: skill_content_refusal_def m u k bundle_hash_def loaded_approved_eq split: prod.splits option.splits)
  have l: "\<forall>s. length (demo_sha s) = 32" by (simp add: demo_sha_def del: replicate_numeral take_append)
  have t: "co_tree doc_fs (skill_root doc_fs ''/w/s'') = Some doc_tree" "tree_ok doc_tree" by code_simp+
  have "inj_on demo_sha (sha_inputs demo_sha [([''SKILL.md''], ''x''), ([''omac.yaml''], ''y'')])" by code_simp
  then have c: "(\<exists>v \<in> {doc_tree}. \<forall>(p, c) \<in> set (all_files [] doc_tree). is_skill_doc (last p) \<longrightarrow> (p, c) \<in> set (all_files [] v)) \<and>
      (\<forall>(p, l) \<in> set (all_links [] doc_tree). \<not> is_skill_doc (last p))"
    using skill_docs_approved [OF r, of "{doc_tree}", OF _ l _ t] h t(2) i by auto
  have "([''SKILL.md''], ''x'') \<in> set (all_files [] doc_tree)" "([''l''], ''d'') \<in> set (all_links [] doc_tree)" "is_skill_doc ''SKILL.md''"
    by code_simp+
  then show ?thesis using c r by fastforce
qed

section \<open>The search misses nothing\<close>

text \<open>
  A file system without races: what a directory shows does not depend on the path it is reached by, listings hold plain
  names, and a resolved path exists and is no link.
\<close>

definition coherent :: "content_fs \<Rightarrow> bool" where
  "coherent fs \<longleftrightarrow> (\<forall>p r. co_eval fs p = Some r \<longrightarrow>
     sf_readdir (co_skills fs) p = sf_readdir (co_skills fs) r \<and> co_lstat fs r \<in> {RegularFile, OtherKind} \<and> p \<noteq> [] \<and> r \<noteq> [] \<and>
     (\<forall>es. sf_readdir (co_skills fs) r = Listing es \<longrightarrow> (\<forall>n \<in> fst ` set es. plain n \<and>
        sf_isdir (co_skills fs) (path_join [p, n]) = sf_isdir (co_skills fs) (path_join [r, n]) \<and>
        co_eval fs (path_join [p, n]) = co_eval fs (path_join [r, n]) \<and>
        (\<forall>m. co_lstat fs (path_join [path_join [p, n], m]) = co_lstat fs (path_join [path_join [r, n], m])))))"

text \<open>A loader goes from a directory to the directories in it, through links.\<close>

definition enters :: "content_fs \<Rightarrow> string \<Rightarrow> string \<Rightarrow> bool" where
  "enters fs q c \<longleftrightarrow> (\<exists>es n. sf_readdir (co_skills fs) q = Listing es \<and> n \<in> fst ` set es \<and>
     sf_isdir (co_skills fs) (path_join [q, n]) \<and> co_eval fs (path_join [q, n]) = Some c)"

definition settled :: "content_fs \<Rightarrow> approvals \<Rightarrow> scan_state \<Rightarrow> string \<times> string \<times> bool \<Rightarrow> bool" where
  "settled fs av s = (\<lambda>(n, c, nested). c \<in> set (sc_seen s) \<or> \<not> sf_isdir (co_skills fs) c \<or>
     (\<not> is_omac_skill_dir fs av c nested \<and> (\<forall>r. co_eval fs c = Some r \<longrightarrow> r \<in> set (sc_descended s))))"

definition scanned :: "content_fs \<Rightarrow> approvals \<Rightarrow> scan_state \<Rightarrow> (string \<times> string \<times> bool) list \<Rightarrow> string \<Rightarrow> bool" where
  "scanned fs av s todo q \<longleftrightarrow> (\<exists>D nested. co_eval fs D = Some q \<and>
     (\<forall>es. sf_readdir (co_skills fs) D = Listing es \<longrightarrow> (\<forall>e \<in> set (children D nested es). settled fs av s e \<or> e \<in> set todo)))"

definition closed_scan :: "content_fs \<Rightarrow> approvals \<Rightarrow> scan_state \<Rightarrow> (string \<times> string \<times> bool) list \<Rightarrow> bool" where
  "closed_scan fs av s todo \<longleftrightarrow> (\<forall>q \<in> set (sc_descended s). scanned fs av s todo q)"

definition grows :: "scan_state \<Rightarrow> scan_state \<Rightarrow> bool" where
  "grows s s' \<longleftrightarrow> set (sc_seen s) \<subseteq> set (sc_seen s') \<and> set (sc_descended s) \<subseteq> set (sc_descended s') \<and>
     set (sc_out s) \<subseteq> set (sc_out s') \<and> set (sc_unreadable s) \<subseteq> set (sc_unreadable s')"

lemma grows_refl [simp]: "grows s s" by (simp add: grows_def)

lemma grows_trans: "grows s s' \<Longrightarrow> grows s' s'' \<Longrightarrow> grows s s''" by (auto simp: grows_def)

lemma settled_mono: "settled fs av s e \<Longrightarrow> grows s s' \<Longrightarrow> settled fs av s' e"
  by (auto simp: settled_def grows_def split: prod.splits)

lemma closed_step:
  assumes "closed_scan fs av s (e # todo)" "grows s s'" "settled fs av s' e" "set todo \<subseteq> set todo'"
    and "\<And>q. q \<in> set (sc_descended s') \<Longrightarrow> q \<notin> set (sc_descended s) \<Longrightarrow> scanned fs av s' todo' q"
  shows "closed_scan fs av s' todo'"
proof -
  have "scanned fs av s' todo' q" if "q \<in> set (sc_descended s)" for q
  proof -
    have "scanned fs av s (e # todo) q" using assms(1) that by (simp add: closed_scan_def)
    then obtain D nested where D: "co_eval fs D = Some q"
      "\<forall>es. sf_readdir (co_skills fs) D = Listing es \<longrightarrow> (\<forall>x \<in> set (children D nested es). settled fs av s x \<or> x \<in> set (e # todo))"
      unfolding scanned_def by (elim exE conjE) (rule that)
    have "settled fs av s' x \<or> x \<in> set todo'" if "settled fs av s x \<or> x \<in> set (e # todo)" for x
      using that settled_mono [OF _ assms(2), of fs av x] assms(3,4) by auto
    then show ?thesis using D unfolding scanned_def by blast
  qed
  then show ?thesis using assms(5) unfolding closed_scan_def by blast
qed

lemma scan_dirs_closed:
  "closed_scan fs av s todo \<Longrightarrow> fst (scan_dirs fs av k b todo s) \<Longrightarrow> closed_scan fs av (snd (scan_dirs fs av k b todo s)) []"
proof (induction fs av k b todo s rule: scan_dirs.induct)
  case (2 fs av k b n child nested todo s)
  note step = closed_step [OF 2(8)]
  show ?case
  proof (cases "child \<in> set (sc_seen s) \<or> \<not> sf_isdir (co_skills fs) child")
    case True
    have "closed_scan fs av s todo" by (rule step) (use True in \<open>auto simp: settled_def\<close>)
    then show ?thesis using 2(1) [OF True] 2(9) True by (simp add: scan_dirs.simps)
  next
    case a: False
    show ?thesis
    proof (cases "is_omac_skill_dir fs av child nested")
      case True
      let ?s = "s\<lparr>sc_seen := child # sc_seen s, sc_out := sc_out s @ [(n, child, k)]\<rparr>"
      have "closed_scan fs av ?s todo" by (rule step) (auto simp: settled_def grows_def)
      then show ?thesis using 2(2) [OF a True] 2(9) a True by (simp add: scan_dirs.simps)
    next
      case b: False
      show ?thesis
      proof (cases "co_eval fs child")
        case None
        have "closed_scan fs av s todo" by (rule step) (use a b None in \<open>auto simp: settled_def\<close>)
        then show ?thesis using 2(3) [OF a b None] 2(9) a b None by (simp add: scan_dirs.simps)
      next
        case (Some real)
        show ?thesis
        proof (cases "real \<in> set (sc_descended s)")
          case True
          have "closed_scan fs av s todo" by (rule step) (use a b Some True in \<open>auto simp: settled_def\<close>)
          then show ?thesis using 2(4) [OF a b Some True] 2(9) a b Some True by (simp add: scan_dirs.simps)
        next
          case c: False
          let ?s = "s\<lparr>sc_descended := real # sc_descended s\<rparr>"
          have g: "b \<noteq> 0" by (rule notI) (use 2(9) a b Some c in \<open>simp add: scan_dirs.simps\<close>)
          have st: "settled fs av s' (n, child, nested)" if "set (sc_descended s') = insert real (set (sc_descended s))" for s'
            using that a b Some by (auto simp: settled_def)
          show ?thesis
          proof (cases "sf_readdir (co_skills fs) child")
            case (Listing es)
            have "closed_scan fs av ?s (children child True es @ todo)"
              by (rule step) (use st [of ?s] Some Listing in \<open>auto simp: grows_def scanned_def intro!: exI [of _ child] exI [of _ True]\<close>)
            then show ?thesis using 2(5) [OF a b Some c refl g Listing] 2(9) a b Some c g Listing by (simp add: scan_dirs.simps Let_def)
          next
            case NoDirectory
            let ?u = "?s\<lparr>sc_unreadable := sc_unreadable ?s @ [(child, NotListed)]\<rparr>"
            have "closed_scan fs av ?u todo"
              by (rule step) (use st [of ?u] Some NoDirectory in \<open>auto simp: grows_def scanned_def intro!: exI [of _ child]\<close>)
            then show ?thesis using 2(6) [OF a b Some c refl g] 2(9) a b Some c g NoDirectory by (simp add: scan_dirs.simps Let_def)
          next
            case (ListError x)
            let ?u = "?s\<lparr>sc_unreadable := sc_unreadable ?s @ [(child, NotListed)]\<rparr>"
            have "closed_scan fs av ?u todo"
              by (rule step) (use st [of ?u] Some ListError in \<open>auto simp: grows_def scanned_def intro!: exI [of _ child]\<close>)
            then show ?thesis using 2(7) [OF a b Some c refl g] 2(9) a b Some c g ListError by (simp add: scan_dirs.simps Let_def)
          qed
        qed
      qed
    qed
  qed
qed (simp add: scan_dirs.simps)


lemma scan_dirs_grows_from: "grows s0 s \<Longrightarrow> grows s0 (snd (scan_dirs fs av k b todo s))"
proof (induction fs av k b todo s rule: scan_dirs.induct)
  case (2 fs av k b n child nested todo s)
  have m: "grows s0 (s\<lparr>sc_seen := child # sc_seen s, sc_out := sc_out s @ [(n, child, k)]\<rparr>)"
    "grows s0 (s\<lparr>sc_descended := real # sc_descended s\<rparr>)"
    "grows s0 (s\<lparr>sc_descended := real # sc_descended s, sc_unreadable := sc_unreadable s @ [(child, NotListed)]\<rparr>)" for real
    using 2(8) by (auto simp: grows_def)
  show ?case using 2 m by (subst scan_dirs.simps) (auto simp: Let_def split: option.split listing.split)
qed (simp add: scan_dirs.simps)

lemmas scan_dirs_grows = scan_dirs_grows_from [OF grows_refl]

text \<open>Every path that was seen is a listed skill or a root.\<close>

definition out_dirs :: "scan_state \<Rightarrow> string set" where "out_dirs s = (\<lambda>(n, d, k). d) ` set (sc_out s)"

definition seen_known :: "string set \<Rightarrow> scan_state \<Rightarrow> bool" where
  "seen_known roots s \<longleftrightarrow> set (sc_seen s) \<subseteq> out_dirs s \<union> roots"

lemma scan_dirs_seen: "seen_known roots s \<Longrightarrow> seen_known roots (snd (scan_dirs fs av k b todo s))"
proof (induction fs av k b todo s rule: scan_dirs.induct)
  case (2 fs av k b n child nested todo s)
  have m: "seen_known roots (s\<lparr>sc_seen := child # sc_seen s, sc_out := sc_out s @ [(n, child, k)]\<rparr>)"
    "seen_known roots (s\<lparr>sc_descended := real # sc_descended s\<rparr>)"
    "seen_known roots (s\<lparr>sc_descended := real # sc_descended s, sc_unreadable := sc_unreadable s @ [(child, NotListed)]\<rparr>)" for real
    using 2(8) by (auto simp: seen_known_def out_dirs_def)
  show ?case using 2 m by (subst scan_dirs.simps) (auto simp: Let_def split: option.split listing.split)
qed (simp add: scan_dirs.simps)

lemma closed_same: "closed_scan fs av s [] \<Longrightarrow> grows s s' \<Longrightarrow> set (sc_descended s') = set (sc_descended s) \<Longrightarrow> closed_scan fs av s' []"
  using settled_mono unfolding closed_scan_def scanned_def by (metis empty_iff empty_set)

text \<open>One root, and all of them.\<close>

definition root_done :: "content_fs \<Rightarrow> scan_state \<Rightarrow> string \<Rightarrow> bool" where
  "root_done fs s root \<longleftrightarrow> root \<in> out_dirs s \<or> (\<forall>r. co_eval fs root = Some r \<longrightarrow> r \<in> set (sc_descended s))"

lemma out_dirs_mono: "grows s s' \<Longrightarrow> out_dirs s \<subseteq> out_dirs s'"
  unfolding out_dirs_def by (rule image_mono) (simp add: grows_def)

lemma root_done_mono: "root_done fs s root \<Longrightarrow> grows s s' \<Longrightarrow> root_done fs s' root"
  using out_dirs_mono [of s s'] unfolding root_done_def grows_def by blast

lemma scan_root_step:
  assumes "closed_scan fs av s []" "seen_known roots s" "\<forall>root \<in> roots. root_done fs s root"
    and "(so_root src, TooManyFolders) \<notin> set (sc_unreadable (scan_root fs av limit src s))"
  shows "closed_scan fs av (scan_root fs av limit src s) [] \<and> seen_known (insert (so_root src) roots) (scan_root fs av limit src s) \<and>
    grows s (scan_root fs av limit src s) \<and> root_done fs (scan_root fs av limit src s) (so_root src)"
proof (cases "so_root src \<in> set (sc_seen s)")
  case True
  then have "so_root src \<in> out_dirs s \<union> roots" using assms(2) by (auto simp: seen_known_def)
  then have "root_done fs s (so_root src)" using assms(3) by (auto simp: root_done_def)
  then show ?thesis using True assms(1,2) by (auto simp: scan_root_def seen_known_def)
next
  case False
  define s1 where "s1 = s\<lparr>sc_seen := so_root src # sc_seen s,
    sc_descended := (case co_eval fs (so_root src) of Some r \<Rightarrow> r # sc_descended s | None \<Rightarrow> sc_descended s)\<rparr>"
  have g: "grows s s1" by (auto simp: grows_def s1_def split: option.split)
  have k: "seen_known (insert (so_root src) roots) s1" using assms(2) by (auto simp: seen_known_def s1_def out_dirs_def)
  have d: "root_done fs s1 (so_root src)" by (auto simp: root_done_def s1_def)
  have c: "closed_scan fs av s1 todo"
    if "\<forall>es. sf_readdir (co_skills fs) (so_root src) = Listing es \<longrightarrow> set (children (so_root src) False es) \<subseteq> set todo" for todo
  proof (rule closed_step [where e = "([], so_root src, False)"])
    show "closed_scan fs av s [([], so_root src, False)]" using assms(1) unfolding closed_scan_def scanned_def by fastforce
    show "settled fs av s1 ([], so_root src, False)" by (simp add: settled_def s1_def)
    show "scanned fs av s1 todo q" if q: "q \<in> set (sc_descended s1)" "q \<notin> set (sc_descended s)" for q
    proof -
      have "co_eval fs (so_root src) = Some q" using q by (auto simp: s1_def split: option.splits)
      then show ?thesis using \<open>\<forall>es. _ es\<close> unfolding scanned_def by blast
    qed
  qed (use g in auto)
  show ?thesis
  proof (cases "sf_readdir (co_skills fs) (so_root src)")
    case NoDirectory
    then have e: "scan_root fs av limit src s = s1" using False by (simp add: scan_root_def s1_def)
    show ?thesis unfolding e using c [of "[]"] g k d NoDirectory by simp
  next
    case (ListError x)
    let ?u = "s1\<lparr>sc_unreadable := sc_unreadable s1 @ [(so_root src, NotListed)]\<rparr>"
    have e: "scan_root fs av limit src s = ?u" using False ListError by (simp add: scan_root_def s1_def)
    have u: "grows s1 ?u" by (auto simp: grows_def)
    have "closed_scan fs av ?u []" by (rule closed_same [OF c u]) (simp_all add: ListError)
    then show ?thesis unfolding e using grows_trans [OF g u] k root_done_mono [OF d u] by (simp add: seen_known_def out_dirs_def)
  next
    case (Listing es)
    let ?r = "scan_dirs fs av (so_kind src) (limit - 1) (children (so_root src) False es) s1"
    have ok: "fst ?r"
      using assms(4) False Listing by (auto simp: scan_root_def s1_def [symmetric] split: prod.splits if_splits)
    then have e: "scan_root fs av limit src s = snd ?r"
      using False Listing by (auto simp: scan_root_def s1_def [symmetric] split: prod.splits)
    have "closed_scan fs av (snd ?r) []" by (rule scan_dirs_closed [OF c ok]) (simp add: Listing)
    then show ?thesis
      unfolding e using grows_trans [OF g scan_dirs_grows] scan_dirs_seen [OF k] root_done_mono [OF d scan_dirs_grows] by blast
  qed
qed


lemma scan_root_grows: "grows s (scan_root fs av limit src s)"
proof (cases "so_root src \<in> set (sc_seen s)")
  case False
  define s1 where "s1 = s\<lparr>sc_seen := so_root src # sc_seen s,
    sc_descended := (case co_eval fs (so_root src) of Some r \<Rightarrow> r # sc_descended s | None \<Rightarrow> sc_descended s)\<rparr>"
  have g: "grows s s1" by (auto simp: grows_def s1_def split: option.split)
  have u: "grows s' (s'\<lparr>sc_unreadable := sc_unreadable s' @ xs\<rparr>)" for s' xs by (simp add: grows_def)
  show ?thesis
    using False g grows_trans [OF g u] scan_dirs_grows_from [OF g] grows_trans [OF scan_dirs_grows_from [OF g] u]
    by (auto simp: scan_root_def s1_def [symmetric] split: listing.split prod.split) (metis snd_conv)+
qed (simp add: scan_root_def)

lemma scan_fold_grows: "grows s (fold (scan_root fs av limit) srcs s)"
  by (induction srcs arbitrary: s) (auto intro: grows_trans [OF scan_root_grows])

lemma scan_fold_inv:
  "closed_scan fs av s [] \<Longrightarrow> seen_known roots s \<Longrightarrow> \<forall>root \<in> roots. root_done fs s root \<Longrightarrow>
     \<forall>root. (root, TooManyFolders) \<notin> set (sc_unreadable (fold (scan_root fs av limit) srcs s)) \<Longrightarrow>
     closed_scan fs av (fold (scan_root fs av limit) srcs s) [] \<and>
     seen_known (so_root ` set srcs \<union> roots) (fold (scan_root fs av limit) srcs s) \<and>
     (\<forall>root \<in> so_root ` set srcs \<union> roots. root_done fs (fold (scan_root fs av limit) srcs s) root)"
proof (induction srcs arbitrary: s roots)
  case (Cons src srcs)
  let ?s = "scan_root fs av limit src s"
  have "(so_root src, TooManyFolders) \<notin> set (sc_unreadable ?s)"
    using Cons.prems(4) scan_fold_grows [of ?s fs av limit srcs] by (auto simp: grows_def)
  note st = scan_root_step [OF Cons.prems(1-3) this]
  then have r: "\<forall>root \<in> insert (so_root src) roots. root_done fs ?s root" using Cons.prems(3) root_done_mono by blast
  show ?case using Cons.IH [of ?s "insert (so_root src) roots"] st r Cons.prems(4) by simp
qed simp

lemma scan_sources_inv:
  assumes "\<forall>root. (root, TooManyFolders) \<notin> set (sc_unreadable (scan_sources fs av limit srcs))"
  shows "closed_scan fs av (scan_sources fs av limit srcs) []" "seen_known (so_root ` set srcs) (scan_sources fs av limit srcs)"
    "root \<in> so_root ` set srcs \<Longrightarrow> root_done fs (scan_sources fs av limit srcs) root"
proof -
  have "closed_scan fs av no_scan []" "seen_known {} no_scan" by (simp_all add: closed_scan_def seen_known_def no_scan_def)
  note inv = scan_fold_inv [OF this _ assms [unfolded scan_sources_def]]
  show "closed_scan fs av (scan_sources fs av limit srcs) []" "seen_known (so_root ` set srcs) (scan_sources fs av limit srcs)"
    "root \<in> so_root ` set srcs \<Longrightarrow> root_done fs (scan_sources fs av limit srcs) root"
    using inv unfolding scan_sources_def by auto
qed

text \<open>A directory reached by a loader was searched, or lies at or below a listed skill.\<close>

definition met :: "content_fs \<Rightarrow> scan_state \<Rightarrow> string \<Rightarrow> bool" where
  "met fs s c \<longleftrightarrow> (\<exists>d \<in> out_dirs s. \<exists>q. co_eval fs d = Some q \<and> (enters fs)\<^sup>*\<^sup>* q c)"

lemma join_snoc: "join_with ''/'' (ps @ [n]) = (if ps = [] then n else join_with ''/'' ps @ slash # n)"
  by (induction ps rule: induct_list012) simp_all

lemma base_plain: "plain n \<Longrightarrow> path_base n = n"
proof -
  assume n: "plain n"
  then obtain m c where m: "n = m @ [c]" "c \<noteq> slash" by (cases n rule: rev_cases) (auto simp: plain_def)
  have "takeWhile (\<lambda>c. c \<noteq> slash) (rev n) = rev n" using n by (auto simp: plain_def takeWhile_eq_all_conv)
  moreover have "trim_right (\<lambda>c. c = slash) n = n" using m by (simp add: trim_right_id)
  ultimately show ?thesis using m(1) by (simp add: path_base_def)
qed

lemma path_base_child: "p \<noteq> [] \<Longrightarrow> plain n \<Longrightarrow> path_base (path_join [p, n]) = n"
proof -
  assume p: "p \<noteq> []" and n: "plain n"
  have "path_join [p, n] = path_of (is_abs p) (clean_parts p @ [n])"
    using p n by (simp add: path_join_def clean_def clean_parts_child is_abs_append)
  moreover have "path_base (slash # n) = n" using base_of_child [OF n, of "[]"] by simp
  moreover have "path_base (slash # x @ slash # n) = n" for x using base_of_child [OF n, of "slash # x"] by simp
  ultimately show ?thesis using base_plain [OF n] base_of_child [OF n] by (simp add: path_of_def join_snoc)
qed

lemma child_settled:
  assumes "coherent fs" "closed_scan fs av s []" "q \<in> set (sc_descended s)" "sf_readdir (co_skills fs) q = Listing es" "n \<in> fst ` set es"
  shows "\<exists>D nested. co_eval fs D = Some q \<and> settled fs av s (n, path_join [D, n], nested)"
proof -
  obtain D nested where D: "co_eval fs D = Some q"
      "\<forall>es. sf_readdir (co_skills fs) D = Listing es \<longrightarrow> (\<forall>e \<in> set (children D nested es). settled fs av s e \<or> e \<in> set [])"
    using assms(2,3) unfolding closed_scan_def scanned_def by (elim ballE exE conjE) auto
  have "sf_readdir (co_skills fs) D = Listing es" using assms(1,4) D(1) unfolding coherent_def by metis
  moreover have "(n, path_join [D, n], nested) \<in> set (children D nested es)" using assms(5) by (force simp: children_def)
  ultimately show ?thesis using D by fastforce
qed


lemma omac_by_real:
  assumes "coherent fs" "co_eval fs D = Some q" "sf_readdir (co_skills fs) q = Listing es" "n \<in> fst ` set es"
    and "is_omac_skill_dir fs av (path_join [q, n]) True"
  shows "is_omac_skill_dir fs av (path_join [D, n]) nested"
proof -
  have c: "plain n" "D \<noteq> []" "q \<noteq> []" "\<forall>m. co_lstat fs (path_join [path_join [D, n], m]) = co_lstat fs (path_join [path_join [q, n], m])"
    using assms(1-4) unfolding coherent_def by blast+
  then show ?thesis using assms(5) path_base_child by (auto simp: is_omac_skill_dir_def)
qed

lemma entered_by_real:
  assumes "coherent fs" "co_eval fs D = Some q" "sf_readdir (co_skills fs) q = Listing es" "n \<in> fst ` set es"
  shows "co_eval fs (path_join [D, n]) = co_eval fs (path_join [q, n])" "sf_isdir (co_skills fs) (path_join [D, n]) = sf_isdir (co_skills fs) (path_join [q, n])"
  using assms unfolding coherent_def by blast+

lemma searched_or_met:
  assumes "coherent fs" "closed_scan fs av s []" "seen_known roots s" "\<forall>root \<in> roots. root_done fs s root"
    and "root \<in> roots" "co_eval fs root = Some r" "(enters fs)\<^sup>*\<^sup>* r q"
  shows "q \<in> set (sc_descended s) \<or> met fs s q"
  using assms(7)
proof induction
  case base
  then show ?case using assms(4-6) by (auto simp: root_done_def met_def)
next
  case (step q c)
  show ?case
  proof (cases "met fs s q")
    case True
    then show ?thesis using step(2) unfolding met_def by (meson rtranclp.rtrancl_into_rtrancl)
  next
    case False
    obtain es n where e: "sf_readdir (co_skills fs) q = Listing es" "n \<in> fst ` set es" "sf_isdir (co_skills fs) (path_join [q, n])"
        "co_eval fs (path_join [q, n]) = Some c" using step(2) unfolding enters_def by blast
    obtain D nested where D: "co_eval fs D = Some q" "settled fs av s (n, path_join [D, n], nested)"
      using child_settled [OF assms(1,2) _ e(1,2)] step.IH False by blast
    note by_real = entered_by_real [OF assms(1) D(1) e(1,2)]
    have "met fs s c" if "path_join [D, n] \<in> out_dirs s" using that by_real(1) e(4) unfolding met_def by auto
    moreover have "c \<in> set (sc_descended s) \<or> met fs s c" if "path_join [D, n] \<in> roots"
      using assms(4) that by_real(1) e(4) calculation by (auto simp: root_done_def)
    ultimately show ?thesis using D(2) by_real e(3,4) assms(3) by (auto simp: settled_def seen_known_def)
  qed
qed

text \<open>A listed skill is masked at its real path, unless it passes the check.\<close>

lemma add_mask_real: "co_lstat fs q \<in> {RegularFile, OtherKind} \<Longrightarrow> q \<in> set (add_mask fs q out)"
  by (auto simp: add_mask_def)

lemma mask_real: "co_eval fs path = Some q \<Longrightarrow> co_lstat fs q \<in> {RegularFile, OtherKind} \<Longrightarrow> q \<in> set (mask_targets fs env workdirs path)"
proof -
  assume a: "co_eval fs path = Some q" "co_lstat fs q \<in> {RegularFile, OtherKind}"
  have "q \<in> set (add_mask fs q out) \<and> add_mask fs q out \<noteq> []" for out using add_mask_real [OF a(2), of out] by (cases "add_mask fs q out") auto
  then show ?thesis by (simp add: mask_targets_def Let_def a(1))
qed

lemma listed_out: "d \<in> out_dirs (scan_sources fs av max_skill_scan_dirs (all_sources fs env workdirs)) \<Longrightarrow>
    \<exists>name k. (name, d, k) \<in> set (fst (omac_skill_dirs fs env av workdirs))"
  by (auto simp: out_dirs_def omac_skill_dirs_def Let_def)

lemma target_of_refused:
  assumes "(name, d, k) \<in> set (fst (omac_skill_dirs fs env av workdirs))" "skill_content_refusal fs sha av name d \<noteq> None"
    and "q \<in> set (mask_targets fs env workdirs d)"
  shows "q \<in> set (untrusted_targets fs env sha av workdirs)"
proof -
  obtain dirs un where e: "omac_skill_dirs fs env av workdirs = (dirs, un)" by fastforce
  have "q \<in> set (concat (map (\<lambda>(n, d, _). if skill_content_refusal fs sha av n d = None then [] else mask_targets fs env workdirs d) dirs))"
    unfolding set_concat set_map by (rule UN_I [OF imageI, of "(name, d, k)"]) (use assms e in auto)
  then show ?thesis by (simp add: untrusted_targets_def e)
qed

lemma listed_masked:
  assumes "coherent fs" "d \<in> out_dirs (scan_sources fs av max_skill_scan_dirs (all_sources fs env workdirs))" "co_eval fs d = Some q"
  shows "\<exists>name k. (name, d, k) \<in> set (fst (omac_skill_dirs fs env av workdirs)) \<and>
    (skill_content_refusal fs sha av name d = None \<or> q \<in> set (untrusted_targets fs env sha av workdirs))"
proof -
  have "co_lstat fs q \<in> {RegularFile, OtherKind}" using assms(1,3) unfolding coherent_def by blast
  then have "q \<in> set (mask_targets fs env workdirs d)" by (rule mask_real [OF assms(3)])
  then show ?thesis using listed_out [OF assms(2)] target_of_refused by metis
qed



text \<open>A workdir with one skill that nobody approved.\<close>

definition one_fs :: content_fs where
  "one_fs =
     \<lparr>co_skills = \<lparr>sf_isdir = (\<lambda>p. p \<in> {''/w/.agents/skills'', ''/w/.agents/skills/x''}), sf_stat = (\<lambda>_. NotExist),
        sf_readdir = (\<lambda>p. if p = ''/w/.agents/skills'' then Listing [(''x'', True)] else NoDirectory)\<rparr>,
      co_lstat = (\<lambda>p. if p = ''/w/.agents/skills/x/omac.yaml'' then RegularFile
        else if p \<in> {''/w/.agents/skills'', ''/w/.agents/skills/x''} then OtherKind else Absent),
      co_eval = (\<lambda>p. if p \<in> {''/w/.agents/skills'', ''/w/.agents/skills/x''} then Some p else None), co_tree = (\<lambda>_. Some [])\<rparr>"

definition no_approvals :: approvals where "no_approvals = \<lparr>av_names = {}, av_pairs = {}, av_err = None\<rparr>"

lemma one_coherent: "coherent one_fs"
  unfolding coherent_def by (auto simp: one_fs_def plain_def)

lemma one_sources:
  "all_sources one_fs (harness_env ''NONE'' []) [''/w''] = map (\<lambda>b. \<lparr>so_root = ''/w/.'' @ b @ ''/skills'', so_kind = Workdir\<rparr>)
     [''opencode'', ''agents'', ''claude'', ''agents'', ''codex'', ''agents'', ''copilot'', ''agents'', ''pi'', ''agents'', ''agents'']"
  by code_simp

lemma one_child: "path_join [''/w/.agents/skills'', ''x''] = ''/w/.agents/skills/x''"
  "is_omac_skill_dir one_fs no_approvals ''/w/.agents/skills/x'' nested"
  by (code_simp, simp add: is_omac_skill_dir_def one_fs_def meta_file_name_def gostr)

lemma one_scan: "sc_out (scan_sources one_fs no_approvals limit (all_sources one_fs (harness_env ''NONE'' []) [''/w''])) =
    [(''x'', ''/w/.agents/skills/x'', Workdir)]"
  "sc_unreadable (scan_sources one_fs no_approvals limit (all_sources one_fs (harness_env ''NONE'' []) [''/w''])) = []"
proof -
  have r: "sf_readdir (co_skills one_fs) p = (if p = ''/w/.agents/skills'' then Listing [(''x'', True)] else NoDirectory)"
    "co_eval one_fs p = (if p \<in> {''/w/.agents/skills'', ''/w/.agents/skills/x''} then Some p else None)"
    "sf_isdir (co_skills one_fs) p = (p \<in> {''/w/.agents/skills'', ''/w/.agents/skills/x''})" for p by (simp_all add: one_fs_def)
  show "sc_out (scan_sources one_fs no_approvals limit (all_sources one_fs (harness_env ''NONE'' []) [''/w''])) =
      [(''x'', ''/w/.agents/skills/x'', Workdir)]"
    "sc_unreadable (scan_sources one_fs no_approvals limit (all_sources one_fs (harness_env ''NONE'' []) [''/w''])) = []"
    unfolding one_sources scan_sources_def by (simp_all add: no_scan_def scan_root_def r scan_dirs.simps children_def one_child)
qed

lemma one_dirs: "omac_skill_dirs one_fs (harness_env ''NONE'' []) no_approvals [''/w''] = ([(''x'', ''/w/.agents/skills/x'', Workdir)], [])"
  by (simp add: omac_skill_dirs_def Let_def one_scan)


text \<open>
  A root that is too large is masked, but what it was found to hold is not searched again: a folder linked from it
  and from a second root is skipped there, with the skill in it.  (The limit is 2 here.)
\<close>

definition loop_fs :: content_fs where
  "loop_fs =
     \<lparr>co_skills = \<lparr>sf_isdir = (\<lambda>_. True), sf_stat = (\<lambda>_. NotExist),
        sf_readdir = (\<lambda>p. if p = ''/w/a'' then Listing [(''x'', False)] else if p = ''/w/b'' then Listing [(''y'', False)]
          else if p \<in> {''/e'', ''/w/a/x'', ''/w/b/y''} then Listing [(''f'', True), (''s'', True)] else Listing [])\<rparr>,
      co_lstat = (\<lambda>p. if p \<in> {''/e/s/omac.yaml'', ''/w/a/x/s/omac.yaml'', ''/w/b/y/s/omac.yaml''} then RegularFile else Absent),
      co_eval = (\<lambda>p. if p \<in> {''/w/a/x'', ''/w/b/y''} then Some ''/e'' else Some p), co_tree = (\<lambda>_. Some [])\<rparr>"

lemma too_many_folders_hide_little:
  "let s = scan_sources loop_fs no_approvals 2 [\<lparr>so_root = ''/w/a'', so_kind = Workdir\<rparr>, \<lparr>so_root = ''/w/b'', so_kind = Workdir\<rparr>]
   in sc_out s = [] \<and> sc_unreadable s = [(''/w/a'', TooManyFolders)] \<and> is_omac_skill_dir loop_fs no_approvals ''/w/b/y/s'' True \<and>
      mask_targets loop_fs (harness_env ''NONE'' []) [''/w''] ''/w/a'' = [''/w/a'']"
  by code_simp

end
