(* ===== verification/Watch.thy ===== *)
theory Watch
  imports Facade Flags "HOL-Library.Finite_Map"
begin

text \<open>
  The watch for protected files that appear during a session: the cache that lets a pass skip unchanged directories
  (\<open>internal/sandboxrun/denyscan_cache.go\<close>, and its use in \<open>walkOneDenyRoot\<close>), the ticks and their alerts
  (\<open>midsession.go\<close>), and what the parent does about them (\<open>internal/cli/protected_watch.go\<close>).  A pass meets one state
  of the file system; one worker reads the folders, since their order does not matter (\<open>DenyScan\<close>).
\<close>

section \<open>The cache of one root\<close>

record fingerprint =
  fp_mtime_sec :: int
  fp_mtime_nsec :: int
  fp_ctime_sec :: int
  fp_ctime_nsec :: int
  fp_ino :: int
  fp_dev :: int

definition fp_equal :: "fingerprint \<Rightarrow> fingerprint \<Rightarrow> bool" where
  "fp_equal f g \<longleftrightarrow>
     fp_mtime_sec f = fp_mtime_sec g \<and> fp_mtime_nsec f = fp_mtime_nsec g \<and>
     fp_ctime_sec f = fp_ctime_sec g \<and> fp_ctime_nsec f = fp_ctime_nsec g \<and> fp_ino f = fp_ino g \<and> fp_dev f = fp_dev g"

lemma fp_equal_iff [simp]: "fp_equal f g \<longleftrightarrow> f = g"
  by (auto simp: fp_equal_def intro: fingerprint.equality)

text \<open>Times in nanoseconds.\<close>

definition dir_timestamp_window :: int where "dir_timestamp_window = 2 * 1000000000"

record dir_state =
  dt_is_dir :: bool
  dt_fp :: fingerprint
  dt_count :: nat
  dt_subdirs :: "string list"
  dt_recheck :: bool

type_synonym cache = "(string, dir_state) fmap"

definition unchanged :: "cache \<Rightarrow> string \<Rightarrow> fingerprint \<Rightarrow> bool \<Rightarrow> dir_state option" where
  "unchanged c dir fp is_dir =
     (case fmlookup c dir of
        None \<Rightarrow> None
      | Some e \<Rightarrow>
          if dt_is_dir e \<noteq> is_dir then None
          else if dt_recheck e then None
          else if \<not> is_dir \<or> fp_equal (dt_fp e) fp then Some e
          else None)"

text \<open>\<open>forgetLocked\<close> of several directories, with everything cached below them.\<close>

function forget_all :: "string list \<Rightarrow> cache \<Rightarrow> cache" where
  "forget_all [] c = c"
| "forget_all (d # ds) c =
     (case fmlookup c d of None \<Rightarrow> forget_all ds c | Some e \<Rightarrow> forget_all (dt_subdirs e @ ds) (fmdrop d c))"
  by pat_completeness auto
termination
proof (relation "measures [\<lambda>(ds, c). fcard (fmdom c), \<lambda>(ds, c). length ds]")
  fix d ds and c :: cache and e assume "fmlookup c d = Some e"
  then have "d |\<in>| fmdom c" by (simp add: fmdomI)
  then have "fcard (fmdom c |-| {|d|}) < fcard (fmdom c)" by (rule fcard_fminus1_less)
  then show "((dt_subdirs e @ ds, fmdrop d c), d # ds, c) \<in> measures [\<lambda>(ds, c). fcard (fmdom c), \<lambda>(ds, c). length ds]" by simp
qed auto

definition within_window :: "int \<Rightarrow> int \<Rightarrow> int \<Rightarrow> bool" where
  "within_window now sec nsec \<longleftrightarrow> (let age = now - (sec * 1000000000 + nsec) in 0 \<le> age \<and> age \<le> dir_timestamp_window)"

definition recheck_at :: "int \<Rightarrow> fingerprint \<Rightarrow> bool" where
  "recheck_at now fp \<longleftrightarrow> within_window now (fp_mtime_sec fp) (fp_mtime_nsec fp) \<or> within_window now (fp_ctime_sec fp) (fp_ctime_nsec fp)"

definition record_dir :: "int \<Rightarrow> string \<Rightarrow> fingerprint \<Rightarrow> bool \<Rightarrow> nat \<Rightarrow> string list \<Rightarrow> cache \<Rightarrow> cache" where
  "record_dir now dir fp is_dir cnt subdirs c =
     (let c1 = (case fmlookup c dir of
                  None \<Rightarrow> c
                | Some old \<Rightarrow> forget_all (filter (\<lambda>s. s \<notin> set subdirs) (dt_subdirs old)) c)
      in fmupd dir \<lparr>dt_is_dir = is_dir, dt_fp = fp, dt_count = cnt, dt_subdirs = subdirs,
                    dt_recheck = (is_dir \<and> recheck_at now fp)\<rparr> c1)"

section \<open>An incremental pass over one root\<close>

text \<open>What a pass is told besides the entries of a folder: \<open>Lstat\<close>, how a listing ended, and the time.\<close>

datatype read_outcome = ReadOk | ReadNotDir | ReadFailed

record stats =
  st_lstat :: "string \<Rightarrow> (fingerprint \<times> bool) option"
  st_read :: "string \<Rightarrow> read_outcome"
  st_now :: int

definition read_fresh ::
    "stats \<Rightarrow> scan \<Rightarrow> (fingerprint \<times> bool) option \<Rightarrow> cache \<Rightarrow> string \<Rightarrow> nat \<Rightarrow> (nat \<times> string list \<times> string list \<times> bool) \<times> cache" where
  "read_fresh st sc fpo c dir cnt =
     (let (n, subdirs, found, full) = read_folder sc dir (sc_entries sc dir) cnt [] []
      in ((n, subdirs, found, full),
          if full then c
          else case fpo of
            None \<Rightarrow> c
          | Some (fp, is_dir) \<Rightarrow>
              if is_dir \<and> st_read st dir = ReadOk then record_dir (st_now st) dir fp True (length (sc_entries sc dir)) subdirs c
              else if \<not> is_dir \<and> dir = sc_resolved sc \<and> st_read st dir = ReadNotDir then record_dir (st_now st) dir fp False 0 [] c
              else c))"

definition read_cached :: "stats \<Rightarrow> scan \<Rightarrow> cache \<Rightarrow> string \<Rightarrow> nat \<Rightarrow> (nat \<times> string list \<times> string list \<times> bool) \<times> cache" where
  "read_cached st sc c dir cnt =
     (case st_lstat st dir of
        None \<Rightarrow> read_fresh st sc None (forget_all [dir] c) dir cnt
      | Some (fp, is_dir) \<Rightarrow>
          (case unchanged c dir fp is_dir of
             None \<Rightarrow> read_fresh st sc (Some (fp, is_dir)) c dir cnt
           | Some e \<Rightarrow>
               if \<not> dt_is_dir e then ((cnt, [], [], False), c)
               else if cnt + dt_count e > sc_limit sc then ((cnt + dt_count e, [], [], True), c)
               else ((cnt + dt_count e, dt_subdirs e, [], False), c)))"

fun walk_cached :: "nat \<Rightarrow> stats \<Rightarrow> scan \<Rightarrow> cache \<Rightarrow> string list \<Rightarrow> nat \<Rightarrow> string list \<Rightarrow> ((string list \<times> bool) \<times> cache) option" where
  "walk_cached 0 st sc c stack cnt found = None"
| "walk_cached (Suc fuel) st sc c stack cnt found =
     (if stack = [] then Some ((found, False), c)
      else let ((n, subdirs, new, full), c1) = read_cached st sc c (last stack) cnt
           in if full then Some ((found @ new, True), c1)
              else walk_cached fuel st sc c1 (butlast stack @ subdirs) n (found @ new))"

definition root_cached :: "stats \<Rightarrow> scan \<Rightarrow> cache \<Rightarrow> (string list \<times> bool) \<times> cache" where
  "root_cached st sc c =
     (case walk_cached (sc_limit sc + 2) st sc c [sc_resolved sc] 1 [] of Some r \<Rightarrow> r | None \<Rightarrow> (([], True), c))"

section \<open>The watch\<close>

type_synonym world = "fs_env \<times> stats"

text \<open>\<open>resolveDenyPaths\<close> with caches, one per root.\<close>

definition walk_globs_cached ::
    "world \<Rightarrow> nat \<Rightarrow> string list \<Rightarrow> string list \<Rightarrow> string list \<Rightarrow> (string \<Rightarrow> cache) \<Rightarrow> (string list \<times> string list) \<times> (string \<Rightarrow> cache)" where
  "walk_globs_cached w limit roots globs protected_dirs caches =
     (if globs = [] \<or> roots = [] then (([], []), caches)
      else let result = (\<lambda>root. root_cached (snd w) (scan_of (fst w) limit globs (walk_protected (fst w) protected_dirs) root) (caches root))
           in ((dedup_first (concat (map (\<lambda>r. fst (fst (result r))) roots)), filter (\<lambda>r. snd (fst (result r))) roots),
               (\<lambda>r. if r \<in> set roots then snd (result r) else caches r)))"

record watch_setup =
  ws_env :: host_env
  ws_darwin :: bool
  ws_limit :: nat
  ws_deny :: "string list"
  ws_names :: "string list"
  ws_override :: "string list"
  ws_protected :: "string list"

definition resolve_cached ::
    "watch_setup \<Rightarrow> world \<Rightarrow> string list \<Rightarrow> (string \<Rightarrow> cache) \<Rightarrow> (resolve_error + string list \<times> name_deny) \<times> (string \<Rightarrow> cache)" where
  "resolve_cached ws w roots caches =
     (if ws_deny ws = [] \<and> ws_names ws = [] then (Inr ([], \<lparr>nd_roots = [], nd_globs = []\<rparr>), caches)
      else
        let explicit = path_form_denies (ws_env ws) (ws_deny ws);
            overrides = override_lookup (ws_env ws) (ws_override ws);
            globs = filter is_basename_glob (ws_deny ws) @ filter (\<lambda>b. b \<notin> overrides) (ws_names ws)
        in if globs = [] then (Inr (explicit, \<lparr>nd_roots = [], nd_globs = []\<rparr>), caches)
           else let ((matches, incomplete), caches') = walk_globs_cached w (ws_limit ws) roots globs (ws_protected ws) caches
                in (case find (\<lambda>r. \<not> can_deny_by_name (ws_env ws) (fst w) (ws_darwin ws) r globs (ws_override ws)) incomplete of
                      Some root \<Rightarrow> Inl (IncompleteScan root)
                    | None \<Rightarrow>
                        Inr (explicit @ filter (\<lambda>m. m \<notin> overrides) matches,
                             if incomplete \<noteq> [] then \<lparr>nd_roots = incomplete, nd_globs = globs\<rparr> else \<lparr>nd_roots = [], nd_globs = []\<rparr>),
                    caches'))"

record watch_tuning =
  tu_full_pass_ticks :: int
  tu_concurrency :: int

definition resolved_tuning :: "watch_tuning \<Rightarrow> watch_tuning" where
  "resolved_tuning t = (if tu_full_pass_ticks t < 0 then t\<lparr>tu_full_pass_ticks := 0\<rparr> else t)"

definition full_pass_due :: "watch_tuning \<Rightarrow> nat \<Rightarrow> bool" where
  "full_pass_due t ticks \<longleftrightarrow> ticks > 0 \<and> tu_full_pass_ticks t > 0 \<and> int ticks mod tu_full_pass_ticks t = 0"

record watcher =
  wa_roots :: "string list"
  wa_known :: "string list"
  wa_alerts :: "string list"
  wa_caches :: "string \<Rightarrow> cache"
  wa_ticks :: nat

datatype watch_error = WatchResolve resolve_error | WatchGrew string

definition watch_init :: "watch_setup \<Rightarrow> string list \<Rightarrow> world \<Rightarrow> watch_error + watcher" where
  "watch_init ws roots w =
     (case resolve_cached ws w roots (\<lambda>_. fmempty) of
        (Inl e, _) \<Rightarrow> Inl (WatchResolve e)
      | (Inr (initial, by_name), caches) \<Rightarrow>
          Inr \<lparr>wa_roots = filter (\<lambda>r. r \<notin> set (nd_roots by_name)) roots, wa_known = initial, wa_alerts = [], wa_caches = caches, wa_ticks = 0\<rparr>)"

definition alert :: "string \<Rightarrow> watcher \<Rightarrow> watcher" where
  "alert m wa = (if m \<in> set (wa_known wa) then wa else wa\<lparr>wa_known := m # wa_known wa, wa_alerts := wa_alerts wa @ [m]\<rparr>)"

definition watch_tick :: "watch_setup \<Rightarrow> watch_tuning \<Rightarrow> world \<Rightarrow> watcher \<Rightarrow> watch_error + watcher" where
  "watch_tick ws t w wa =
     (let ticks = wa_ticks wa + 1;
          (r, caches) =
            (if full_pass_due (resolved_tuning t) ticks then
               (resolve_deny_paths (ws_env ws) (fst w) (ws_darwin ws) (ws_limit ws) (ws_deny ws) (ws_names ws) (ws_override ws) (wa_roots wa) (ws_protected ws),
                wa_caches wa)
             else resolve_cached ws w (wa_roots wa) (wa_caches wa))
      in case r of
           Inl e \<Rightarrow> Inl (WatchResolve e)
         | Inr (current, by_name) \<Rightarrow>
             if nd_roots by_name \<noteq> [] then Inl (WatchGrew (hd (nd_roots by_name)))
             else Inr (fold alert current (wa\<lparr>wa_caches := caches, wa_ticks := ticks\<rparr>)))"

fun watch_run :: "watch_setup \<Rightarrow> watch_tuning \<Rightarrow> world list \<Rightarrow> watcher \<Rightarrow> watch_error + watcher" where
  "watch_run ws t [] wa = Inr wa"
| "watch_run ws t (w # worlds) wa = (case watch_tick ws t w wa of Inl e \<Rightarrow> Inl e | Inr wa' \<Rightarrow> watch_run ws t worlds wa')"

text \<open>\<open>WatchNewProtected\<close> over the file systems it meets, for a profile and a working directory.\<close>

definition watch_setup_for :: "host_env \<Rightarrow> bool \<Rightarrow> nat \<Rightarrow> profile \<Rightarrow> watch_setup" where
  "watch_setup_for env darwin limit p =
     \<lparr>ws_env = env, ws_darwin = darwin, ws_limit = limit, ws_deny = pf_deny (pr_fs p),
      ws_names = bl_workdir_protected (platform_baseline darwin), ws_override = pf_override_deny (pr_fs p),
      ws_protected = effective_protected_paths env (platform_baseline darwin) (pf_override_deny (pr_fs p)) @ literal_denies p\<rparr>"

datatype watch_stop = NoRoots grant_error | Stopped watch_error

definition watch_new_protected ::
    "host_env \<Rightarrow> bool \<Rightarrow> nat \<Rightarrow> profile \<Rightarrow> string \<Rightarrow> watch_tuning \<Rightarrow> world \<Rightarrow> world list \<Rightarrow> watch_stop + watcher" where
  "watch_new_protected env darwin limit p workdir t w worlds =
     (case deny_scan_roots env (fst w) p workdir of
        Inl e \<Rightarrow> Inl (NoRoots e)
      | Inr roots \<Rightarrow>
          (case watch_init (watch_setup_for env darwin limit p) roots w of
             Inl e \<Rightarrow> Inl (Stopped e)
           | Inr wa \<Rightarrow> (case watch_run (watch_setup_for env darwin limit p) t worlds wa of Inl e \<Rightarrow> Inl (Stopped e) | Inr wa' \<Rightarrow> Inr wa')))"

section \<open>What the parent does about it\<close>

text \<open>
  \<open>startProtectedWatch\<close>: the profile that is watched is the one the sandboxed child merges from the same command line;
  no watch for an opaque launcher.
\<close>

definition watched_profile :: "bool \<Rightarrow> profile option \<Rightarrow> string list \<Rightarrow> profile option" where
  "watched_profile native policy argv =
     (case (policy, argv) of
        (Some pol, _ # b # c # args) \<Rightarrow>
          if \<not> native \<or> b \<noteq> ''sandbox'' \<or> c \<noteq> ''run'' then None
          else (case parse_flags args of Inl _ \<Rightarrow> None | Inr f \<Rightarrow> Some (fst (merge_flags pol f)))
      | _ \<Rightarrow> None)"

record watch_parent =
  pa_notices :: "string list"
  pa_checker :: "protected_set option"
  pa_shown :: "string list"
  pa_audit :: "(string \<times> string \<times> string) list"
  pa_auditing :: bool

definition watch_notice :: "string \<Rightarrow> string" where
  "watch_notice path =
     ''security notice: '' @ path @ '' matches a sandbox-protected pattern but was created after this session started; the agent could read it until this session ended''"

definition watch_message :: "string \<Rightarrow> string" where
  "watch_message path = path @ '' matches a sandbox-protected pattern and is readable by the agent until the session is restarted''"

definition on_new :: "string \<Rightarrow> watch_parent \<Rightarrow> watch_parent" where
  "on_new path pa =
     pa\<lparr>pa_notices := pa_notices pa @ [watch_notice path],
        pa_checker := protected_add path rule_mid_session (pa_checker pa),
        pa_shown := pa_shown pa @ [watch_message path],
        pa_audit := (if pa_auditing pa then pa_audit pa @ [(''protected-file-watch'', path, ''created mid-session; readable until restart'')]
                     else pa_audit pa)\<rparr>"

text \<open>Every alert is shown, noted, audited, and answered by the facade from then on.\<close>

lemma alerts_handled:
  assumes "pa_checker pa = Some (new_protected_set env darwin p)" "pa_notices pa = []" "pa_audit pa = []"
  shows "pa_notices (fold on_new paths pa) = map watch_notice paths \<and>
    pa_shown (fold on_new paths pa) = pa_shown pa @ map watch_message paths \<and>
    pa_checker (fold on_new paths pa) = watched_set env darwin p paths \<and>
    (pa_auditing pa \<longrightarrow> map (\<lambda>(_, path, _). path) (pa_audit (fold on_new paths pa)) = paths)"
proof -
  have "pa_notices (fold on_new paths q) = pa_notices q @ map watch_notice paths \<and>
      pa_shown (fold on_new paths q) = pa_shown q @ map watch_message paths \<and>
      pa_checker (fold on_new paths q) = fold (\<lambda>path. protected_add path rule_mid_session) paths (pa_checker q) \<and>
      (pa_auditing q \<longrightarrow> map (\<lambda>(_, path, _). path) (pa_audit (fold on_new paths q)) = map (\<lambda>(_, path, _). path) (pa_audit q) @ paths)" for q
    by (induction paths arbitrary: q) (auto simp: on_new_def)
  from this [of pa] show ?thesis using assms by (simp add: watched_set_def)
qed

section \<open>The cache says what was read\<close>

text \<open>
  The history of passes: for each the entries and the stats.  What is cached of a directory was read in one of
  them, and its matches are among the known ones.
\<close>

type_synonym history = "((string \<Rightarrow> (string \<times> bool) list) \<times> stats) set"

definition cached_ok :: "history \<Rightarrow> string set \<Rightarrow> scan \<Rightarrow> string \<Rightarrow> dir_state \<Rightarrow> bool" where
  "cached_ok H K sc d e \<longleftrightarrow> length (dt_subdirs e) \<le> dt_count e \<and>
     (dt_is_dir e \<longrightarrow> (\<exists>(E, st) \<in> H. st_lstat st d = Some (dt_fp e, True) \<and> dt_recheck e = recheck_at (st_now st) (dt_fp e) \<and>
        dt_subdirs e = concat (map (entry_subdirs sc d) (E d)) \<and> (\<forall>x \<in> set (E d). set (entry_found sc d x) \<subseteq> K)))"

definition cache_ok :: "history \<Rightarrow> string set \<Rightarrow> scan \<Rightarrow> cache \<Rightarrow> bool" where
  "cache_ok H K sc c \<longleftrightarrow> (\<forall>d e. fmlookup c d = Some e \<longrightarrow> cached_ok H K sc d e)"

lemma cached_ok_mono: "cached_ok H K sc d e \<Longrightarrow> H \<subseteq> H' \<Longrightarrow> K \<subseteq> K' \<Longrightarrow> cached_ok H' K' sc d e"
  unfolding cached_ok_def by fastforce

lemma cache_ok_mono: "cache_ok H K sc c \<Longrightarrow> H \<subseteq> H' \<Longrightarrow> K \<subseteq> K' \<Longrightarrow> cache_ok H' K' sc c"
  unfolding cache_ok_def using cached_ok_mono by blast

lemma forget_all_lookup: "fmlookup (forget_all ds c) d = Some e \<Longrightarrow> fmlookup c d = Some e"
  by (induction ds c rule: forget_all.induct) (auto split: option.splits if_splits)

lemma cache_ok_forget: "cache_ok H K sc c \<Longrightarrow> cache_ok H K sc (forget_all ds c)"
  unfolding cache_ok_def using forget_all_lookup by blast

lemma cache_ok_record:
  assumes "cache_ok H K sc c"
    and "cached_ok H K sc dir \<lparr>dt_is_dir = is_dir, dt_fp = fp, dt_count = n, dt_subdirs = subs, dt_recheck = (is_dir \<and> recheck_at now fp)\<rparr>"
  shows "cache_ok H K sc (record_dir now dir fp is_dir n subs c)"
  using assms cache_ok_forget [OF assms(1)]
  by (auto simp: cache_ok_def record_dir_def Let_def split: option.splits if_splits)


lemma entry_same [simp]: "entry_subdirs (sc\<lparr>sc_entries := E\<rparr>) = entry_subdirs sc" "entry_found (sc\<lparr>sc_entries := E\<rparr>) = entry_found sc"
  by (intro ext; simp add: entry_subdirs_def entry_found_def cong: if_cong)+

lemma cache_ok_same [simp]: "cache_ok H K (sc\<lparr>sc_entries := E\<rparr>) c = cache_ok H K sc c"
  by (simp add: cache_ok_def cached_ok_def)

lemma read_folder_all:
  "read_folder sc dir es n subs fnd = (n', subs', fnd', False) \<Longrightarrow>
     subs' = subs @ concat (map (entry_subdirs sc dir) es) \<and> fnd' = fnd @ concat (map (entry_found sc dir) es)"
proof (induction es arbitrary: n subs fnd)
  case (Cons e es)
  then have "read_folder sc dir es (n + 1) (subs @ entry_subdirs sc dir e) (fnd @ entry_found sc dir e) = (n', subs', fnd', False)"
    by (simp split: if_splits)
  from Cons.IH [OF this] show ?case by simp
qed simp

lemma subdirs_short: "length (concat (map (entry_subdirs sc d) es)) \<le> length es"
proof (induction es)
  case (Cons e es)
  then show ?case using entry_subdirs_short [of sc d e] by simp
qed simp

text \<open>
  The contract of the file system: a directory that carries the fingerprint of an earlier reading, taken outside the
  window of its own time stamps, holds the same entries; what is no directory has none.
\<close>

definition stamped :: "history \<Rightarrow> (string \<Rightarrow> (string \<times> bool) list) \<Rightarrow> stats \<Rightarrow> bool" where
  "stamped H E st \<longleftrightarrow>
     (\<forall>(E', st') \<in> H. \<forall>d fp. st_lstat st' d = Some (fp, True) \<longrightarrow> st_lstat st d = Some (fp, True) \<longrightarrow>
        \<not> recheck_at (st_now st') fp \<longrightarrow> E' d = E d) \<and>
     (\<forall>d fp. st_lstat st d = Some (fp, False) \<longrightarrow> E d = [])"

lemma stamped_same:
  "stamped H E st \<Longrightarrow> (E', st') \<in> H \<Longrightarrow> st_lstat st' d = Some (fp, True) \<Longrightarrow> st_lstat st d = Some (fp, True) \<Longrightarrow>
     \<not> recheck_at (st_now st') fp \<Longrightarrow> E' d = E d"
  unfolding stamped_def by fastforce

definition read_right :: "history \<Rightarrow> string set \<Rightarrow> scan \<Rightarrow> string \<Rightarrow> nat \<Rightarrow> nat \<Rightarrow> string list \<Rightarrow> string list \<Rightarrow> cache \<Rightarrow> bool" where
  "read_right H K sc dir n n' subs new c1 \<longleftrightarrow>
     subs = concat (map (entry_subdirs sc dir) (sc_entries sc dir)) \<and>
     (\<forall>x \<in> set (sc_entries sc dir). set (entry_found sc dir x) \<subseteq> K \<union> set new) \<and>
     set new \<subseteq> (\<Union>x \<in> set (sc_entries sc dir). set (entry_found sc dir x)) \<and>
     cache_ok H (K \<union> set new) sc c1 \<and> length subs + (sc_limit sc - n') \<le> sc_limit sc - n"

lemma read_fresh_right:
  assumes "read_fresh st sc fpo c dir n = ((n', subs, new, False), c1)" "cache_ok H K sc c" "(sc_entries sc, st) \<in> H"
    and "\<And>fp is_dir. fpo = Some (fp, is_dir) \<Longrightarrow> st_lstat st dir = Some (fp, is_dir)"
  shows "read_right H K sc dir n n' subs new c1"
proof -
  have r: "read_folder sc dir (sc_entries sc dir) n [] [] = (n', subs, new, False)"
    using assms(1) by (auto simp: read_fresh_def split: prod.splits option.splits if_splits)
  note all = read_folder_all [OF r]
  have k: "cache_ok H (K \<union> set new) sc c" by (rule cache_ok_mono [OF assms(2)]) auto
  have found: "\<forall>x \<in> set (sc_entries sc dir). set (entry_found sc dir x) \<subseteq> K \<union> set new" using all by auto
  have "c1 = (case fpo of
            None \<Rightarrow> c
          | Some (fp, is_dir) \<Rightarrow>
              if is_dir \<and> st_read st dir = ReadOk then record_dir (st_now st) dir fp True (length (sc_entries sc dir)) subs c
              else if \<not> is_dir \<and> dir = sc_resolved sc \<and> st_read st dir = ReadNotDir then record_dir (st_now st) dir fp False 0 [] c
              else c)"
    using assms(1) r by (simp add: read_fresh_def)
  moreover have "cache_ok H (K \<union> set new) sc (record_dir (st_now st) dir fp True (length (sc_entries sc dir)) subs c)"
    if "fpo = Some (fp, True)" for fp
  proof (rule cache_ok_record [OF k])
    have "st_lstat st dir = Some (fp, True)" using assms(4) that by blast
    then show "cached_ok H (K \<union> set new) sc dir \<lparr>dt_is_dir = True, dt_fp = fp, dt_count = length (sc_entries sc dir), dt_subdirs = subs,
        dt_recheck = (True \<and> recheck_at (st_now st) fp)\<rparr>"
      using found assms(3) all subdirs_short [of sc dir "sc_entries sc dir"]
      by (auto simp: cached_ok_def intro!: bexI [of _ "(sc_entries sc, st)"])
  qed
  moreover have "cache_ok H (K \<union> set new) sc (record_dir (st_now st) dir fp False 0 [] c)" for fp
    by (rule cache_ok_record [OF k]) (simp add: cached_ok_def)
  ultimately have "cache_ok H (K \<union> set new) sc c1" using k by (auto split: option.splits if_splits)
  then show ?thesis using all found read_folder_bound [OF r] unfolding read_right_def by auto
qed

lemma read_cached_right:
  assumes "read_cached st sc c dir n = ((n', subs, new, False), c1)" "cache_ok H K sc c" "(sc_entries sc, st) \<in> H" "stamped H (sc_entries sc) st"
  shows "read_right H K sc dir n n' subs new c1"
proof (cases "st_lstat st dir")
  case None
  then have "read_fresh st sc None (forget_all [dir] c) dir n = ((n', subs, new, False), c1)" using assms(1) by (simp add: read_cached_def)
  then show ?thesis by (rule read_fresh_right [OF _ cache_ok_forget [OF assms(2)] assms(3)]) simp
next
  case (Some l)
  obtain fp is_dir where l: "st_lstat st dir = Some (fp, is_dir)" using Some by (cases l) auto
  show ?thesis
  proof (cases "unchanged c dir fp is_dir")
    case None
    then have "read_fresh st sc (Some (fp, is_dir)) c dir n = ((n', subs, new, False), c1)" using assms(1) l by (simp add: read_cached_def)
    then show ?thesis by (rule read_fresh_right [OF _ assms(2,3)]) (use l in simp)
  next
    case (Some e)
    then have e: "fmlookup c dir = Some e" "dt_is_dir e = is_dir" "\<not> dt_recheck e" "is_dir \<Longrightarrow> dt_fp e = fp"
      by (auto simp: unchanged_def split: option.splits if_splits)
    then have ok: "cached_ok H K sc dir e" using assms(2) by (simp add: cache_ok_def)
    show ?thesis
    proof (cases is_dir)
      case False
      then have "sc_entries sc dir = []" using assms(4) l by (simp add: stamped_def)
      then show ?thesis using assms(1,2) l Some e(2) False by (auto simp: read_cached_def read_right_def)
    next
      case True
      obtain E' st' where h: "(E', st') \<in> H" "st_lstat st' dir = Some (fp, True)" "\<not> recheck_at (st_now st') fp"
          "dt_subdirs e = concat (map (entry_subdirs sc dir) (E' dir))" "\<forall>x \<in> set (E' dir). set (entry_found sc dir x) \<subseteq> K"
        using ok e True unfolding cached_ok_def by auto
      then have same: "E' dir = sc_entries sc dir" using stamped_same [OF assms(4) h(1,2) _ h(3)] l True by simp
      have n: "n' = n + dt_count e" "subs = dt_subdirs e" "new = []" "c1 = c" "n + dt_count e \<le> sc_limit sc"
        using assms(1) l Some e(2) True by (auto simp: read_cached_def split: if_splits)
      have "length (dt_subdirs e) \<le> dt_count e" using ok by (simp add: cached_ok_def)
      then show ?thesis using n h same assms(2) by (simp add: read_right_def)
    qed
  qed
qed

text \<open>The pass over a root: what it visits is closed under going to sub-folders.\<close>

lemma walk_cached_right:
  assumes "walk_cached fuel st sc c stack n found = Some ((found', False), c')" "cache_ok H (K \<union> set found) sc c"
    and "(sc_entries sc, st) \<in> H" "stamped H (sc_entries sc) st"
  shows "cache_ok H (K \<union> set found') sc c' \<and> set found \<subseteq> set found' \<and> (set stack \<subseteq> scanned sc \<longrightarrow> set found' \<subseteq> set found \<union> to_hide sc) \<and>
    (\<exists>V. set stack \<subseteq> V \<and> (\<forall>v \<in> V. \<forall>x \<in> set (sc_entries sc v). set (entry_subdirs sc v x) \<subseteq> V \<and> set (entry_found sc v x) \<subseteq> K \<union> set found'))"
  using assms(1,2)
proof (induction fuel arbitrary: c stack n found)
  case (Suc fuel)
  show ?case
  proof (cases "stack = []")
    case True
    then show ?thesis using Suc.prems by (auto intro!: exI [of _ "{}"])
  next
    case ne: False
    let ?d = "last stack"
    obtain n1 subs new full c1 where r: "read_cached st sc c ?d n = ((n1, subs, new, full), c1)" by (metis prod.collapse)
    have nf: "\<not> full" and w: "walk_cached fuel st sc c1 (butlast stack @ subs) n1 (found @ new) = Some ((found', False), c')"
      using Suc.prems(1) ne r by (auto split: if_splits)
    have rr: "read_right H (K \<union> set found) sc ?d n n1 subs new c1"
      using read_cached_right [OF _ Suc.prems(2) assms(3,4)] r nf by simp
    then have c1: "cache_ok H (K \<union> set (found @ new)) sc c1" by (simp add: read_right_def Un_assoc)
    note ih = Suc.IH [OF w c1]
    obtain V where V: "set (butlast stack @ subs) \<subseteq> V"
      "\<forall>v \<in> V. \<forall>x \<in> set (sc_entries sc v). set (entry_subdirs sc v x) \<subseteq> V \<and> set (entry_found sc v x) \<subseteq> K \<union> set found'" using ih by blast
    have sub: "set subs = (\<Union>x \<in> set (sc_entries sc ?d). set (entry_subdirs sc ?d x))" using rr by (auto simp: read_right_def)
    have sound: "set found' \<subseteq> set found \<union> to_hide sc" if st: "set stack \<subseteq> scanned sc"
    proof -
      have d: "?d \<in> scanned sc" using st ne by auto
      then have "set subs \<subseteq> scanned sc" unfolding sub using scanned.Sub by blast
      moreover have "set (butlast stack) \<subseteq> scanned sc" using st in_set_butlastD by fast
      ultimately have "set found' \<subseteq> set (found @ new) \<union> to_hide sc" using ih by auto
      moreover have "set new \<subseteq> to_hide sc" using rr d unfolding read_right_def to_hide_def by blast
      ultimately show ?thesis by auto
    qed
    have "set stack = insert ?d (set (butlast stack))" by (rule butlast_last [OF ne])
    then have "set stack \<subseteq> insert ?d V" using V(1) by auto
    moreover have "set (entry_subdirs sc ?d x) \<subseteq> V \<and> set (entry_found sc ?d x) \<subseteq> K \<union> set found'"
      if x: "x \<in> set (sc_entries sc ?d)" for x
    proof -
      have "set (entry_subdirs sc ?d x) \<subseteq> set subs" unfolding sub using x by blast
      moreover have "set subs \<subseteq> V" using V(1) by simp
      moreover have "set (entry_found sc ?d x) \<subseteq> K \<union> set found \<union> set new" using rr x by (simp add: read_right_def)
      moreover have "set found \<union> set new \<subseteq> set found'" using ih by simp
      ultimately show ?thesis by blast
    qed
    ultimately have "\<exists>V. set stack \<subseteq> V \<and> (\<forall>v \<in> V. \<forall>x \<in> set (sc_entries sc v). set (entry_subdirs sc v x) \<subseteq> V \<and> set (entry_found sc v x) \<subseteq> K \<union> set found')"
      using V(2) by (intro exI [of _ "insert ?d V"]) blast
    then show ?thesis using ih sound by auto
  qed
qed simp

lemma walk_cached_total:
  "length stack + (sc_limit sc - n) < fuel \<Longrightarrow> cache_ok H K sc c \<Longrightarrow> (sc_entries sc, st) \<in> H \<Longrightarrow> stamped H (sc_entries sc) st \<Longrightarrow>
     \<exists>r. walk_cached fuel st sc c stack n found = Some r"
proof (induction fuel arbitrary: c stack n found K)
  case (Suc fuel)
  show ?case
  proof (cases "stack = []")
    case ne: False
    obtain n1 subs new full c1 where r: "read_cached st sc c (last stack) n = ((n1, subs, new, full), c1)" by (metis prod.collapse)
    show ?thesis
    proof (cases full)
      case False
      have rr: "read_right H K sc (last stack) n n1 subs new c1" using read_cached_right [OF _ Suc.prems(2-4)] r False by simp
      obtain k where k: "length stack = Suc k" using ne by (cases stack) simp_all
      have "length subs + (sc_limit sc - n1) \<le> sc_limit sc - n" using rr unfolding read_right_def by blast
      then have "length (butlast stack @ subs) + (sc_limit sc - n1) < fuel" using Suc.prems(1) k by simp
      moreover have "cache_ok H (K \<union> set new) sc c1" using rr by (simp add: read_right_def)
      ultimately show ?thesis using Suc.IH Suc.prems(3,4) ne r False by simp
    qed (use ne r in auto)
  qed auto
qed simp


lemma read_folder_sound:
  "read_folder sc dir es n subs fnd = (n', subs', fnd', full) \<Longrightarrow> set fnd' \<subseteq> set fnd \<union> (\<Union>x \<in> set es. set (entry_found sc dir x))"
proof (induction es arbitrary: n subs fnd)
  case (Cons e es)
  show ?case
  proof (cases "n + 1 > sc_limit sc")
    case False
    then have "read_folder sc dir es (n + 1) (subs @ entry_subdirs sc dir e) (fnd @ entry_found sc dir e) = (n', subs', fnd', full)"
      using Cons.prems by simp
    from Cons.IH [OF this] show ?thesis by auto
  qed (use Cons.prems in auto)
qed simp

lemma read_cached_sound:
  "read_cached st sc c dir n = ((n', subs, new, full), c1) \<Longrightarrow> set new \<subseteq> (\<Union>x \<in> set (sc_entries sc dir). set (entry_found sc dir x))"
  using read_folder_sound [of sc dir "sc_entries sc dir" n "[]" "[]" n' subs new full]
  by (auto simp: read_cached_def read_fresh_def split: option.splits prod.splits if_splits)

lemma walk_cached_sound:
  assumes "walk_cached fuel st sc c stack n found = Some ((found', hit), c')" "cache_ok H (K \<union> set found) sc c"
    and "(sc_entries sc, st) \<in> H" "stamped H (sc_entries sc) st" "set stack \<subseteq> scanned sc"
  shows "set found' \<subseteq> set found \<union> to_hide sc"
  using assms(1,2,5)
proof (induction fuel arbitrary: c stack n found)
  case (Suc fuel)
  show ?case
  proof (cases "stack = []")
    case ne: False
    obtain n1 subs new full c1 where r: "read_cached st sc c (last stack) n = ((n1, subs, new, full), c1)" by (metis prod.collapse)
    have d: "last stack \<in> scanned sc" using Suc.prems(3) ne by auto
    then have new: "set new \<subseteq> to_hide sc" using read_cached_sound [OF r] unfolding to_hide_def by blast
    show ?thesis
    proof (cases full)
      case True
      then show ?thesis using Suc.prems(1) ne r new by auto
    next
      case False
      have w: "walk_cached fuel st sc c1 (butlast stack @ subs) n1 (found @ new) = Some ((found', hit), c')"
        using Suc.prems(1) ne r False by simp
      have rr: "read_right H (K \<union> set found) sc (last stack) n n1 subs new c1"
        using read_cached_right [OF _ Suc.prems(2) assms(3,4)] r False by simp
      then have c1: "cache_ok H (K \<union> set (found @ new)) sc c1" by (simp add: read_right_def Un_assoc)
      have "set subs = (\<Union>x \<in> set (sc_entries sc (last stack)). set (entry_subdirs sc (last stack) x))" using rr by (auto simp: read_right_def)
      then have "set subs \<subseteq> scanned sc" using scanned.Sub [OF d] by blast
      moreover have "set (butlast stack) \<subseteq> scanned sc" using Suc.prems(3) in_set_butlastD by fast
      ultimately have "set found' \<subseteq> set (found @ new) \<union> to_hide sc" using Suc.IH [OF w c1] by simp
      then show ?thesis using new by auto
    qed
  qed (use Suc.prems in auto)
qed simp

text \<open>One root.\<close>

lemma root_cached_right:
  assumes "cache_ok H K sc c" "(sc_entries sc, st) \<in> H" "stamped H (sc_entries sc) st" "root_cached st sc c = ((found, hit), c')"
  shows "set found \<subseteq> to_hide sc" "\<not> hit \<Longrightarrow> to_hide sc \<subseteq> K \<union> set found \<and> cache_ok H (K \<union> set found) sc c'"
proof -
  have "\<exists>r. walk_cached (sc_limit sc + 2) st sc c [sc_resolved sc] 1 [] = Some r"
    by (rule walk_cached_total [OF _ assms(1-3)]) simp
  then have w: "walk_cached (sc_limit sc + 2) st sc c [sc_resolved sc] 1 [] = Some ((found, hit), c')"
    using assms(4) by (auto simp: root_cached_def)
  have k: "cache_ok H (K \<union> set []) sc c" using assms(1) by simp
  show "set found \<subseteq> to_hide sc" using walk_cached_sound [OF w k assms(2,3)] scanned.Root by simp
  assume "\<not> hit"
  then have w: "walk_cached (sc_limit sc + 2) st sc c [sc_resolved sc] 1 [] = Some ((found, False), c')" using w by simp
  note r = walk_cached_right [OF w k assms(2,3)]
  obtain V where V: "sc_resolved sc \<in> V"
    "\<forall>v \<in> V. \<forall>x \<in> set (sc_entries sc v). set (entry_subdirs sc v x) \<subseteq> V \<and> set (entry_found sc v x) \<subseteq> K \<union> set found" using r by auto
  have "d \<in> V" if "d \<in> scanned sc" for d using that by induction (use V in blast)+
  then have "to_hide sc \<subseteq> K \<union> set found" using V(2) unfolding to_hide_def by blast
  then show "to_hide sc \<subseteq> K \<union> set found \<and> cache_ok H (K \<union> set found) sc c'" using r by blast
qed

section \<open>The watch misses nothing\<close>

definition setup_globs :: "watch_setup \<Rightarrow> string list" where
  "setup_globs ws = deny_globs (ws_env ws) (ws_deny ws) (ws_names ws) (ws_override ws)"

definition overridden :: "watch_setup \<Rightarrow> string set" where
  "overridden ws = override_lookup (ws_env ws) (ws_override ws)"

definition world_scan :: "watch_setup \<Rightarrow> fs_env \<Rightarrow> string \<Rightarrow> scan" where
  "world_scan ws fe root = scan_of fe (ws_limit ws) (setup_globs ws) (walk_protected fe (ws_protected ws)) root"

definition explicit_denies :: "watch_setup \<Rightarrow> string set" where
  "explicit_denies ws = set (path_form_denies (ws_env ws) (ws_deny ws))"

lemma world_scan_entries [simp]: "sc_entries (world_scan ws fe root) = fe_entries fe"
  by (simp add: world_scan_def scan_of_def)

lemma no_globs_hide: "setup_globs ws = [] \<Longrightarrow> to_hide (world_scan ws fe root) = {}"
  by (rule no_globs_nothing_to_hide) (simp add: world_scan_def scan_of_def)

lemma resolve_cached_right:
  assumes "resolve_cached ws w roots caches = (Inr (out, nd), caches')" "overridden ws \<subseteq> K"
    and "\<forall>root \<in> set roots. cache_ok H K (world_scan ws (fst w) root) (caches root)" "(fe_entries (fst w), snd w) \<in> H"
      "stamped H (fe_entries (fst w)) (snd w)"
  shows "explicit_denies ws \<subseteq> set out" "set out \<subseteq> explicit_denies ws \<union> (\<Union>root \<in> set roots. to_hide (world_scan ws (fst w) root))"
    "\<And>root. root \<in> set roots \<Longrightarrow> root \<notin> set (nd_roots nd) \<Longrightarrow> to_hide (world_scan ws (fst w) root) \<subseteq> K \<union> set out \<and>
       cache_ok H (K \<union> set out) (world_scan ws (fst w) root) (caches' root)"
proof -
  have mono: "cache_ok H (K \<union> X) (world_scan ws (fst w) root) (caches root)" if "root \<in> set roots" for X root
    by (rule cache_ok_mono [OF assms(3) [rule_format, OF that]]) auto
  have "explicit_denies ws \<subseteq> set out \<and> set out \<subseteq> explicit_denies ws \<union> (\<Union>root \<in> set roots. to_hide (world_scan ws (fst w) root)) \<and>
    (\<forall>root \<in> set roots. root \<notin> set (nd_roots nd) \<longrightarrow> to_hide (world_scan ws (fst w) root) \<subseteq> K \<union> set out \<and>
       cache_ok H (K \<union> set out) (world_scan ws (fst w) root) (caches' root))"
  proof (cases "ws_deny ws = [] \<and> ws_names ws = []")
    case True
    then have "setup_globs ws = []" "explicit_denies ws = {}" by (simp_all add: setup_globs_def deny_globs_def explicit_denies_def path_form_denies_def List.map_filter_simps)
    then show ?thesis using assms(1,3) True no_globs_hide by (auto simp: resolve_cached_def)
  next
    case ne: False
    note r = assms(1) [unfolded resolve_cached_def Let_def if_not_P [OF ne], folded deny_globs_def setup_globs_def overridden_def]
    show ?thesis
    proof (cases "setup_globs ws = []")
      case True
      then show ?thesis using r mono [of _ "set out"] no_globs_hide by (auto simp: explicit_denies_def)
    next
      case g: False
      obtain matches incomplete c1 where w: "walk_globs_cached w (ws_limit ws) roots (setup_globs ws) (ws_protected ws) caches = ((matches, incomplete), c1)"
        by (metis prod.collapse)
      have o1: "out = path_form_denies (ws_env ws) (ws_deny ws) @ filter (\<lambda>m. m \<notin> overridden ws) matches" "nd_roots nd = incomplete" "caches' = c1"
        using r [unfolded if_not_P [OF g] w] by (auto split: option.splits if_splits)
      show ?thesis
      proof (cases "roots = []")
        case True
        then show ?thesis using w g o1 by (auto simp: walk_globs_cached_def explicit_denies_def)
      next
        case False
        let ?r = "\<lambda>root. root_cached (snd w) (world_scan ws (fst w) root) (caches root)"
        have m: "set matches = (\<Union>root \<in> set roots. set (fst (fst (?r root))))" "incomplete = filter (\<lambda>root. snd (fst (?r root))) roots"
          "c1 = (\<lambda>root. if root \<in> set roots then snd (?r root) else caches root)"
          using w g False by (auto simp: walk_globs_cached_def world_scan_def Let_def)
        have one: "set (fst (fst (?r root))) \<subseteq> to_hide (world_scan ws (fst w) root) \<and>
            (\<not> snd (fst (?r root)) \<longrightarrow> to_hide (world_scan ws (fst w) root) \<subseteq> K \<union> set (fst (fst (?r root))) \<and>
               cache_ok H (K \<union> set (fst (fst (?r root)))) (world_scan ws (fst w) root) (snd (?r root)))" if "root \<in> set roots" for root
          using root_cached_right [of H K "world_scan ws (fst w) root" "caches root" "snd w"] assms(3-5) that
          by (metis prod.collapse world_scan_entries)
        have sub: "K \<union> set (fst (fst (?r root))) \<subseteq> K \<union> set out" if "root \<in> set roots" for root
          using that assms(2) o1(1) m(1) by auto
        have "to_hide (world_scan ws (fst w) root) \<subseteq> K \<union> set out \<and> cache_ok H (K \<union> set out) (world_scan ws (fst w) root) (caches' root)"
          if "root \<in> set roots" "root \<notin> set (nd_roots nd)" for root
        proof -
          have nh: "\<not> snd (fst (?r root))" using that o1(2) m(2) by simp
          then show ?thesis using one [OF that(1)] sub [OF that(1)] cache_ok_mono [OF _ order_refl sub [OF that(1)]] that(1) o1(3) m(3) by auto
        qed
        moreover have "set out \<subseteq> explicit_denies ws \<union> (\<Union>root \<in> set roots. to_hide (world_scan ws (fst w) root))"
        proof -
          have "set matches \<subseteq> (\<Union>root \<in> set roots. to_hide (world_scan ws (fst w) root))" unfolding m(1) using one by (intro UN_mono) auto
          then show ?thesis using o1(1) unfolding explicit_denies_def by auto
        qed
        moreover have "explicit_denies ws \<subseteq> set out" using o1(1) by (simp add: explicit_denies_def)
        ultimately show ?thesis by blast
      qed
    qed
  qed
  then show "explicit_denies ws \<subseteq> set out" "set out \<subseteq> explicit_denies ws \<union> (\<Union>root \<in> set roots. to_hide (world_scan ws (fst w) root))"
    "\<And>root. root \<in> set roots \<Longrightarrow> root \<notin> set (nd_roots nd) \<Longrightarrow> to_hide (world_scan ws (fst w) root) \<subseteq> K \<union> set out \<and>
       cache_ok H (K \<union> set out) (world_scan ws (fst w) root) (caches' root)" by blast+
qed


lemma canonical_loop_same: "fe_resolve fe = fe_resolve fe' \<Longrightarrow> canonical_loop fe dir tail = canonical_loop fe' dir tail"
proof (induction fe dir tail rule: canonical_loop.induct)
  case (1 fe dir tail)
  then show ?case by (subst canonical_loop.simps, subst (2) canonical_loop.simps) (auto split: option.split)
qed

lemma world_scan_same:
  assumes "fe_resolve fe = fe_resolve fe'"
  shows "world_scan ws fe root = (world_scan ws fe' root)\<lparr>sc_entries := fe_entries fe\<rparr>"
proof -
  have "path_forms fe = path_forms fe'"
    by (intro ext) (simp add: path_forms_def canonical_path_def assms canonical_loop_same [OF assms] cong: option.case_cong)
  then show ?thesis by (simp add: world_scan_def scan_of_def walk_protected_def assms)
qed

lemma cache_ok_world: "fe_resolve fe = fe_resolve fe' \<Longrightarrow> cache_ok H K (world_scan ws fe root) c = cache_ok H K (world_scan ws fe' root) c"
  using world_scan_same [of fe fe' ws root] by simp

text \<open>The alerts of a tick.\<close>

definition watch_state_ok :: "string set \<Rightarrow> string set \<Rightarrow> watcher \<Rightarrow> bool" where
  "watch_state_ok initial shown wa \<longleftrightarrow> set (wa_known wa) = initial \<union> set (wa_alerts wa) \<and> distinct (wa_alerts wa) \<and>
     initial \<inter> set (wa_alerts wa) = {} \<and> set (wa_alerts wa) \<subseteq> shown"

lemma alerts_fold:
  "watch_state_ok initial shown wa \<Longrightarrow> set ms - initial \<subseteq> shown \<Longrightarrow>
     watch_state_ok initial shown (fold alert ms wa) \<and> set (wa_known (fold alert ms wa)) = set (wa_known wa) \<union> set ms \<and>
     wa_roots (fold alert ms wa) = wa_roots wa \<and> wa_caches (fold alert ms wa) = wa_caches wa"
proof (induction ms arbitrary: wa)
  case (Cons m ms)
  have "watch_state_ok initial shown (alert m wa) \<and> set (wa_known (alert m wa)) = insert m (set (wa_known wa)) \<and>
      wa_roots (alert m wa) = wa_roots wa \<and> wa_caches (alert m wa) = wa_caches wa"
    using Cons.prems by (auto simp: alert_def watch_state_ok_def)
  then show ?case using Cons.IH [of "alert m wa"] Cons.prems(2) by auto
qed simp

definition watcher_ok :: "watch_setup \<Rightarrow> history \<Rightarrow> fs_env \<Rightarrow> watcher \<Rightarrow> bool" where
  "watcher_ok ws H fe wa \<longleftrightarrow> explicit_denies ws \<subseteq> set (wa_known wa) \<and>
     (\<forall>root \<in> set (wa_roots wa). cache_ok H (set (wa_known wa) \<union> overridden ws) (world_scan ws fe root) (wa_caches wa root))"

definition all_hidden :: "watch_setup \<Rightarrow> fs_env \<Rightarrow> watcher \<Rightarrow> bool" where
  "all_hidden ws fe wa \<longleftrightarrow> (\<forall>root \<in> set (wa_roots wa). to_hide (world_scan ws fe root) \<subseteq> set (wa_known wa) \<union> overridden ws)"

lemma current_right:
  assumes "watcher_ok ws H fe wa" "fe_resolve (fst w) = fe_resolve fe" "(fe_entries (fst w), snd w) \<in> H" "stamped H (fe_entries (fst w)) (snd w)"
    and "(if full then (resolve_deny_paths (ws_env ws) (fst w) (ws_darwin ws) (ws_limit ws) (ws_deny ws) (ws_names ws) (ws_override ws) (wa_roots wa) (ws_protected ws), wa_caches wa)
         else resolve_cached ws w (wa_roots wa) (wa_caches wa)) = (Inr (out, nd), caches)" "nd_roots nd = []"
  shows "set out \<subseteq> explicit_denies ws \<union> (\<Union>root \<in> set (wa_roots wa). to_hide (world_scan ws (fst w) root))"
    "\<And>root. root \<in> set (wa_roots wa) \<Longrightarrow> to_hide (world_scan ws (fst w) root) \<subseteq> set (wa_known wa) \<union> set out \<union> overridden ws \<and>
       cache_ok H (set (wa_known wa) \<union> set out \<union> overridden ws) (world_scan ws fe root) (caches root)"
proof -
  let ?K = "set (wa_known wa) \<union> overridden ws"
  have k: "\<forall>root \<in> set (wa_roots wa). cache_ok H ?K (world_scan ws fe root) (wa_caches wa root)" using assms(1) by (simp add: watcher_ok_def)
  have eq: "?K \<union> set out = set (wa_known wa) \<union> set out \<union> overridden ws" by blast
  have "set out \<subseteq> explicit_denies ws \<union> (\<Union>root \<in> set (wa_roots wa). to_hide (world_scan ws (fst w) root)) \<and>
    (\<forall>root \<in> set (wa_roots wa). to_hide (world_scan ws (fst w) root) \<subseteq> set (wa_known wa) \<union> set out \<union> overridden ws \<and>
       cache_ok H (set (wa_known wa) \<union> set out \<union> overridden ws) (world_scan ws fe root) (caches root))"
  proof (cases full)
    case True
    then have r: "resolve_deny_paths (ws_env ws) (fst w) (ws_darwin ws) (ws_limit ws) (ws_deny ws) (ws_names ws) (ws_override ws) (wa_roots wa) (ws_protected ws) = Inr (out, nd)"
      "caches = wa_caches wa" using assms(5) by simp_all
    have hid: "to_hide (world_scan ws (fst w) root) \<subseteq> set out \<union> overridden ws" if "root \<in> set (wa_roots wa)" for root
      using resolve_deny_roots [OF r(1) that refl] assms(6) by (auto simp: world_scan_def setup_globs_def overridden_def)
    have "set out \<subseteq> explicit_denies ws \<union> (\<Union>root \<in> set (wa_roots wa). to_hide (world_scan ws (fst w) root))"
    proof (cases "setup_globs ws = [] \<or> wa_roots wa = []")
      case True
      then show ?thesis
        using r(1) by (auto simp: resolve_deny_paths_def Let_def walk_glob_matches_def explicit_denies_def setup_globs_def deny_globs_def split: if_splits)
    next
      case False
      let ?sc = "world_scan ws (fst w)"
      have o: "out = path_form_denies (ws_env ws) (ws_deny ws) @
          filter (\<lambda>m. m \<notin> overridden ws) (fst (walk_glob_matches (fst w) (ws_limit ws) (wa_roots wa) (setup_globs ws) (ws_protected ws)))"
        "snd (walk_glob_matches (fst w) (ws_limit ws) (wa_roots wa) (setup_globs ws) (ws_protected ws)) = []"
        using resolve_deny_walked [OF r(1), of "setup_globs ws"] False assms(6) by (auto simp: setup_globs_def overridden_def)
      have f: "filter (\<lambda>root. snd (root_result (?sc root))) (wa_roots wa) = []"
        and m: "set (fst (walk_glob_matches (fst w) (ws_limit ws) (wa_roots wa) (setup_globs ws) (ws_protected ws))) = (\<Union>root \<in> set (wa_roots wa). set (fst (root_result (?sc root))))"
        using o(2) False by (simp_all add: walk_glob_matches_def world_scan_def Let_def)
      have "\<forall>root \<in> set (wa_roots wa). set (fst (root_result (?sc root))) = to_hide (?sc root)"
        using f root_result_complete by (auto simp: filter_empty_conv)
      then show ?thesis using o(1) m by (auto simp: explicit_denies_def)
    qed
    moreover have "cache_ok H (set (wa_known wa) \<union> set out \<union> overridden ws) (world_scan ws fe root) (caches root)" if "root \<in> set (wa_roots wa)" for root
      unfolding r(2) by (rule cache_ok_mono [OF k [rule_format, OF that] order_refl]) auto
    ultimately show ?thesis using hid by blast
  next
    case False
    then have r: "resolve_cached ws w (wa_roots wa) (wa_caches wa) = (Inr (out, nd), caches)" using assms(5) by simp
    have k': "\<forall>root \<in> set (wa_roots wa). cache_ok H ?K (world_scan ws (fst w) root) (wa_caches wa root)"
      using k cache_ok_world [OF assms(2)] by blast
    show ?thesis
      using resolve_cached_right [OF r _ k' assms(3,4)] assms(6) cache_ok_world [OF assms(2)] unfolding eq by simp
  qed
  then show "set out \<subseteq> explicit_denies ws \<union> (\<Union>root \<in> set (wa_roots wa). to_hide (world_scan ws (fst w) root))"
    "\<And>root. root \<in> set (wa_roots wa) \<Longrightarrow> to_hide (world_scan ws (fst w) root) \<subseteq> set (wa_known wa) \<union> set out \<union> overridden ws \<and>
       cache_ok H (set (wa_known wa) \<union> set out \<union> overridden ws) (world_scan ws fe root) (caches root)" by blast+
qed


text \<open>The worlds met in turn respect the contract.\<close>

fun orderly :: "history \<Rightarrow> world list \<Rightarrow> bool" where
  "orderly H [] \<longleftrightarrow> True"
| "orderly H (w # worlds) \<longleftrightarrow>
     stamped (insert (fe_entries (fst w), snd w) H) (fe_entries (fst w)) (snd w) \<and> orderly (insert (fe_entries (fst w), snd w) H) worlds"

lemma watcher_ok_mono: "watcher_ok ws H fe wa \<Longrightarrow> H \<subseteq> H' \<Longrightarrow> watcher_ok ws H' fe wa"
  unfolding watcher_ok_def using cache_ok_mono by blast

lemma watch_tick_right:
  assumes "watch_tick ws t w wa = Inr wa'" "watcher_ok ws H fe wa" "fe_resolve (fst w) = fe_resolve fe"
    and "stamped (insert (fe_entries (fst w), snd w) H) (fe_entries (fst w)) (snd w)" "watch_state_ok initial S wa" "explicit_denies ws \<subseteq> initial"
    and "\<And>root. root \<in> set (wa_roots wa) \<Longrightarrow> to_hide (world_scan ws (fst w) root) \<subseteq> S"
  shows "watcher_ok ws (insert (fe_entries (fst w), snd w) H) fe wa' \<and> watch_state_ok initial S wa' \<and> wa_roots wa' = wa_roots wa \<and> all_hidden ws (fst w) wa'"
proof -
  let ?H = "insert (fe_entries (fst w), snd w) H" and ?full = "full_pass_due (resolved_tuning t) (wa_ticks wa + 1)"
  obtain r caches where r: "(if ?full then (resolve_deny_paths (ws_env ws) (fst w) (ws_darwin ws) (ws_limit ws) (ws_deny ws) (ws_names ws) (ws_override ws) (wa_roots wa) (ws_protected ws), wa_caches wa)
         else resolve_cached ws w (wa_roots wa) (wa_caches wa)) = (r, caches)" by fastforce
  obtain out nd where o1: "r = Inr (out, nd)" "nd_roots nd = []" "wa' = fold alert out (wa\<lparr>wa_caches := caches, wa_ticks := wa_ticks wa + 1\<rparr>)"
    using assms(1) unfolding watch_tick_def Let_def r by (auto split: sum.splits if_splits)
  have k: "watcher_ok ws ?H fe wa" by (rule watcher_ok_mono [OF assms(2)]) auto
  note c = current_right [OF k assms(3) insertI1 assms(4) r [unfolded o1(1)] o1(2)]
  let ?wa = "wa\<lparr>wa_caches := caches, wa_ticks := wa_ticks wa + 1\<rparr>"
  have s: "watch_state_ok initial S ?wa" using assms(5) by (simp add: watch_state_ok_def)
  have "set out - initial \<subseteq> S" using c(1) assms(6,7) by blast
  note f = alerts_fold [OF s this, folded o1(3)]
  have known: "set (wa_known wa') = set (wa_known wa) \<union> set out" using f by simp
  have roots: "wa_roots wa' = wa_roots wa" "wa_caches wa' = caches" using f by simp_all
  have "watcher_ok ws ?H fe wa'"
    using k c(2) unfolding watcher_ok_def known roots by blast
  moreover have "all_hidden ws (fst w) wa'" using c(2) unfolding all_hidden_def known roots by blast
  ultimately show ?thesis using f roots by blast
qed

lemma watch_run_right:
  assumes "watch_run ws t worlds wa = Inr wa'" "watcher_ok ws H fe wa" "orderly H worlds" "\<forall>w \<in> set worlds. fe_resolve (fst w) = fe_resolve fe"
    and "watch_state_ok initial S wa" "explicit_denies ws \<subseteq> initial"
    and "\<And>w root. w \<in> set worlds \<Longrightarrow> root \<in> set (wa_roots wa) \<Longrightarrow> to_hide (world_scan ws (fst w) root) \<subseteq> S"
  shows "watch_state_ok initial S wa' \<and> wa_roots wa' = wa_roots wa \<and> (worlds \<noteq> [] \<longrightarrow> all_hidden ws (fst (last worlds)) wa')"
  using assms(1-5,7)
proof (induction worlds arbitrary: wa H)
  case (Cons w worlds)
  obtain wa1 where t: "watch_tick ws t w wa = Inr wa1" and run: "watch_run ws t worlds wa1 = Inr wa'" using Cons.prems(1) by (auto split: sum.splits)
  have w: "w \<in> set (w # worlds)" "fe_resolve (fst w) = fe_resolve fe" using Cons.prems(4) by simp_all
  have st: "stamped (insert (fe_entries (fst w), snd w) H) (fe_entries (fst w)) (snd w)" "orderly (insert (fe_entries (fst w), snd w) H) worlds"
    using Cons.prems(3) by simp_all
  have one: "watcher_ok ws (insert (fe_entries (fst w), snd w) H) fe wa1 \<and> watch_state_ok initial S wa1 \<and> wa_roots wa1 = wa_roots wa \<and> all_hidden ws (fst w) wa1"
    by (rule watch_tick_right [OF t Cons.prems(2) w(2) st(1) Cons.prems(5) assms(6) Cons.prems(6) [OF w(1)]])
  have "watch_state_ok initial S wa' \<and> wa_roots wa' = wa_roots wa1 \<and> (worlds \<noteq> [] \<longrightarrow> all_hidden ws (fst (last worlds)) wa')"
    by (rule Cons.IH [OF run _ st(2)]) (use one Cons.prems(4,6) in auto)
  then show ?case using one run by (cases worlds) auto
qed simp

lemma resolve_cached_names:
  "resolve_cached ws w roots caches = (Inr (out, nd), caches') \<Longrightarrow> root \<in> set (nd_roots nd) \<Longrightarrow>
     can_deny_by_name (ws_env ws) (fst w) (ws_darwin ws) root (setup_globs ws) (ws_override ws)"
  by (auto simp: resolve_cached_def Let_def setup_globs_def deny_globs_def find_None split: if_splits option.splits prod.splits)



text \<open>A session in which a \<open>.env\<close> file appears after the launch.\<close>

definition demo_fp :: "int \<Rightarrow> fingerprint" where
  "demo_fp s = \<lparr>fp_mtime_sec = s, fp_mtime_nsec = 0, fp_ctime_sec = s, fp_ctime_nsec = 0, fp_ino = 1, fp_dev = 1\<rparr>"

definition demo_stats :: "int \<Rightarrow> int \<Rightarrow> stats" where
  "demo_stats s now = \<lparr>st_lstat = (\<lambda>p. Some (demo_fp s, True)), st_read = (\<lambda>_. ReadOk), st_now = now\<rparr>"

definition env_entries :: "string \<Rightarrow> (string \<times> bool) list" where
  "env_entries d = (if d = ''/p'' then [(''.env'', False)] else [])"

definition world0 :: world where "world0 = (demo_launch_fs, demo_stats 5 100000000000)"
definition world1 :: world where "world1 = (demo_launch_fs\<lparr>fe_entries := env_entries\<rparr>, demo_stats 105 110000000000)"

definition demo_watch :: watch_setup where "demo_watch = watch_setup_for demo_host_env False 9 demo_launch"

lemma demo_globs_common: "setup_globs demo_watch = workdir_protected_common"
  by (simp add: setup_globs_def deny_globs_def demo_watch_def watch_setup_for_def demo_launch_simps override_lookup_def
    List.map_filter_simps platform_baseline_def linux_baseline_def)

lemma demo_scan_fields:
  "sc_resolved (world_scan demo_watch fe ''/p'') = (case fe_resolve fe ''/p'' of Some r \<Rightarrow> r | None \<Rightarrow> ''/p'')"
  "sc_limit (world_scan demo_watch fe ''/p'') = 9" "sc_root (world_scan demo_watch fe ''/p'') = ''/p''"
  "sc_globs (world_scan demo_watch fe ''/p'') = workdir_protected_common"
  using demo_globs_common by (simp_all add: world_scan_def scan_of_def demo_watch_def watch_setup_for_def)

lemma one_folder:
  "sc_resolved sc = r \<Longrightarrow> sc_limit sc = 9 \<Longrightarrow> read_cached st sc c r 1 = ((n, [], found, False), c1) \<Longrightarrow> root_cached st sc c = ((found, False), c1)"
  by (simp add: root_cached_def numeral_eq_Suc)

lemma demo_window: "\<not> recheck_at 100000000000 (demo_fp 5)"
  by (simp add: recheck_at_def within_window_def dir_timestamp_window_def demo_fp_def)

lemma demo_env_found:
  "entry_found (world_scan demo_watch (fst world1) ''/p'') ''/p'' (''.env'', False) = [''/p/.env'']"
  "entry_subdirs (world_scan demo_watch (fst world1) ''/p'') ''/p'' (''.env'', False) = []"
proof -
  have m: "matches_glob workdir_protected_common ''.env''" by code_simp
  have r: "sc_resolved (world_scan demo_watch (fst world1) ''/p'') = ''/p''" by (simp add: demo_scan_fields world1_def demo_launch_fs_simps)
  have j: "path_join [''/p'', ''.env''] = ''/p/.env''" by code_simp
  show "entry_found (world_scan demo_watch (fst world1) ''/p'') ''/p'' (''.env'', False) = [''/p/.env'']"
    by (simp add: entry_found_def demo_scan_fields(3,4) m r j trim_prefix_def has_prefix_def)
  show "entry_subdirs (world_scan demo_watch (fst world1) ''/p'') ''/p'' (''.env'', False) = []"
    by (simp add: entry_subdirs_def demo_scan_fields(4) m)
qed

definition demo_cache :: cache where
  "demo_cache = fmupd ''/p'' \<lparr>dt_is_dir = True, dt_fp = demo_fp 5, dt_count = 0, dt_subdirs = [], dt_recheck = False\<rparr> fmempty"

lemma demo_root0: "root_cached (snd world0) (world_scan demo_watch (fst world0) ''/p'') fmempty = (([], False), demo_cache)"
  by (rule one_folder [of _ "''/p''"])
    (simp_all add: demo_scan_fields world0_def demo_launch_fs_simps read_cached_def read_fresh_def unchanged_def record_dir_def demo_stats_def
      demo_window demo_cache_def)

lemma demo_root1: "\<exists>c. root_cached (snd world1) (world_scan demo_watch (fst world1) ''/p'') demo_cache = (([''/p/.env''], False), c)"
proof -
  have ne: "demo_fp 5 \<noteq> demo_fp 105" by (simp add: demo_fp_def)
  have e: "fe_entries (fst world1) ''/p'' = [(''.env'', False)]" by (simp add: world1_def env_entries_def)
  have l: "st_lstat (snd world1) ''/p'' = Some (demo_fp 105, True)" by (simp add: world1_def demo_stats_def)
  have u: "unchanged demo_cache ''/p'' (demo_fp 105) True = None" using ne by (simp add: unchanged_def demo_cache_def)
  obtain c where c: "read_cached (snd world1) (world_scan demo_watch (fst world1) ''/p'') demo_cache ''/p'' 1 = ((2, [], [''/p/.env''], False), c)"
    by (simp add: read_cached_def l u read_fresh_def e demo_env_found demo_scan_fields(2))
  have "root_cached (snd world1) (world_scan demo_watch (fst world1) ''/p'') demo_cache = (([''/p/.env''], False), c)"
    by (rule one_folder [OF _ _ c]) (simp_all add: demo_scan_fields world1_def demo_launch_fs_simps)
  then show ?thesis ..
qed

lemma demo_watch_resolve:
  assumes "root_cached (snd w) (world_scan demo_watch (fst w) ''/p'') (caches ''/p'') = ((found, False), c)"
  shows "\<exists>caches'. resolve_cached demo_watch w [''/p''] caches = (Inr (dedup_first found, \<lparr>nd_roots = [], nd_globs = []\<rparr>), caches') \<and> caches' ''/p'' = c"
proof -
  have o: "override_lookup (ws_env demo_watch) (ws_override demo_watch) = {}" "ws_deny demo_watch = []" "ws_names demo_watch \<noteq> []"
    by (simp_all add: demo_watch_def watch_setup_for_def demo_launch_simps override_lookup_def List.map_filter_simps platform_baseline_def linux_baseline_def
      workdir_protected_common_def)
  have "\<exists>caches'. walk_globs_cached w (ws_limit demo_watch) [''/p''] (ws_names demo_watch) (ws_protected demo_watch) caches = ((dedup_first found, []), caches') \<and>
      caches' ''/p'' = c"
    using assms o(3) demo_globs_common
    by (auto simp: walk_globs_cached_def world_scan_def setup_globs_def deny_globs_def o)
  then show ?thesis using o(3) by (auto simp: resolve_cached_def o path_form_denies_def List.map_filter_simps)
qed

lemma demo_watched: "\<exists>wa. watch_new_protected demo_host_env False 9 demo_launch ''/p'' \<lparr>tu_full_pass_ticks = 0, tu_concurrency = 0\<rparr> world0 [world1] = Inr wa"
proof -
  obtain c0 where c0: "resolve_cached demo_watch world0 [''/p''] (\<lambda>_. fmempty) = (Inr ([], \<lparr>nd_roots = [], nd_globs = []\<rparr>), c0)" "c0 ''/p'' = demo_cache"
    using demo_watch_resolve [OF demo_root0, of ] by (auto simp: dedup_first_def)
  obtain c where "root_cached (snd world1) (world_scan demo_watch (fst world1) ''/p'') (c0 ''/p'') = (([''/p/.env''], False), c)"
    using demo_root1 c0(2) by auto
  then obtain c1 where c1: "resolve_cached demo_watch world1 [''/p''] c0 = (Inr ([''/p/.env''], \<lparr>nd_roots = [], nd_globs = []\<rparr>), c1)"
    using demo_watch_resolve by (fastforce simp: dedup_first_def)
  have r: "deny_scan_roots demo_host_env (fst world0) demo_launch ''/p'' = Inr [''/p'']" using demo_scan_roots by (simp add: world0_def)
  show ?thesis
    using c0(1) c1 by (simp add: watch_new_protected_def r watch_init_def watch_tick_def demo_watch_def [symmetric] full_pass_due_def resolved_tuning_def)
qed

lemma demo_orderly: "orderly {} [world0, world1]"
  by (auto simp: stamped_def world0_def world1_def demo_stats_def demo_fp_def)


end
